(* ===== verification/Prelude.thy ===== *)
theory Prelude
  imports Main "HOL-Library.Word"
begin

unbundle bit_operations_syntax

text \<open>
  Shared vocabulary of the development: the C integer types of the sources as
  fixed-width words, the libc bit searches \<open>fls\<close> and \<open>ffsl\<close>, loops over C arrays
  and the collections of rewrite rules that carry the component proofs.
\<close>

subsection \<open>C integer types and error numbers\<close>

type_synonym u8 = "8 word"
type_synonym u16 = "16 word"
type_synonym u32 = "32 word"
type_synonym u64 = "64 word"

text \<open>
  C \<open>int\<close> return values are \<^typ>\<open>int\<close>; the values of \<open>errno.h\<close> the sources use.
\<close>

abbreviation (input) EINVAL :: int where "EINVAL \<equiv> 22"
abbreviation (input) EBUSY :: int where "EBUSY \<equiv> 16"

named_theorems word_bits \<open>bit-level characterisations of the C bit idioms\<close>
named_theorems frame \<open>what an operation leaves unchanged\<close>

subsection \<open>Single-bit masks\<close>

text \<open>\<open>1 << n\<close>\<close>

definition BIT :: "nat \<Rightarrow> 'a::len word" where
  "BIT n = push_bit n 1"

lemma bit_BIT [word_bits, simp]:
  "bit (BIT n :: 'a::len word) m \<longleftrightarrow> m = n \<and> n < LENGTH('a)"
  by (auto simp: BIT_def push_bit_eq_mult bit_exp_iff possible_bit_word)

lemma and_BIT_eq_0_iff [word_bits, simp]:
  "w AND BIT n = 0 \<longleftrightarrow> \<not> bit (w :: 'a::len word) n"
  by (simp add: BIT_def push_bit_eq_mult and_exp_eq_0_iff_not_bit)

lemma bit_or_BIT [word_bits]:
  "bit (w OR BIT n :: 'a::len word) m \<longleftrightarrow> bit w m \<or> (m = n \<and> n < LENGTH('a))"
  by (auto simp: bit_or_iff)

lemma bit_clear_BIT [word_bits]:
  "bit (w AND NOT (BIT n) :: 'a::len word) m \<longleftrightarrow> bit w m \<and> m \<noteq> n"
  by (auto simp: bit_and_iff bit_not_iff dest: bit_imp_le_length)

text \<open>A test of a word against a numeral mask that is a power of two.\<close>

lemma and_pow2_eq_0_iff: "w AND 2 ^ n = 0 \<longleftrightarrow> \<not> bit (w :: 'a::len word) n"
  by (simp add: and_exp_eq_0_iff_not_bit)

lemma BIT_eq_pow2: "BIT n = (2 ^ n :: 'a::len word)"
  by (simp add: BIT_def push_bit_eq_mult)

lemma and_BIT_eq_BIT_iff: "n < LENGTH('a) \<Longrightarrow> w AND BIT n = BIT n \<longleftrightarrow> bit (w :: 'a::len word) n"
  by (auto simp: bit_and_iff intro!: bit_word_eqI dest: arg_cong [where f = "\<lambda>x. bit x n"])

text \<open>Shifts as arithmetic.\<close>

lemma unat_drop_bit_div: "unat (drop_bit n w) = unat (w :: 'a::len word) div 2 ^ n"
  by (subst unat_drop_bit_eq) (rule drop_bit_eq_div)

text \<open>Widening conversions keep the value.\<close>

lemma unat_ucast_up:
  "LENGTH('a) \<le> LENGTH('b) \<Longrightarrow> unat (ucast (x :: 'a::len word) :: 'b::len word) = unat x"
  by (simp add: unsigned_ucast_eq take_bit_nat_eq_self
      less_le_trans [OF unsigned_less power_increasing])

lemma unat_ucast_widen [simp]:
  "unat (ucast (a :: u8) :: u16) = unat a" "unat (ucast (a :: u8) :: u32) = unat a"
  "unat (ucast (a :: u8) :: u64) = unat a" "unat (ucast (b :: u16) :: u32) = unat b"
  "unat (ucast (b :: u16) :: u64) = unat b" "unat (ucast (c :: u32) :: u64) = unat c"
  by (rule unat_ucast_up, simp)+

subsection \<open>libc bit searches\<close>

text \<open>
  \<open>ffsl(3)\<close> and \<open>fls(3)\<close>: one plus the index of the lowest, respectively the
  highest, bit that is set; 0 when there is none.
\<close>

definition set_bits_of :: "'a::len word \<Rightarrow> nat list" where
  "set_bits_of w = filter (bit w) [0..<LENGTH('a)]"

definition ffsl :: "'a::len word \<Rightarrow> nat" where
  "ffsl w = (case set_bits_of w of [] \<Rightarrow> 0 | i # _ \<Rightarrow> Suc i)"

definition fls :: "'a::len word \<Rightarrow> nat" where
  "fls w = (case rev (set_bits_of w) of [] \<Rightarrow> 0 | i # _ \<Rightarrow> Suc i)"

lemma set_set_bits_of [simp]: "set (set_bits_of w) = {i. bit w i}"
  by (auto simp: set_bits_of_def dest: bit_imp_le_length)

lemma sorted_set_bits_of [simp]: "sorted_wrt (<) (set_bits_of w)"
  by (simp add: set_bits_of_def sorted_wrt_filter)

lemma set_bits_of_Nil_iff [simp]: "set_bits_of w = [] \<longleftrightarrow> w = 0"
proof -
  have "set_bits_of w = [] \<longleftrightarrow> set (set_bits_of w) = {}" by (simp only: set_empty)
  also have "\<dots> \<longleftrightarrow> w = 0" by (auto simp: bit_eq_iff dest: bit_imp_le_length)
  finally show ?thesis .
qed

lemma fls_eq_0_iff [simp]: "fls w = 0 \<longleftrightarrow> w = 0"
  by (cases "rev (set_bits_of w)") (auto simp: fls_def simp flip: set_bits_of_Nil_iff)

lemma ffsl_eq_0_iff [simp]: "ffsl w = 0 \<longleftrightarrow> w = 0"
  by (cases "set_bits_of w") (auto simp: ffsl_def simp flip: set_bits_of_Nil_iff)

lemma fls_0 [simp]: "fls 0 = 0" and ffsl_0 [simp]: "ffsl 0 = 0"
  by simp_all

lemma fls_SucD:
  assumes "fls w = Suc k"
  shows "bit w k" and "\<And>j. k < j \<Longrightarrow> \<not> bit w j"
proof -
  from assms obtain xs where xs: "rev (set_bits_of w) = k # xs"
    by (auto simp: fls_def split: list.splits)
  have "set (rev (set_bits_of w)) = {i. bit w i}" by simp
  with xs show "bit w k" by auto
  have "sorted_wrt (>) (rev (set_bits_of w))" by (simp add: sorted_wrt_rev)
  with xs have le: "\<forall>j\<in>set (rev (set_bits_of w)). j \<le> k" by auto
  show "\<not> bit w j" if "k < j" for j
    using le that by fastforce
qed

lemma ffsl_SucD:
  assumes "ffsl w = Suc k"
  shows "bit w k" and "\<And>j. j < k \<Longrightarrow> \<not> bit w j"
proof -
  from assms obtain xs where xs: "set_bits_of w = k # xs"
    by (auto simp: ffsl_def split: list.splits)
  have s: "set (set_bits_of w) = {i. bit w i}" by simp
  with xs show "bit w k" by auto
  have "sorted_wrt (<) (set_bits_of w)" by simp
  with xs have le: "\<forall>j\<in>set (set_bits_of w). k \<le> j" by auto
  show "\<not> bit w j" if "j < k" for j
    using le that by fastforce
qed

subsection \<open>Folds over C loops\<close>

text \<open>Invariants of a \<open>for\<close> loop, written as a fold.\<close>

lemma fold_invariant_rule:
  assumes "P s" and "\<And>x s. x \<in> set xs \<Longrightarrow> P s \<Longrightarrow> P (f x s)"
  shows "P (fold f xs s)"
  using assms by (induction xs arbitrary: s) auto

lemma fold_field_const:
  assumes "\<And>x s. g (f x s) = g s"
  shows "g (fold f xs s) = g s"
  using assms by (induction xs arbitrary: s) auto

subsection \<open>Sorted lists\<close>

lemma sorted_wrt_less_unique:
  assumes "sorted_wrt (<) xs" and "sorted_wrt (<) ys" and "set xs = set (ys :: nat list)"
  shows "xs = ys"
  using assms by (metis sorted_distinct_set_unique strict_sorted_iff)

lemma sorted_wrt_less_le_last:
  "sorted_wrt (<) xs \<Longrightarrow> x \<in> set xs \<Longrightarrow> x \<le> last (xs :: nat list)"
  by (induction xs) (auto, metis last_in_set less_imp_le)

end
