(* ===== verification/Cpuset.thy ===== *)
theory Cpuset
  imports Prelude
begin

text \<open>
  The vcpu sets of \<open>include/xhyve/support/cpuset.h\<close> and \<open>bitset.h\<close>. With
  \<open>CPU_SETSIZE = 32\<close> a set is one \<open>long\<close>, so \<open>cpuset_t\<close> is a 64-bit word. The idiom
  \<open>while ((i = CPU_FFS(&m)) != 0) { i--; CPU_CLR(i, &m); ... }\<close> is the loop
  \<open>cpu_foreach\<close>; it visits every member once, in increasing order.
\<close>

type_synonym cpuset = u64

definition CPU_ISSET :: "nat \<Rightarrow> cpuset \<Rightarrow> bool" where
  "CPU_ISSET n p = (p AND BIT n \<noteq> 0)"

definition CPU_SET :: "nat \<Rightarrow> cpuset \<Rightarrow> cpuset" where
  "CPU_SET n p = p OR BIT n"

definition CPU_CLR :: "nat \<Rightarrow> cpuset \<Rightarrow> cpuset" where
  "CPU_CLR n p = p AND NOT (BIT n)"

definition CPU_SETOF :: "nat \<Rightarrow> cpuset" where
  "CPU_SETOF n = BIT n"

definition CPU_ZERO :: cpuset where
  "CPU_ZERO = 0"

definition CPU_CMP :: "cpuset \<Rightarrow> cpuset \<Rightarrow> bool" where
  "CPU_CMP p c = (c \<noteq> p)"

definition CPU_AND :: "cpuset \<Rightarrow> cpuset \<Rightarrow> cpuset" where
  "CPU_AND d s = d AND s"

definition CPU_FFS :: "cpuset \<Rightarrow> nat" where
  "CPU_FFS p = ffsl p"

lemmas cpuset_defs = CPU_ISSET_def CPU_SET_def CPU_CLR_def CPU_SETOF_def CPU_ZERO_def
  CPU_CMP_def CPU_AND_def CPU_FFS_def

subsection \<open>Membership laws\<close>

lemma CPU_ISSET_iff: "CPU_ISSET n p \<longleftrightarrow> bit p n"
  by (simp add: CPU_ISSET_def)

lemma CPU_ISSET_SET [simp]: "CPU_ISSET m (CPU_SET n p) \<longleftrightarrow> CPU_ISSET m p \<or> (m = n \<and> n < 64)"
  by (simp add: CPU_ISSET_iff CPU_SET_def bit_or_BIT)

lemma CPU_ISSET_CLR [simp]: "CPU_ISSET m (CPU_CLR n p) \<longleftrightarrow> CPU_ISSET m p \<and> m \<noteq> n"
  by (simp add: CPU_ISSET_iff CPU_CLR_def bit_clear_BIT)

lemma CPU_ISSET_SETOF [simp]: "CPU_ISSET m (CPU_SETOF n) \<longleftrightarrow> m = n \<and> n < 64"
  by (simp add: CPU_ISSET_iff CPU_SETOF_def)

lemma CPU_ISSET_ZERO [simp]: "\<not> CPU_ISSET m CPU_ZERO"
  by (simp add: CPU_ISSET_iff CPU_ZERO_def)

subsection \<open>The visiting loop\<close>

text \<open>The body answers the new loop state and whether it executes \<open>break\<close>.\<close>

function cpu_foreach :: "(nat \<Rightarrow> 's \<Rightarrow> 's \<times> bool) \<Rightarrow> cpuset \<Rightarrow> 's \<Rightarrow> 's" where
  "cpu_foreach body dmask s =
     (case CPU_FFS dmask of
        0 \<Rightarrow> s
      | Suc i \<Rightarrow> (let (s', brk) = body i s in if brk then s' else cpu_foreach body (CPU_CLR i dmask) s'))"
  by pat_completeness auto

lemma CPU_CLR_member_card:
  assumes "bit p i"
  shows "card {j. bit (CPU_CLR i p) j} < card {j. bit p j}"
proof (rule psubset_card_mono)
  show "finite {j. bit p j}"
    by (rule finite_subset [of _ "{..<64}"]) (auto dest: bit_imp_le_length)
  show "{j. bit (CPU_CLR i p) j} \<subset> {j. bit p j}"
    using assms by (auto simp: CPU_CLR_def bit_clear_BIT)
qed

termination cpu_foreach
  by (relation "measure (\<lambda>(body, dmask, s). card {j. bit dmask j})")
     (auto simp: CPU_FFS_def intro!: CPU_CLR_member_card dest: ffsl_SucD(1))

declare cpu_foreach.simps [simp del]

text \<open>The reference: the members as a list, visited until the body breaks.\<close>

definition cpus_of :: "cpuset \<Rightarrow> nat list" where
  "cpus_of p = set_bits_of p"

fun visit :: "(nat \<Rightarrow> 's \<Rightarrow> 's \<times> bool) \<Rightarrow> nat list \<Rightarrow> 's \<Rightarrow> 's" where
  "visit body [] s = s"
| "visit body (i # cs) s = (let (s', brk) = body i s in if brk then s' else visit body cs s')"

lemma set_bits_of_CPU_CLR:
  assumes "set_bits_of p = i # cs"
  shows "set_bits_of (CPU_CLR i p) = cs"
proof -
  have eq: "set_bits_of (CPU_CLR i p) = filter (\<lambda>j. j \<noteq> i) (set_bits_of p)"
    by (auto simp: set_bits_of_def CPU_CLR_def bit_clear_BIT intro!: filter_cong)
  have "sorted_wrt (<) (i # cs)" using sorted_set_bits_of [of p] assms by simp
  then have "\<forall>j\<in>set cs. j \<noteq> i" by auto
  with eq assms show ?thesis by (simp add: filter_id_conv)
qed

lemma cpu_foreach_visit: "cpu_foreach body p s = visit body (cpus_of p) s"
proof (induction body p s rule: cpu_foreach.induct)
  case (1 body p s)
  show ?case
  proof (cases "set_bits_of p")
    case Nil
    then have "cpus_of p = []" and "CPU_FFS p = 0"
      by (simp_all only: cpus_of_def CPU_FFS_def ffsl_def list.case)
    then show ?thesis by (simp add: cpu_foreach.simps [of body p s])
  next
    case (Cons i cs)
    obtain s' brk where b: "body i s = (s', brk)" by fastforce
    have f: "CPU_FFS p = Suc i" by (simp add: CPU_FFS_def ffsl_def Cons)
    have "\<not> brk \<Longrightarrow> cpu_foreach body (CPU_CLR i p) s' = visit body cs s'"
      using 1 [OF f b [symmetric]] by (simp add: cpus_of_def set_bits_of_CPU_CLR [OF Cons])
    then show ?thesis
      by (simp add: cpu_foreach.simps [of body p s] f b cpus_of_def Cons)
  qed
qed

lemma visit_no_break: "visit (\<lambda>i s. (f i s, False)) cs s = fold f cs s"
  by (induction cs arbitrary: s) auto

lemma set_cpus_of: "set (cpus_of p) = {i. CPU_ISSET i p}"
  by (simp add: cpus_of_def CPU_ISSET_iff)

lemma distinct_cpus_of [simp]: "distinct (cpus_of p)"
  by (simp add: cpus_of_def set_bits_of_def)

lemma cpus_of_less: "i \<in> set (cpus_of p) \<Longrightarrow> i < 64"
  by (auto simp: cpus_of_def dest: bit_imp_le_length)

lemma visit_invariant:
  assumes "P s" and "\<And>i s. i \<in> set cs \<Longrightarrow> P s \<Longrightarrow> P (fst (body i s))"
  shows "P (visit body cs s)"
  using assms
proof (induction cs arbitrary: s)
  case (Cons i cs)
  then have "P (fst (body i s))" by simp
  then show ?case using Cons by (cases "body i s") simp
qed simp

lemma cpu_foreach_invariant:
  assumes "P s" and "\<And>i s. CPU_ISSET i p \<Longrightarrow> P s \<Longrightarrow> P (fst (body i s))"
  shows "P (cpu_foreach body p s)"
  unfolding cpu_foreach_visit
  by (rule visit_invariant [of P, OF assms(1)]) (auto simp: set_cpus_of intro: assms(2))

subsection \<open>Properties\<close>

text \<open>
  The loop \<open>while ((i = CPU_FFS(&set)) != 0) { CPU_CLR(i - 1, &set); ... }\<close> ends, and runs its body
  exactly once for each member of the set, in increasing order.
\<close>

theorem cpu_foreach_once_each:
  "cpu_foreach (\<lambda>i s. (f i s, False)) p s = fold f (sorted_list_of_set {i. CPU_ISSET i p}) s"
proof -
  have "sorted_wrt (<) (cpus_of p)" by (simp add: cpus_of_def)
  then have "sorted (cpus_of p)" by (rule sorted_wrt_mono_rel [rotated]) simp
  then have "cpus_of p = sorted_list_of_set (set (cpus_of p))"
    by (simp add: sorted_list_of_set.idem_if_sorted_distinct)
  then show ?thesis by (simp add: cpu_foreach_visit visit_no_break set_cpus_of)
qed

end
