(* ===== verification/Bintime.thy ===== *)
theory Bintime
  imports Prelude
begin

text \<open>
  The time arithmetic of \<open>include/xhyve/vmm/vmm_callout.h\<close> and the clock functions of
  \<open>src/vmm/vmm_callout.c\<close>. A \<open>struct bintime\<close> is a 64.64 fixed-point number of seconds;
  an \<open>sbintime_t\<close> a signed 32.32 one. The host clock \<open>mach_absolute_time()\<close> and the
  host's \<open>mach_timebase_info\<close> are outside the sources: the current tick count and the
  numerator and denominator are arguments.
\<close>

record bintime =
  bt_sec :: u64
  bt_frac :: u64

type_synonym sbintime = "64 word"

definition bttosbt :: "bintime \<Rightarrow> sbintime" where
  "bttosbt bt = push_bit 32 (bt_sec bt) + drop_bit 32 (bt_frac bt)"

definition FREQ2BT :: "u64 \<Rightarrow> bintime" where
  "FREQ2BT freq = \<lparr>bt_sec = 0, bt_frac = push_bit 1 (0x8000000000000000 div freq)\<rparr>"

definition BT2FREQ :: "bintime \<Rightarrow> u64" where
  "BT2FREQ bt = (0x8000000000000000 + drop_bit 2 (bt_frac bt)) div drop_bit 1 (bt_frac bt)"

definition bintime_mul :: "bintime \<Rightarrow> u32 \<Rightarrow> bintime" where
  "bintime_mul bt x =
     (let p1 = (bt_frac bt AND 0xffffffff) * ucast x;
          p2 = drop_bit 32 (bt_frac bt) * ucast x + drop_bit 32 p1
      in \<lparr>bt_sec = bt_sec bt * ucast x + drop_bit 32 p2,
          bt_frac = push_bit 32 p2 OR (p1 AND 0xffffffff)\<rparr>)"

definition bintime_add :: "bintime \<Rightarrow> bintime \<Rightarrow> bintime" where
  "bintime_add bt bt2 =
     (let u = bt_frac bt;
          frac = bt_frac bt + bt_frac bt2;
          sec = (if u > frac then bt_sec bt + 1 else bt_sec bt)
      in \<lparr>bt_sec = sec + bt_sec bt2, bt_frac = frac\<rparr>)"

definition bintime_sub :: "bintime \<Rightarrow> bintime \<Rightarrow> bintime" where
  "bintime_sub bt bt2 =
     (let u = bt_frac bt;
          frac = bt_frac bt - bt_frac bt2;
          sec = (if u < frac then bt_sec bt - 1 else bt_sec bt)
      in \<lparr>bt_sec = sec - bt_sec bt2, bt_frac = frac\<rparr>)"

text \<open>The macro \<open>bintime_cmp\<close> takes the comparison as an argument.\<close>

definition bintime_cmp :: "bintime \<Rightarrow> bintime \<Rightarrow> (u64 \<Rightarrow> u64 \<Rightarrow> bool) \<Rightarrow> bool" where
  "bintime_cmp a b cmp =
     (if bt_sec a = bt_sec b then cmp (bt_frac a) (bt_frac b) else cmp (bt_sec a) (bt_sec b))"

subsection \<open>The host clock\<close>

record timebase =
  tb_numer :: u64
  tb_denom :: u64

definition nanos_to_abs :: "timebase \<Rightarrow> u64 \<Rightarrow> u64" where
  "nanos_to_abs tb nanos = (nanos * tb_denom tb) div tb_numer tb"

definition abs_to_nanos :: "timebase \<Rightarrow> u64 \<Rightarrow> u64" where
  "abs_to_nanos tb a = (a * tb_numer tb) div tb_denom tb"

definition sbt2mat :: "timebase \<Rightarrow> sbintime \<Rightarrow> u64" where
  "sbt2mat tb sbt =
     (let s = drop_bit 32 sbt;
          ns = drop_bit 32 (1000000000 * ucast (ucast sbt :: u32))
      in nanos_to_abs tb (s * 1000000000 + ns))"

definition mat_to_ts :: "timebase \<Rightarrow> u64 \<Rightarrow> u64 \<times> u64" where
  "mat_to_ts tb mat = (let ns = abs_to_nanos tb mat in (ns div 1000000000, ns mod 1000000000))"

definition binuptime :: "timebase \<Rightarrow> u64 \<Rightarrow> bintime" where
  "binuptime tb mat =
     (let ns = abs_to_nanos tb mat
      in \<lparr>bt_sec = ns div 1000000000,
          bt_frac = (ns mod 1000000000) * (push_bit 63 1 div 500000000)\<rparr>)"

text \<open>\<open>tv_sec\<close> is a \<open>long\<close> and \<open>tv_usec\<close> an \<open>int\<close>, read from the low words.\<close>

definition getmicrotime :: "timebase \<Rightarrow> u64 \<Rightarrow> int \<times> int" where
  "getmicrotime tb mat =
     (let ns = abs_to_nanos tb mat; sns = ns div 1000000000
      in (sint sns, sint (ucast ((ns - sns) div 1000) :: u32)))"

definition sbinuptime :: "timebase \<Rightarrow> u64 \<Rightarrow> sbintime" where
  "sbinuptime tb mat = bttosbt (binuptime tb mat)"

subsection \<open>The arithmetic is 128-bit arithmetic\<close>

definition bt_val :: "bintime \<Rightarrow> nat" where
  "bt_val bt = unat (bt_sec bt) * 2 ^ 64 + unat (bt_frac bt)"

lemma unat_less_64: "unat (w :: u64) < 2 ^ 64"
  using unsigned_less [of w] by simp

lemma bt_val_less: "bt_val bt < 2 ^ 128"
  using unat_less_64 [of "bt_sec bt"] unat_less_64 [of "bt_frac bt"] by (simp add: bt_val_def)

lemma bt_val_cmp:
  assumes "x < 2 ^ 64" and "y < (2::nat) ^ 64"
  shows "a * 2 ^ 64 + x < b * 2 ^ 64 + y \<longleftrightarrow> (if a = b then x < y else a < b)"
  using assms by auto

lemma bintime_cmp_less: "bintime_cmp a b (<) \<longleftrightarrow> bt_val a < bt_val b"
  unfolding bintime_cmp_def bt_val_def
  by (subst bt_val_cmp) (simp_all add: unat_less_64 [simplified] word_less_nat_alt word_unat_eq_iff)

lemma bintime_cmp_greater: "bintime_cmp a b (>) \<longleftrightarrow> bt_val b < bt_val a"
  using bintime_cmp_less [of b a] by (auto simp: bintime_cmp_def)

text \<open>Two-digit arithmetic in base \<open>M\<close>: the carry and borrow of one digit.\<close>

lemma two_digit_mod:
  fixes M :: nat
  assumes "r < M"
  shows "(s mod M) * M + r = (s * M + r) mod (M * M)"
  using assms by (simp add: mod_mult2_eq mult.commute)

lemma two_digit_add:
  fixes M :: nat
  assumes "x < M" "y < M"
  defines "f \<equiv> (x + y) mod M"
  shows "((if x > f then A + 1 else A) + B) mod M * M + f = (A * M + x + (B * M + y)) mod (M * M)"
proof -
  have c: "x > f \<longleftrightarrow> M \<le> x + y" and f: "f = (if M \<le> x + y then x + y - M else x + y)"
    using assms by (auto simp: f_def mod_if)
  have "f < M" using assms by (simp add: f_def)
  then have "((if x > f then A + 1 else A) + B) mod M * M + f
      = (((if x > f then A + 1 else A) + B) * M + f) mod (M * M)"
    by (rule two_digit_mod)
  also have "((if x > f then A + 1 else A) + B) * M + f = A * M + x + (B * M + y)"
    using assms(1,2) by (cases "M \<le> x + y") (simp_all add: c, auto simp: f algebra_simps)
  finally show ?thesis .
qed

lemma bt_val_add: "bt_val (bintime_add a b) = (bt_val a + bt_val b) mod 2 ^ 128"
proof -
  let ?M = "2 ^ 64 :: nat"
  have "bt_val (bintime_add a b) =
      ((if unat (bt_frac a) > (unat (bt_frac a) + unat (bt_frac b)) mod ?M
        then unat (bt_sec a) + 1 else unat (bt_sec a)) + unat (bt_sec b)) mod ?M * ?M
       + (unat (bt_frac a) + unat (bt_frac b)) mod ?M"
    by (simp add: bt_val_def bintime_add_def Let_def unat_word_ariths word_less_nat_alt mod_simps)
  also have "\<dots> = (bt_val a + bt_val b) mod (?M * ?M)"
    unfolding bt_val_def by (rule two_digit_add) (rule unat_less_64)+
  also have "?M * ?M = 2 ^ 128" by (simp flip: power_add)
  finally show ?thesis .
qed

lemma bintime_add_sub: "bintime_add (bintime_sub a b) b = a"
  by (cases a) (auto simp: bintime_add_def bintime_sub_def Let_def)

lemma bintime_eq_iff: "a = b \<longleftrightarrow> bt_val a = bt_val (b :: bintime)"
proof
  assume eq: "bt_val a = bt_val b"
  have "unat (bt_sec a) = bt_val a div 2 ^ 64" "unat (bt_frac a) = bt_val a mod 2 ^ 64"
    "unat (bt_sec b) = bt_val b div 2 ^ 64" "unat (bt_frac b) = bt_val b mod 2 ^ 64"
    using unat_less_64 [of "bt_frac a"] unat_less_64 [of "bt_frac b"] by (simp_all add: bt_val_def)
  with eq have "bt_sec a = bt_sec b" "bt_frac a = bt_frac b" by (simp_all add: word_unat_eq_iff)
  then show "a = b" by simp
qed simp

lemma mod_unique_sub:
  fixes d :: nat
  assumes "(d + b) mod N = a" and "b \<le> a" "a < N" "d < N" "b < N"
  shows "d = a - b"
proof (cases "d + b < N")
  case True
  with assms show ?thesis by simp
next
  case False
  then have "(d + b) mod N = d + b - N"
    using assms by (simp add: le_mod_geq)
  with assms False show ?thesis by linarith
qed

text \<open>A subtraction that does not run below zero is exact.\<close>

lemma bt_val_sub:
  assumes "bt_val b \<le> bt_val a"
  shows "bt_val (bintime_sub a b) = bt_val a - bt_val b"
proof (rule mod_unique_sub)
  show "(bt_val (bintime_sub a b) + bt_val b) mod 2 ^ 128 = bt_val a"
    by (simp only: bt_val_add [symmetric] bintime_add_sub)
qed (use assms bt_val_less in simp_all)

lemma unat_and_mask32: "unat (w AND 0xffffffff :: u64) = unat w mod 2 ^ 32"
proof -
  have m: "(0xffffffff :: u64) = mask 32" by (simp add: mask_eq_exp_minus_1)
  show ?thesis
    unfolding m by (simp only: take_bit_eq_mask [symmetric] unsigned_take_bit_eq take_bit_eq_mod [where 'a = nat])
qed

lemma or_push_bit_low:
  "(push_bit 32 p OR (q AND 0xffffffff) :: u64) = push_bit 32 p + (q AND 0xffffffff)"
proof -
  have m: "(0xffffffff :: u64) = mask 32" by (simp add: mask_eq_exp_minus_1)
  show ?thesis
    unfolding m by (subst disjunctive_add) (auto simp: bit_simps)
qed

lemma unat_ucast_32_64: "unat (ucast (x :: u32) :: u64) = unat x"
proof -
  have "unat x < 2 ^ 64" using unsigned_less [of x] by (rule less_trans) simp
  then show ?thesis by (simp add: unsigned_ucast_eq take_bit_nat_eq_self)
qed

lemma unat_less_32: "unat (x :: u32) < 2 ^ 32"
  using unsigned_less [of x] by simp

text \<open>Multiplication by a 32-bit factor, digit by digit, in base \<open>K\<close> with \<open>M = K * K\<close>.\<close>

lemma two_digit_mul:
  fixes K f n S :: nat
  assumes f: "f < K * K" and n: "n < K"
  defines "p1 \<equiv> f mod K * n"
  defines "p2 \<equiv> f div K * n + p1 div K"
  shows "p1 < K * K" and "p2 < K * K" and "p2 mod K * K + p1 mod K < K * K"
    and "(S * n + p2 div K) mod (K * K) * (K * K) + (p2 mod K * K + p1 mod K)
         = ((S * (K * K) + f) * n) mod ((K * K) * (K * K))"
proof -
  have K: "0 < K" using n by simp
  have fn: "f * n = f div K * n * K + p1"
    unfolding p1_def by (subst (1) div_mult_mod_eq [of f K, symmetric]) (simp only: algebra_simps)
  then have p2: "p2 = f * n div K" and lo: "p1 mod K = f * n mod K"
    using K by (simp_all add: p2_def)
  show "p1 < K * K"
    unfolding p1_def using K n by (intro mult_strict_mono) auto
  have "f * n < K * K * K"
    using f n K by (intro mult_strict_mono) auto
  then show "p2 < K * K" unfolding p2 by (simp add: less_mult_imp_div_less)
  have hi: "p2 div K = f * n div (K * K)" by (simp add: p2 div_mult2_eq)
  have mid: "p2 mod K * K + p1 mod K = f * n mod (K * K)"
    by (simp add: p2 lo mod_mult2_eq mult.commute)
  have lt: "f * n mod (K * K) < K * K" using K by simp
  then show "p2 mod K * K + p1 mod K < K * K" by (simp only: mid)
  from lt have "(S * n + f * n div (K * K)) mod (K * K) * (K * K) + f * n mod (K * K)
      = ((S * n + f * n div (K * K)) * (K * K) + f * n mod (K * K)) mod ((K * K) * (K * K))"
    by (rule two_digit_mod)
  also have "(S * n + f * n div (K * K)) * (K * K) + f * n mod (K * K) = (S * (K * K) + f) * n"
    using div_mult_mod_eq [of "f * n" "K * K"] by (simp only: algebra_simps)
  finally show "(S * n + p2 div K) mod (K * K) * (K * K) + (p2 mod K * K + p1 mod K)
      = ((S * (K * K) + f) * n) mod ((K * K) * (K * K))"
    by (simp only: hi mid)
qed

lemma bt_val_mul: "bt_val (bintime_mul bt x) = (bt_val bt * unat x) mod 2 ^ 128"
proof -
  let ?K = "2 ^ 32 :: nat"
  define f n S where "f = unat (bt_frac bt)" and "n = unat x" and "S = unat (bt_sec bt)"
  have KK: "?K * ?K = 2 ^ 64" "(?K * ?K) * (?K * ?K) = 2 ^ 128" by (simp_all flip: power_add)
  have fK: "f < ?K * ?K" and nK: "n < ?K"
    unfolding f_def n_def KK by (rule unat_less_64, rule unat_less_32)
  note dig = two_digit_mul [OF fK nK]
  define p1 where "p1 = (bt_frac bt AND 0xffffffff) * (ucast x :: u64)"
  define p2 where "p2 = drop_bit 32 (bt_frac bt) * (ucast x :: u64) + drop_bit 32 p1"
  have p1: "unat p1 = f mod ?K * n"
    using dig(1) unfolding p1_def f_def n_def KK
    by (simp only: unat_word_ariths unat_and_mask32 unat_ucast_32_64 len_num0 len_bit0 mod_less)
       (simp add: unat_and_mask32 unat_ucast_32_64)
  have "unat (drop_bit 32 (bt_frac bt)) = f div ?K" "unat (drop_bit 32 p1) = unat p1 div ?K"
    by (simp_all only: unat_drop_bit_div f_def)
  then have p2: "unat p2 = f div ?K * n + f mod ?K * n div ?K"
    using dig(2) unfolding p2_def n_def KK p1 [unfolded n_def]
    by (simp add: unat_word_ariths unat_ucast_32_64 mod_simps)
  have d2: "unat (drop_bit 32 p2) = unat p2 div ?K"
    by (rule unat_drop_bit_div)
  have sec: "unat (bt_sec bt * ucast x + drop_bit 32 p2) = (S * n + unat p2 div ?K) mod (?K * ?K)"
    unfolding KK S_def n_def by (simp add: unat_word_ariths unat_ucast_32_64 d2 mod_simps)
  have ph: "unat (push_bit 32 p2) = unat p2 mod ?K * ?K"
    by (simp add: push_bit_eq_mult unat_word_ariths mult_mod_left)
  have "unat p2 mod ?K * ?K + unat p1 mod ?K < ?K * ?K"
    using dig(3) by (simp only: p1 p2)
  then have frac: "unat (push_bit 32 p2 + (p1 AND 0xffffffff)) = unat p2 mod ?K * ?K + unat p1 mod ?K"
    unfolding KK by (simp add: unat_word_ariths ph unat_and_mask32)
  show ?thesis
    using dig(4) [of S] unfolding KK
    by (simp add: bt_val_def bintime_mul_def Let_def or_push_bit_low sec frac KK p1 p2 f_def n_def S_def
        flip: p1_def p2_def)
qed

subsection \<open>Properties\<close>

text \<open>
  The arithmetic on \<open>struct bintime\<close> is exact on the 128-bit value of the pair: addition and
  multiplication by a 32-bit integer are carried out modulo \<open>2 ^ 128\<close>, subtraction is the inverse
  of addition, and the comparison macro compares the values.
\<close>

theorem bintime_exact:
  "bt_val (bintime_add a b) = (bt_val a + bt_val b) mod 2 ^ 128
   \<and> bintime_add (bintime_sub a b) b = a
   \<and> bt_val (bintime_mul a x) = (bt_val a * unat x) mod 2 ^ 128
   \<and> (bintime_cmp a b (<) \<longleftrightarrow> bt_val a < bt_val b)
   \<and> (bintime_cmp a b (>) \<longleftrightarrow> bt_val b < bt_val a)"
  by (simp only: bt_val_add bintime_add_sub bt_val_mul bintime_cmp_less bintime_cmp_greater simp_thms)

text \<open>
  \<open>getmicrotime\<close> subtracts the seconds, not their nanoseconds, from the nanosecond clock: three
  seconds after the epoch it answers \<open>tv_usec\<close> 2999999, which is no microsecond count.
\<close>

theorem getmicrotime_not_normalised:
  "getmicrotime \<lparr>tb_numer = 1, tb_denom = 1\<rparr> 3000000000 = (3, 2999999)"
  by code_simp

end
