(* ===== verification/Callout.thy ===== *)
theory Callout
  imports Bintime
begin

text \<open>
  The callout (timer) system of \<open>src/vmm/vmm_callout.c\<close>: a doubly linked queue of
  \<open>struct callout\<close> objects, ordered by expiry, served by one thread. The objects live in
  an explicit store, addressed by natural numbers, since the operations are pointer
  surgery on \<open>prev\<close> and \<open>next\<close>. The mutex makes each operation one step; the calls of a
  handler happen with the mutex released, so they are interleaved steps.
\<close>

subsection \<open>State\<close>

record callout =
  co_prev :: "nat option"
  co_next :: "nat option"
  co_timeout :: u64
  co_handler :: nat
  co_flags :: u32
  co_queued :: bool

abbreviation (input) C_ABSOLUTE :: u32 where "C_ABSOLUTE \<equiv> 0x0200"
abbreviation (input) CALLOUT_ACTIVE :: u32 where "CALLOUT_ACTIVE \<equiv> 0x0002"
abbreviation (input) CALLOUT_PENDING :: u32 where "CALLOUT_PENDING \<equiv> 0x0004"
abbreviation (input) CALLOUT_COMPLETED :: u32 where "CALLOUT_COMPLETED \<equiv> 0x0020"
abbreviation (input) CALLOUT_WAITING :: u32 where "CALLOUT_WAITING \<equiv> 0x0040"

definition callout_active :: "callout \<Rightarrow> bool" where
  "callout_active c = (co_flags c AND CALLOUT_ACTIVE \<noteq> 0)"

definition callout_pending :: "callout \<Rightarrow> bool" where
  "callout_pending c = (co_flags c AND CALLOUT_PENDING \<noteq> 0)"

definition callout_completed :: "callout \<Rightarrow> bool" where
  "callout_completed c = (co_flags c AND CALLOUT_COMPLETED \<noteq> 0)"

definition callout_deactivate :: "callout \<Rightarrow> callout" where
  "callout_deactivate c = c\<lparr>co_flags := co_flags c AND NOT CALLOUT_ACTIVE\<rparr>"

text \<open>
  \<open>callout_init\<close> clears the object (\<open>memset\<close>); without \<open>mpsafe\<close> it aborts.
\<close>

definition callout_zero :: callout where
  "callout_zero = \<lparr>co_prev = None, co_next = None, co_timeout = 0, co_handler = 0,
     co_flags = 0, co_queued = False\<rparr>"

definition callout_init :: "bool \<Rightarrow> callout option" where
  "callout_init mpsafe = (if \<not> mpsafe then None else Some callout_zero)"

text \<open>The globals \<open>callout_queue\<close> and \<open>work\<close>, and the store of objects.\<close>

record callout_sys =
  cs_store :: "nat \<Rightarrow> callout"
  cs_queue :: "nat option"
  cs_work :: bool

definition upd :: "nat \<Rightarrow> (callout \<Rightarrow> callout) \<Rightarrow> callout_sys \<Rightarrow> callout_sys" where
  "upd c f s = s\<lparr>cs_store := (cs_store s)(c := f (cs_store s c))\<rparr>"

definition callout_cmp :: "callout_sys \<Rightarrow> nat \<Rightarrow> nat \<Rightarrow> bool" where
  "callout_cmp s a b = (co_timeout (cs_store s a) < co_timeout (cs_store s b))"

subsection \<open>Queue surgery\<close>

text \<open>The \<open>while (node->next)\<close> loop of \<open>callout_insert\<close>; it may run forever on a cyclic queue.\<close>

partial_function (option) callout_insert_loop :: "nat \<Rightarrow> nat \<Rightarrow> callout_sys \<Rightarrow> callout_sys option" where
  "callout_insert_loop c node s =
     (case co_next (cs_store s node) of
        Some n \<Rightarrow>
          if callout_cmp s c n then
            Some (upd c (\<lambda>x. x\<lparr>co_queued := True\<rparr>)
                   (upd node (\<lambda>x. x\<lparr>co_next := Some c\<rparr>)
                     (upd n (\<lambda>x. x\<lparr>co_prev := Some c\<rparr>)
                       (upd c (\<lambda>x. x\<lparr>co_prev := Some node, co_next := Some n\<rparr>) s))))
          else callout_insert_loop c n s
      | None \<Rightarrow>
          Some (upd c (\<lambda>x. x\<lparr>co_queued := True\<rparr>)
                 (upd node (\<lambda>x. x\<lparr>co_next := Some c\<rparr>)
                   (upd c (\<lambda>x. x\<lparr>co_prev := Some node, co_next := None\<rparr>) s))))"

definition callout_insert :: "nat \<Rightarrow> callout_sys \<Rightarrow> callout_sys option" where
  "callout_insert c s =
     (case cs_queue s of
        None \<Rightarrow>
          Some (upd c (\<lambda>x. x\<lparr>co_prev := None, co_next := None, co_queued := True\<rparr>)
                 (s\<lparr>cs_queue := Some c\<rparr>))
      | Some node \<Rightarrow>
          if callout_cmp s c node then
            Some ((upd c (\<lambda>x. x\<lparr>co_prev := None, co_next := Some node, co_queued := True\<rparr>)
                    (upd node (\<lambda>x. x\<lparr>co_prev := Some c\<rparr>) s))\<lparr>cs_queue := Some c\<rparr>)
          else callout_insert_loop c node s)"

definition callout_remove :: "nat \<Rightarrow> callout_sys \<Rightarrow> callout_sys" where
  "callout_remove c s =
     (if \<not> co_queued (cs_store s c) then s
      else let
        s1 = (case co_prev (cs_store s c) of
                Some p \<Rightarrow> upd p (\<lambda>x. x\<lparr>co_next := co_next (cs_store s c)\<rparr>) s
              | None \<Rightarrow> s\<lparr>cs_queue := co_next (cs_store s c)\<rparr>);
        s2 = (case co_next (cs_store s1 c) of
                Some n \<Rightarrow> upd n (\<lambda>x. x\<lparr>co_prev := co_prev (cs_store s1 c)\<rparr>) s1
              | None \<Rightarrow> s1)
      in upd c (\<lambda>x. x\<lparr>co_prev := None, co_next := None, co_queued := False\<rparr>) s2)"

subsection \<open>Operations of clients\<close>

text \<open>
  \<open>callout_stop_safe_locked\<close>. With \<open>drain\<close> it waits, on a condition variable of the
  object, for the service thread to set \<open>CALLOUT_COMPLETED\<close>; the outcome of that wait is
  \<open>Blocks\<close> with the state the waiting thread leaves behind. \<open>Aborts\<close> is \<open>abort()\<close>.
\<close>

datatype stop_result = Stopped int callout_sys | Blocks callout_sys | Aborts

definition clear_callout_flags :: "callout \<Rightarrow> callout" where
  "clear_callout_flags x = x\<lparr>co_flags := co_flags x AND
     NOT (CALLOUT_ACTIVE OR CALLOUT_PENDING OR CALLOUT_COMPLETED OR CALLOUT_WAITING)\<rparr>"

definition callout_stop_safe_locked :: "bool \<Rightarrow> nat \<Rightarrow> bool \<Rightarrow> callout_sys \<Rightarrow> stop_result" where
  "callout_stop_safe_locked on_callout_thread c drain s =
     (let x = cs_store s c in
      if drain \<and> \<not> on_callout_thread \<and>
         (callout_pending x \<or> (callout_active x \<and> \<not> callout_completed x))
      then
        if co_flags x AND CALLOUT_WAITING \<noteq> 0 then Aborts
        else
          let s1 = (upd c (\<lambda>x. x\<lparr>co_flags := co_flags x OR CALLOUT_WAITING\<rparr>) s)\<lparr>cs_work := True\<rparr> in
          if \<not> callout_completed (cs_store s1 c) then Blocks s1
          else
            let s2 = upd c (\<lambda>x. x\<lparr>co_flags := co_flags x AND NOT CALLOUT_WAITING\<rparr>) s1
            in Stopped 1 (upd c clear_callout_flags (callout_remove c s2))
      else Stopped 0 (upd c clear_callout_flags (callout_remove c s)))"

definition callout_stop :: "nat \<Rightarrow> callout_sys \<Rightarrow> callout_sys" where
  "callout_stop c s =
     (case callout_stop_safe_locked False c False s of Stopped _ s' \<Rightarrow> s' | Blocks s' \<Rightarrow> s' | Aborts \<Rightarrow> s)"

text \<open>
  \<open>callout_reset_sbt\<close>: \<open>mat\<close> is the value of \<open>mach_absolute_time()\<close>, \<open>ftn\<close> stands for
  the handler and its argument.
\<close>

definition callout_reset_sbt ::
  "timebase \<Rightarrow> u64 \<Rightarrow> nat \<Rightarrow> sbintime \<Rightarrow> nat \<Rightarrow> u32 \<Rightarrow> callout_sys \<Rightarrow> callout_sys option" where
  "callout_reset_sbt tb mat c sbt ftn flags s =
     (let s1 = upd c (\<lambda>x. x\<lparr>co_timeout :=
                 (if flags \<noteq> C_ABSOLUTE then sbt2mat tb sbt + mat else sbt2mat tb sbt)\<rparr>) s;
          s2 = callout_stop c s1;
          s3 = upd c (\<lambda>x. x\<lparr>co_handler := ftn,
                 co_flags := co_flags x OR (CALLOUT_PENDING OR CALLOUT_ACTIVE)\<rparr>) s2
      in case callout_insert c s3 of
           None \<Rightarrow> None
         | Some s4 \<Rightarrow> Some (if cs_queue s4 = Some c then s4\<lparr>cs_work := True\<rparr> else s4))"

subsection \<open>The service thread\<close>

text \<open>
  \<open>callout_thread_func\<close>, split where it releases the mutex. The thread is at the top of its loop,
  asleep in \<open>pthread_cond_timedwait_relative_np\<close> on behalf of a callout until a moment of the
  host clock, or running a handler. \<open>callout_thread_round\<close> is a pass from the top (an empty queue keeps it
  there); \<open>None\<close> is the \<open>abort()\<close> taken when the head has neither flag. \<open>callout_wake\<close> is what follows a sleep:
  \<open>timed_out\<close> tells whether the host answered \<open>ETIMEDOUT\<close>, in which case the timeout is not looked at
  again. \<open>dispatch_end\<close> is what the thread does once the handler has returned.
\<close>

datatype callout_pc = AtTop | Asleep nat u64 | Running nat

definition callout_dispatch :: "nat \<Rightarrow> callout_sys \<Rightarrow> callout_sys \<times> callout_pc" where
  "callout_dispatch c s =
     (let s1 = s\<lparr>cs_work := False\<rparr>
      in if \<not> co_queued (cs_store s1 c) then (s1, AtTop)
         else (upd c (\<lambda>x. x\<lparr>co_flags := co_flags x AND NOT CALLOUT_PENDING\<rparr>) s1, Running c))"

definition callout_wait :: "u64 \<Rightarrow> nat \<Rightarrow> callout_sys \<Rightarrow> callout_sys \<times> callout_pc" where
  "callout_wait mat c s =
     (if cs_work s then (s\<lparr>cs_work := False\<rparr>, AtTop)
      else if mat \<ge> co_timeout (cs_store s c) then callout_dispatch c s
      else (s, Asleep c (co_timeout (cs_store s c))))"

definition callout_thread_round :: "u64 \<Rightarrow> callout_sys \<Rightarrow> (callout_sys \<times> callout_pc) option" where
  "callout_thread_round mat s =
     (case cs_queue s of
        None \<Rightarrow> Some (s, AtTop)
      | Some c \<Rightarrow>
          if co_flags (cs_store s c) AND (CALLOUT_ACTIVE OR CALLOUT_PENDING) = 0 then None
          else Some (callout_wait mat c s))"

definition callout_wake :: "bool \<Rightarrow> u64 \<Rightarrow> nat \<Rightarrow> callout_sys \<Rightarrow> callout_sys \<times> callout_pc" where
  "callout_wake timed_out mat c s = (if timed_out then callout_dispatch c s else callout_wait mat c s)"

definition dispatch_end :: "nat \<Rightarrow> callout_sys \<Rightarrow> callout_sys" where
  "dispatch_end c s =
     (let x = cs_store s c in
      if co_queued x then
        if co_flags x AND CALLOUT_PENDING = 0 \<or> co_flags x AND CALLOUT_WAITING \<noteq> 0
        then callout_remove c (upd c (\<lambda>x. x\<lparr>co_flags := co_flags x OR CALLOUT_COMPLETED\<rparr>) s)
        else s
      else s)"

definition callout_sys_init :: callout_sys where
  "callout_sys_init = \<lparr>cs_store = (\<lambda>_. callout_zero), cs_queue = None, cs_work = False\<rparr>"

lemma upd_simps [simp]:
  "cs_queue (upd c f s) = cs_queue s" "cs_work (upd c f s) = cs_work s"
  "cs_store (upd c f s) = (cs_store s)(c := f (cs_store s c))"
  by (simp_all add: upd_def)

subsection \<open>The queue as a list\<close>

text \<open>
  \<open>dls st p q xs r\<close>: the objects \<open>xs\<close> form a doubly linked segment that \<open>q\<close> points to,
  whose first element points back to \<open>p\<close> and whose last one points on to \<open>r\<close>.
\<close>

fun dls :: "(nat \<Rightarrow> callout) \<Rightarrow> nat option \<Rightarrow> nat option \<Rightarrow> nat list \<Rightarrow> nat option \<Rightarrow> bool" where
  "dls st p q [] r = (q = r)"
| "dls st p q (x # xs) r = (q = Some x \<and> co_prev (st x) = p \<and> dls st (Some x) (co_next (st x)) xs r)"

definition queue_is :: "callout_sys \<Rightarrow> nat list \<Rightarrow> bool" where
  "queue_is s xs = (dls (cs_store s) None (cs_queue s) xs None \<and> distinct xs \<and>
     (\<forall>c. co_queued (cs_store s c) \<longleftrightarrow> c \<in> set xs))"

abbreviation timeout_of :: "callout_sys \<Rightarrow> nat \<Rightarrow> u64" where
  "timeout_of s c \<equiv> co_timeout (cs_store s c)"

fun insert_by_timeout :: "(nat \<Rightarrow> u64) \<Rightarrow> nat \<Rightarrow> nat list \<Rightarrow> nat list" where
  "insert_by_timeout t c [] = [c]"
| "insert_by_timeout t c (x # xs) = (if t c < t x then c # x # xs else x # insert_by_timeout t c xs)"

lemma set_insert_by_timeout [simp]: "set (insert_by_timeout t c xs) = insert c (set xs)"
  by (induction xs) auto

lemma distinct_insert_by_timeout [simp]:
  "distinct (insert_by_timeout t c xs) \<longleftrightarrow> distinct xs \<and> c \<notin> set xs"
  by (induction xs) auto

lemma sorted_insert_by_timeout:
  "sorted (map t xs) \<Longrightarrow> sorted (map t (insert_by_timeout t c xs))"
  by (induction xs) (auto simp: less_imp_le)

lemma dls_cong:
  assumes "\<And>x. x \<in> set xs \<Longrightarrow> co_prev (st x) = co_prev (st' x) \<and> co_next (st x) = co_next (st' x)"
  shows "dls st p q xs r = dls st' p q xs r"
  using assms by (induction xs arbitrary: p q) auto

lemma dls_append:
  "dls st p q (xs @ ys) r \<longleftrightarrow>
     (\<exists>m. dls st p q xs m \<and> dls st (if xs = [] then p else Some (last xs)) m ys r)"
  by (induction xs arbitrary: p q) auto

text \<open>What insertion writes: links and the queued mark of \<open>c\<close>, nothing else.\<close>

definition links_only :: "nat set \<Rightarrow> callout_sys \<Rightarrow> callout_sys \<Rightarrow> bool" where
  "links_only N s s' = (cs_work s' = cs_work s \<and>
     (\<forall>x. co_timeout (cs_store s' x) = co_timeout (cs_store s x) \<and>
          co_flags (cs_store s' x) = co_flags (cs_store s x) \<and>
          co_handler (cs_store s' x) = co_handler (cs_store s x)) \<and>
     (\<forall>x. x \<notin> N \<longrightarrow> cs_store s' x = cs_store s x))"

lemma callout_insert_loop_correct:
  assumes "dls (cs_store s) p (Some node) (node # xs) None"
    and "distinct (node # xs)" "c \<notin> set (node # xs)"
  shows "\<exists>s'. callout_insert_loop c node s = Some s' \<and>
     dls (cs_store s') p (Some node) (node # insert_by_timeout (timeout_of s) c xs) None \<and>
     cs_queue s' = cs_queue s \<and> links_only (insert c (set (node # xs))) s s' \<and>
     (\<forall>x. co_queued (cs_store s' x) \<longleftrightarrow> x = c \<or> co_queued (cs_store s x))"
  using assms
proof (induction xs arbitrary: p node)
  case Nil
  then show ?case
    by (subst callout_insert_loop.simps) (auto simp: links_only_def)
next
  case (Cons n xs)
  show ?case
  proof (cases "callout_cmp s c n")
    case True
    then show ?thesis using Cons.prems
      by (subst callout_insert_loop.simps)
         (auto simp: links_only_def callout_cmp_def intro: dls_cong [THEN iffD1, rotated])
  next
    case False
    have pre: "dls (cs_store s) (Some node) (Some n) (n # xs) None" "distinct (n # xs)" "c \<notin> set (n # xs)"
      using Cons.prems by auto
    obtain s' where s': "callout_insert_loop c n s = Some s'"
      "dls (cs_store s') (Some node) (Some n) (n # insert_by_timeout (timeout_of s) c xs) None"
      "cs_queue s' = cs_queue s" "links_only (insert c (set (n # xs))) s s'"
      "\<forall>x. co_queued (cs_store s' x) \<longleftrightarrow> x = c \<or> co_queued (cs_store s x)"
      using Cons.IH [OF pre] by blast
    have nx: "co_next (cs_store s node) = Some n" "co_prev (cs_store s node) = p"
      using Cons.prems by auto
    have same: "cs_store s' node = cs_store s node"
      using s'(4) Cons.prems by (auto simp: links_only_def)
    have "callout_insert_loop c node s = Some s'"
      using nx False s'(1) by (subst callout_insert_loop.simps) simp
    moreover have "insert_by_timeout (timeout_of s) c (n # xs) = n # insert_by_timeout (timeout_of s) c xs"
      using False by (simp add: callout_cmp_def)
    ultimately show ?thesis
      using s' nx same by (auto simp: links_only_def)
  qed
qed

lemma callout_insert_correct:
  assumes q: "queue_is s xs" and c: "c \<notin> set xs"
  shows "\<exists>s'. callout_insert c s = Some s' \<and> queue_is s' (insert_by_timeout (timeout_of s) c xs) \<and>
     links_only (insert c (set xs)) s s'"
proof (cases xs)
  case Nil
  with q c show ?thesis
    by (auto simp: queue_is_def callout_insert_def links_only_def)
next
  case (Cons node ys)
  have d: "dls (cs_store s) None (Some node) (node # ys) None" "distinct (node # ys)"
    and cq: "cs_queue s = Some node" "c \<notin> set (node # ys)"
    and qd: "\<forall>x. co_queued (cs_store s x) \<longleftrightarrow> x \<in> set (node # ys)"
    using q c Cons by (auto simp: queue_is_def)
  show ?thesis
  proof (cases "callout_cmp s c node")
    case True
    with d cq qd show ?thesis
      by (auto simp: Cons queue_is_def callout_insert_def links_only_def callout_cmp_def
          intro: dls_cong [THEN iffD1, rotated])
  next
    case False
    obtain s' where "callout_insert_loop c node s = Some s'"
      "dls (cs_store s') None (Some node) (node # insert_by_timeout (timeout_of s) c ys) None"
      "cs_queue s' = cs_queue s" "links_only (insert c (set (node # ys))) s s'"
      "\<forall>x. co_queued (cs_store s' x) \<longleftrightarrow> x = c \<or> co_queued (cs_store s x)"
      using callout_insert_loop_correct [OF d cq(2)] by blast
    with False d cq qd show ?thesis
      by (auto simp: Cons queue_is_def callout_insert_def callout_cmp_def)
  qed
qed

lemma callout_remove_unqueued: "queue_is s xs \<Longrightarrow> c \<notin> set xs \<Longrightarrow> callout_remove c s = s"
  by (auto simp: queue_is_def callout_remove_def)

lemma callout_remove_links: "links_only UNIV s (callout_remove c s)"
  by (auto simp: links_only_def callout_remove_def Let_def split: option.splits)

lemma callout_remove_dls:
  assumes d: "dls (cs_store s) None (cs_queue s) (ys @ c # zs) None"
    and dist: "distinct (ys @ c # zs)" and qd: "co_queued (cs_store s c)"
  shows "dls (cs_store (callout_remove c s)) None (cs_queue (callout_remove c s)) (ys @ zs) None"
proof -
  let ?st = "cs_store s"
  have ys: "dls ?st None (cs_queue s) ys (Some c)"
    and prev: "co_prev (?st c) = (if ys = [] then None else Some (last ys))"
    and zs: "dls ?st (Some c) (co_next (?st c)) zs None"
    using d by (auto simp: dls_append)
  show ?thesis
  proof (cases ys rule: rev_cases)
    case Nil
    with ys prev zs dist qd show ?thesis
      by (cases zs) (auto simp: callout_remove_def intro: dls_cong [THEN iffD1, rotated])
  next
    case (snoc us l)
    with ys have us: "dls ?st None (cs_queue s) us (Some l)"
      and l: "co_prev (?st l) = (if us = [] then None else Some (last us))"
      by (auto simp: dls_append)
    show ?thesis
      using snoc us l prev zs dist qd
      by (cases zs) (auto simp: callout_remove_def dls_append intro: dls_cong [THEN iffD1, rotated])
  qed
qed

lemma callout_remove_queued:
  "co_queued (cs_store (callout_remove c s) x) \<longleftrightarrow> co_queued (cs_store s x) \<and> x \<noteq> c"
  by (auto simp: callout_remove_def Let_def split: option.splits)

lemma callout_remove_correct:
  assumes q: "queue_is s xs"
  shows "queue_is (callout_remove c s) (remove1 c xs)"
proof (cases "c \<in> set xs")
  case True
  then obtain ys zs where xs: "xs = ys @ c # zs" "c \<notin> set ys" by (meson split_list_first)
  from q xs have "dls (cs_store s) None (cs_queue s) (ys @ c # zs) None" "distinct (ys @ c # zs)"
    "co_queued (cs_store s c)"
    by (auto simp: queue_is_def)
  then have "dls (cs_store (callout_remove c s)) None (cs_queue (callout_remove c s)) (ys @ zs) None"
    by (rule callout_remove_dls)
  with q xs show ?thesis
    by (auto simp: queue_is_def callout_remove_queued remove1_append)
next
  case False
  with q show ?thesis by (simp add: callout_remove_unqueued remove1_idem)
qed

subsection \<open>Flags\<close>

lemma callout_flag_bits [word_bits]:
  "callout_active x \<longleftrightarrow> bit (co_flags x) 1"
  "callout_pending x \<longleftrightarrow> bit (co_flags x) 2"
  "callout_completed x \<longleftrightarrow> bit (co_flags x) 5"
  using and_pow2_eq_0_iff [of "co_flags x" 1] and_pow2_eq_0_iff [of "co_flags x" 2]
    and_pow2_eq_0_iff [of "co_flags x" 5]
  by (simp_all add: callout_active_def callout_pending_def callout_completed_def)

lemma head_flag_check:
  "co_flags x AND (CALLOUT_ACTIVE OR CALLOUT_PENDING) = 0 \<longleftrightarrow> \<not> callout_active x \<and> \<not> callout_pending x"
  by (simp only: callout_active_def callout_pending_def bit.conj_disj_distrib or_eq_0_iff) simp

lemma callout_stop_eq: "callout_stop c s = upd c clear_callout_flags (callout_remove c s)"
  by (simp add: callout_stop_def callout_stop_safe_locked_def)

lemma queue_is_upd:
  assumes "\<And>x. co_prev (f x) = co_prev x \<and> co_next (f x) = co_next x \<and> co_queued (f x) = co_queued x"
  shows "queue_is (upd c f s) xs \<longleftrightarrow> queue_is s xs"
  using assms dls_cong [of xs "cs_store (upd c f s)" "cs_store s"] by (auto simp: queue_is_def)

lemma queue_is_work [simp]: "queue_is (s\<lparr>cs_work := b\<rparr>) xs \<longleftrightarrow> queue_is s xs"
  by (simp add: queue_is_def)

lemma clear_callout_flags_simps [simp]:
  "co_prev (clear_callout_flags x) = co_prev x" "co_next (clear_callout_flags x) = co_next x"
  "co_queued (clear_callout_flags x) = co_queued x" "co_timeout (clear_callout_flags x) = co_timeout x"
  by (simp_all add: clear_callout_flags_def)

lemma callout_stop_correct:
  assumes "queue_is s xs"
  shows "queue_is (callout_stop c s) (remove1 c xs)"
    and "timeout_of (callout_stop c s) = timeout_of s"
    and "x \<noteq> c \<Longrightarrow> callout_pending (cs_store (callout_stop c s) x) = callout_pending (cs_store s x)"
  using callout_remove_correct [OF assms, of c] callout_remove_links [of s c]
  by (auto simp: callout_stop_eq queue_is_upd links_only_def callout_pending_def fun_eq_iff)

lemma sorted_map_upd_notin:
  "c \<notin> set xs \<Longrightarrow> (\<And>x. x \<noteq> c \<Longrightarrow> t' x = t x) \<Longrightarrow> sorted (map t xs) \<Longrightarrow> sorted (map t' xs)"
  by (metis (mono_tags, lifting) map_eq_conv)

text \<open>
  Re-arming a callout always returns, and leaves it queued exactly once, with its new
  expiry time, at its place in the ordered queue.
\<close>

lemma callout_reset_sbt_correct:
  assumes q: "queue_is s xs" and srt: "sorted (map (timeout_of s) xs)"
  shows "\<exists>s'. callout_reset_sbt tb mat c sbt ftn flags s = Some s' \<and>
     queue_is s' (insert_by_timeout (timeout_of s') c (remove1 c xs)) \<and>
     sorted (map (timeout_of s') (insert_by_timeout (timeout_of s') c (remove1 c xs))) \<and>
     timeout_of s' c = (if flags \<noteq> C_ABSOLUTE then sbt2mat tb sbt + mat else sbt2mat tb sbt) \<and>
     callout_pending (cs_store s' c) \<and> callout_active (cs_store s' c) \<and>
     (\<forall>x. x \<noteq> c \<longrightarrow> callout_pending (cs_store s' x) = callout_pending (cs_store s x)) \<and>
     (\<forall>x. x \<noteq> c \<longrightarrow> callout_active (cs_store s' x) = callout_active (cs_store s x))"
proof -
  let ?t = "if flags \<noteq> C_ABSOLUTE then sbt2mat tb sbt + mat else sbt2mat tb sbt"
  let ?ys = "remove1 c xs"
  define s1 where "s1 = upd c (\<lambda>x. x\<lparr>co_timeout := ?t\<rparr>) s"
  define s2 where "s2 = callout_stop c s1"
  define s3 where "s3 = upd c (\<lambda>x. x\<lparr>co_handler := ftn,
      co_flags := co_flags x OR (CALLOUT_PENDING OR CALLOUT_ACTIVE)\<rparr>) s2"
  have q1: "queue_is s1 xs" using q by (simp add: s1_def queue_is_upd)
  note stop = callout_stop_correct [OF q1, where c = c]
  have q3: "queue_is s3 ?ys" using stop(1) by (simp add: s3_def s2_def queue_is_upd)
  have cys: "c \<notin> set ?ys" using q by (simp add: queue_is_def)
  have t3: "timeout_of s3 x = (if x = c then ?t else timeout_of s x)" for x
    using stop(2) by (auto simp: s3_def s2_def s1_def fun_eq_iff)
  have p3: "callout_pending (cs_store s3 x) = (x = c \<or> callout_pending (cs_store s x))" for x
    using stop(3) [of x] by (auto simp: s3_def s2_def s1_def callout_flag_bits bit_or_iff)
  have a3: "callout_active (cs_store s3 c)"
    by (simp add: s3_def callout_flag_bits bit_or_iff)
  have o3: "callout_active (cs_store s3 x) = callout_active (cs_store s x)" if "x \<noteq> c" for x
    using that callout_remove_links [of s1 c] by (simp add: s3_def s2_def s1_def callout_stop_eq links_only_def callout_active_def)
  have "sorted (map (timeout_of s) ?ys)"
    using srt by (rule sorted_map_remove1)
  then have srt3: "sorted (map (timeout_of s3) ?ys)"
    by (rule sorted_map_upd_notin [OF cys, rotated]) (simp add: t3)
  obtain s4 where s4: "callout_insert c s3 = Some s4"
    "queue_is s4 (insert_by_timeout (timeout_of s3) c ?ys)" "links_only (insert c (set ?ys)) s3 s4"
    using callout_insert_correct [OF q3 cys] by blast
  define s' where "s' = (if cs_queue s4 = Some c then s4\<lparr>cs_work := True\<rparr> else s4)"
  have st: "cs_store s' = cs_store s4" by (simp add: s'_def)
  have t: "timeout_of s' = timeout_of s3"
    using s4(3) by (auto simp: links_only_def st fun_eq_iff)
  have fl: "co_flags (cs_store s' x) = co_flags (cs_store s3 x)" for x
    using s4(3) by (auto simp: links_only_def st)
  have "callout_reset_sbt tb mat c sbt ftn flags s = Some s'"
    using s4(1) unfolding callout_reset_sbt_def s1_def [symmetric] s2_def [symmetric] s3_def [symmetric] Let_def
    by (simp add: s'_def)
  moreover have "queue_is s' (insert_by_timeout (timeout_of s') c ?ys)"
    using s4(2) by (simp add: s'_def t [unfolded s'_def])
  ultimately show ?thesis
    using sorted_insert_by_timeout [OF srt3, of c] t3 [of c] p3 a3 o3 fl fun_cong [OF t, of c]
    by (auto simp: t callout_pending_def callout_active_def)
qed

subsection \<open>The system as a state machine\<close>

text \<open>
  A state is the callout system and the place of the service thread. Clients
  re-arm and stop callouts at any time, also from the handler; the handler deactivates its
  own callout; the service thread takes its steps. Nothing is assumed about when the host
  wakes a sleeping thread, or with which answer.
\<close>

type_synonym callout_state = "callout_sys \<times> callout_pc"

fun running :: "callout_pc \<Rightarrow> nat option" where
  "running (Running c) = Some c"
| "running _ = None"

inductive co_step :: "timebase \<Rightarrow> callout_state \<Rightarrow> callout_state \<Rightarrow> bool" for tb where
  reset: "callout_reset_sbt tb mat c sbt ftn flags s = Some s' \<Longrightarrow> co_step tb (s, pc) (s', pc)"
| stop: "co_step tb (s, pc) (callout_stop c s, pc)"
| drain: "callout_stop_safe_locked False c True s = Blocks s' \<Longrightarrow> co_step tb (s, pc) (s', pc)"
| deactivate: "co_step tb (s, Running c) (upd c callout_deactivate s, Running c)"
| round: "callout_thread_round mat s = Some (s', pc) \<Longrightarrow> co_step tb (s, AtTop) (s', pc)"
| wake: "callout_wake timed_out mat c s = (s', pc) \<Longrightarrow> co_step tb (s, Asleep c d) (s', pc)"
| finish: "co_step tb (s, Running c) (dispatch_end c s, AtTop)"

inductive_cases co_step_from_top: "co_step tb (s, AtTop) st'"

inductive co_reachable :: "timebase \<Rightarrow> callout_state \<Rightarrow> bool" for tb where
  init: "co_reachable tb (callout_sys_init, AtTop)"
| step: "co_reachable tb st \<Longrightarrow> co_step tb st st' \<Longrightarrow> co_reachable tb st'"

definition co_inv :: "callout_sys \<times> nat option \<Rightarrow> bool" where
  "co_inv st = (case st of (s, r) \<Rightarrow>
     \<exists>xs. queue_is s xs \<and> sorted (map (timeout_of s) xs) \<and>
          (\<forall>c\<in>set xs. callout_pending (cs_store s c) \<or> r = Some c))"

lemma co_invI:
  assumes "queue_is s xs" "sorted (map (timeout_of s) xs)"
    "\<And>c. c \<in> set xs \<Longrightarrow> callout_pending (cs_store s c) \<or> r = Some c"
  shows "co_inv (s, r)"
  using assms by (auto simp: co_inv_def)

lemma co_inv_init: "co_inv (callout_sys_init, r)"
  by (rule co_invI [of _ "[]"]) (simp_all add: callout_sys_init_def queue_is_def callout_zero_def)

lemma co_inv_upd:
  assumes "co_inv (s, r)"
    and "\<And>x. co_prev (f x) = co_prev x \<and> co_next (f x) = co_next x \<and> co_queued (f x) = co_queued x
            \<and> co_timeout (f x) = co_timeout x"
    and "\<And>x. callout_pending x \<Longrightarrow> callout_pending (f x) \<or> r' = Some c"
    and "r = None \<or> r' = r"
  shows "co_inv (upd c f s, r')"
proof -
  from assms(1) obtain xs where xs: "queue_is s xs" "sorted (map (timeout_of s) xs)"
    "\<forall>c\<in>set xs. callout_pending (cs_store s c) \<or> r = Some c"
    by (auto simp: co_inv_def)
  have "timeout_of (upd c f s) = timeout_of s" using assms(2) by (auto simp: fun_eq_iff)
  with xs assms show ?thesis
    by (intro co_invI [of _ xs]) (auto simp: queue_is_upd)
qed

lemma co_inv_work [simp]: "co_inv (s\<lparr>cs_work := b\<rparr>, r) = co_inv (s, r)"
  by (simp add: co_inv_def)

lemma co_inv_remove:
  assumes "co_inv (s, r)"
  shows "co_inv (callout_remove c s, r)" and "r = Some c \<Longrightarrow> co_inv (callout_remove c s, None)"
proof -
  from assms obtain xs where xs: "queue_is s xs" "sorted (map (timeout_of s) xs)"
    "\<forall>c\<in>set xs. callout_pending (cs_store s c) \<or> r = Some c"
    by (auto simp: co_inv_def)
  have same: "timeout_of (callout_remove c s) = timeout_of s"
    "callout_pending (cs_store (callout_remove c s) x) = callout_pending (cs_store s x)" for x
    using callout_remove_links [of s c] by (auto simp: links_only_def callout_pending_def fun_eq_iff)
  have d: "distinct xs" using xs(1) by (simp add: queue_is_def)
  note rm = callout_remove_correct [OF xs(1), of c]
  have srt: "sorted (map (timeout_of (callout_remove c s)) (remove1 c xs))"
    unfolding same by (rule sorted_map_remove1 [OF xs(2)])
  show "co_inv (callout_remove c s, r)"
    using rm srt by (rule co_invI) (use xs(3) same d in auto)
  show "co_inv (callout_remove c s, None)" if "r = Some c"
    using rm srt by (rule co_invI) (use xs(3) same d that in auto)
qed

lemma co_inv_dispatch:
  assumes "co_inv (s, None)"
  shows "co_inv (fst (callout_dispatch c s), running (snd (callout_dispatch c s)))"
  using assms by (auto simp: callout_dispatch_def Let_def intro!: co_inv_upd)

lemma co_inv_wait:
  assumes "co_inv (s, None)"
  shows "co_inv (fst (callout_wait mat c s), running (snd (callout_wait mat c s)))"
  using assms co_inv_dispatch [OF assms, of c] by (auto simp: callout_wait_def)

lemma co_inv_wake:
  assumes "co_inv (s, None)"
  shows "co_inv (fst (callout_wake t mat c s), running (snd (callout_wake t mat c s)))"
  using co_inv_wait [OF assms] co_inv_dispatch [OF assms] by (simp add: callout_wake_def)

lemma co_inv_round:
  assumes "co_inv (s, None)" and "callout_thread_round mat s = Some (s', pc)"
  shows "co_inv (s', running pc)"
  using assms co_inv_wait [OF assms(1), of mat]
  by (auto simp: callout_thread_round_def split: option.splits if_splits) (metis fst_conv snd_conv)

lemma co_inv_reset:
  assumes "co_inv (s, r)" and "callout_reset_sbt tb mat c sbt ftn flags s = Some s'"
  shows "co_inv (s', r)"
proof -
  from assms(1) obtain xs where xs: "queue_is s xs" "sorted (map (timeout_of s) xs)"
    "\<forall>c\<in>set xs. callout_pending (cs_store s c) \<or> r = Some c"
    by (auto simp: co_inv_def)
  from callout_reset_sbt_correct [OF xs(1,2), of tb mat c sbt ftn flags] assms(2) xs(3)
  show ?thesis by (auto intro!: co_invI dest: in_set_remove1 [THEN iffD1, rotated] notin_set_remove1)
qed

lemma co_inv_stop:
  assumes "co_inv (s, r)"
  shows "co_inv (callout_stop c s, r)"
proof -
  from assms obtain xs where xs: "queue_is s xs" "sorted (map (timeout_of s) xs)"
    "\<forall>c\<in>set xs. callout_pending (cs_store s c) \<or> r = Some c"
    by (auto simp: co_inv_def)
  note st = callout_stop_correct [OF xs(1), where c = c]
  have "sorted (map (timeout_of (callout_stop c s)) (remove1 c xs))"
    unfolding st(2) by (rule sorted_map_remove1 [OF xs(2)])
  with st(1) show ?thesis
    by (rule co_invI) (use xs(1,3) st(3) in \<open>auto simp: queue_is_def\<close>)
qed

lemma co_inv_deactivate: "co_inv (s, r) \<Longrightarrow> co_inv (upd c callout_deactivate s, r)"
  by (auto intro!: co_inv_upd simp: callout_deactivate_def callout_flag_bits bit_simps)

lemma co_inv_finish:
  assumes "co_inv (s, Some c)"
  shows "co_inv (dispatch_end c s, None)"
proof -
  have "co_inv (upd c (\<lambda>x. x\<lparr>co_flags := co_flags x OR CALLOUT_COMPLETED\<rparr>) s, Some c)"
    using assms by (rule co_inv_upd) (auto simp: callout_flag_bits bit_or_iff)
  then have "co_inv (callout_remove c (upd c (\<lambda>x. x\<lparr>co_flags := co_flags x OR CALLOUT_COMPLETED\<rparr>) s), None)"
    by (rule co_inv_remove(2)) simp
  moreover have "co_inv (s, None)" if "co_queued (cs_store s c) \<longrightarrow> callout_pending (cs_store s c)"
    using assms that by (auto simp: co_inv_def queue_is_def)
  ultimately show ?thesis
    by (auto simp: dispatch_end_def Let_def callout_pending_def)
qed

lemma co_step_inv: "co_step tb (s, pc) (s', pc') \<Longrightarrow> co_inv (s, running pc) \<Longrightarrow> co_inv (s', running pc')"
proof (induction "(s, pc)" "(s', pc')" rule: co_step.induct)
  case (drain c)
  then show ?case
    by (auto simp: callout_stop_safe_locked_def Let_def callout_flag_bits bit_or_iff
        split: if_splits intro!: co_inv_upd)
next
  case (wake timed_out mat c)
  then show ?case using co_inv_wake [of s timed_out mat c] by auto
qed (auto intro: co_inv_reset co_inv_stop co_inv_deactivate co_inv_round co_inv_finish)

lemma co_reachable_inv: "co_reachable tb (s, pc) \<Longrightarrow> co_inv (s, running pc)"
proof (induction "(s, pc)" arbitrary: s pc rule: co_reachable.induct)
  case init
  show ?case using co_inv_init by simp
next
  case (step st)
  then show ?case by (cases st) (auto intro: co_step_inv)
qed

lemma callout_round_no_abort:
  assumes "co_inv (s, None)"
  shows "callout_thread_round mat s \<noteq> None"
proof (cases "cs_queue s")
  case (Some c)
  from assms obtain xs where xs: "queue_is s xs" "\<forall>c\<in>set xs. callout_pending (cs_store s c)"
    by (auto simp: co_inv_def)
  with Some have "c \<in> set xs" by (cases xs) (auto simp: queue_is_def)
  with xs have "callout_pending (cs_store s c)" by blast
  then show ?thesis using Some by (simp add: callout_thread_round_def head_flag_check [simplified])
qed (simp add: callout_thread_round_def)

text \<open>The head of an ordered queue expires first.\<close>

lemma callout_head_earliest:
  assumes "co_inv (s, r)" "cs_queue s = Some c" "co_queued (cs_store s d)"
  shows "timeout_of s c \<le> timeout_of s d"
proof -
  from assms obtain xs where xs: "queue_is s xs" "sorted (map (timeout_of s) xs)"
    by (auto simp: co_inv_def)
  with assms(2,3) obtain ys where "xs = c # ys" "d \<in> set xs"
    by (cases xs) (auto simp: queue_is_def)
  with xs show ?thesis by auto
qed

subsection \<open>The contract of a timer service\<close>

text \<open>
  What the devices rely on. \<open>ok\<close> is the invariant of the service, \<open>armed\<close> tells which
  timers will fire; arming answers a new state, disarming always succeeds.
\<close>

locale timer_service =
  fixes arm :: "'t \<Rightarrow> nat \<Rightarrow> 's \<Rightarrow> 's option"
    and disarm :: "nat \<Rightarrow> 's \<Rightarrow> 's"
    and ok :: "'s \<Rightarrow> bool"
    and armed :: "'s \<Rightarrow> nat \<Rightarrow> bool"
  assumes arm_law: "ok s \<Longrightarrow> \<exists>s'. arm t c s = Some s' \<and> ok s' \<and> armed s' c
      \<and> (\<forall>x. x \<noteq> c \<longrightarrow> armed s' x = armed s x)"
    and disarm_law: "ok s \<Longrightarrow> ok (disarm c s) \<and> \<not> armed (disarm c s) c
      \<and> (\<forall>x. x \<noteq> c \<longrightarrow> armed (disarm c s) x = armed s x)"
begin

text \<open>A client's commands: arm a timer with a parameter, or disarm it (\<open>None\<close>).\<close>

fun run :: "(nat \<times> 't option) list \<Rightarrow> 's \<Rightarrow> 's option" where
  "run [] s = Some s"
| "run ((c, None) # cs) s = run cs (disarm c s)"
| "run ((c, Some t) # cs) s = Option.bind (arm t c s) (run cs)"

text \<open>The timers armed after the commands: the last command on each timer decides.\<close>

fun armed_after :: "(nat \<times> 't option) list \<Rightarrow> (nat \<Rightarrow> bool) \<Rightarrow> nat \<Rightarrow> bool" where
  "armed_after [] a = a"
| "armed_after ((c, t) # cs) a = armed_after cs (a(c := (t \<noteq> None)))"

lemma run_correct:
  "ok s \<Longrightarrow> \<exists>s'. run cs s = Some s' \<and> ok s' \<and> armed s' = armed_after cs (armed s)"
proof (induction cs s rule: run.induct)
  case (2 c cs s)
  have e: "armed (disarm c s) = (armed s)(c := False)" using disarm_law [OF 2(2), of c] by (auto simp: fun_eq_iff)
  have "ok (disarm c s)" using disarm_law [OF 2(2), of c] by blast
  then show ?case using 2(1) by (simp only: run.simps armed_after.simps e simp_thms)
next
  case (3 c t cs s)
  obtain s1 where s1: "arm t c s = Some s1" "ok s1" "armed s1 c" "\<forall>x. x \<noteq> c \<longrightarrow> armed s1 x = armed s x"
    using arm_law [OF 3(2)] by blast
  then have e: "armed s1 = (armed s)(c := True)" by (auto simp: fun_eq_iff)
  show ?case using 3(1) [of s1] s1 by (simp only: run.simps armed_after.simps e bind.bind_lunit option.distinct simp_thms)
qed simp

end

text \<open>The invariant, with \<open>r\<close> the callout whose handler the service thread is running.\<close>

definition callouts_ok :: "nat option \<Rightarrow> callout_sys \<Rightarrow> bool" where
  "callouts_ok r s \<longleftrightarrow> co_inv (s, r)"

text \<open>The parameters of one call of \<open>callout_reset_sbt\<close>: time base, clock, delay, handler, flags.\<close>

type_synonym arm_args = "timebase \<times> u64 \<times> sbintime \<times> nat \<times> u32"

definition callout_arm :: "arm_args \<Rightarrow> nat \<Rightarrow> callout_sys \<Rightarrow> callout_sys option" where
  "callout_arm = (\<lambda>(tb, mat, sbt, ftn, flags) c s. callout_reset_sbt tb mat c sbt ftn flags s)"

definition callout_armed :: "callout_sys \<Rightarrow> nat \<Rightarrow> bool" where
  "callout_armed s c = callout_pending (cs_store s c)"

lemma callout_stop_unarmed: "\<not> callout_pending (cs_store (callout_stop c s) c)"
  by (simp add: callout_stop_eq clear_callout_flags_def callout_flag_bits bit_and_iff bit_or_iff bit_not_iff)

interpretation callouts: timer_service callout_arm callout_stop "callouts_ok r" callout_armed for r
proof
  fix s :: callout_sys and t :: arm_args and c :: nat
  assume ok: "callouts_ok r s"
  then obtain xs where xs: "queue_is s xs" "sorted (map (timeout_of s) xs)"
    by (auto simp: callouts_ok_def co_inv_def)
  obtain tb mat sbt ftn flags where t: "t = (tb, mat, sbt, ftn, flags)" by (cases t) auto
  obtain s' where s': "callout_reset_sbt tb mat c sbt ftn flags s = Some s'"
    "callout_pending (cs_store s' c)"
    "\<forall>x. x \<noteq> c \<longrightarrow> callout_pending (cs_store s' x) = callout_pending (cs_store s x)"
    using callout_reset_sbt_correct [OF xs, of tb mat c sbt ftn flags] by blast
  have "callouts_ok r s'" using co_inv_reset [OF _ s'(1)] ok by (simp add: callouts_ok_def)
  then show "\<exists>s'. callout_arm t c s = Some s' \<and> callouts_ok r s' \<and> callout_armed s' c
      \<and> (\<forall>x. x \<noteq> c \<longrightarrow> callout_armed s' x = callout_armed s x)"
    using s' by (auto simp: callout_arm_def callout_armed_def t)
  have "callouts_ok r (callout_stop c s)"
    using co_inv_stop ok by (simp add: callouts_ok_def)
  then show "callouts_ok r (callout_stop c s) \<and> \<not> callout_armed (callout_stop c s) c
      \<and> (\<forall>x. x \<noteq> c \<longrightarrow> callout_armed (callout_stop c s) x = callout_armed s x)"
    using callout_stop_correct(3) [OF xs(1)] callout_stop_unarmed by (simp add: callout_armed_def)
qed

text \<open>The active mark is the clients' own: only arming sets it, only stopping and deactivation clear it.\<close>

lemma callout_active_reset:
  assumes "callouts_ok r s" and "callout_reset_sbt tb mat c sbt ftn flags s = Some s'"
  shows "callout_active (cs_store s' x) \<longleftrightarrow> x = c \<or> callout_active (cs_store s x)"
proof -
  obtain xs where "queue_is s xs" "sorted (map (timeout_of s) xs)" using assms(1) by (auto simp: callouts_ok_def co_inv_def)
  then show ?thesis using callout_reset_sbt_correct [of s xs tb mat c sbt ftn flags] assms(2) by fastforce
qed

lemma callout_active_stop: "callout_active (cs_store (callout_stop c s) x) \<longleftrightarrow> x \<noteq> c \<and> callout_active (cs_store s x)"
  using callout_remove_links [of s c]
  by (auto simp: callout_stop_eq clear_callout_flags_def callout_flag_bits links_only_def bit_and_iff bit_or_iff bit_not_iff)

lemma callout_active_deactivate:
  "callout_active (cs_store (upd c callout_deactivate s) x) \<longleftrightarrow> x \<noteq> c \<and> callout_active (cs_store s x)"
  by (simp add: callout_deactivate_def callout_flag_bits bit_simps)

lemma callout_active_thread:
  "callout_thread_round mat s = Some (s1, pc) \<Longrightarrow> callout_active (cs_store s1 x) = callout_active (cs_store s x)"
  "callout_wake timed_out mat c s = (s2, pc) \<Longrightarrow> callout_active (cs_store s2 x) = callout_active (cs_store s x)"
  "callout_active (cs_store (dispatch_end c s) x) = callout_active (cs_store s x)"
proof -
  have d: "callout_active (cs_store (fst (callout_dispatch c s)) x) = callout_active (cs_store s x)" for c s
    by (simp add: callout_dispatch_def Let_def callout_flag_bits bit_simps)
  have w: "callout_active (cs_store (fst (callout_wait mat c s)) x) = callout_active (cs_store s x)" for c s
    by (simp add: callout_wait_def d)
  show "callout_thread_round mat s = Some (s1, pc) \<Longrightarrow> callout_active (cs_store s1 x) = callout_active (cs_store s x)"
    using w by (auto simp: callout_thread_round_def split: option.splits if_splits) (metis fst_conv)+
  show "callout_wake timed_out mat c s = (s2, pc) \<Longrightarrow> callout_active (cs_store s2 x) = callout_active (cs_store s x)"
    using d w by (auto simp: callout_wake_def split: if_splits) (metis fst_conv)+
  show "callout_active (cs_store (dispatch_end c s) x) = callout_active (cs_store s x)"
    using callout_remove_links [of "upd c (\<lambda>x. x\<lparr>co_flags := co_flags x OR CALLOUT_COMPLETED\<rparr>) s" c]
    by (simp add: dispatch_end_def Let_def links_only_def callout_flag_bits bit_simps)
qed

lemma callouts_ok_deactivate:
  "callouts_ok (Some c) s \<Longrightarrow> callouts_ok (Some c) (upd c callout_deactivate s)"
  unfolding callouts_ok_def by (rule co_inv_deactivate)

subsection \<open>Properties\<close>

text \<open>
  C4. Whatever clients arm, stop, drain and deactivate, and however their calls interleave with the service
  thread, \<open>prev\<close> and \<open>next\<close> always form one doubly linked list without repetitions, it holds exactly
  the callouts marked \<open>queued\<close>, it is ordered by expiry, and every member is pending unless the
  service thread is running its handler.
\<close>

theorem callout_queue_well_formed:
  assumes "co_reachable tb (s, pc)"
  shows "\<exists>xs. dls (cs_store s) None (cs_queue s) xs None \<and> distinct xs
     \<and> (\<forall>c. co_queued (cs_store s c) \<longleftrightarrow> c \<in> set xs) \<and> sorted (map (timeout_of s) xs)
     \<and> (\<forall>c\<in>set xs. callout_pending (cs_store s c) \<or> pc = Running c)"
  using co_reachable_inv [OF assms] by (cases pc) (auto simp: co_inv_def queue_is_def)

theorem callout_queue_well_formed_witness:
  "\<exists>s xs. callout_reset_sbt \<lparr>tb_numer = 1, tb_denom = 1\<rparr> 5 7 0 1 0 callout_sys_init = Some s
     \<and> dls (cs_store s) None (cs_queue s) xs None \<and> (\<forall>c. co_queued (cs_store s c) \<longleftrightarrow> c \<in> set xs)"
proof -
  let ?tb = "\<lparr>tb_numer = 1, tb_denom = 1\<rparr> :: timebase"
  obtain s where s: "callout_reset_sbt ?tb 5 7 0 1 0 callout_sys_init = Some s"
    using callout_reset_sbt_correct [of callout_sys_init "[]" ?tb 5 7 0 1 0]
    by (auto simp: callout_sys_init_def queue_is_def callout_zero_def)
  then have "co_reachable ?tb (s, AtTop)" by (blast intro: co_reachable.intros co_step.reset)
  then show ?thesis using s callout_queue_well_formed by blast
qed

text \<open>
  C19. Arming a callout refines insertion into a list ordered by expiry: the callout leaves its old place, and
  re-enters behind every callout that expires no later. The scan of the queue ends, the callout becomes
  pending and active, and no other callout changes its pending mark.
\<close>

theorem callout_reset_refines_insertion:
  assumes "queue_is s xs" and "sorted (map (timeout_of s) xs)"
  shows "\<exists>s'. callout_reset_sbt tb mat c sbt ftn flags s = Some s'
     \<and> queue_is s' (insert_by_timeout (timeout_of s') c (remove1 c xs))
     \<and> sorted (map (timeout_of s') (insert_by_timeout (timeout_of s') c (remove1 c xs)))
     \<and> timeout_of s' c = (if flags \<noteq> C_ABSOLUTE then sbt2mat tb sbt + mat else sbt2mat tb sbt)
     \<and> callout_pending (cs_store s' c) \<and> callout_active (cs_store s' c)
     \<and> (\<forall>x. x \<noteq> c \<longrightarrow> callout_pending (cs_store s' x) = callout_pending (cs_store s x))"
  using callout_reset_sbt_correct [OF assms, of tb mat c sbt ftn flags] by blast

theorem callout_reset_refines_insertion_witness:
  "\<exists>s'. callout_reset_sbt \<lparr>tb_numer = 1, tb_denom = 1\<rparr> 5 7 0 1 0 callout_sys_init = Some s'
     \<and> queue_is s' [7] \<and> timeout_of s' 7 = sbt2mat \<lparr>tb_numer = 1, tb_denom = 1\<rparr> 0 + 5"
proof -
  have q: "queue_is callout_sys_init []" by (simp add: callout_sys_init_def queue_is_def callout_zero_def)
  show ?thesis
    using callout_reset_refines_insertion [OF q, of "\<lparr>tb_numer = 1, tb_denom = 1\<rparr>" 5 7 0 1 0] by auto
qed



text \<open>
  Any sequence of arm and stop commands of the devices goes through, and afterwards a callout is pending
  exactly when the last command on it armed it, or there was none and it was pending before.
\<close>

theorem callout_last_command_wins:
  assumes "co_inv (s, r)"
  shows "\<exists>s'. callouts.run cs s = Some s' \<and> co_inv (s', r)
     \<and> (\<lambda>c. callout_pending (cs_store s' c)) = callouts.armed_after cs (\<lambda>c. callout_pending (cs_store s c))"
  using callouts.run_correct [of r s cs] assms
  by (simp add: callouts_ok_def callout_armed_def [abs_def] fun_eq_iff)

theorem callout_last_command_wins_witness:
  "\<exists>s'. callouts.run [(3, Some (\<lparr>tb_numer = 1, tb_denom = 1\<rparr>, 5, 0, 1, 0)), (4, None)] callout_sys_init = Some s'
     \<and> callout_pending (cs_store s' 3) \<and> \<not> callout_pending (cs_store s' 4)"
proof -
  let ?cs = "[(3, Some (\<lparr>tb_numer = 1, tb_denom = 1\<rparr>, 5, 0, 1, 0)), (4, None)] :: (nat \<times> arm_args option) list"
  obtain s' where "callouts.run ?cs callout_sys_init = Some s'"
    and e: "(\<lambda>c. callout_pending (cs_store s' c))
       = callouts.armed_after ?cs (\<lambda>c. callout_pending (cs_store callout_sys_init c))"
    using callout_last_command_wins [OF co_inv_init, of ?cs] by blast
  then show ?thesis using fun_cong [OF e, of 3] fun_cong [OF e, of 4] by auto
qed

text \<open>
  A callout re-armed to a later moment can still fire at the old one. The thread sleeps on behalf of callout 1 until
  time 10 while callout 2 expires at 20; at time 5 a client re-arms callout 1 for time 100. It is no
  longer the head, so the thread is not woken, and when its sleep times out at 10 it dispatches
  callout 1 without looking at the new timeout.
\<close>

theorem rearmed_callout_fires_early:
  "\<exists>s1 s2 s3 s4 s5.
     callout_reset_sbt \<lparr>tb_numer = 1, tb_denom = 1\<rparr> 0 1 43 0 C_ABSOLUTE callout_sys_init = Some s1
   \<and> callout_reset_sbt \<lparr>tb_numer = 1, tb_denom = 1\<rparr> 0 2 86 0 C_ABSOLUTE s1 = Some s2
   \<and> callout_thread_round 0 s2 = Some (s3, AtTop) \<and> callout_thread_round 0 s3 = Some (s3, Asleep 1 10)
   \<and> callout_reset_sbt \<lparr>tb_numer = 1, tb_denom = 1\<rparr> 5 1 430 0 C_ABSOLUTE s3 = Some s4
   \<and> \<not> cs_work s4 \<and> timeout_of s4 1 = 100 \<and> callout_wake True 10 1 s4 = (s5, Running 1)"
proof -
  have t: "sbt2mat \<lparr>tb_numer = 1, tb_denom = 1\<rparr> 43 = 10" "sbt2mat \<lparr>tb_numer = 1, tb_denom = 1\<rparr> 86 = 20"
    "sbt2mat \<lparr>tb_numer = 1, tb_denom = 1\<rparr> 430 = 100" by code_simp+
  note defs = callout_reset_sbt_def callout_stop_eq callout_remove_def clear_callout_flags_def callout_insert_def
    callout_insert_loop.simps callout_cmp_def callout_thread_round_def callout_wait_def callout_wake_def
    callout_dispatch_def callout_sys_init_def callout_zero_def upd_def Let_def
  show ?thesis by (simp add: defs t)
qed

end
