(* ===== verification/Vm_Types.thy ===== *)
theory Vm_Types
  imports Cpuset Callout
begin

text \<open>
  The data model: the structures of the virtual machine (\<open>src/vmm/vmm.c\<close>) and of its
  interrupt hardware (\<open>vlapic_priv.h\<close>, \<open>apicreg.h\<close>, \<open>vioapic.c\<close>, \<open>vatpic.c\<close>,
  \<open>vatpit.c\<close>), one record per \<open>struct\<close>, with the fields of the source under a prefix.

  A C array is a function from indices; \<open>bzero\<close> makes it constantly 0. Back pointers
  (\<open>vlapic->vm\<close>) are arguments: an operation on the local APIC of a vcpu takes the machine
  and the vcpu number. Locks, tracing and statistics are left out. The pointers
  \<open>vlapic->ops\<close> are never set in this code base (\<open>vmx_vlapic_init\<close> clears them and the
  APICv handlers are commented out), so the model has the branches without them.
\<close>

subsection \<open>Local APIC\<close>

text \<open>
  \<open>struct LAPIC\<close>. The registers \<open>isr0 .. isr7\<close>, each followed by 12 bytes of padding, are
  reached in the code as \<open>(&isr0)[4 * k]\<close>; they are \<open>la_isr k\<close>.
\<close>

record LAPIC =
  la_id :: u32
  la_version :: u32
  la_tpr :: u32
  la_apr :: u32
  la_ppr :: u32
  la_eoi :: u32
  la_ldr :: u32
  la_dfr :: u32
  la_svr :: u32
  la_isr :: "nat \<Rightarrow> u32"
  la_tmr :: "nat \<Rightarrow> u32"
  la_irr :: "nat \<Rightarrow> u32"
  la_esr :: u32
  la_lvt_cmci :: u32
  la_icr_lo :: u32
  la_icr_hi :: u32
  la_lvt_timer :: u32
  la_lvt_thermal :: u32
  la_lvt_pcint :: u32
  la_lvt_lint0 :: u32
  la_lvt_lint1 :: u32
  la_lvt_error :: u32
  la_icr_timer :: u32
  la_ccr_timer :: u32
  la_dcr_timer :: u32

definition lapic_bzero :: LAPIC where
  "lapic_bzero = \<lparr>la_id = 0, la_version = 0, la_tpr = 0, la_apr = 0, la_ppr = 0, la_eoi = 0,
     la_ldr = 0, la_dfr = 0, la_svr = 0, la_isr = (\<lambda>_. 0), la_tmr = (\<lambda>_. 0), la_irr = (\<lambda>_. 0),
     la_esr = 0, la_lvt_cmci = 0, la_icr_lo = 0, la_icr_hi = 0, la_lvt_timer = 0,
     la_lvt_thermal = 0, la_lvt_pcint = 0, la_lvt_lint0 = 0, la_lvt_lint1 = 0, la_lvt_error = 0,
     la_icr_timer = 0, la_ccr_timer = 0, la_dcr_timer = 0\<rparr>"

datatype boot_state = BS_INIT | BS_SIPI | BS_RUNNING

record vlapic =
  vl_vcpuid :: nat
  vl_page :: LAPIC
  vl_esr_pending :: u32
  vl_esr_firing :: bool
  vl_timer_fire_bt :: bintime
  vl_timer_freq_bt :: bintime
  vl_timer_period_bt :: bintime
  vl_isrvec_stk :: "nat \<Rightarrow> u8"
  vl_isrvec_stk_top :: nat
  vl_msr_apicbase :: u64
  vl_boot_state :: boot_state
  vl_svr_last :: u32
  vl_lvt_last :: "nat \<Rightarrow> u32"

subsection \<open>I/O APIC\<close>

text \<open>\<open>rtbl[pin].reg\<close> and \<open>rtbl[pin].acnt\<close> are \<open>io_reg pin\<close> and \<open>io_acnt pin\<close>.\<close>

record vioapic =
  io_id :: u32
  io_ioregsel :: u32
  io_reg :: "nat \<Rightarrow> u64"
  io_acnt :: "nat \<Rightarrow> int"

subsection \<open>8259A interrupt controllers\<close>

record atpic =
  pic_ready :: bool
  pic_icw_num :: int
  pic_rd_cmd_reg :: int
  pic_aeoi :: bool
  pic_poll :: bool
  pic_rotate :: bool
  pic_sfn :: bool
  pic_irq_base :: int
  pic_request :: u8
  pic_service :: u8
  pic_mask :: u8
  pic_smm :: bool
  pic_acnt :: "nat \<Rightarrow> int"
  pic_lowprio :: int
  pic_intr_raised :: bool

record vatpic =
  vp_atpic :: "nat \<Rightarrow> atpic"
  vp_elc :: "nat \<Rightarrow> u8"

subsection \<open>8254 timer\<close>

record channel =
  ch_mode :: u8
  ch_initial :: u16
  ch_now_sbt :: sbintime
  ch_cr :: "nat \<Rightarrow> u8"
  ch_ol :: "nat \<Rightarrow> u8"
  ch_slatched :: bool
  ch_status :: u8
  ch_crbyte :: nat
  ch_olbyte :: nat
  ch_frbyte :: bool
  ch_callout_sbt :: sbintime

record vatpit =
  pit_freq_sbt :: sbintime
  pit_channel :: "nat \<Rightarrow> channel"

record hpet_timer =
  ht_cap_config :: u64
  ht_msireg :: u64
  ht_compval :: u32
  ht_comprate :: u32
  ht_callout_sbt :: sbintime

record vhpet =
  hp_freq_sbt :: sbintime
  hp_config :: u64
  hp_isr :: u64
  hp_countbase :: u32
  hp_countbase_sbt :: sbintime
  hp_timer :: "nat \<Rightarrow> hpet_timer"

text \<open>
  The registers of the real-time clock are a packed structure of 128 bytes which the code reads by name and by
  offset; here it is the array of those bytes. \<open>time_t\<close> is an integer.
\<close>

record vrtc =
  rtc_addr :: u32
  rtc_base_uptime :: sbintime
  rtc_base_rtctime :: int
  rtc_dev :: "nat \<Rightarrow> u8"

record vpmtmr =
  pm_freq_sbt :: sbintime
  pm_baseuptime :: sbintime
  pm_baseval :: u32

subsection \<open>Virtual CPUs and the machine\<close>

datatype vcpu_state = VCPU_IDLE | VCPU_FROZEN | VCPU_RUNNING | VCPU_SLEEPING

datatype x2apic_state = X2APIC_DISABLED | X2APIC_ENABLED

datatype vm_intr_trigger = EDGE_TRIGGER | LEVEL_TRIGGER

text \<open>The exit information a local APIC writes: \<open>VM_EXITCODE_SPINUP_AP\<close> with its collateral. The
  field \<open>inst_length\<close> of the same structure is a field of \<open>vcpu\<close> here.\<close>

datatype vm_exit = VM_EXITCODE_NONE | VM_EXITCODE_SPINUP_AP int u64

datatype vm_suspend_how = VM_SUSPEND_NONE | VM_SUSPEND_RESET | VM_SUSPEND_POWEROFF | VM_SUSPEND_HALT
  | VM_SUSPEND_TRIPLEFAULT | VM_SUSPEND_LAST

record vcpu =
  vc_state :: vcpu_state
  vc_vlapic :: vlapic
  vc_x2apic_state :: x2apic_state
  vc_exitintinfo :: u64
  vc_nmi_pending :: bool
  vc_extint_pending :: bool
  vc_exception_pending :: bool
  vc_exc_vector :: int
  vc_exc_errcode_valid :: bool
  vc_exc_errcode :: u32
  vc_exitinfo :: vm_exit
  vc_exit_inst_length :: int
  vc_nextrip :: u64

text \<open>
  What the machine asks of the host: \<open>hv_vcpu_interrupt\<close> for a running vcpu,
  \<open>pthread_cond_signal\<close> on the sleep condition of a sleeping one.
\<close>

datatype host_call = HV_VCPU_INTERRUPT nat | COND_SIGNAL nat

abbreviation (input) VM_MAXCPU :: nat where "VM_MAXCPU \<equiv> 16"

text \<open>A piece of guest memory: where it is for the guest, and the host's object behind it (a name for its address; \<open>None\<close> is \<open>NULL\<close>).\<close>

record mem_seg =
  seg_gpa :: u64
  seg_len :: u64
  seg_object :: "nat option"

record vm =
  vm_vhpet :: vhpet
  vm_vrtc :: vrtc
  vm_vpmtmr :: vpmtmr
  vm_vioapic :: vioapic
  vm_vatpic :: vatpic
  vm_vatpit :: vatpit
  vm_active_cpus :: cpuset
  vm_suspend_how :: vm_suspend_how
  vm_suspended_cpus :: cpuset
  vm_mem_segs :: "mem_seg list"
  vm_vcpu :: "nat \<Rightarrow> vcpu"
  vm_callouts :: callout_sys
  vm_timebase :: timebase
  vm_host_calls :: "host_call list"

subsection \<open>Zeroed structures\<close>

text \<open>
  A local APIC is allocated by \<open>calloc\<close> (\<open>vmx_vlapic_init\<close>), which also sets \<open>vcpuid\<close>; a vcpu, a controller and a
  timer channel are part of a zeroed structure. \<open>vm_calloc\<close> is a machine all of whose parts are zero
  (\<open>vm_create\<close>), before \<open>vm_init\<close> has created the devices. Entries of \<open>vm_vcpu\<close> beyond
  \<open>VM_MAXCPU\<close> are never used.
\<close>

definition vlapic_calloc :: "nat \<Rightarrow> vlapic" where
  "vlapic_calloc vcpuid = \<lparr>vl_vcpuid = vcpuid, vl_page = lapic_bzero, vl_esr_pending = 0,
     vl_esr_firing = False, vl_timer_fire_bt = \<lparr>bt_sec = 0, bt_frac = 0\<rparr>,
     vl_timer_freq_bt = \<lparr>bt_sec = 0, bt_frac = 0\<rparr>, vl_timer_period_bt = \<lparr>bt_sec = 0, bt_frac = 0\<rparr>,
     vl_isrvec_stk = (\<lambda>_. 0), vl_isrvec_stk_top = 0, vl_msr_apicbase = 0, vl_boot_state = BS_INIT,
     vl_svr_last = 0, vl_lvt_last = (\<lambda>_. 0)\<rparr>"

definition vcpu_bzero :: "nat \<Rightarrow> vcpu" where
  "vcpu_bzero i = \<lparr>vc_state = VCPU_IDLE, vc_vlapic = vlapic_calloc i, vc_x2apic_state = X2APIC_DISABLED,
     vc_exitintinfo = 0, vc_nmi_pending = False, vc_extint_pending = False,
     vc_exception_pending = False, vc_exc_vector = 0, vc_exc_errcode_valid = False,
     vc_exc_errcode = 0, vc_exitinfo = VM_EXITCODE_NONE,
     vc_exit_inst_length = 0, vc_nextrip = 0\<rparr>"

definition atpic_bzero :: atpic where
  "atpic_bzero = \<lparr>pic_ready = False, pic_icw_num = 0, pic_rd_cmd_reg = 0, pic_aeoi = False,
     pic_poll = False, pic_rotate = False, pic_sfn = False, pic_irq_base = 0, pic_request = 0,
     pic_service = 0, pic_mask = 0, pic_smm = False, pic_acnt = (\<lambda>_. 0), pic_lowprio = 0,
     pic_intr_raised = False\<rparr>"

definition channel_bzero :: channel where
  "channel_bzero = \<lparr>ch_mode = 0, ch_initial = 0, ch_now_sbt = 0, ch_cr = (\<lambda>_. 0), ch_ol = (\<lambda>_. 0),
     ch_slatched = False, ch_status = 0, ch_crbyte = 0, ch_olbyte = 0, ch_frbyte = False,
     ch_callout_sbt = 0\<rparr>"

definition vhpet_bzero :: vhpet where
  "vhpet_bzero = \<lparr>hp_freq_sbt = 0, hp_config = 0, hp_isr = 0, hp_countbase = 0, hp_countbase_sbt = 0,
     hp_timer = (\<lambda>_. \<lparr>ht_cap_config = 0, ht_msireg = 0, ht_compval = 0, ht_comprate = 0, ht_callout_sbt = 0\<rparr>)\<rparr>"

definition vrtc_bzero :: vrtc where
  "vrtc_bzero = \<lparr>rtc_addr = 0, rtc_base_uptime = 0, rtc_base_rtctime = 0, rtc_dev = (\<lambda>_. 0)\<rparr>"

definition vm_calloc :: "timebase \<Rightarrow> vm" where
  "vm_calloc tb = \<lparr>vm_vhpet = vhpet_bzero, vm_vrtc = vrtc_bzero, vm_vpmtmr = \<lparr>pm_freq_sbt = 0, pm_baseuptime = 0, pm_baseval = 0\<rparr>,
     vm_vioapic = \<lparr>io_id = 0, io_ioregsel = 0, io_reg = (\<lambda>_. 0), io_acnt = (\<lambda>_. 0)\<rparr>,
     vm_vatpic = \<lparr>vp_atpic = (\<lambda>_. atpic_bzero), vp_elc = (\<lambda>_. 0)\<rparr>,
     vm_vatpit = \<lparr>pit_freq_sbt = 0, pit_channel = (\<lambda>_. channel_bzero)\<rparr>,
     vm_active_cpus = CPU_ZERO, vm_suspend_how = VM_SUSPEND_NONE, vm_suspended_cpus = CPU_ZERO, vm_mem_segs = [], vm_vcpu = vcpu_bzero,
     vm_callouts = callout_sys_init, vm_timebase = tb, vm_host_calls = []\<rparr>"

text \<open>\<open>vm_lapic\<close> and the update of a local APIC in place.\<close>

definition vm_lapic :: "vm \<Rightarrow> nat \<Rightarrow> vlapic" where
  "vm_lapic v i = vc_vlapic (vm_vcpu v i)"

definition upd_vcpu :: "nat \<Rightarrow> (vcpu \<Rightarrow> vcpu) \<Rightarrow> vm \<Rightarrow> vm" where
  "upd_vcpu i f v = v\<lparr>vm_vcpu := (vm_vcpu v)(i := f (vm_vcpu v i))\<rparr>"

definition upd_vlapic :: "nat \<Rightarrow> (vlapic \<Rightarrow> vlapic) \<Rightarrow> vm \<Rightarrow> vm" where
  "upd_vlapic i f v = upd_vcpu i (\<lambda>c. c\<lparr>vc_vlapic := f (vc_vlapic c)\<rparr>) v"

definition upd_vioapic :: "(vioapic \<Rightarrow> vioapic) \<Rightarrow> vm \<Rightarrow> vm" where
  "upd_vioapic f v = v\<lparr>vm_vioapic := f (vm_vioapic v)\<rparr>"

definition upd_atpic :: "nat \<Rightarrow> (atpic \<Rightarrow> atpic) \<Rightarrow> vm \<Rightarrow> vm" where
  "upd_atpic k f v = v\<lparr>vm_vatpic := (vm_vatpic v)
     \<lparr>vp_atpic := (vp_atpic (vm_vatpic v))(k := f (vp_atpic (vm_vatpic v) k))\<rparr>\<rparr>"

definition upd_vhpet :: "(vhpet \<Rightarrow> vhpet) \<Rightarrow> vm \<Rightarrow> vm" where
  "upd_vhpet f v = v\<lparr>vm_vhpet := f (vm_vhpet v)\<rparr>"

definition upd_vrtc :: "(vrtc \<Rightarrow> vrtc) \<Rightarrow> vm \<Rightarrow> vm" where
  "upd_vrtc f v = v\<lparr>vm_vrtc := f (vm_vrtc v)\<rparr>"

definition upd_channel :: "nat \<Rightarrow> (channel \<Rightarrow> channel) \<Rightarrow> vm \<Rightarrow> vm" where
  "upd_channel k f v = v\<lparr>vm_vatpit := (vm_vatpit v)
     \<lparr>pit_channel := (pit_channel (vm_vatpit v))(k := f (pit_channel (vm_vatpit v) k))\<rparr>\<rparr>"

abbreviation vm_atpic :: "vm \<Rightarrow> nat \<Rightarrow> atpic" where
  "vm_atpic v k \<equiv> vp_atpic (vm_vatpic v) k"

abbreviation vm_channel :: "vm \<Rightarrow> nat \<Rightarrow> channel" where
  "vm_channel v k \<equiv> pit_channel (vm_vatpit v) k"

text \<open>
  The callout objects embedded in the devices, by their address in the store: one family of
  addresses for the local APICs, the channels of the 8254 and the timers of the HPET each.
\<close>

definition vlapic_callout :: "nat \<Rightarrow> nat" where "vlapic_callout i = 4 * i"
definition vatpit_callout :: "nat \<Rightarrow> nat" where "vatpit_callout k = 4 * k + 1"
definition vhpet_callout :: "nat \<Rightarrow> nat" where "vhpet_callout n = 4 * n + 2"
definition vrtc_callout :: nat where "vrtc_callout = 3"

lemma callout_addresses [simp]:
  "vhpet_callout n \<noteq> vlapic_callout i" "vhpet_callout n \<noteq> vatpit_callout k" "vlapic_callout i \<noteq> vatpit_callout k"
  "vhpet_callout n = vhpet_callout m \<longleftrightarrow> n = m"
  "vrtc_callout \<noteq> vlapic_callout i" "vrtc_callout \<noteq> vatpit_callout k" "vrtc_callout \<noteq> vhpet_callout n" "vhpet_callout n \<noteq> vrtc_callout"
  unfolding vlapic_callout_def vatpit_callout_def vhpet_callout_def vrtc_callout_def by presburger+

subsection \<open>Reading an updated machine\<close>

named_theorems vm_upd \<open>selectors of updated machine states\<close>

lemma upd_vcpu_simps [vm_upd, simp]:
  "vm_vcpu (upd_vcpu i f v) = (vm_vcpu v)(i := f (vm_vcpu v i))"
  "vm_vioapic (upd_vcpu i f v) = vm_vioapic v" "vm_vatpic (upd_vcpu i f v) = vm_vatpic v"
  "vm_vatpit (upd_vcpu i f v) = vm_vatpit v" "vm_active_cpus (upd_vcpu i f v) = vm_active_cpus v"
  "vm_suspended_cpus (upd_vcpu i f v) = vm_suspended_cpus v"
  "vm_callouts (upd_vcpu i f v) = vm_callouts v" "vm_vhpet (upd_vcpu i f v) = vm_vhpet v" "vm_vrtc (upd_vcpu i f v) = vm_vrtc v" "vm_vpmtmr (upd_vcpu i f v) = vm_vpmtmr v" "vm_timebase (upd_vcpu i f v) = vm_timebase v"
  "vm_host_calls (upd_vcpu i f v) = vm_host_calls v"
  by (simp_all add: upd_vcpu_def)

lemma upd_vlapic_simps [vm_upd, simp]:
  "vm_vioapic (upd_vlapic i f v) = vm_vioapic v" "vm_vatpic (upd_vlapic i f v) = vm_vatpic v"
  "vm_vatpit (upd_vlapic i f v) = vm_vatpit v" "vm_active_cpus (upd_vlapic i f v) = vm_active_cpus v"
  "vm_suspended_cpus (upd_vlapic i f v) = vm_suspended_cpus v"
  "vm_callouts (upd_vlapic i f v) = vm_callouts v" "vm_vhpet (upd_vlapic i f v) = vm_vhpet v" "vm_vrtc (upd_vlapic i f v) = vm_vrtc v" "vm_vpmtmr (upd_vlapic i f v) = vm_vpmtmr v" "vm_timebase (upd_vlapic i f v) = vm_timebase v"
  "vm_host_calls (upd_vlapic i f v) = vm_host_calls v"
  "vm_lapic (upd_vlapic i f v) j = (if j = i then f (vm_lapic v i) else vm_lapic v j)"
  "vc_state (vm_vcpu (upd_vlapic i f v) j) = vc_state (vm_vcpu v j)"
  "vc_nmi_pending (vm_vcpu (upd_vlapic i f v) j) = vc_nmi_pending (vm_vcpu v j)"
  "vc_extint_pending (vm_vcpu (upd_vlapic i f v) j) = vc_extint_pending (vm_vcpu v j)"
  "vc_exitinfo (vm_vcpu (upd_vlapic i f v) j) = vc_exitinfo (vm_vcpu v j)"
  by (simp_all add: upd_vlapic_def vm_lapic_def)

lemma vm_lapic_upd_vcpu [vm_upd, simp]:
  assumes "\<And>c. vc_vlapic (f c) = vc_vlapic c"
  shows "vm_lapic (upd_vcpu i f v) j = vm_lapic v j"
  using assms by (simp add: vm_lapic_def)

lemma upd_vioapic_simps [vm_upd, simp]:
  "vm_vioapic (upd_vioapic g v) = g (vm_vioapic v)" "vm_vatpic (upd_vioapic g v) = vm_vatpic v"
  "vm_vatpit (upd_vioapic g v) = vm_vatpit v" "vm_active_cpus (upd_vioapic g v) = vm_active_cpus v"
  "vm_vcpu (upd_vioapic g v) = vm_vcpu v" "vm_lapic (upd_vioapic g v) = vm_lapic v"
  "vm_callouts (upd_vioapic g v) = vm_callouts v" "vm_vhpet (upd_vioapic g v) = vm_vhpet v" "vm_vrtc (upd_vioapic g v) = vm_vrtc v" "vm_vpmtmr (upd_vioapic g v) = vm_vpmtmr v" "vm_timebase (upd_vioapic g v) = vm_timebase v"
  "vm_host_calls (upd_vioapic g v) = vm_host_calls v"
  by (simp_all add: upd_vioapic_def vm_lapic_def fun_eq_iff)

lemma upd_atpic_simps [vm_upd, simp]:
  "vm_atpic (upd_atpic k g v) = (vm_atpic v)(k := g (vm_atpic v k))"
  "vp_elc (vm_vatpic (upd_atpic k g v)) = vp_elc (vm_vatpic v)"
  "vm_vioapic (upd_atpic k g v) = vm_vioapic v" "vm_vatpit (upd_atpic k g v) = vm_vatpit v"
  "vm_active_cpus (upd_atpic k g v) = vm_active_cpus v" "vm_vcpu (upd_atpic k g v) = vm_vcpu v"
  "vm_lapic (upd_atpic k g v) = vm_lapic v" "vm_callouts (upd_atpic k g v) = vm_callouts v" "vm_vhpet (upd_atpic k g v) = vm_vhpet v" "vm_vrtc (upd_atpic k g v) = vm_vrtc v" "vm_vpmtmr (upd_atpic k g v) = vm_vpmtmr v"
  "vm_timebase (upd_atpic k g v) = vm_timebase v" "vm_host_calls (upd_atpic k g v) = vm_host_calls v"
  by (simp_all add: upd_atpic_def vm_lapic_def fun_eq_iff)

lemma upd_channel_simps [vm_upd, simp]:
  "vm_channel (upd_channel k h v) = (vm_channel v)(k := h (vm_channel v k))"
  "pit_freq_sbt (vm_vatpit (upd_channel k h v)) = pit_freq_sbt (vm_vatpit v)"
  "vm_vioapic (upd_channel k h v) = vm_vioapic v" "vm_vatpic (upd_channel k h v) = vm_vatpic v"
  "vm_active_cpus (upd_channel k h v) = vm_active_cpus v" "vm_vcpu (upd_channel k h v) = vm_vcpu v"
  "vm_lapic (upd_channel k h v) = vm_lapic v" "vm_callouts (upd_channel k h v) = vm_callouts v" "vm_vhpet (upd_channel k h v) = vm_vhpet v" "vm_vrtc (upd_channel k h v) = vm_vrtc v" "vm_vpmtmr (upd_channel k h v) = vm_vpmtmr v"
  "vm_timebase (upd_channel k h v) = vm_timebase v" "vm_host_calls (upd_channel k h v) = vm_host_calls v"
  by (simp_all add: upd_channel_def vm_lapic_def fun_eq_iff)

lemma upd_vhpet_simps [vm_upd, simp]:
  "vm_vhpet (upd_vhpet g v) = g (vm_vhpet v)" "vm_vrtc (upd_vhpet g v) = vm_vrtc v" "vm_vpmtmr (upd_vhpet g v) = vm_vpmtmr v" "vm_vioapic (upd_vhpet g v) = vm_vioapic v"
  "vm_vatpic (upd_vhpet g v) = vm_vatpic v" "vm_vatpit (upd_vhpet g v) = vm_vatpit v"
  "vm_active_cpus (upd_vhpet g v) = vm_active_cpus v" "vm_vcpu (upd_vhpet g v) = vm_vcpu v"
  "vm_lapic (upd_vhpet g v) = vm_lapic v" "vm_callouts (upd_vhpet g v) = vm_callouts v"
  "vm_timebase (upd_vhpet g v) = vm_timebase v" "vm_host_calls (upd_vhpet g v) = vm_host_calls v"
  by (simp_all add: upd_vhpet_def vm_lapic_def fun_eq_iff)

lemma upd_vrtc_simps [vm_upd, simp]:
  "vm_vrtc (upd_vrtc g v) = g (vm_vrtc v)" "vm_vpmtmr (upd_vrtc g v) = vm_vpmtmr v" "vm_vhpet (upd_vrtc g v) = vm_vhpet v" "vm_vioapic (upd_vrtc g v) = vm_vioapic v"
  "vm_vatpic (upd_vrtc g v) = vm_vatpic v" "vm_vatpit (upd_vrtc g v) = vm_vatpit v"
  "vm_active_cpus (upd_vrtc g v) = vm_active_cpus v" "vm_vcpu (upd_vrtc g v) = vm_vcpu v"
  "vm_lapic (upd_vrtc g v) = vm_lapic v" "vm_callouts (upd_vrtc g v) = vm_callouts v"
  "vm_timebase (upd_vrtc g v) = vm_timebase v" "vm_host_calls (upd_vrtc g v) = vm_host_calls v"
  by (simp_all add: upd_vrtc_def vm_lapic_def fun_eq_iff)

end
