(* ===== verification/Vlapic.thy ===== *)
theory Vlapic
  imports Vm_Types
begin

text \<open>
  The part of \<open>src/vmm/io/vlapic.c\<close> that works on one local APIC alone: identification and
  addressing registers, the local vector table, the task and processor priority, and the
  life of a vector from the request register (IRR) through the in-service register (ISR)
  and its stack to the end of interrupt. \<open>None\<close> is \<open>xhyve_abort\<close>, the end of the process.
\<close>

subsection \<open>Constants of \<open>apicreg.h\<close>, \<open>specialreg.h\<close> and \<open>vlapic_priv.h\<close>\<close>

abbreviation (input) APICBASE_BSP :: u64 where "APICBASE_BSP \<equiv> 0x100"
abbreviation (input) APICBASE_X2APIC :: u64 where "APICBASE_X2APIC \<equiv> 0x400"
abbreviation (input) APICBASE_ENABLED :: u64 where "APICBASE_ENABLED \<equiv> 0x800"
abbreviation (input) DEFAULT_APIC_BASE :: u64 where "DEFAULT_APIC_BASE \<equiv> 0xfee00000"
abbreviation (input) APIC_LDR_RESERVED :: u32 where "APIC_LDR_RESERVED \<equiv> 0x00ffffff"
abbreviation (input) APIC_DFR_RESERVED :: u32 where "APIC_DFR_RESERVED \<equiv> 0x0fffffff"
abbreviation (input) APIC_DFR_MODEL_MASK :: u32 where "APIC_DFR_MODEL_MASK \<equiv> 0xf0000000"
abbreviation (input) APIC_DFR_MODEL_FLAT :: u32 where "APIC_DFR_MODEL_FLAT \<equiv> 0xf0000000"
abbreviation (input) APIC_DFR_MODEL_CLUSTER :: u32 where "APIC_DFR_MODEL_CLUSTER \<equiv> 0"
abbreviation (input) APIC_SVR_VECTOR :: u32 where "APIC_SVR_VECTOR \<equiv> 0xff"
abbreviation (input) APIC_SVR_ENABLE :: u32 where "APIC_SVR_ENABLE \<equiv> 0x100"
abbreviation (input) APIC_LVT_VECTOR :: u32 where "APIC_LVT_VECTOR \<equiv> 0xff"
abbreviation (input) APIC_LVT_DM :: u32 where "APIC_LVT_DM \<equiv> 0x700"
abbreviation (input) APIC_LVT_DM_FIXED :: u32 where "APIC_LVT_DM_FIXED \<equiv> 0"
abbreviation (input) APIC_LVT_DM_NMI :: u32 where "APIC_LVT_DM_NMI \<equiv> 0x400"
abbreviation (input) APIC_LVT_DM_EXTINT :: u32 where "APIC_LVT_DM_EXTINT \<equiv> 0x700"
abbreviation (input) APIC_LVT_DS :: u32 where "APIC_LVT_DS \<equiv> 0x1000"
abbreviation (input) APIC_LVT_IIPP :: u32 where "APIC_LVT_IIPP \<equiv> 0x2000"
abbreviation (input) APIC_LVT_RIRR :: u32 where "APIC_LVT_RIRR \<equiv> 0x4000"
abbreviation (input) APIC_LVT_TM :: u32 where "APIC_LVT_TM \<equiv> 0x8000"
abbreviation (input) APIC_LVT_M :: u32 where "APIC_LVT_M \<equiv> 0x10000"
abbreviation (input) APIC_LVTT_TM :: u32 where "APIC_LVTT_TM \<equiv> 0x20000"
abbreviation (input) APIC_LVTT_TM_PERIODIC :: u32 where "APIC_LVTT_TM_PERIODIC \<equiv> 0x20000"

abbreviation (input) APIC_OFFSET_CMCI_LVT :: u32 where "APIC_OFFSET_CMCI_LVT \<equiv> 0x2F0"
abbreviation (input) APIC_OFFSET_TIMER_LVT :: u32 where "APIC_OFFSET_TIMER_LVT \<equiv> 0x320"
abbreviation (input) APIC_OFFSET_THERM_LVT :: u32 where "APIC_OFFSET_THERM_LVT \<equiv> 0x330"
abbreviation (input) APIC_OFFSET_PERF_LVT :: u32 where "APIC_OFFSET_PERF_LVT \<equiv> 0x340"
abbreviation (input) APIC_OFFSET_LINT0_LVT :: u32 where "APIC_OFFSET_LINT0_LVT \<equiv> 0x350"
abbreviation (input) APIC_OFFSET_LINT1_LVT :: u32 where "APIC_OFFSET_LINT1_LVT \<equiv> 0x360"
abbreviation (input) APIC_OFFSET_ERROR_LVT :: u32 where "APIC_OFFSET_ERROR_LVT \<equiv> 0x370"

abbreviation (input) APIC_LVT_LINT0 :: nat where "APIC_LVT_LINT0 \<equiv> 0"
abbreviation (input) APIC_LVT_LINT1 :: nat where "APIC_LVT_LINT1 \<equiv> 1"
abbreviation (input) APIC_LVT_TIMER :: nat where "APIC_LVT_TIMER \<equiv> 2"
abbreviation (input) APIC_LVT_ERROR :: nat where "APIC_LVT_ERROR \<equiv> 3"
abbreviation (input) APIC_LVT_PMC :: nat where "APIC_LVT_PMC \<equiv> 4"
abbreviation (input) APIC_LVT_THERMAL :: nat where "APIC_LVT_THERMAL \<equiv> 5"
abbreviation (input) APIC_LVT_CMCI :: nat where "APIC_LVT_CMCI \<equiv> 6"
abbreviation (input) VLAPIC_MAXLVT_INDEX :: nat where "VLAPIC_MAXLVT_INDEX \<equiv> APIC_LVT_CMCI"

abbreviation (input) VLAPIC_VERSION :: u32 where "VLAPIC_VERSION \<equiv> 16"
abbreviation (input) ISRVEC_STK_SIZE :: nat where "ISRVEC_STK_SIZE \<equiv> 17"

definition PRIO :: "'a::len word \<Rightarrow> 'a word" where
  "PRIO x = drop_bit 4 x"

definition upd_page :: "(LAPIC \<Rightarrow> LAPIC) \<Rightarrow> vlapic \<Rightarrow> vlapic" where
  "upd_page f v = v\<lparr>vl_page := f (vl_page v)\<rparr>"

subsection \<open>Identification and addressing\<close>

definition x2apic :: "vlapic \<Rightarrow> bool" where
  "x2apic v = (vl_msr_apicbase v AND APICBASE_X2APIC \<noteq> 0)"

definition vlapic_get_id :: "vlapic \<Rightarrow> u32" where
  "vlapic_get_id v =
     (if x2apic v then of_nat (vl_vcpuid v) else push_bit 24 (of_nat (vl_vcpuid v)))"

definition x2apic_ldr :: "vlapic \<Rightarrow> u32" where
  "x2apic_ldr v =
     (let apicid = vlapic_get_id v
      in BIT (unat (apicid AND 0xf)) OR push_bit 12 (apicid AND 0xffff0))"

definition vlapic_dfr_write_handler :: "vlapic \<Rightarrow> vlapic" where
  "vlapic_dfr_write_handler v =
     (if x2apic v then upd_page (\<lambda>p. p\<lparr>la_dfr := 0\<rparr>) v
      else upd_page (\<lambda>p. p\<lparr>la_dfr := (la_dfr p AND APIC_DFR_MODEL_MASK) OR APIC_DFR_RESERVED\<rparr>) v)"

definition vlapic_ldr_write_handler :: "vlapic \<Rightarrow> vlapic" where
  "vlapic_ldr_write_handler v =
     (if x2apic v then upd_page (\<lambda>p. p\<lparr>la_ldr := x2apic_ldr v\<rparr>) v
      else upd_page (\<lambda>p. p\<lparr>la_ldr := la_ldr p AND NOT APIC_LDR_RESERVED\<rparr>) v)"

definition vlapic_id_write_handler :: "vlapic \<Rightarrow> vlapic" where
  "vlapic_id_write_handler v = upd_page (\<lambda>p. p\<lparr>la_id := vlapic_get_id v\<rparr>) v"

definition vlapic_esr_write_handler :: "vlapic \<Rightarrow> vlapic" where
  "vlapic_esr_write_handler v =
     (upd_page (\<lambda>p. p\<lparr>la_esr := vl_esr_pending v\<rparr>) v)\<lparr>vl_esr_pending := 0\<rparr>"

definition vlapic_enabled :: "vlapic \<Rightarrow> bool" where
  "vlapic_enabled v =
     (vl_msr_apicbase v AND APICBASE_ENABLED \<noteq> 0 \<and> la_svr (vl_page v) AND APIC_SVR_ENABLE \<noteq> 0)"

definition vlapic_get_apicbase :: "vlapic \<Rightarrow> u64" where
  "vlapic_get_apicbase v = vl_msr_apicbase v"

definition vlapic_set_apicbase :: "vlapic \<Rightarrow> u64 \<Rightarrow> int" where
  "vlapic_set_apicbase v new = (if vl_msr_apicbase v \<noteq> new then -1 else 0)"

definition vlapic_set_x2apic_state :: "vlapic \<Rightarrow> x2apic_state \<Rightarrow> vlapic" where
  "vlapic_set_x2apic_state v state =
     (let v1 = v\<lparr>vl_msr_apicbase :=
                   (if state = X2APIC_DISABLED then vl_msr_apicbase v AND NOT APICBASE_X2APIC
                    else vl_msr_apicbase v OR APICBASE_X2APIC)\<rparr>;
          v2 = upd_page (\<lambda>p. p\<lparr>la_id := vlapic_get_id v1\<rparr>) v1
      in if x2apic v2 then upd_page (\<lambda>p. p\<lparr>la_ldr := x2apic_ldr v2, la_dfr := 0\<rparr>) v2
         else upd_page (\<lambda>p. p\<lparr>la_ldr := 0, la_dfr := 0xffffffff\<rparr>) v2)"

subsection \<open>Local vector table\<close>

text \<open>A pointer into the table.\<close>

datatype lvtptr = LVT_CMCI | LVT_TIMER | LVT_THERMAL | LVT_PCINT | LVT_LINT0 | LVT_LINT1 | LVT_ERROR

definition vlapic_get_lvtptr :: "u32 \<Rightarrow> lvtptr option" where
  "vlapic_get_lvtptr offset =
     (if offset = APIC_OFFSET_CMCI_LVT then Some LVT_CMCI
      else if offset = APIC_OFFSET_TIMER_LVT then Some LVT_TIMER
      else if offset = APIC_OFFSET_THERM_LVT then Some LVT_THERMAL
      else if offset = APIC_OFFSET_PERF_LVT then Some LVT_PCINT
      else if offset = APIC_OFFSET_LINT0_LVT then Some LVT_LINT0
      else if offset = APIC_OFFSET_LINT1_LVT then Some LVT_LINT1
      else if offset = APIC_OFFSET_ERROR_LVT then Some LVT_ERROR
      else None)"

fun lvt_get :: "lvtptr \<Rightarrow> LAPIC \<Rightarrow> u32" where
  "lvt_get LVT_CMCI p = la_lvt_cmci p"
| "lvt_get LVT_TIMER p = la_lvt_timer p"
| "lvt_get LVT_THERMAL p = la_lvt_thermal p"
| "lvt_get LVT_PCINT p = la_lvt_pcint p"
| "lvt_get LVT_LINT0 p = la_lvt_lint0 p"
| "lvt_get LVT_LINT1 p = la_lvt_lint1 p"
| "lvt_get LVT_ERROR p = la_lvt_error p"

fun lvt_put :: "lvtptr \<Rightarrow> u32 \<Rightarrow> LAPIC \<Rightarrow> LAPIC" where
  "lvt_put LVT_CMCI x p = p\<lparr>la_lvt_cmci := x\<rparr>"
| "lvt_put LVT_TIMER x p = p\<lparr>la_lvt_timer := x\<rparr>"
| "lvt_put LVT_THERMAL x p = p\<lparr>la_lvt_thermal := x\<rparr>"
| "lvt_put LVT_PCINT x p = p\<lparr>la_lvt_pcint := x\<rparr>"
| "lvt_put LVT_LINT0 x p = p\<lparr>la_lvt_lint0 := x\<rparr>"
| "lvt_put LVT_LINT1 x p = p\<lparr>la_lvt_lint1 := x\<rparr>"
| "lvt_put LVT_ERROR x p = p\<lparr>la_lvt_error := x\<rparr>"

definition lvt_off_to_idx :: "u32 \<Rightarrow> nat option" where
  "lvt_off_to_idx offset =
     (if offset = APIC_OFFSET_CMCI_LVT then Some APIC_LVT_CMCI
      else if offset = APIC_OFFSET_TIMER_LVT then Some APIC_LVT_TIMER
      else if offset = APIC_OFFSET_THERM_LVT then Some APIC_LVT_THERMAL
      else if offset = APIC_OFFSET_PERF_LVT then Some APIC_LVT_PMC
      else if offset = APIC_OFFSET_LINT0_LVT then Some APIC_LVT_LINT0
      else if offset = APIC_OFFSET_LINT1_LVT then Some APIC_LVT_LINT1
      else if offset = APIC_OFFSET_ERROR_LVT then Some APIC_LVT_ERROR
      else None)"

definition vlapic_get_lvt :: "vlapic \<Rightarrow> u32 \<Rightarrow> u32 option" where
  "vlapic_get_lvt v offset = map_option (vl_lvt_last v) (lvt_off_to_idx offset)"

definition lvt_write_mask :: "u32 \<Rightarrow> u32" where
  "lvt_write_mask offset =
     (let m = APIC_LVT_M OR APIC_LVT_DS OR APIC_LVT_VECTOR
      in if offset = APIC_OFFSET_TIMER_LVT then m OR APIC_LVTT_TM
         else if offset = APIC_OFFSET_ERROR_LVT then m
         else if offset = APIC_OFFSET_LINT0_LVT \<or> offset = APIC_OFFSET_LINT1_LVT
         then m OR (APIC_LVT_TM OR APIC_LVT_RIRR OR APIC_LVT_IIPP) OR APIC_LVT_DM
         else m OR APIC_LVT_DM)"

definition vlapic_lvt_write_handler :: "vlapic \<Rightarrow> u32 \<Rightarrow> vlapic option" where
  "vlapic_lvt_write_handler v offset =
     (case (vlapic_get_lvtptr offset, lvt_off_to_idx offset) of
        (Some lvtptr, Some idx) \<Rightarrow>
          let val = lvt_get lvtptr (vl_page v);
              val = (if la_svr (vl_page v) AND APIC_SVR_ENABLE = 0 then val OR APIC_LVT_M else val);
              val = val AND lvt_write_mask offset
          in Some ((upd_page (lvt_put lvtptr val) v)\<lparr>vl_lvt_last := (vl_lvt_last v)(idx := val)\<rparr>)
      | _ \<Rightarrow> None)"

text \<open>\<open>lvtptr |= APIC_LVT_M\<close> followed by the write handler, for one register after the other.\<close>

definition mask_lvt :: "lvtptr \<Rightarrow> u32 \<Rightarrow> vlapic \<Rightarrow> vlapic option" where
  "mask_lvt l offset v =
     vlapic_lvt_write_handler (upd_page (\<lambda>p. lvt_put l (lvt_get l p OR APIC_LVT_M) p) v) offset"

definition vlapic_mask_lvts :: "vlapic \<Rightarrow> vlapic option" where
  "vlapic_mask_lvts v =
     Option.bind (mask_lvt LVT_CMCI APIC_OFFSET_CMCI_LVT v) (\<lambda>v.
     Option.bind (mask_lvt LVT_TIMER APIC_OFFSET_TIMER_LVT v) (\<lambda>v.
     Option.bind (mask_lvt LVT_THERMAL APIC_OFFSET_THERM_LVT v) (\<lambda>v.
     Option.bind (mask_lvt LVT_PCINT APIC_OFFSET_PERF_LVT v) (\<lambda>v.
     Option.bind (mask_lvt LVT_LINT0 APIC_OFFSET_LINT0_LVT v) (\<lambda>v.
     Option.bind (mask_lvt LVT_LINT1 APIC_OFFSET_LINT1_LVT v) (\<lambda>v.
     mask_lvt LVT_ERROR APIC_OFFSET_ERROR_LVT v))))))"

definition vlapic_get_lvt_field :: "u32 \<Rightarrow> u32 \<Rightarrow> u32" where
  "vlapic_get_lvt_field lvt fld = lvt AND fld"

text \<open>
  Calls of \<open>vlapic_get_lvt\<close> with a constant offset read the entry of \<open>lvt_last\<close> directly.
\<close>

definition vlapic_periodic_timer :: "vlapic \<Rightarrow> bool" where
  "vlapic_periodic_timer v =
     (vlapic_get_lvt_field (vl_lvt_last v APIC_LVT_TIMER) APIC_LVTT_TM_PERIODIC \<noteq> 0)"

subsection \<open>Trigger mode register\<close>

definition vlapic_set_tmr :: "nat \<Rightarrow> bool \<Rightarrow> vlapic \<Rightarrow> vlapic" where
  "vlapic_set_tmr vector level v =
     (let idx = vector div 32; m = BIT (vector mod 32)
      in upd_page (\<lambda>p. p\<lparr>la_tmr := (la_tmr p)(idx :=
           (if level then la_tmr p idx OR m else la_tmr p idx AND NOT m))\<rparr>) v)"

definition vlapic_reset_tmr :: "vlapic \<Rightarrow> vlapic" where
  "vlapic_reset_tmr v = fold (\<lambda>vector. vlapic_set_tmr vector False) [0..<256] v"

subsection \<open>Timer rate and current count\<close>

abbreviation (input) VLAPIC_BUS_FREQ :: nat where "VLAPIC_BUS_FREQ \<equiv> 128 * 1024 * 1024"

definition vlapic_timer_divisor :: "u32 \<Rightarrow> nat option" where
  "vlapic_timer_divisor dcr =
     (let d = dcr AND 0xB
      in if d = 0xb then Some 1 else if d = 0 then Some 2 else if d = 1 then Some 4
         else if d = 2 then Some 8 else if d = 3 then Some 16 else if d = 8 then Some 32
         else if d = 9 then Some 64 else if d = 0xa then Some 128 else None)"

definition vlapic_dcr_write_handler :: "vlapic \<Rightarrow> vlapic option" where
  "vlapic_dcr_write_handler v =
     (case vlapic_timer_divisor (la_dcr_timer (vl_page v)) of
        None \<Rightarrow> None
      | Some divisor \<Rightarrow>
          let freq = FREQ2BT (of_nat (VLAPIC_BUS_FREQ div divisor))
          in Some (v\<lparr>vl_timer_freq_bt := freq,
                     vl_timer_period_bt := bintime_mul freq (la_icr_timer (vl_page v))\<rparr>))"

text \<open>
  The current count, computed from the callout object \<open>c\<close> of the timer and the time
  \<open>bt_now\<close>. \<open>ccr\<close> is a \<open>uint32_t\<close>: both additions truncate. The \<open>KASSERT\<close> at the end
  is compiled in (\<open>XHYVE_CONFIG_ASSERT\<close>).
\<close>

definition vlapic_get_ccr :: "vlapic \<Rightarrow> callout \<Rightarrow> bintime \<Rightarrow> u32 option" where
  "vlapic_get_ccr v c bt_now =
     (let ccr = (if callout_active c \<and> bintime_cmp (vl_timer_fire_bt v) bt_now (>)
                 then let bt_rem = bintime_sub (vl_timer_fire_bt v) bt_now
                      in ucast (bt_sec bt_rem * BT2FREQ (vl_timer_freq_bt v))
                         + ucast (bt_frac bt_rem div bt_frac (vl_timer_freq_bt v))
                 else 0)
      in if ccr \<le> la_icr_timer (vl_page v) then Some ccr else None)"

subsection \<open>Processor priority\<close>

text \<open>
  The self-check of \<open>vlapic_update_ppr\<close>: priorities on the stack increase strictly, and
  the bits of the ISR appear on the stack in increasing order. \<open>i\<close> is the loop variable of
  the source; the array is indexed up to \<open>isrvec_stk_top\<close>.
\<close>

definition vec_bit :: "(nat \<Rightarrow> u32) \<Rightarrow> nat \<Rightarrow> bool" where
  "vec_bit r vector = (r (vector div 32) AND BIT (vector mod 32) \<noteq> 0)"

fun prio_check :: "int \<Rightarrow> u8 list \<Rightarrow> bool" where
  "prio_check lastprio [] = True"
| "prio_check lastprio (x # xs) =
     (if uint (PRIO x) \<le> lastprio then False else prio_check (uint (PRIO x)) xs)"

fun isr_sync_check :: "vlapic \<Rightarrow> nat \<Rightarrow> nat list \<Rightarrow> bool" where
  "isr_sync_check v i [] = True"
| "isr_sync_check v i (vector # vs) =
     (if vec_bit (la_isr (vl_page v)) vector
      then if i > vl_isrvec_stk_top v \<or> unat (vl_isrvec_stk v i) \<noteq> vector then False
           else isr_sync_check v (Suc i) vs
      else isr_sync_check v i vs)"

definition stk_vectors :: "vlapic \<Rightarrow> u8 list" where
  "stk_vectors v = map (vl_isrvec_stk v) [1..<Suc (vl_isrvec_stk_top v)]"

definition vlapic_update_ppr :: "vlapic \<Rightarrow> vlapic option" where
  "vlapic_update_ppr v =
     (let isrvec = vl_isrvec_stk v (vl_isrvec_stk_top v);
          tpr = la_tpr (vl_page v)
      in if vl_isrvec_stk_top v = 0 \<and> isrvec \<noteq> 0 then None
         else if \<not> prio_check (-1) (stk_vectors v) then None
         else if \<not> isr_sync_check v 1 [0..<256] then None
         else Some (upd_page (\<lambda>p. p\<lparr>la_ppr :=
                (if PRIO tpr \<ge> PRIO (ucast isrvec) then tpr else ucast (isrvec AND 0xf0))\<rparr>) v))"

definition vlapic_set_tpr :: "vlapic \<Rightarrow> u8 \<Rightarrow> vlapic option" where
  "vlapic_set_tpr v val =
     (if la_tpr (vl_page v) \<noteq> ucast val
      then vlapic_update_ppr (upd_page (\<lambda>p. p\<lparr>la_tpr := ucast val\<rparr>) v)
      else Some v)"

definition vlapic_get_tpr :: "vlapic \<Rightarrow> u8" where
  "vlapic_get_tpr v = ucast (la_tpr (vl_page v))"

definition vlapic_get_cr8 :: "vlapic \<Rightarrow> u64" where
  "vlapic_get_cr8 v = ucast (drop_bit 4 (vlapic_get_tpr v))"

subsection \<open>Requested and in-service vectors\<close>

text \<open>
  The loops \<open>for (i = 7; i >= 0; i--)\<close> over the eight registers, stopping at the first one
  that is not zero.
\<close>

fun scan_regs :: "(nat \<Rightarrow> u32) \<Rightarrow> nat \<Rightarrow> nat option" where
  "scan_regs r 0 = None"
| "scan_regs r (Suc i) = (case fls (r i) of 0 \<Rightarrow> scan_regs r i | Suc bitpos \<Rightarrow> Some (i * 32 + bitpos))"

definition vlapic_pending_intr :: "vlapic \<Rightarrow> nat option" where
  "vlapic_pending_intr v =
     (case scan_regs (la_irr (vl_page v)) 8 of
        None \<Rightarrow> None
      | Some vector \<Rightarrow>
          if vector div 16 > unat (PRIO (la_ppr (vl_page v))) then Some vector else None)"

definition vlapic_intr_accepted :: "nat \<Rightarrow> vlapic \<Rightarrow> vlapic option" where
  "vlapic_intr_accepted vector v =
     (let idx = vector div 32; m = BIT (vector mod 32);
          v1 = upd_page (\<lambda>p. p\<lparr>la_irr := (la_irr p)(idx := la_irr p idx AND NOT m),
                               la_isr := (la_isr p)(idx := la_isr p idx OR m)\<rparr>) v;
          stk_top = Suc (vl_isrvec_stk_top v)
      in if stk_top \<ge> ISRVEC_STK_SIZE then None
         else vlapic_update_ppr (v1\<lparr>vl_isrvec_stk_top := stk_top,
                vl_isrvec_stk := (vl_isrvec_stk v)(stk_top := of_nat vector)\<rparr>))"

text \<open>
  \<open>vlapic_process_eoi\<close> up to the call of \<open>vioapic_process_eoi\<close>: the vector whose service
  ends, when there is one, and whether the trigger mode register calls for that notification.
\<close>

definition eoi_local :: "vlapic \<Rightarrow> (vlapic \<times> nat option \<times> bool) option" where
  "eoi_local v =
     (case scan_regs (la_isr (vl_page v)) 8 of
        None \<Rightarrow> Some (v, None, False)
      | Some vector \<Rightarrow>
          if vl_isrvec_stk_top v \<le> 0 then None
          else let idx = vector div 32; m = BIT (vector mod 32);
                   v1 = upd_page (\<lambda>p. p\<lparr>la_isr := (la_isr p)(idx := la_isr p idx AND NOT m)\<rparr>) v
               in Option.bind (vlapic_update_ppr (v1\<lparr>vl_isrvec_stk_top := vl_isrvec_stk_top v - 1\<rparr>))
                    (\<lambda>v2. Some (v2, Some vector, vec_bit (la_tmr (vl_page v2)) vector)))"

subsection \<open>Reset\<close>

definition vlapic_reset :: "vlapic \<Rightarrow> vlapic option" where
  "vlapic_reset v =
     Option.bind (vlapic_mask_lvts
       (upd_page (\<lambda>_. lapic_bzero\<lparr>la_id := vlapic_get_id v,
          la_version := VLAPIC_VERSION OR push_bit 16 (of_nat VLAPIC_MAXLVT_INDEX),
          la_dfr := 0xffffffff, la_svr := APIC_SVR_VECTOR\<rparr>) v)) (\<lambda>v1.
     Option.bind (vlapic_dcr_write_handler
       (upd_page (\<lambda>p. p\<lparr>la_dcr_timer := 0\<rparr>) (vlapic_reset_tmr v1))) (\<lambda>v2.
     Some (v2\<lparr>vl_boot_state := (if vl_vcpuid v2 = 0 then BS_RUNNING else BS_INIT),
              vl_svr_last := la_svr (vl_page v2)\<rparr>)))"

definition vlapic_init :: "vlapic \<Rightarrow> vlapic option" where
  "vlapic_init v =
     vlapic_reset (v\<lparr>vl_msr_apicbase :=
       (if vl_vcpuid v = 0 then DEFAULT_APIC_BASE OR APICBASE_ENABLED OR APICBASE_BSP
        else DEFAULT_APIC_BASE OR APICBASE_ENABLED)\<rparr>)"

subsection \<open>Reading an updated register page\<close>

lemma upd_page_simps [simp]:
  "vl_page (upd_page f v) = f (vl_page v)" "vl_vcpuid (upd_page f v) = vl_vcpuid v"
  "vl_esr_pending (upd_page f v) = vl_esr_pending v" "vl_esr_firing (upd_page f v) = vl_esr_firing v"
  "vl_timer_fire_bt (upd_page f v) = vl_timer_fire_bt v"
  "vl_timer_freq_bt (upd_page f v) = vl_timer_freq_bt v"
  "vl_timer_period_bt (upd_page f v) = vl_timer_period_bt v"
  "vl_isrvec_stk (upd_page f v) = vl_isrvec_stk v"
  "vl_isrvec_stk_top (upd_page f v) = vl_isrvec_stk_top v"
  "vl_msr_apicbase (upd_page f v) = vl_msr_apicbase v" "vl_boot_state (upd_page f v) = vl_boot_state v"
  "vl_svr_last (upd_page f v) = vl_svr_last v" "vl_lvt_last (upd_page f v) = vl_lvt_last v"
  by (simp_all add: upd_page_def)

lemma lvt_get_put [simp]: "lvt_get l (lvt_put m x p) = (if l = m then x else lvt_get l p)"
  by (cases l; cases m) simp_all

lemma lvt_put_frame [simp]:
  "la_isr (lvt_put m x p) = la_isr p" "la_tmr (lvt_put m x p) = la_tmr p"
  "la_irr (lvt_put m x p) = la_irr p" "la_tpr (lvt_put m x p) = la_tpr p"
  "la_ppr (lvt_put m x p) = la_ppr p" "la_svr (lvt_put m x p) = la_svr p"
  "la_icr_timer (lvt_put m x p) = la_icr_timer p" "la_dcr_timer (lvt_put m x p) = la_dcr_timer p"
  "la_ldr (lvt_put m x p) = la_ldr p" "la_dfr (lvt_put m x p) = la_dfr p"
  "la_id (lvt_put m x p) = la_id p"
  by (cases m; simp)+

subsection \<open>Properties\<close>

text \<open>An entry is masked, in the page and in the copy \<open>lvt_last\<close>.\<close>

definition lvt_masked :: "vlapic \<Rightarrow> lvtptr \<Rightarrow> nat \<Rightarrow> bool" where
  "lvt_masked l p idx \<longleftrightarrow> bit (lvt_get p (vl_page l)) 16 \<and> bit (vl_lvt_last l idx) 16"

lemma mask_lvt_effect:
  assumes "vlapic_get_lvtptr off = Some p" and "lvt_off_to_idx off = Some idx"
  obtains l' where "mask_lvt p off l = Some l'" and "lvt_masked l' p idx"
    and "\<And>q k. q \<noteq> p \<Longrightarrow> k \<noteq> idx \<Longrightarrow> lvt_masked l' q k = lvt_masked l q k"
proof -
  let ?x = "(lvt_get p (vl_page l) OR APIC_LVT_M) AND lvt_write_mask off"
  let ?l = "upd_page (\<lambda>q. lvt_put p (lvt_get p q OR APIC_LVT_M) q) l"
  let ?l' = "(upd_page (lvt_put p ?x) ?l)\<lparr>vl_lvt_last := (vl_lvt_last l)(idx := ?x)\<rparr>"
  have "mask_lvt p off l = Some ?l'"
    using assms by (simp add: mask_lvt_def vlapic_lvt_write_handler_def Let_def)
  moreover have "bit ?x 16"
    by (simp add: bit_and_iff bit_or_iff lvt_write_mask_def Let_def)
  ultimately show thesis by (intro that [of ?l']) (simp_all add: lvt_masked_def)
qed

lemmas lvt_lookup = vlapic_get_lvtptr_def lvt_off_to_idx_def

text \<open>
  Masking the local vector table (done at reset and when the guest disables the APIC in software) never
  aborts, and afterwards all seven entries are masked, in the register page and in the copy
  from which interrupts are fired.
\<close>

theorem mask_lvts_masks_all:
  "\<exists>l'. vlapic_mask_lvts l = Some l' \<and> (\<forall>p. bit (lvt_get p (vl_page l')) 16)
     \<and> (\<forall>k \<le> VLAPIC_MAXLVT_INDEX. bit (vl_lvt_last l' k) 16)"
proof -
  have step: "\<exists>l'. mask_lvt p off l = Some l' \<and> lvt_masked l' p idx
      \<and> (\<forall>q k. q \<noteq> p \<and> k \<noteq> idx \<longrightarrow> lvt_masked l' q k = lvt_masked l q k)"
    if "vlapic_get_lvtptr off = Some p" "lvt_off_to_idx off = Some idx" for p off idx l
    by (rule mask_lvt_effect [OF that, of l]) blast
  note steps = step [of APIC_OFFSET_CMCI_LVT LVT_CMCI APIC_LVT_CMCI l]
    step [of APIC_OFFSET_TIMER_LVT LVT_TIMER APIC_LVT_TIMER] step [of APIC_OFFSET_THERM_LVT LVT_THERMAL APIC_LVT_THERMAL]
    step [of APIC_OFFSET_PERF_LVT LVT_PCINT APIC_LVT_PMC] step [of APIC_OFFSET_LINT0_LVT LVT_LINT0 APIC_LVT_LINT0]
    step [of APIC_OFFSET_LINT1_LVT LVT_LINT1 APIC_LVT_LINT1] step [of APIC_OFFSET_ERROR_LVT LVT_ERROR APIC_LVT_ERROR]
  note S = steps [simplified lvt_lookup, simplified]
  obtain a where a: "mask_lvt LVT_CMCI APIC_OFFSET_CMCI_LVT l = Some a" "lvt_masked a LVT_CMCI 6" using S(1) by blast
  obtain b where b: "mask_lvt LVT_TIMER APIC_OFFSET_TIMER_LVT a = Some b" "lvt_masked b LVT_TIMER 2"
    "lvt_masked b LVT_CMCI 6" using S(2) [of a] a(2) by auto
  obtain c where c: "mask_lvt LVT_THERMAL APIC_OFFSET_THERM_LVT b = Some c" "lvt_masked c LVT_THERMAL 5"
    "lvt_masked c LVT_TIMER 2" "lvt_masked c LVT_CMCI 6" using S(3) [of b] b(2-) by auto
  obtain d where d: "mask_lvt LVT_PCINT APIC_OFFSET_PERF_LVT c = Some d" "lvt_masked d LVT_PCINT 4"
    "lvt_masked d LVT_THERMAL 5" "lvt_masked d LVT_TIMER 2" "lvt_masked d LVT_CMCI 6" using S(4) [of c] c(2-) by auto
  obtain e where e: "mask_lvt LVT_LINT0 APIC_OFFSET_LINT0_LVT d = Some e" "lvt_masked e LVT_LINT0 0" "lvt_masked e LVT_PCINT 4"
    "lvt_masked e LVT_THERMAL 5" "lvt_masked e LVT_TIMER 2" "lvt_masked e LVT_CMCI 6" using S(5) [of d] d(2-) by auto
  obtain f where f: "mask_lvt LVT_LINT1 APIC_OFFSET_LINT1_LVT e = Some f" "lvt_masked f LVT_LINT1 1" "lvt_masked f LVT_LINT0 0"
    "lvt_masked f LVT_PCINT 4" "lvt_masked f LVT_THERMAL 5" "lvt_masked f LVT_TIMER 2" "lvt_masked f LVT_CMCI 6"
    using S(6) [of e] e(2-) by auto
  obtain g where g: "mask_lvt LVT_ERROR APIC_OFFSET_ERROR_LVT f = Some g" "lvt_masked g LVT_ERROR 3" "lvt_masked g LVT_LINT1 1"
    "lvt_masked g LVT_LINT0 0" "lvt_masked g LVT_PCINT 4" "lvt_masked g LVT_THERMAL 5" "lvt_masked g LVT_TIMER 2"
    "lvt_masked g LVT_CMCI 6" using S(7) [of f] f(2-) by auto
  have "vlapic_mask_lvts l = Some g" using a(1) b(1) c(1) d(1) e(1) f(1) g(1) by (simp add: vlapic_mask_lvts_def)
  moreover have "bit (lvt_get p (vl_page g)) 16" for p using g(2-) by (cases p) (simp_all add: lvt_masked_def)
  moreover have "bit (vl_lvt_last g k) 16" if "k \<le> VLAPIC_MAXLVT_INDEX" for k
  proof -
    have "k \<in> {0, 1, 2, 3, 4, 5, 6}" using that by auto
    then show ?thesis using g(2-) by (auto simp: lvt_masked_def)
  qed
  ultimately show ?thesis by blast
qed

theorem mask_lvts_masks_all_witness:
  "\<exists>l'. vlapic_mask_lvts (vlapic_calloc 0) = Some l' \<and> bit (lvt_get LVT_TIMER (vl_page l')) 16
     \<and> bit (vl_lvt_last l' APIC_LVT_TIMER) 16"
proof -
  obtain l' where "vlapic_mask_lvts (vlapic_calloc 0) = Some l'" "\<forall>p. bit (lvt_get p (vl_page l')) 16"
    "\<forall>k \<le> VLAPIC_MAXLVT_INDEX. bit (vl_lvt_last l' k) 16" using mask_lvts_masks_all by blast
  then have "bit (lvt_get LVT_TIMER (vl_page l')) 16 \<and> bit (vl_lvt_last l' 2) 16"
    by (simp del: lvt_get.simps)
  then show ?thesis using \<open>vlapic_mask_lvts _ = _\<close> by blast
qed



end
