(* ===== verification/Vlapic_Isr.thy ===== *)
theory Vlapic_Isr
  imports Vlapic
begin

text \<open>
  Correctness of the interrupt priority machinery of one local APIC. The self-checks of
  \<open>vlapic_update_ppr\<close> end the process when the in-service register and the vector stack
  disagree; the invariant \<open>isr_inv\<close> shows that no sequence of acceptances, ends of interrupt,
  priority changes and incoming requests ever gets there, and that the sixteen priority
  classes keep the stack inside its array.
\<close>

subsection \<open>Scanning the 256-bit registers\<close>

lemma vec_bit_iff: "vec_bit r vector \<longleftrightarrow> bit (r (vector div 32)) (vector mod 32)"
  by (simp add: vec_bit_def)

lemma vec_bit_set:
  "vec_bit (r(n div 32 := r (n div 32) OR BIT (n mod 32))) m \<longleftrightarrow> vec_bit r m \<or> m = n"
  by (auto simp: vec_bit_iff bit_or_BIT) (metis div_mult_mod_eq)+

lemma vec_bit_clear:
  "vec_bit (r(n div 32 := r (n div 32) AND NOT (BIT (n mod 32)))) m \<longleftrightarrow> vec_bit r m \<and> m \<noteq> n"
  by (auto simp: vec_bit_iff bit_clear_BIT) (metis div_mult_mod_eq)+

definition vectors_of :: "(nat \<Rightarrow> u32) \<Rightarrow> nat list" where
  "vectors_of r = filter (vec_bit r) [0..<256]"

lemma sorted_vectors_of [simp]: "sorted_wrt (<) (vectors_of r)"
  by (simp add: vectors_of_def sorted_wrt_filter)

lemma set_vectors_of [simp]: "set (vectors_of r) = {v. v < 256 \<and> vec_bit r v}"
  by (auto simp: vectors_of_def)

lemma scan_regs_None_iff: "scan_regs r n = None \<longleftrightarrow> (\<forall>v < 32 * n. \<not> vec_bit r v)"
proof (induction n)
  case (Suc n)
  show ?case
  proof (cases "fls (r n)")
    case 0
    then have "r n = 0" by simp
    then have "\<not> vec_bit r v" if "32 * n \<le> v" "v < 32 * Suc n" for v
    proof -
      have "v div 32 = n" using that by (auto simp: div_nat_eqI)
      then show ?thesis using \<open>r n = 0\<close> by (simp add: vec_bit_iff)
    qed
    then show ?thesis using 0 Suc.IH by (simp, meson not_less trans_less_add2)
  next
    case (Suc b)
    then have "bit (r n) b" by (rule fls_SucD)
    then have "b < 32" by (auto dest: bit_imp_le_length)
    then have "vec_bit r (n * 32 + b)" using \<open>bit (r n) b\<close> by (simp add: vec_bit_iff)
    then show ?thesis using Suc \<open>b < 32\<close>
      by (auto intro!: exI [of _ "n * 32 + b"])
  qed
qed simp

lemma scan_regs_SomeD:
  assumes "scan_regs r n = Some v"
  shows "v < 32 * n \<and> vec_bit r v \<and> (\<forall>w < 32 * n. vec_bit r w \<longrightarrow> w \<le> v)"
  using assms
proof (induction n)
  case (Suc n)
  show ?case
  proof (cases "fls (r n)")
    case 0
    then have "r n = 0" by simp
    have *: "w < 32 * n" if "w < 32 * Suc n" "vec_bit r w" for w
    proof (rule ccontr)
      assume "\<not> w < 32 * n"
      then have "w div 32 = n" using that by (auto simp: div_nat_eqI)
      then show False using \<open>r n = 0\<close> that by (simp add: vec_bit_iff)
    qed
    then have "v < 32 * n \<and> vec_bit r v \<and> (\<forall>w < 32 * n. vec_bit r w \<longrightarrow> w \<le> v)"
      using 0 Suc by simp
    then show ?thesis using * by auto
  next
    case (Suc b)
    then have "bit (r n) b" and hi: "\<And>j. b < j \<Longrightarrow> \<not> bit (r n) j" by (auto dest: fls_SucD)
    then have "b < 32" by (auto dest: bit_imp_le_length)
    have v: "v = n * 32 + b" using Suc Suc.prems by simp
    have "w \<le> v" if "w < 32 * Suc n" "vec_bit r w" for w
    proof (rule ccontr)
      assume "\<not> w \<le> v"
      then have w: "w div 32 = n" using v \<open>b < 32\<close> that by auto
      moreover have "w = 32 * (w div 32) + w mod 32" by simp
      ultimately have "b < w mod 32" using v \<open>\<not> w \<le> v\<close> by linarith
      with w show False using hi that by (auto simp: vec_bit_iff)
    qed
    then show ?thesis using v \<open>b < 32\<close> \<open>bit (r n) b\<close> by (auto simp: vec_bit_iff)
  qed
qed simp

lemma scan_regs_last:
  "scan_regs r 8 = (if vectors_of r = [] then None else Some (last (vectors_of r)))"
proof (cases "scan_regs r 8")
  case None
  then have "set (vectors_of r) = {}" by (auto simp: scan_regs_None_iff)
  then show ?thesis using None by (simp only: set_empty) simp
next
  case (Some v)
  note v = scan_regs_SomeD [OF Some]
  then have mem: "v \<in> set (vectors_of r)" by simp
  then have ne: "vectors_of r \<noteq> []" by (metis empty_iff list.set(1))
  have "last (vectors_of r) \<in> set (vectors_of r)" using ne by (rule last_in_set)
  then have "last (vectors_of r) \<le> v" using v by auto
  moreover have "v \<le> last (vectors_of r)"
    using mem by (rule sorted_wrt_less_le_last [OF sorted_vectors_of])
  ultimately show ?thesis using Some ne by simp
qed

subsection \<open>The two self-checks\<close>

lemma prio_check_iff:
  "prio_check l xs \<longleftrightarrow> sorted_wrt (<) (map (\<lambda>x. uint (PRIO x)) xs) \<and> (\<forall>x\<in>set xs. l < uint (PRIO x))"
  by (induction xs arbitrary: l) auto

lemma isr_sync_check_exact:
  assumes "filter (vec_bit (la_isr (vl_page v))) vs
     = map (\<lambda>k. unat (vl_isrvec_stk v k)) [i..<Suc (vl_isrvec_stk_top v)]"
  shows "isr_sync_check v i vs"
  using assms
proof (induction vs arbitrary: i)
  case (Cons a vs)
  show ?case
  proof (cases "vec_bit (la_isr (vl_page v)) a")
    case True
    with Cons.prems have ne: "[i..<Suc (vl_isrvec_stk_top v)] \<noteq> []" by (auto simp del: upt_Suc)
    then have "i \<le> vl_isrvec_stk_top v" by (simp split: if_splits)
    then have "[i..<Suc (vl_isrvec_stk_top v)] = i # [Suc i..<Suc (vl_isrvec_stk_top v)]"
      by (simp add: upt_conv_Cons del: upt_Suc)
    with Cons.prems True have "unat (vl_isrvec_stk v i) = a"
      and "filter (vec_bit (la_isr (vl_page v))) vs
           = map (\<lambda>k. unat (vl_isrvec_stk v k)) [Suc i..<Suc (vl_isrvec_stk_top v)]"
      by (simp_all del: upt_Suc)
    with Cons.IH [of "Suc i"] \<open>i \<le> vl_isrvec_stk_top v\<close> True show ?thesis by simp
  qed (use Cons in simp)
qed simp

subsection \<open>The invariant\<close>

definition in_service :: "vlapic \<Rightarrow> nat list" where
  "in_service v = vectors_of (la_isr (vl_page v))"

definition isr_stack_ok :: "vlapic \<Rightarrow> bool" where
  "isr_stack_ok v \<longleftrightarrow>
     vl_isrvec_stk v 0 = 0 \<and> map unat (stk_vectors v) = in_service v
     \<and> sorted_wrt (\<lambda>x y. x div 16 < y div 16) (in_service v) \<and> (\<forall>x\<in>set (in_service v). 16 \<le> x)
     \<and> la_tpr (vl_page v) < 256"

definition top_vector :: "vlapic \<Rightarrow> nat" where
  "top_vector v = (if in_service v = [] then 0 else last (in_service v))"

definition ppr_ok :: "vlapic \<Rightarrow> bool" where
  "ppr_ok v \<longleftrightarrow> unat (PRIO (la_ppr (vl_page v)))
     = max (unat (PRIO (la_tpr (vl_page v)))) (top_vector v div 16)"

definition isr_inv :: "vlapic \<Rightarrow> bool" where
  "isr_inv v \<longleftrightarrow> isr_stack_ok v \<and> ppr_ok v"

lemma length_stk_vectors [simp]: "length (stk_vectors v) = vl_isrvec_stk_top v"
  by (simp add: stk_vectors_def del: upt_Suc)

lemma top_of_stack:
  assumes "isr_stack_ok v"
  shows "unat (vl_isrvec_stk v (vl_isrvec_stk_top v)) = top_vector v"
proof (cases "vl_isrvec_stk_top v")
  case 0
  with assms have "in_service v = []"
    by (metis isr_stack_ok_def length_0_conv length_map length_stk_vectors)
  with 0 assms show ?thesis by (simp add: isr_stack_ok_def top_vector_def)
next
  case (Suc n)
  then have "stk_vectors v = map (vl_isrvec_stk v) [1..<Suc n] @ [vl_isrvec_stk v (Suc n)]"
    by (simp add: stk_vectors_def)
  moreover have e: "in_service v = map unat (stk_vectors v)" using assms by (simp add: isr_stack_ok_def)
  ultimately have "in_service v = map unat (map (vl_isrvec_stk v) [1..<Suc n]) @ [unat (vl_isrvec_stk v (Suc n))]"
    by simp
  then show ?thesis using Suc by (simp add: top_vector_def)
qed

lemma unat_PRIO: "unat (PRIO x) = unat x div 16"
  by (simp add: PRIO_def unat_drop_bit_div)

lemma uint_PRIO: "uint (PRIO x) = int (unat x div 16)"
  by (simp only: uint_nat unat_PRIO)

lemma PRIO_high_nibble: "PRIO (x AND 0xf0 :: u8) = PRIO x"
proof -
  have m: "bit (15 :: u8) n" if "bit x (4 + n)" for n
  proof -
    have "n < 4" using bit_imp_le_length [OF that] by simp
    moreover have "(15 :: u8) = mask 4" by (simp add: mask_eq_exp_minus_1)
    ultimately show ?thesis by (simp only: bit_mask_iff possible_bit_word) simp
  qed
  have "PRIO (x AND 0xf0) = drop_bit 4 x AND 15" by (simp add: PRIO_def)
  also have "\<dots> = PRIO x"
    unfolding PRIO_def by (rule bit_word_eqI) (simp only: bit_and_iff bit_drop_bit_eq o_def m simp_thms, blast intro: m)
  finally show ?thesis .
qed

text \<open>Sixteen priority classes, of which class 0 is never in service: at most 15 nested vectors.\<close>

lemma sorted_classes_length:
  assumes "sorted_wrt (\<lambda>x y. x div 16 < y div 16) xs" and "\<forall>x\<in>set xs. 16 \<le> x \<and> x < (256::nat)"
  shows "length xs \<le> 15"
proof -
  have "sorted_wrt (<) (map (\<lambda>x. x div 16) xs)" using assms(1) by (simp add: sorted_wrt_map)
  then have d: "distinct (map (\<lambda>x. x div 16) xs)" using strict_sorted_iff by blast
  have "set (map (\<lambda>x. x div 16) xs) \<subseteq> {1..<16}"
    using assms(2) by (fastforce simp: div_greater_zero_iff Suc_le_eq intro: less_mult_imp_div_less)
  then have "card (set (map (\<lambda>x. x div 16) xs)) \<le> card {1..<16::nat}" by (rule card_mono [rotated]) simp
  then show ?thesis using distinct_card [OF d] by simp
qed

lemma isr_stack_bound:
  assumes "isr_stack_ok v"
  shows "vl_isrvec_stk_top v \<le> 15"
proof -
  have "length (in_service v) \<le> 15"
    using assms by (intro sorted_classes_length) (auto simp: isr_stack_ok_def in_service_def)
  moreover have "length (in_service v) = vl_isrvec_stk_top v"
    using assms by (metis isr_stack_ok_def length_map length_stk_vectors)
  ultimately show ?thesis by simp
qed

lemma update_ppr_ok:
  assumes "isr_stack_ok v"
  obtains w where "vlapic_update_ppr v = Some (upd_page (\<lambda>p. p\<lparr>la_ppr := w\<rparr>) v)"
    and "isr_inv (upd_page (\<lambda>p. p\<lparr>la_ppr := w\<rparr>) v)"
proof -
  let ?top = "vl_isrvec_stk v (vl_isrvec_stk_top v)"
  let ?tpr = "la_tpr (vl_page v)"
  let ?w = "if PRIO ?tpr \<ge> PRIO (ucast ?top) then ?tpr else ucast (?top AND 0xf0)"
  note A = assms [unfolded isr_stack_ok_def]
  have "sorted_wrt (\<lambda>x y. x div 16 < y div 16) (map unat (stk_vectors v))"
    using A by simp
  then have "prio_check (-1) (stk_vectors v)"
    by (simp add: prio_check_iff sorted_wrt_map uint_PRIO)
  moreover have "isr_sync_check v 1 [0..<256]"
    using A by (intro isr_sync_check_exact) (simp add: in_service_def vectors_of_def stk_vectors_def comp_def
        del: upt_Suc)
  moreover have "\<not> (vl_isrvec_stk_top v = 0 \<and> ?top \<noteq> 0)"
    using A by (cases "vl_isrvec_stk_top v = 0") auto
  ultimately have u: "vlapic_update_ppr v = Some (upd_page (\<lambda>p. p\<lparr>la_ppr := ?w\<rparr>) v)"
    unfolding vlapic_update_ppr_def Let_def by simp
  have t: "unat ?top div 16 = top_vector v div 16" using top_of_stack [OF assms] by simp
  have m: "unat (PRIO (ucast (?top AND 0xf0) :: u32)) = unat ?top div 16"
  proof -
    have "PRIO (?top AND 0xf0) = PRIO ?top" by (rule PRIO_high_nibble)
    then have "unat (?top AND 0xf0) div 16 = unat ?top div 16" by (metis unat_PRIO)
    then show ?thesis by (simp add: unat_PRIO)
  qed
  have "ppr_ok (upd_page (\<lambda>p. p\<lparr>la_ppr := ?w\<rparr>) v)"
    using m t by (auto simp: ppr_ok_def top_vector_def in_service_def word_le_nat_alt unat_PRIO
        max_def)
  moreover have "isr_stack_ok (upd_page (\<lambda>p. p\<lparr>la_ppr := ?w\<rparr>) v)"
    using A by (simp add: isr_stack_ok_def in_service_def stk_vectors_def)
  ultimately show thesis using u by (intro that [of ?w]) (simp_all add: isr_inv_def)
qed

subsection \<open>Accepting, ending and masking\<close>

lemma vectors_of_set_last:
  assumes "n < 256" and "\<forall>x\<in>set (vectors_of r). x < n"
  shows "vectors_of (r(n div 32 := r (n div 32) OR BIT (n mod 32))) = vectors_of r @ [n]"
  using assms by (intro sorted_wrt_less_unique) (auto simp: sorted_wrt_append vec_bit_set)

lemma vectors_of_clear_last:
  assumes "vectors_of r = xs @ [n]"
  shows "vectors_of (r(n div 32 := r (n div 32) AND NOT (BIT (n mod 32)))) = xs"
proof (rule sorted_wrt_less_unique)
  have s: "sorted_wrt (<) (xs @ [n])" by (metis assms sorted_vectors_of)
  then show "sorted_wrt (<) xs" by (simp add: sorted_wrt_append)
  have "set (xs @ [n]) = {v. v < 256 \<and> vec_bit r v}" by (metis assms set_vectors_of)
  then show "set (vectors_of (r(n div 32 := r (n div 32) AND NOT (BIT (n mod 32))))) = set xs"
    using s by (auto simp: vec_bit_clear sorted_wrt_append)
qed simp

lemma stk_vectors_push:
  "stk_vectors (v\<lparr>vl_isrvec_stk_top := Suc (vl_isrvec_stk_top v),
      vl_isrvec_stk := (vl_isrvec_stk v)(Suc (vl_isrvec_stk_top v) := x)\<rparr>) = stk_vectors v @ [x]"
  by (simp add: stk_vectors_def)

lemma stk_vectors_pop:
  assumes "vl_isrvec_stk_top v > 0"
  shows "stk_vectors (v\<lparr>vl_isrvec_stk_top := vl_isrvec_stk_top v - 1\<rparr>) = butlast (stk_vectors v)"
proof -
  from assms obtain n where "vl_isrvec_stk_top v = Suc n" by (cases "vl_isrvec_stk_top v") auto
  then show ?thesis by (simp add: stk_vectors_def)
qed

lemma stk_vectors_upd_page [simp]: "stk_vectors (upd_page f v) = stk_vectors v"
  by (simp add: stk_vectors_def)

lemma pending_above_in_service:
  assumes "isr_inv v" and "vlapic_pending_intr v = Some vector"
  shows "16 \<le> vector" "vector < 256" "vec_bit (la_irr (vl_page v)) vector"
    "unat (la_tpr (vl_page v)) div 16 < vector div 16" "\<forall>x\<in>set (in_service v). x div 16 < vector div 16"
proof -
  from assms(2) have s: "scan_regs (la_irr (vl_page v)) 8 = Some vector"
    and p: "vector div 16 > unat (PRIO (la_ppr (vl_page v)))"
    by (auto simp: vlapic_pending_intr_def split: option.splits if_splits)
  show "16 \<le> vector" using p by (cases "16 \<le> vector") auto
  show "vector < 256" "vec_bit (la_irr (vl_page v)) vector" using scan_regs_SomeD [OF s] by simp_all
  have m: "max (unat (la_tpr (vl_page v)) div 16) (top_vector v div 16) < vector div 16"
    using p assms(1) by (simp add: isr_inv_def ppr_ok_def unat_PRIO)
  then show "unat (la_tpr (vl_page v)) div 16 < vector div 16" by simp
  show "\<forall>x\<in>set (in_service v). x div 16 < vector div 16"
  proof
    fix x assume x: "x \<in> set (in_service v)"
    then have "x \<le> last (in_service v)"
      unfolding in_service_def by (rule sorted_wrt_less_le_last [OF sorted_vectors_of])
    with x m show "x div 16 < vector div 16"
      by (auto simp: top_vector_def split: if_splits intro: le_less_trans [OF div_le_mono])
  qed
qed

lemma intr_accepted_inv:
  assumes inv: "isr_inv v" and pend: "vlapic_pending_intr v = Some vector"
  obtains v' where "vlapic_intr_accepted vector v = Some v'" and "isr_inv v'"
    and "in_service v' = in_service v @ [vector]"
    and "\<And>x. vec_bit (la_irr (vl_page v')) x \<longleftrightarrow> vec_bit (la_irr (vl_page v)) x \<and> x \<noteq> vector"
proof -
  note P = pending_above_in_service [OF inv pend]
  note A = inv [unfolded isr_inv_def, THEN conjunct1]
  let ?idx = "vector div 32" and ?m = "BIT (vector mod 32) :: u32"
  let ?v1 = "upd_page (\<lambda>p. p\<lparr>la_irr := (la_irr p)(?idx := la_irr p ?idx AND NOT ?m),
                            la_isr := (la_isr p)(?idx := la_isr p ?idx OR ?m)\<rparr>) v"
  let ?v2 = "?v1\<lparr>vl_isrvec_stk_top := Suc (vl_isrvec_stk_top v),
                 vl_isrvec_stk := (vl_isrvec_stk v)(Suc (vl_isrvec_stk_top v) := of_nat vector)\<rparr>"
  have lt: "\<forall>x\<in>set (vectors_of (la_isr (vl_page v))). x < vector"
    using P(5) by (metis in_service_def div_le_mono leD not_le_imp_less)
  have is2: "in_service ?v2 = in_service v @ [vector]"
    using vectors_of_set_last [OF P(2) lt] by (simp add: in_service_def)
  have stk2: "stk_vectors ?v2 = stk_vectors v @ [of_nat vector]"
    using stk_vectors_push [of ?v1] by simp
  have "isr_stack_ok ?v2"
    unfolding isr_stack_ok_def is2 stk2 using A P
    by (auto simp: isr_stack_ok_def sorted_wrt_append unat_of_nat)
  then obtain w where w: "vlapic_update_ppr ?v2 = Some (upd_page (\<lambda>p. p\<lparr>la_ppr := w\<rparr>) ?v2)"
    "isr_inv (upd_page (\<lambda>p. p\<lparr>la_ppr := w\<rparr>) ?v2)" by (rule update_ppr_ok)
  have acc: "vlapic_intr_accepted vector v = Some (upd_page (\<lambda>p. p\<lparr>la_ppr := w\<rparr>) ?v2)"
    using w(1) isr_stack_bound [OF A] by (simp add: vlapic_intr_accepted_def Let_def)
  show thesis
  proof (rule that [OF acc w(2)])
    show "in_service (upd_page (\<lambda>p. p\<lparr>la_ppr := w\<rparr>) ?v2) = in_service v @ [vector]"
      using is2 by (simp add: in_service_def)
  qed (simp add: vec_bit_clear)
qed

lemma eoi_local_inv:
  assumes inv: "isr_inv v"
  obtains v' vec lvl where "eoi_local v = Some (v', vec, lvl)" and "isr_inv v'"
    and "vec = (if in_service v = [] then None else Some (last (in_service v)))"
    and "in_service v' = butlast (in_service v)"
    and "la_irr (vl_page v') = la_irr (vl_page v)"
    and "lvl \<longleftrightarrow> in_service v \<noteq> [] \<and> vec_bit (la_tmr (vl_page v)) (last (in_service v))"
proof (cases "in_service v = []")
  case True
  then have "eoi_local v = Some (v, None, False)"
    by (simp add: eoi_local_def scan_regs_last in_service_def)
  with True inv show thesis by (intro that [of v None False]) auto
next
  case False
  define n where "n = last (in_service v)"
  then have snoc: "in_service v = butlast (in_service v) @ [n]" using False by simp
  note A = inv [unfolded isr_inv_def, THEN conjunct1]
  let ?idx = "n div 32" and ?m = "BIT (n mod 32) :: u32"
  let ?v1 = "upd_page (\<lambda>p. p\<lparr>la_isr := (la_isr p)(?idx := la_isr p ?idx AND NOT ?m)\<rparr>) v"
  let ?v2 = "?v1\<lparr>vl_isrvec_stk_top := vl_isrvec_stk_top v - 1\<rparr>"
  have scan: "scan_regs (la_isr (vl_page v)) 8 = Some n"
    using False by (simp add: scan_regs_last in_service_def n_def)
  have top: "vl_isrvec_stk_top v > 0"
    using A False by (metis isr_stack_ok_def length_greater_0_conv length_map length_stk_vectors)
  have is2: "in_service ?v2 = butlast (in_service v)"
    using vectors_of_clear_last [OF snoc [unfolded in_service_def]] by (simp add: in_service_def)
  have stk2: "stk_vectors ?v2 = butlast (stk_vectors v)"
    using stk_vectors_pop [of ?v1] top by simp
  have "isr_stack_ok ?v2"
    unfolding isr_stack_ok_def is2 stk2 using A snoc
    by (auto simp: isr_stack_ok_def map_butlast dest: in_set_butlastD)
       (metis sorted_wrt_append)
  then obtain w where w: "vlapic_update_ppr ?v2 = Some (upd_page (\<lambda>p. p\<lparr>la_ppr := w\<rparr>) ?v2)"
    "isr_inv (upd_page (\<lambda>p. p\<lparr>la_ppr := w\<rparr>) ?v2)" by (rule update_ppr_ok)
  have "eoi_local v = Some (upd_page (\<lambda>p. p\<lparr>la_ppr := w\<rparr>) ?v2, Some n, vec_bit (la_tmr (vl_page v)) n)"
    using w(1) top by (simp add: eoi_local_def scan Let_def)
  from that [OF this w(2)] show thesis using False is2 by (simp add: n_def in_service_def)
qed

lemma set_tpr_inv:
  assumes inv: "isr_inv v"
  obtains v' where "vlapic_set_tpr v val = Some v'" and "isr_inv v'"
    and "la_tpr (vl_page v') = ucast val" and "in_service v' = in_service v"
    and "la_irr (vl_page v') = la_irr (vl_page v)"
proof (cases "la_tpr (vl_page v) = ucast val")
  case True
  then show thesis using inv by (intro that [of v]) (simp_all add: vlapic_set_tpr_def)
next
  case False
  let ?v = "upd_page (\<lambda>p. p\<lparr>la_tpr := ucast val\<rparr>) v"
  have "isr_stack_ok ?v" using inv
    by (auto simp: isr_inv_def isr_stack_ok_def in_service_def word_less_nat_alt
        intro: less_le_trans [OF unsigned_less])
  then obtain w where w: "vlapic_update_ppr ?v = Some (upd_page (\<lambda>p. p\<lparr>la_ppr := w\<rparr>) ?v)"
    "isr_inv (upd_page (\<lambda>p. p\<lparr>la_ppr := w\<rparr>) ?v)" by (rule update_ppr_ok)
  with False show thesis
    by (intro that [of "upd_page (\<lambda>p. p\<lparr>la_ppr := w\<rparr>) ?v"]) (simp_all add: vlapic_set_tpr_def in_service_def)
qed

text \<open>Whatever leaves the stack, the ISR and the two priority registers alone keeps the invariant.\<close>

definition isr_frame :: "vlapic \<Rightarrow> vlapic \<Rightarrow> bool" where
  "isr_frame v v' \<longleftrightarrow> vl_isrvec_stk v' = vl_isrvec_stk v \<and> vl_isrvec_stk_top v' = vl_isrvec_stk_top v
     \<and> la_isr (vl_page v') = la_isr (vl_page v) \<and> la_tpr (vl_page v') = la_tpr (vl_page v)
     \<and> la_ppr (vl_page v') = la_ppr (vl_page v)"

lemma isr_frame_inv: "isr_frame v v' \<Longrightarrow> isr_inv v \<Longrightarrow> isr_inv v'"
  by (simp add: isr_frame_def isr_inv_def isr_stack_ok_def ppr_ok_def top_vector_def in_service_def
      stk_vectors_def)

lemma isr_frame_refl [simp]: "isr_frame v v"
  by (simp add: isr_frame_def)

lemma isr_frame_trans: "isr_frame a b \<Longrightarrow> isr_frame b c \<Longrightarrow> isr_frame a c"
  by (simp add: isr_frame_def)

text \<open>A local APIC with nothing in service.\<close>

lemma isr_inv_zero:
  assumes "vl_isrvec_stk l = (\<lambda>_. 0)" and "vl_isrvec_stk_top l = 0" and "la_isr (vl_page l) = (\<lambda>_. 0)"
    and "la_tpr (vl_page l) = 0" and "la_ppr (vl_page l) = 0"
  shows "isr_inv l"
proof -
  have "in_service l = []" by (simp add: in_service_def vectors_of_def vec_bit_iff assms)
  then show ?thesis using assms
    by (simp add: isr_inv_def isr_stack_ok_def ppr_ok_def top_vector_def stk_vectors_def PRIO_def)
qed

subsection \<open>Properties\<close>

text \<open>
  C23. The vector \<open>vlapic_pending_intr\<close> offers to the processor is the greatest one requested in the IRR,
  and it offers it exactly when its priority class is above the class of the processor priority.
\<close>

theorem pending_intr_is_highest:
  "vlapic_pending_intr l = Some vector \<longleftrightarrow>
     vector < 256 \<and> vec_bit (la_irr (vl_page l)) vector
     \<and> (\<forall>w < 256. vec_bit (la_irr (vl_page l)) w \<longrightarrow> w \<le> vector)
     \<and> unat (la_ppr (vl_page l)) div 16 < vector div 16"
proof
  assume "vlapic_pending_intr l = Some vector"
  then have "scan_regs (la_irr (vl_page l)) 8 = Some vector" "unat (la_ppr (vl_page l)) div 16 < vector div 16"
    by (auto simp: vlapic_pending_intr_def unat_PRIO split: option.splits if_splits)
  then show "vector < 256 \<and> vec_bit (la_irr (vl_page l)) vector
     \<and> (\<forall>w < 256. vec_bit (la_irr (vl_page l)) w \<longrightarrow> w \<le> vector)
     \<and> unat (la_ppr (vl_page l)) div 16 < vector div 16"
    using scan_regs_SomeD [of "la_irr (vl_page l)" 8 vector] by simp
next
  assume R: "vector < 256 \<and> vec_bit (la_irr (vl_page l)) vector
     \<and> (\<forall>w < 256. vec_bit (la_irr (vl_page l)) w \<longrightarrow> w \<le> vector)
     \<and> unat (la_ppr (vl_page l)) div 16 < vector div 16"
  then obtain w where w: "scan_regs (la_irr (vl_page l)) 8 = Some w"
    using scan_regs_None_iff [of "la_irr (vl_page l)" 8] by fastforce
  then have "w = vector" using scan_regs_SomeD [OF w] R by (auto intro: le_antisym)
  then show "vlapic_pending_intr l = Some vector" using w R by (simp add: vlapic_pending_intr_def unat_PRIO)
qed

theorem pending_intr_is_highest_witness:
  "vec_bit (la_irr (vl_page (upd_page (\<lambda>p. p\<lparr>la_irr := (\<lambda>_. 0)(1 := BIT 17 OR BIT 3)\<rparr>) (vlapic_calloc 0)))) 35
   \<and> vlapic_pending_intr (upd_page (\<lambda>p. p\<lparr>la_irr := (\<lambda>_. 0)(1 := BIT 17 OR BIT 3)\<rparr>) (vlapic_calloc 0)) \<noteq> Some 35"
proof -
  let ?l = "upd_page (\<lambda>p. p\<lparr>la_irr := (\<lambda>_. 0)(1 := BIT 17 OR BIT 3)\<rparr>) (vlapic_calloc 0)"
  have b: "vec_bit (la_irr (vl_page ?l)) 49" "vec_bit (la_irr (vl_page ?l)) 35" by code_simp+
  have less_256: "(49 :: nat) < 256" by simp
  have False if "vlapic_pending_intr ?l = Some 35"
  proof -
    have "\<forall>w < 256. vec_bit (la_irr (vl_page ?l)) w \<longrightarrow> w \<le> 35"
      using iffD1 [OF pending_intr_is_highest that] by (elim conjE)
    then have "(49 :: nat) \<le> 35" using b(1) by (blast intro: less_256)
    then show False by simp
  qed
  with b show ?thesis by blast
qed

text \<open>
  C5. Accepting the pending vector and ending its service. Acceptance never aborts: it moves the vector
  from the IRR to the ISR, on top of the stack. The next end of interrupt never aborts either: it
  retires that very vector, leaves the vectors that were in service before, and keeps the invariant.
\<close>

theorem accept_then_eoi:
  assumes "isr_inv l" and "vlapic_pending_intr l = Some vector"
  shows "\<exists>l1 l2 lvl. vlapic_intr_accepted vector l = Some l1 \<and> isr_inv l1
     \<and> in_service l1 = in_service l @ [vector] \<and> \<not> vec_bit (la_irr (vl_page l1)) vector
     \<and> eoi_local l1 = Some (l2, Some vector, lvl) \<and> isr_inv l2 \<and> in_service l2 = in_service l"
proof -
  obtain l1 where l1: "vlapic_intr_accepted vector l = Some l1" "isr_inv l1"
    "in_service l1 = in_service l @ [vector]" "\<not> vec_bit (la_irr (vl_page l1)) vector"
    by (rule intr_accepted_inv [OF assms]) blast
  obtain l2 vec lvl where l2: "eoi_local l1 = Some (l2, vec, lvl)" "isr_inv l2"
    "vec = (if in_service l1 = [] then None else Some (last (in_service l1)))"
    "in_service l2 = butlast (in_service l1)"
    by (rule eoi_local_inv [OF l1(2)]) blast
  then show ?thesis using l1 by simp
qed

theorem accept_then_eoi_witness:
  "\<exists>l1 l2 lvl. vlapic_intr_accepted 49 (upd_page (\<lambda>p. p\<lparr>la_irr := (\<lambda>_. 0)(1 := BIT 17)\<rparr>) (vlapic_calloc 0)) = Some l1
     \<and> in_service l1 = [49] \<and> eoi_local l1 = Some (l2, Some 49, lvl) \<and> in_service l2 = []"
proof -
  let ?l = "upd_page (\<lambda>p. p\<lparr>la_irr := (\<lambda>_. 0)(1 := BIT 17)\<rparr>) (vlapic_calloc 0)"
  have inv: "isr_inv ?l" by (rule isr_inv_zero) (simp_all add: vlapic_calloc_def lapic_bzero_def)
  have "vlapic_pending_intr ?l = Some 49" by code_simp
  moreover have "in_service ?l = []"
    by (simp add: in_service_def vectors_of_def vec_bit_iff vlapic_calloc_def lapic_bzero_def)
  ultimately show ?thesis using accept_then_eoi [OF inv] by fastforce
qed

text \<open>
  Writing the task priority register never aborts; it sets the register, leaves the requested and
  in-service vectors alone, and afterwards only vectors whose class is above both the new
  task priority and every vector in service are offered to the processor.
\<close>

theorem set_tpr_gates_delivery:
  assumes "isr_inv l"
  shows "\<exists>l'. vlapic_set_tpr l val = Some l' \<and> isr_inv l' \<and> vlapic_get_tpr l' = val
     \<and> in_service l' = in_service l \<and> la_irr (vl_page l') = la_irr (vl_page l)
     \<and> (\<forall>vector. vlapic_pending_intr l' = Some vector \<longrightarrow>
          unat val div 16 < vector div 16 \<and> (\<forall>x\<in>set (in_service l). x div 16 < vector div 16))"
proof -
  obtain l' where l': "vlapic_set_tpr l val = Some l'" "isr_inv l'" "la_tpr (vl_page l') = ucast val"
    "in_service l' = in_service l" "la_irr (vl_page l') = la_irr (vl_page l)"
    by (rule set_tpr_inv [OF assms]) blast
  have "vlapic_get_tpr l' = val"
    by (rule bit_word_eqI) (simp add: vlapic_get_tpr_def l'(3) bit_ucast_iff)
  moreover have "unat val div 16 < vector div 16 \<and> (\<forall>x\<in>set (in_service l). x div 16 < vector div 16)"
    if "vlapic_pending_intr l' = Some vector" for vector
    using pending_above_in_service [OF l'(2) that] l'(3,4) by simp
  ultimately show ?thesis using l' by blast
qed

theorem set_tpr_gates_delivery_witness:
  "\<exists>l'. vlapic_set_tpr (vlapic_calloc 3) 0x50 = Some l' \<and> vlapic_get_tpr l' = 0x50"
proof -
  have "isr_inv (vlapic_calloc 3)" by (rule isr_inv_zero) (simp_all add: vlapic_calloc_def lapic_bzero_def)
  then show ?thesis using set_tpr_gates_delivery [of "vlapic_calloc 3" "0x50"] by blast
qed

end
