(* ===== verification/Vlapic_Deliver.thy ===== *)
theory Vlapic_Deliver
  imports Vlapic_Isr
begin

text \<open>
  Interrupt delivery: the notification of a vcpu and the pending-event flags of
  \<open>src/vmm/vmm.c\<close>, the local interrupt sources and destination decoding of
  \<open>src/vmm/io/vlapic.c\<close>, and the entry points of \<open>src/vmm/vmm_lapic.c\<close>. These operations
  take the whole machine: an interrupt raised on one device ends in the request register of
  another vcpu's local APIC. Vcpu numbers are natural numbers, so the tests \<open>vcpuid < 0\<close> of
  the source have no counterpart except where a signed number is an argument.
\<close>

subsection \<open>Events of a vcpu (\<open>vmm.c\<close>)\<close>

definition add_host_call :: "host_call \<Rightarrow> vm \<Rightarrow> vm" where
  "add_host_call c v = v\<lparr>vm_host_calls := vm_host_calls v @ [c]\<rparr>"

definition vcpu_notify_event :: "nat \<Rightarrow> vm \<Rightarrow> vm" where
  "vcpu_notify_event vcpuid v =
     (if vc_state (vm_vcpu v vcpuid) = VCPU_RUNNING then add_host_call (HV_VCPU_INTERRUPT vcpuid) v
      else if vc_state (vm_vcpu v vcpuid) = VCPU_SLEEPING then add_host_call (COND_SIGNAL vcpuid) v
      else v)"

definition vm_inject_nmi :: "nat \<Rightarrow> vm \<Rightarrow> vm \<times> int" where
  "vm_inject_nmi vcpuid v =
     (if vcpuid \<ge> VM_MAXCPU then (v, EINVAL)
      else (vcpu_notify_event vcpuid (upd_vcpu vcpuid (\<lambda>c. c\<lparr>vc_nmi_pending := True\<rparr>) v), 0))"

definition vm_nmi_pending :: "vm \<Rightarrow> nat \<Rightarrow> bool option" where
  "vm_nmi_pending v vcpuid =
     (if vcpuid \<ge> VM_MAXCPU then None else Some (vc_nmi_pending (vm_vcpu v vcpuid)))"

definition vm_nmi_clear :: "nat \<Rightarrow> vm \<Rightarrow> vm option" where
  "vm_nmi_clear vcpuid v =
     (if vcpuid \<ge> VM_MAXCPU then None
      else if \<not> vc_nmi_pending (vm_vcpu v vcpuid) then None
      else Some (upd_vcpu vcpuid (\<lambda>c. c\<lparr>vc_nmi_pending := False\<rparr>) v))"

definition vm_inject_extint :: "nat \<Rightarrow> vm \<Rightarrow> vm \<times> int" where
  "vm_inject_extint vcpuid v =
     (if vcpuid \<ge> VM_MAXCPU then (v, EINVAL)
      else (vcpu_notify_event vcpuid (upd_vcpu vcpuid (\<lambda>c. c\<lparr>vc_extint_pending := True\<rparr>) v), 0))"

definition vm_extint_pending :: "vm \<Rightarrow> nat \<Rightarrow> bool option" where
  "vm_extint_pending v vcpuid =
     (if vcpuid \<ge> VM_MAXCPU then None else Some (vc_extint_pending (vm_vcpu v vcpuid)))"

definition vm_extint_clear :: "nat \<Rightarrow> vm \<Rightarrow> vm option" where
  "vm_extint_clear vcpuid v =
     (if vcpuid \<ge> VM_MAXCPU then None
      else if \<not> vc_extint_pending (vm_vcpu v vcpuid) then None
      else Some (upd_vcpu vcpuid (\<lambda>c. c\<lparr>vc_extint_pending := False\<rparr>) v))"

definition vm_apicid2vcpuid :: "int \<Rightarrow> int" where
  "vm_apicid2vcpuid apicid = apicid"

subsection \<open>Local interrupt sources (\<open>vlapic.c\<close>)\<close>

abbreviation (input) APIC_ESR_SEND_ILLEGAL_VECTOR :: u32 where "APIC_ESR_SEND_ILLEGAL_VECTOR \<equiv> 0x20"
abbreviation (input) APIC_ESR_RECEIVE_ILLEGAL_VECTOR :: u32 where "APIC_ESR_RECEIVE_ILLEGAL_VECTOR \<equiv> 0x40"

text \<open>
  Recording an error fires the error LVT, which may again be an error: the flag \<open>esr_firing\<close>
  cuts the recursion, and is its termination argument. The flag in the result is the C
  return value 0 or 1. The range of \<open>vector\<close> asserted by \<open>vlapic_set_intr_ready\<close> is checked
  by each caller (a mask with 0xff or the test of \<open>lapic_set_intr\<close>).
\<close>

function vlapic_set_error :: "nat \<Rightarrow> u32 \<Rightarrow> vm \<Rightarrow> vm"
  and vlapic_fire_lvt :: "nat \<Rightarrow> u32 \<Rightarrow> vm \<Rightarrow> vm \<times> bool"
  and vlapic_set_intr_ready :: "nat \<Rightarrow> nat \<Rightarrow> bool \<Rightarrow> vm \<Rightarrow> vm \<times> bool" where
  "vlapic_set_error i errmask v =
     (let v1 = upd_vlapic i (\<lambda>l. l\<lparr>vl_esr_pending := vl_esr_pending l OR errmask\<rparr>) v
      in if vl_esr_firing (vm_lapic v i) then v1
         else let v2 = upd_vlapic i (\<lambda>l. l\<lparr>vl_esr_firing := True\<rparr>) v1;
                  lvt = vl_lvt_last (vm_lapic v2 i) APIC_LVT_ERROR;
                  v3 = fst (vlapic_fire_lvt i (lvt OR APIC_LVT_DM_FIXED) v2)
              in upd_vlapic i (\<lambda>l. l\<lparr>vl_esr_firing := False\<rparr>) v3)"
| "vlapic_fire_lvt i lvt v =
     (if lvt AND APIC_LVT_M \<noteq> 0 then (v, False)
      else let vec = lvt AND APIC_LVT_VECTOR; mode = lvt AND APIC_LVT_DM
           in if mode = APIC_LVT_DM_FIXED then
                if vec < 16 then (vlapic_set_error i APIC_ESR_SEND_ILLEGAL_VECTOR v, False)
                else let (v1, ready) = vlapic_set_intr_ready i (unat vec) False v
                     in (if ready then vcpu_notify_event i v1 else v1, True)
              else if mode = APIC_LVT_DM_NMI then (fst (vm_inject_nmi i v), True)
              else if mode = APIC_LVT_DM_EXTINT then (fst (vm_inject_extint i v), True)
              else (v, False))"
| "vlapic_set_intr_ready i vector level v =
     (let l = vm_lapic v i
      in if la_svr (vl_page l) AND APIC_SVR_ENABLE = 0 then (v, False)
         else if vector < 16 then (vlapic_set_error i APIC_ESR_RECEIVE_ILLEGAL_VECTOR v, True)
         else let idx = vector div 32; m = BIT (vector mod 32)
              in (upd_vlapic i (upd_page (\<lambda>p. p\<lparr>la_irr := (la_irr p)(idx := la_irr p idx OR m)\<rparr>)) v,
                  True))"
  by pat_completeness auto

termination
  by (relation "measure (\<lambda>x. case x of
        Inl (i, _, v) \<Rightarrow> (if vl_esr_firing (vm_lapic v i) then 0 else 3)
      | Inr (Inl (i, _, v)) \<Rightarrow> (if vl_esr_firing (vm_lapic v i) then 2 else 5)
      | Inr (Inr (i, _, _, v)) \<Rightarrow> (if vl_esr_firing (vm_lapic v i) then 1 else 4))") auto

declare vlapic_set_error.simps [simp del] vlapic_fire_lvt.simps [simp del]
  vlapic_set_intr_ready.simps [simp del]

definition vlapic_fire_timer :: "nat \<Rightarrow> vm \<Rightarrow> vm" where
  "vlapic_fire_timer i v =
     fst (vlapic_fire_lvt i (vl_lvt_last (vm_lapic v i) APIC_LVT_TIMER OR APIC_LVT_DM_FIXED) v)"

definition vlapic_fire_cmci :: "nat \<Rightarrow> vm \<Rightarrow> vm" where
  "vlapic_fire_cmci i v = fst (vlapic_fire_lvt i (vl_lvt_last (vm_lapic v i) APIC_LVT_CMCI) v)"

definition vlapic_trigger_lvt :: "nat \<Rightarrow> int \<Rightarrow> vm \<Rightarrow> vm \<times> int" where
  "vlapic_trigger_lvt i vector v =
     (let l = vm_lapic v i in
      if \<not> vlapic_enabled l then
        (if vector = int APIC_LVT_LINT0 then fst (vm_inject_extint i v)
         else if vector = int APIC_LVT_LINT1 then fst (vm_inject_nmi i v)
         else v, 0)
      else if vector < 0 \<or> int VLAPIC_MAXLVT_INDEX < vector then (v, EINVAL)
      else let lvt = vl_lvt_last l (nat vector);
               lvt = (if vector = int APIC_LVT_TIMER \<or> vector = int APIC_LVT_ERROR
                      then lvt OR APIC_LVT_DM_FIXED else lvt)
           in (fst (vlapic_fire_lvt i lvt v), 0))"

subsection \<open>Destinations\<close>

text \<open>
  The set of vcpus a destination addresses. In physical mode the APIC id becomes a signed
  \<open>int\<close>; a negative one passes the test against \<open>VM_MAXCPU\<close> and would then shift by more than
  the width of the set, which C leaves undefined: that is \<open>None\<close>.
\<close>

definition logical_match :: "vlapic \<Rightarrow> bool \<Rightarrow> u32 \<Rightarrow> bool" where
  "logical_match l x2apic_dest dest =
     (let mda_flat_ldest = dest AND 0xff;
          mda_cluster_id = (if x2apic_dest then drop_bit 16 dest else drop_bit 4 dest AND 0xf);
          mda_cluster_ldest = (if x2apic_dest then dest AND 0xffff else dest AND 0xf);
          dfr = la_dfr (vl_page l); ldr = la_ldr (vl_page l)
      in if dfr AND APIC_DFR_MODEL_MASK = APIC_DFR_MODEL_FLAT
         then mda_flat_ldest AND drop_bit 24 ldr \<noteq> 0
         else if dfr AND APIC_DFR_MODEL_MASK = APIC_DFR_MODEL_CLUSTER
         then let (cluster, ldest) = (if x2apic l then (drop_bit 16 ldr, ldr AND 0xffff)
                                      else (drop_bit 28 ldr, drop_bit 24 ldr AND 0xf))
              in cluster = mda_cluster_id \<and> mda_cluster_ldest AND ldest \<noteq> 0
         else False)"

definition vlapic_calcdest :: "vm \<Rightarrow> u32 \<Rightarrow> bool \<Rightarrow> bool \<Rightarrow> bool \<Rightarrow> cpuset option" where
  "vlapic_calcdest v dest phys lowprio x2apic_dest =
     (if (x2apic_dest \<and> dest = 0xffffffff) \<or> (\<not> x2apic_dest \<and> dest = 0xff)
      then Some (vm_active_cpus v)
      else if phys then
        let vcpuid = vm_apicid2vcpuid (sint dest)
        in if vcpuid < int VM_MAXCPU then
             if vcpuid < 0 then None else Some (CPU_SET (nat vcpuid) CPU_ZERO)
           else Some CPU_ZERO
      else Some (cpu_foreach
             (\<lambda>vcpuid dmask. if logical_match (vm_lapic v vcpuid) x2apic_dest dest
                             then (CPU_SET vcpuid dmask, lowprio) else (dmask, False))
             (vm_active_cpus v) CPU_ZERO))"

subsection \<open>Entry points (\<open>vmm_lapic.c\<close>)\<close>

definition lapic_set_intr :: "nat \<Rightarrow> nat \<Rightarrow> bool \<Rightarrow> vm \<Rightarrow> vm \<times> int" where
  "lapic_set_intr cpu vector level v =
     (if cpu \<ge> VM_MAXCPU then (v, EINVAL)
      else if vector < 16 \<or> vector > 255 then (v, EINVAL)
      else let (v1, ready) = vlapic_set_intr_ready cpu vector level v
           in (if ready then vcpu_notify_event cpu v1 else v1, 0))"

definition lapic_intr_edge :: "nat \<Rightarrow> nat \<Rightarrow> vm \<Rightarrow> vm \<times> int" where
  "lapic_intr_edge cpu vector v = lapic_set_intr cpu vector False v"

abbreviation (input) IOART_DELMOD :: u32 where "IOART_DELMOD \<equiv> 0x700"
abbreviation (input) IOART_DELFIXED :: u32 where "IOART_DELFIXED \<equiv> 0"
abbreviation (input) IOART_DELLOPRI :: u32 where "IOART_DELLOPRI \<equiv> 0x100"
abbreviation (input) IOART_DELEXINT :: u32 where "IOART_DELEXINT \<equiv> 0x700"

definition vlapic_deliver_intr :: "bool \<Rightarrow> u32 \<Rightarrow> bool \<Rightarrow> u32 \<Rightarrow> nat \<Rightarrow> vm \<Rightarrow> vm option" where
  "vlapic_deliver_intr level dest phys delmode vec v =
     (if delmode \<noteq> IOART_DELFIXED \<and> delmode \<noteq> IOART_DELLOPRI \<and> delmode \<noteq> IOART_DELEXINT then Some v
      else Option.bind (vlapic_calcdest v dest phys (delmode = IOART_DELLOPRI) False) (\<lambda>dmask.
        Some (cpu_foreach (\<lambda>vcpuid s.
            (if delmode = IOART_DELEXINT then fst (vm_inject_extint vcpuid s)
             else fst (lapic_set_intr vcpuid vec level s), False)) dmask v)))"

definition vlapic_set_tmr_level :: "nat \<Rightarrow> u32 \<Rightarrow> bool \<Rightarrow> u32 \<Rightarrow> nat \<Rightarrow> vm \<Rightarrow> vm option" where
  "vlapic_set_tmr_level i dest phys delmode vector v =
     (if delmode \<noteq> IOART_DELFIXED \<and> delmode \<noteq> IOART_DELLOPRI then Some v
      else Option.bind (vlapic_calcdest v dest phys (delmode = IOART_DELLOPRI) False) (\<lambda>dmask.
        if \<not> CPU_ISSET (vl_vcpuid (vm_lapic v i)) dmask then Some v
        else Some (upd_vlapic i (vlapic_set_tmr vector True) v)))"

definition lapic_set_local_intr :: "int \<Rightarrow> int \<Rightarrow> vm \<Rightarrow> vm \<times> int" where
  "lapic_set_local_intr cpu vector v =
     (if cpu < -1 \<or> cpu \<ge> int VM_MAXCPU then (v, EINVAL)
      else let dmask = (if cpu = -1 then vm_active_cpus v else CPU_SETOF (nat cpu))
           in cpu_foreach (\<lambda>c (s, _). let (s', error) = vlapic_trigger_lvt c vector s
                                       in ((s', error), error \<noteq> 0)) dmask (v, 0))"

abbreviation (input) APIC_DELMODE_MASK :: u64 where "APIC_DELMODE_MASK \<equiv> 0x700"

definition lapic_intr_msi :: "u64 \<Rightarrow> u64 \<Rightarrow> vm \<Rightarrow> (vm \<times> int) option" where
  "lapic_intr_msi addr msg v =
     (if addr AND 0xfff00000 \<noteq> 0xfee00000 then Some (v, -1)
      else let dest = ucast (drop_bit 12 addr AND 0xff);
               phys = (addr AND (0x8 OR 0x4) \<noteq> (0x8 OR 0x4));
               delmode = ucast (msg AND APIC_DELMODE_MASK);
               vec = unat (msg AND 0xff)
           in map_option (\<lambda>v'. (v', 0)) (vlapic_deliver_intr False dest phys delmode vec v))"

subsection \<open>What delivery may change\<close>

text \<open>
  Delivery only adds requests (vectors 16 and above) and pending error bits to local APICs
  and sets the pending flags of vcpus; devices, timers and run states stay as they are.
\<close>

definition forget_requests :: "vlapic \<Rightarrow> vlapic" where
  "forget_requests l = l\<lparr>vl_page := (vl_page l)\<lparr>la_irr := (\<lambda>_. 0)\<rparr>, vl_esr_pending := 0\<rparr>"

definition lapic_frame :: "vlapic \<Rightarrow> vlapic \<Rightarrow> bool" where
  "lapic_frame l l' \<longleftrightarrow> forget_requests l' = forget_requests l
     \<and> (\<forall>x. vec_bit (la_irr (vl_page l)) x \<longrightarrow> vec_bit (la_irr (vl_page l')) x)
     \<and> (\<forall>x. vec_bit (la_irr (vl_page l')) x \<longrightarrow> vec_bit (la_irr (vl_page l)) x \<or> 16 \<le> x)"

definition deliver_frame :: "vm \<Rightarrow> vm \<Rightarrow> bool" where
  "deliver_frame v v' \<longleftrightarrow> (\<forall>j. lapic_frame (vm_lapic v j) (vm_lapic v' j))
     \<and> (\<forall>j. vc_state (vm_vcpu v' j) = vc_state (vm_vcpu v j))
     \<and> (\<forall>j. vc_nmi_pending (vm_vcpu v j) \<longrightarrow> vc_nmi_pending (vm_vcpu v' j))
     \<and> vm_vioapic v' = vm_vioapic v \<and> vm_vatpic v' = vm_vatpic v \<and> vm_vatpit v' = vm_vatpit v
     \<and> vm_active_cpus v' = vm_active_cpus v \<and> vm_callouts v' = vm_callouts v \<and> vm_vhpet v' = vm_vhpet v \<and> vm_vrtc v' = vm_vrtc v \<and> vm_vpmtmr v' = vm_vpmtmr v
     \<and> vm_timebase v' = vm_timebase v"

lemma lapic_frame_refl [simp, intro]: "lapic_frame l l"
  by (simp add: lapic_frame_def)

lemma lapic_frame_trans: "lapic_frame a b \<Longrightarrow> lapic_frame b c \<Longrightarrow> lapic_frame a c"
  unfolding lapic_frame_def by metis

lemma forget_requests_sel:
  "vl_vcpuid (forget_requests l) = vl_vcpuid l"
  "vl_esr_firing (forget_requests l) = vl_esr_firing l"
  "vl_isrvec_stk (forget_requests l) = vl_isrvec_stk l"
  "vl_isrvec_stk_top (forget_requests l) = vl_isrvec_stk_top l"
  "vl_msr_apicbase (forget_requests l) = vl_msr_apicbase l"
  "vl_boot_state (forget_requests l) = vl_boot_state l"
  "vl_lvt_last (forget_requests l) = vl_lvt_last l"
  "vl_svr_last (forget_requests l) = vl_svr_last l"
  "vl_timer_fire_bt (forget_requests l) = vl_timer_fire_bt l"
  "vl_timer_freq_bt (forget_requests l) = vl_timer_freq_bt l"
  "vl_timer_period_bt (forget_requests l) = vl_timer_period_bt l"
  "la_tmr (vl_page (forget_requests l)) = la_tmr (vl_page l)"
  "la_svr (vl_page (forget_requests l)) = la_svr (vl_page l)"
  "la_isr (vl_page (forget_requests l)) = la_isr (vl_page l)"
  "la_tpr (vl_page (forget_requests l)) = la_tpr (vl_page l)"
  "la_ppr (vl_page (forget_requests l)) = la_ppr (vl_page l)"
  "la_ldr (vl_page (forget_requests l)) = la_ldr (vl_page l)"
  "la_dfr (vl_page (forget_requests l)) = la_dfr (vl_page l)"
  "la_icr_timer (vl_page (forget_requests l)) = la_icr_timer (vl_page l)"
  "la_dcr_timer (vl_page (forget_requests l)) = la_dcr_timer (vl_page l)"
  by (simp_all add: forget_requests_def)

lemma lapic_frame_simps:
  assumes "lapic_frame l l'"
  shows "vl_vcpuid l' = vl_vcpuid l" "vl_esr_firing l' = vl_esr_firing l"
    "vl_isrvec_stk l' = vl_isrvec_stk l" "vl_isrvec_stk_top l' = vl_isrvec_stk_top l"
    "vl_msr_apicbase l' = vl_msr_apicbase l" "vl_boot_state l' = vl_boot_state l"
    "vl_lvt_last l' = vl_lvt_last l" "vl_svr_last l' = vl_svr_last l"
    "vl_timer_fire_bt l' = vl_timer_fire_bt l" "vl_timer_freq_bt l' = vl_timer_freq_bt l"
    "vl_timer_period_bt l' = vl_timer_period_bt l"
    "la_tmr (vl_page l') = la_tmr (vl_page l)" "la_svr (vl_page l') = la_svr (vl_page l)"
    "la_isr (vl_page l') = la_isr (vl_page l)" "la_tpr (vl_page l') = la_tpr (vl_page l)"
    "la_ppr (vl_page l') = la_ppr (vl_page l)" "la_ldr (vl_page l') = la_ldr (vl_page l)"
    "la_dfr (vl_page l') = la_dfr (vl_page l)" "la_icr_timer (vl_page l') = la_icr_timer (vl_page l)"
    "la_dcr_timer (vl_page l') = la_dcr_timer (vl_page l)"
  using assms [unfolded lapic_frame_def, THEN conjunct1] by (metis forget_requests_sel)+

lemma lapic_frame_isr: "lapic_frame l l' \<Longrightarrow> isr_frame l l'"
  by (simp add: isr_frame_def lapic_frame_simps)

lemma deliver_frame_refl [simp, intro]: "deliver_frame v v"
  by (auto simp: deliver_frame_def)

lemma deliver_frame_trans [trans]: "deliver_frame a b \<Longrightarrow> deliver_frame b c \<Longrightarrow> deliver_frame a c"
  unfolding deliver_frame_def by (auto intro: lapic_frame_trans)

lemma deliver_frame_lapic: "deliver_frame v v' \<Longrightarrow> lapic_frame (vm_lapic v j) (vm_lapic v' j)"
  by (simp add: deliver_frame_def)

lemma deliver_frame_simps:
  assumes "deliver_frame v v'"
  shows "vm_vioapic v' = vm_vioapic v" "vm_vatpic v' = vm_vatpic v" "vm_vatpit v' = vm_vatpit v"
    "vm_active_cpus v' = vm_active_cpus v" "vm_callouts v' = vm_callouts v" "vm_vhpet v' = vm_vhpet v" "vm_vrtc v' = vm_vrtc v" "vm_vpmtmr v' = vm_vpmtmr v"
    "vm_timebase v' = vm_timebase v" "vc_state (vm_vcpu v' j) = vc_state (vm_vcpu v j)"
  using assms by (simp_all add: deliver_frame_def)

lemma deliver_frame_nmi_pending: "deliver_frame v v' \<Longrightarrow> vc_nmi_pending (vm_vcpu v j) \<Longrightarrow> vc_nmi_pending (vm_vcpu v' j)"
  by (simp add: deliver_frame_def)

lemma deliver_frame_notify [simp]: "deliver_frame v (vcpu_notify_event i v)"
  by (auto simp: deliver_frame_def vcpu_notify_event_def add_host_call_def vm_lapic_def)

lemma deliver_frame_upd_vcpu:
  assumes "\<And>c. vc_vlapic (f c) = vc_vlapic c" and "\<And>c. vc_state (f c) = vc_state c"
    and "\<And>c. vc_nmi_pending c \<Longrightarrow> vc_nmi_pending (f c)"
  shows "deliver_frame v (upd_vcpu i f v)"
  using assms by (auto simp: deliver_frame_def)

lemma deliver_frame_upd_vlapic:
  assumes "lapic_frame (vm_lapic v i) (f (vm_lapic v i))"
  shows "deliver_frame v (upd_vlapic i f v)"
  using assms by (auto simp: deliver_frame_def)

lemma deliver_frame_nmi [simp]: "deliver_frame v (fst (vm_inject_nmi i v))"
  by (auto simp: vm_inject_nmi_def intro!: deliver_frame_trans [OF deliver_frame_upd_vcpu deliver_frame_notify])

lemma deliver_frame_extint [simp]: "deliver_frame v (fst (vm_inject_extint i v))"
  by (auto simp: vm_inject_extint_def intro!: deliver_frame_trans [OF deliver_frame_upd_vcpu deliver_frame_notify])

lemma lapic_frame_irr:
  assumes "16 \<le> x"
  shows "lapic_frame l (upd_page (\<lambda>p. p\<lparr>la_irr := (la_irr p)(x div 32 := la_irr p (x div 32) OR BIT (x mod 32))\<rparr>) l)"
  using assms by (auto simp: lapic_frame_def forget_requests_def upd_page_def vec_bit_set)

lemma lapic_frame_esr: "lapic_frame l (l\<lparr>vl_esr_pending := e\<rparr>)"
  by (simp add: lapic_frame_def forget_requests_def)

lemma lapic_frame_firing:
  assumes "lapic_frame (l\<lparr>vl_esr_pending := e, vl_esr_firing := True\<rparr>) l'" and "\<not> vl_esr_firing l"
  shows "lapic_frame l (l'\<lparr>vl_esr_firing := False\<rparr>)"
proof -
  have "forget_requests (l'\<lparr>vl_esr_firing := False\<rparr>) = (forget_requests l')\<lparr>vl_esr_firing := False\<rparr>"
    by (simp add: forget_requests_def)
  also have "\<dots> = forget_requests (l\<lparr>vl_esr_firing := False\<rparr>)"
    using assms(1) by (simp add: lapic_frame_def forget_requests_def)
  also have "l\<lparr>vl_esr_firing := False\<rparr> = l" using assms(2) by (cases l) simp
  finally show ?thesis using assms(1) by (simp add: lapic_frame_def)
qed

lemma deliver_frame_firing:
  assumes "deliver_frame (upd_vlapic i (\<lambda>l. l\<lparr>vl_esr_firing := True\<rparr>)
      (upd_vlapic i (\<lambda>l. l\<lparr>vl_esr_pending := f l\<rparr>) v)) v'"
    and "\<not> vl_esr_firing (vm_lapic v i)"
  shows "deliver_frame v (upd_vlapic i (\<lambda>l. l\<lparr>vl_esr_firing := False\<rparr>) v')"
proof -
  have "lapic_frame (vm_lapic v j) (vm_lapic (upd_vlapic i (\<lambda>l. l\<lparr>vl_esr_firing := False\<rparr>) v') j)" for j
    using lapic_frame_firing [OF _ assms(2)] deliver_frame_lapic [OF assms(1), of j]
    by (cases "j = i") simp_all
  then show ?thesis using assms(1) by (simp add: deliver_frame_def)
qed

lemma set_error_frame_aux:
  "deliver_frame v (vlapic_set_error i e v)"
  "deliver_frame v (fst (vlapic_fire_lvt i lvt v))"
  "deliver_frame v (fst (vlapic_set_intr_ready i vec level v))"
proof (induction i e v and i lvt v and i vec level v
    rule: vlapic_set_error_vlapic_fire_lvt_vlapic_set_intr_ready.induct)
  case (1 i e v)
  let ?v1 = "upd_vlapic i (\<lambda>l. l\<lparr>vl_esr_pending := vl_esr_pending l OR e\<rparr>) v"
  let ?v2 = "upd_vlapic i (\<lambda>l. l\<lparr>vl_esr_firing := True\<rparr>) ?v1"
  let ?v3 = "fst (vlapic_fire_lvt i (vl_lvt_last (vm_lapic ?v2 i) APIC_LVT_ERROR OR APIC_LVT_DM_FIXED) ?v2)"
  have f1: "deliver_frame v ?v1" by (rule deliver_frame_upd_vlapic) (rule lapic_frame_esr)
  show ?case
  proof (cases "vl_esr_firing (vm_lapic v i)")
    case True
    then show ?thesis using f1 by (simp add: vlapic_set_error.simps)
  next
    case False
    then have "deliver_frame ?v2 ?v3" using 1 by simp
    then have "deliver_frame v (upd_vlapic i (\<lambda>l. l\<lparr>vl_esr_firing := False\<rparr>) ?v3)"
      using False by (rule deliver_frame_firing)
    then show ?thesis using False by (simp add: vlapic_set_error.simps Let_def)
  qed
next
  case (2 i lvt v)
  then show ?case
    by (auto simp: vlapic_fire_lvt.simps Let_def split: prod.splits
        intro: deliver_frame_trans [OF _ deliver_frame_notify])
next
  case (3 i vec level v)
  then show ?case
    by (auto simp: vlapic_set_intr_ready.simps Let_def intro!: deliver_frame_upd_vlapic lapic_frame_irr)
qed

lemmas deliver_frame_intr [simp] = set_error_frame_aux

lemma deliver_frame_set_intr [simp]: "deliver_frame v (fst (lapic_set_intr cpu vec lvl v))"
proof -
  obtain v1 r where e: "vlapic_set_intr_ready cpu vec lvl v = (v1, r)" by fastforce
  then have "deliver_frame v v1" by (metis deliver_frame_intr(3) fst_conv)
  then show ?thesis
    by (auto simp: lapic_set_intr_def e intro: deliver_frame_trans [OF _ deliver_frame_notify])
qed

lemma deliver_frame_edge [simp]: "deliver_frame v (fst (lapic_intr_edge cpu vec v))"
  by (simp add: lapic_intr_edge_def)

lemma deliver_frame_timer [simp]: "deliver_frame v (vlapic_fire_timer i v)"
  by (simp add: vlapic_fire_timer_def)

lemma deliver_frame_cmci [simp]: "deliver_frame v (vlapic_fire_cmci i v)"
  by (simp add: vlapic_fire_cmci_def)

lemma deliver_frame_trigger [simp]: "deliver_frame v (fst (vlapic_trigger_lvt i vec v))"
  by (simp add: vlapic_trigger_lvt_def Let_def)

lemma deliver_frame_intr_deliver:
  "vlapic_deliver_intr lvl dest phys dm vec v = Some v' \<Longrightarrow> deliver_frame v v'"
  by (auto simp: vlapic_deliver_intr_def split: if_splits Option.bind_splits
      intro!: cpu_foreach_invariant [where P = "deliver_frame v"] intro: deliver_frame_trans)

lemma deliver_frame_local_intr: "deliver_frame v (fst (lapic_set_local_intr cpu vec v))"
proof -
  have "deliver_frame v (fst (cpu_foreach (\<lambda>c (s, _). let (s', error) = vlapic_trigger_lvt c vec s
      in ((s', error), error \<noteq> 0)) d (v, 0)))" for d
  proof (rule cpu_foreach_invariant [where P = "\<lambda>s. deliver_frame v (fst s)"])
    fix c :: nat and s :: "vm \<times> int"
    assume "deliver_frame v (fst s)"
    then have "deliver_frame v (fst (vlapic_trigger_lvt c vec (fst s)))"
      using deliver_frame_trigger by (rule deliver_frame_trans)
    then show "deliver_frame v (fst (fst ((\<lambda>c (s, _). let (s', error) = vlapic_trigger_lvt c vec s
      in ((s', error), error \<noteq> 0)) c s)))"
      by (cases s; cases "vlapic_trigger_lvt c vec (fst s)") simp
  qed simp
  then show ?thesis by (simp add: lapic_set_local_intr_def Let_def)
qed

subsection \<open>Who receives a vector\<close>

text \<open>The effect of one request on one local APIC.\<close>

definition request_vec :: "nat \<Rightarrow> vlapic \<Rightarrow> vlapic" where
  "request_vec vec l =
     (if la_svr (vl_page l) AND APIC_SVR_ENABLE = 0 then l
      else upd_page (\<lambda>p. p\<lparr>la_irr := (la_irr p)(vec div 32 := la_irr p (vec div 32) OR BIT (vec mod 32))\<rparr>) l)"

lemma vm_lapic_notify [simp]: "vm_lapic (vcpu_notify_event i v) j = vm_lapic v j"
  by (simp add: vcpu_notify_event_def add_host_call_def vm_lapic_def)

lemma vm_lapic_extint [simp]: "vm_lapic (fst (vm_inject_extint i v)) j = vm_lapic v j"
  by (simp add: vm_inject_extint_def)

lemma vm_lapic_nmi [simp]: "vm_lapic (fst (vm_inject_nmi i v)) j = vm_lapic v j"
  by (simp add: vm_inject_nmi_def)

lemma lapic_set_intr_effect:
  "vm_lapic (fst (lapic_set_intr cpu vec lvl v)) j =
     (if j = cpu \<and> cpu < VM_MAXCPU \<and> 16 \<le> vec \<and> vec \<le> 255 then request_vec vec (vm_lapic v j)
      else vm_lapic v j)"
  by (auto simp: lapic_set_intr_def vlapic_set_intr_ready.simps request_vec_def Let_def)

lemma fold_set_intr_effect:
  assumes "distinct cs"
  shows "vm_lapic (fold (\<lambda>c s. fst (lapic_set_intr c vec lvl s)) cs v) j =
     (if j \<in> set cs \<and> j < VM_MAXCPU \<and> 16 \<le> vec \<and> vec \<le> 255 then request_vec vec (vm_lapic v j)
      else vm_lapic v j)"
  using assms by (induction cs arbitrary: v) (auto simp: lapic_set_intr_effect)

lemma visit_first_match:
  assumes "\<And>i s. body i s = (if P i then (CPU_SET i s, lowprio) else (s, False))"
  shows "visit body cs s =
     (if lowprio then (case filter P cs of [] \<Rightarrow> s | i # _ \<Rightarrow> CPU_SET i s)
      else fold CPU_SET (filter P cs) s)"
  by (induction cs arbitrary: s) (simp_all add: assms)

lemma CPU_ISSET_fold_SET:
  "CPU_ISSET j (fold CPU_SET cs s) \<longleftrightarrow> CPU_ISSET j s \<or> (j \<in> set cs \<and> j < 64)"
  by (induction cs arbitrary: s) auto

lemma calcdest_logical:
  assumes "dest \<noteq> (if x2 then 0xffffffff else 0xff)"
  obtains d where "vlapic_calcdest v dest False lowprio x2 = Some d"
    and "\<not> lowprio \<Longrightarrow> CPU_ISSET j d \<longleftrightarrow>
           CPU_ISSET j (vm_active_cpus v) \<and> logical_match (vm_lapic v j) x2 dest"
    and "lowprio \<Longrightarrow> CPU_ISSET j d \<longleftrightarrow> CPU_ISSET j (vm_active_cpus v)
           \<and> logical_match (vm_lapic v j) x2 dest
           \<and> (\<forall>k<j. CPU_ISSET k (vm_active_cpus v) \<longrightarrow> \<not> logical_match (vm_lapic v k) x2 dest)"
proof -
  let ?P = "\<lambda>i. logical_match (vm_lapic v i) x2 dest"
  let ?cs = "cpus_of (vm_active_cpus v)"
  let ?d = "if lowprio then (case filter ?P ?cs of [] \<Rightarrow> CPU_ZERO | i # _ \<Rightarrow> CPU_SET i CPU_ZERO)
            else fold CPU_SET (filter ?P ?cs) CPU_ZERO"
  have eq: "vlapic_calcdest v dest False lowprio x2 = Some ?d"
    unfolding vlapic_calcdest_def cpu_foreach_visit
    using assms by (subst visit_first_match [where P = ?P]) (auto split: if_splits)
  have mem: "i \<in> set ?cs \<longleftrightarrow> CPU_ISSET i (vm_active_cpus v)" for i by (simp add: set_cpus_of)
  have lt: "CPU_ISSET i (vm_active_cpus v) \<Longrightarrow> i < 64" for i by (metis mem cpus_of_less)
  have first: "CPU_ISSET j ?d \<longleftrightarrow> j \<in> set ?cs \<and> ?P j \<and> (\<forall>k<j. k \<in> set ?cs \<longrightarrow> \<not> ?P k)" if lowprio
  proof (cases "filter ?P ?cs")
    case Nil
    then have "\<forall>k\<in>set ?cs. \<not> ?P k" by (simp add: filter_empty_conv)
    then show ?thesis using that Nil by auto
  next
    case (Cons i cs')
    have srt: "sorted_wrt (<) (i # cs')"
      using sorted_wrt_filter [of "(<)" ?cs ?P] Cons by (simp add: cpus_of_def)
    have st: "k \<in> set ?cs \<and> ?P k \<longleftrightarrow> k = i \<or> k \<in> set cs'" for k
      using arg_cong [OF Cons, of set] by auto
    have "i < 64" using st [of i] lt mem by blast
    then have "CPU_ISSET j ?d \<longleftrightarrow> j = i" using that Cons by auto
    moreover have "\<forall>k\<in>set cs'. i < k" using srt by simp
    ultimately show ?thesis using st by (metis less_asym less_irrefl)
  qed
  show thesis
  proof (rule that [OF eq])
    show "CPU_ISSET j ?d \<longleftrightarrow> CPU_ISSET j (vm_active_cpus v) \<and> ?P j" if "\<not> lowprio"
      using that lt by (auto simp: CPU_ISSET_fold_SET mem)
    show "CPU_ISSET j ?d \<longleftrightarrow> CPU_ISSET j (vm_active_cpus v) \<and> ?P j
           \<and> (\<forall>k<j. CPU_ISSET k (vm_active_cpus v) \<longrightarrow> \<not> ?P k)" if lowprio
      using first [OF that] by (simp add: mem)
  qed
qed

end
