(* ===== verification/Vioapic.thy ===== *)
theory Vioapic
  imports Vlapic_Deliver
begin

text \<open>
  The I/O APIC of \<open>src/vmm/io/vioapic.c\<close>: 24 pins with a redirection table and a count of
  assertions each. Pin numbers are natural numbers; an operation on a pin out of range is
  answered \<open>EINVAL\<close> before the table is touched. \<open>None\<close> is the undefined destination of
  \<open>vlapic_calcdest\<close>, which the 8-bit destinations of this device never reach.
\<close>

abbreviation (input) REDIR_ENTRIES :: nat where "REDIR_ENTRIES \<equiv> 24"
abbreviation (input) IOART_INTVEC :: u32 where "IOART_INTVEC \<equiv> 0xff"
abbreviation (input) IOART_DESTMOD :: u32 where "IOART_DESTMOD \<equiv> 0x800"
abbreviation (input) IOART_DELIVS :: u64 where "IOART_DELIVS \<equiv> 0x1000"
abbreviation (input) IOART_INTPOL :: u64 where "IOART_INTPOL \<equiv> 0x2000"
abbreviation (input) IOART_REM_IRR :: u64 where "IOART_REM_IRR \<equiv> 0x4000"
abbreviation (input) IOART_TRGRLVL :: u32 where "IOART_TRGRLVL \<equiv> 0x8000"
abbreviation (input) IOART_INTMASK :: u64 where "IOART_INTMASK \<equiv> 0x10000"
abbreviation (input) RTBL_RO_BITS :: u64 where "RTBL_RO_BITS \<equiv> 0x5000"
abbreviation (input) VIOAPIC_BASE :: u64 where "VIOAPIC_BASE \<equiv> 0xFEC00000"
abbreviation (input) IOREGSEL :: u64 where "IOREGSEL \<equiv> 0"
abbreviation (input) IOWIN :: u64 where "IOWIN \<equiv> 0x10"
abbreviation (input) IOAPIC_ID :: nat where "IOAPIC_ID \<equiv> 0"
abbreviation (input) IOAPIC_VER :: nat where "IOAPIC_VER \<equiv> 1"
abbreviation (input) IOAPIC_ARB :: nat where "IOAPIC_ARB \<equiv> 2"
abbreviation (input) IOAPIC_REDTBL :: nat where "IOAPIC_REDTBL \<equiv> 0x10"

subsection \<open>Redirection table entries\<close>

definition set_reg :: "nat \<Rightarrow> (u64 \<Rightarrow> u64) \<Rightarrow> vm \<Rightarrow> vm" where
  "set_reg pin f = upd_vioapic (\<lambda>io. io\<lparr>io_reg := (io_reg io)(pin := f (io_reg io pin))\<rparr>)"

definition set_acnt :: "nat \<Rightarrow> (int \<Rightarrow> int) \<Rightarrow> vm \<Rightarrow> vm" where
  "set_acnt pin f = upd_vioapic (\<lambda>io. io\<lparr>io_acnt := (io_acnt io)(pin := f (io_acnt io pin))\<rparr>)"

abbreviation vm_reg :: "vm \<Rightarrow> nat \<Rightarrow> u64" where
  "vm_reg v pin \<equiv> io_reg (vm_vioapic v) pin"

abbreviation vm_acnt :: "vm \<Rightarrow> nat \<Rightarrow> int" where
  "vm_acnt v pin \<equiv> io_acnt (vm_vioapic v) pin"

text \<open>\<open>low\<close> and \<open>high\<close>, and the fields the code extracts from them.\<close>

definition rt_low :: "u64 \<Rightarrow> u32" where "rt_low reg = ucast reg"
definition rt_high :: "u64 \<Rightarrow> u32" where "rt_high reg = ucast (drop_bit 32 reg)"
definition rt_phys :: "u64 \<Rightarrow> bool" where "rt_phys reg = (rt_low reg AND IOART_DESTMOD = 0)"
definition rt_delmode :: "u64 \<Rightarrow> u32" where "rt_delmode reg = rt_low reg AND IOART_DELMOD"
definition rt_level :: "u64 \<Rightarrow> bool" where "rt_level reg = (rt_low reg AND IOART_TRGRLVL \<noteq> 0)"
definition rt_vector :: "u64 \<Rightarrow> nat" where "rt_vector reg = unat (rt_low reg AND IOART_INTVEC)"
definition rt_dest :: "u64 \<Rightarrow> u32" where "rt_dest reg = drop_bit 24 (rt_high reg)"

subsection \<open>Pins\<close>

definition vioapic_send_intr :: "nat \<Rightarrow> vm \<Rightarrow> vm option" where
  "vioapic_send_intr pin v =
     (let reg = vm_reg v pin
      in if rt_low reg AND 0x10000 = 0x10000 then Some v
         else let v1 = (if rt_level reg then set_reg pin (\<lambda>r. r OR IOART_REM_IRR) v else v)
              in vlapic_deliver_intr (rt_level reg) (rt_dest reg) (rt_phys reg) (rt_delmode reg)
                   (rt_vector reg) v1)"

definition vioapic_set_pinstate :: "nat \<Rightarrow> bool \<Rightarrow> vm \<Rightarrow> vm option" where
  "vioapic_set_pinstate pin newstate v =
     (let oldcnt = vm_acnt v pin;
          v1 = set_acnt pin (\<lambda>n. if newstate then n + 1 else n - 1) v;
          newcnt = vm_acnt v1 pin
      in if oldcnt = 0 \<and> newcnt = 1 then vioapic_send_intr pin v1 else Some v1)"

datatype irqstate = IRQSTATE_ASSERT | IRQSTATE_DEASSERT | IRQSTATE_PULSE

definition vioapic_set_irqstate :: "int \<Rightarrow> irqstate \<Rightarrow> vm \<Rightarrow> (vm \<times> int) option" where
  "vioapic_set_irqstate irq irqstate v =
     (if irq < 0 \<or> irq \<ge> int REDIR_ENTRIES then Some (v, EINVAL)
      else map_option (\<lambda>v'. (v', 0)) (case irqstate of
             IRQSTATE_ASSERT \<Rightarrow> vioapic_set_pinstate (nat irq) True v
           | IRQSTATE_DEASSERT \<Rightarrow> vioapic_set_pinstate (nat irq) False v
           | IRQSTATE_PULSE \<Rightarrow> Option.bind (vioapic_set_pinstate (nat irq) True v)
                                 (vioapic_set_pinstate (nat irq) False)))"

definition vioapic_assert_irq :: "int \<Rightarrow> vm \<Rightarrow> (vm \<times> int) option" where
  "vioapic_assert_irq irq = vioapic_set_irqstate irq IRQSTATE_ASSERT"

definition vioapic_deassert_irq :: "int \<Rightarrow> vm \<Rightarrow> (vm \<times> int) option" where
  "vioapic_deassert_irq irq = vioapic_set_irqstate irq IRQSTATE_DEASSERT"

definition vioapic_pulse_irq :: "int \<Rightarrow> vm \<Rightarrow> (vm \<times> int) option" where
  "vioapic_pulse_irq irq = vioapic_set_irqstate irq IRQSTATE_PULSE"

subsection \<open>Trigger mode registers\<close>

definition update_tmr_pin :: "nat \<Rightarrow> nat \<Rightarrow> vm \<Rightarrow> vm option" where
  "update_tmr_pin vcpuid pin v =
     (let reg = vm_reg v pin
      in if \<not> rt_level reg then Some v
         else vlapic_set_tmr_level vcpuid (rt_dest reg) (rt_phys reg) (rt_delmode reg) (rt_vector reg) v)"

definition vioapic_update_tmr :: "nat \<Rightarrow> vm \<Rightarrow> vm option" where
  "vioapic_update_tmr vcpuid v =
     fold (\<lambda>pin s. Option.bind s (update_tmr_pin vcpuid pin)) [0..<REDIR_ENTRIES]
       (Some (upd_vlapic vcpuid vlapic_reset_tmr v))"

text \<open>
  \<open>vm_smp_rendezvous\<close> returns when every vcpu of \<open>dest\<close> has run the function. The model is
  the state after that: the targets have been notified and have run it, each on its own local
  APIC, in increasing order.
\<close>

definition vm_smp_rendezvous :: "cpuset \<Rightarrow> (nat \<Rightarrow> vm \<Rightarrow> vm option) \<Rightarrow> vm \<Rightarrow> vm option" where
  "vm_smp_rendezvous dest func v =
     fold (\<lambda>i s. Option.bind s (func i)) (filter (\<lambda>i. CPU_ISSET i dest) [0..<VM_MAXCPU])
       (Some (fold (\<lambda>i s. if CPU_ISSET i dest then vcpu_notify_event i s else s) [0..<VM_MAXCPU] v))"

subsection \<open>Register access\<close>

definition vioapic_read :: "u32 \<Rightarrow> vm \<Rightarrow> u32" where
  "vioapic_read addr v =
     (let regnum = unat (addr AND 0xff)
      in if regnum = IOAPIC_ID then io_id (vm_vioapic v)
         else if regnum = IOAPIC_VER then push_bit 16 (of_nat (REDIR_ENTRIES - 1)) OR 0x11
         else if regnum = IOAPIC_ARB then io_id (vm_vioapic v)
         else if regnum \<ge> IOAPIC_REDTBL \<and> regnum < IOAPIC_REDTBL + REDIR_ENTRIES * 2
         then let pin = (regnum - IOAPIC_REDTBL) div 2;
                  rshift = (if (regnum - IOAPIC_REDTBL) mod 2 \<noteq> 0 then 32 else 0)
              in ucast (drop_bit rshift (vm_reg v pin))
         else 0)"

definition rtbl_merge :: "nat \<Rightarrow> u32 \<Rightarrow> u64 \<Rightarrow> u64" where
  "rtbl_merge lshift data reg =
     (let data64 = push_bit lshift (ucast data); mask64 = push_bit lshift 0xffffffff
      in (reg AND (NOT mask64 OR RTBL_RO_BITS)) OR (data64 AND NOT RTBL_RO_BITS))"

definition vioapic_write :: "u32 \<Rightarrow> u32 \<Rightarrow> vm \<Rightarrow> vm option" where
  "vioapic_write addr data v =
     (let regnum = unat (addr AND 0xff);
          v1 = (if regnum = IOAPIC_ID then upd_vioapic (\<lambda>io. io\<lparr>io_id := data AND 0xff000000\<rparr>) v else v)
      in if regnum \<ge> IOAPIC_REDTBL \<and> regnum < IOAPIC_REDTBL + REDIR_ENTRIES * 2
         then let pin = (regnum - IOAPIC_REDTBL) div 2;
                  lshift = (if (regnum - IOAPIC_REDTBL) mod 2 \<noteq> 0 then 32 else 0);
                  last_reg = vm_reg v1 pin;
                  v2 = set_reg pin (rtbl_merge lshift data) v1;
                  changed = last_reg XOR vm_reg v2 pin
              in Option.bind
                   (if changed AND NOT (IOART_INTMASK OR IOART_INTPOL) \<noteq> 0
                    then vm_smp_rendezvous (vm_active_cpus v2) vioapic_update_tmr v2
                    else Some v2)
                   (\<lambda>v3. if vm_reg v3 pin AND IOART_INTMASK = 0 \<and> vm_reg v3 pin AND IOART_REM_IRR = 0
                            \<and> vm_acnt v3 pin > 0
                         then vioapic_send_intr pin v3 else Some v3)
         else Some v1)"

definition vioapic_mmio_rw :: "u64 \<Rightarrow> u64 \<Rightarrow> int \<Rightarrow> bool \<Rightarrow> vm \<Rightarrow> (vm \<times> u64 \<times> int) option" where
  "vioapic_mmio_rw gpa data sz doread v =
     (let offset = gpa - VIOAPIC_BASE
      in if sz \<noteq> 4 \<or> (offset \<noteq> IOREGSEL \<and> offset \<noteq> IOWIN)
         then Some (v, if doread then 0 else data, 0)
         else if offset = IOREGSEL
         then if doread then Some (v, ucast (io_ioregsel (vm_vioapic v)), 0)
              else Some (upd_vioapic (\<lambda>io. io\<lparr>io_ioregsel := ucast data\<rparr>) v, data, 0)
         else if doread then Some (v, ucast (vioapic_read (io_ioregsel (vm_vioapic v)) v), 0)
              else map_option (\<lambda>v'. (v', data, 0))
                     (vioapic_write (io_ioregsel (vm_vioapic v)) (ucast data) v))"

definition vioapic_mmio_read :: "u64 \<Rightarrow> int \<Rightarrow> vm \<Rightarrow> (u64 \<times> int) option" where
  "vioapic_mmio_read gpa sz v = map_option snd (vioapic_mmio_rw gpa 0 sz True v)"

definition vioapic_mmio_write :: "u64 \<Rightarrow> u64 \<Rightarrow> int \<Rightarrow> vm \<Rightarrow> (vm \<times> int) option" where
  "vioapic_mmio_write gpa wval sz v =
     map_option (\<lambda>(v', _, e). (v', e)) (vioapic_mmio_rw gpa wval sz False v)"

subsection \<open>End of interrupt and initialisation\<close>

definition process_eoi_pin :: "nat \<Rightarrow> nat \<Rightarrow> vm \<Rightarrow> vm option" where
  "process_eoi_pin vector pin v =
     (if vm_reg v pin AND IOART_REM_IRR = 0 then Some v
      else if unat (vm_reg v pin AND 0xff) \<noteq> vector then Some v
      else let v1 = set_reg pin (\<lambda>r. r AND NOT IOART_REM_IRR) v
           in if vm_acnt v1 pin > 0 then vioapic_send_intr pin v1 else Some v1)"

definition vioapic_process_eoi :: "nat \<Rightarrow> vm \<Rightarrow> vm option" where
  "vioapic_process_eoi vector v =
     fold (\<lambda>pin s. Option.bind s (process_eoi_pin vector pin)) [0..<REDIR_ENTRIES] (Some v)"

definition vioapic_init :: vioapic where
  "vioapic_init = \<lparr>io_id = 0, io_ioregsel = 0, io_reg = (\<lambda>_. 0x0001000000010000), io_acnt = (\<lambda>_. 0)\<rparr>"

definition vioapic_pincount :: int where
  "vioapic_pincount = int REDIR_ENTRIES"

subsection \<open>Fields as bits\<close>

lemma set_reg_simps [simp]:
  "vm_vioapic (set_reg pin f v) =
     (vm_vioapic v)\<lparr>io_reg := (io_reg (vm_vioapic v))(pin := f (io_reg (vm_vioapic v) pin))\<rparr>"
  "vm_lapic (set_reg pin f v) = vm_lapic v" "vm_active_cpus (set_reg pin f v) = vm_active_cpus v"
  "vm_vatpic (set_reg pin f v) = vm_vatpic v" "vm_vatpit (set_reg pin f v) = vm_vatpit v"
  "vm_callouts (set_reg pin f v) = vm_callouts v" "vm_vhpet (set_reg pin f v) = vm_vhpet v" "vm_vrtc (set_reg pin f v) = vm_vrtc v" "vm_vpmtmr (set_reg pin f v) = vm_vpmtmr v" "vm_timebase (set_reg pin f v) = vm_timebase v"
  by (simp_all add: set_reg_def)

lemma set_acnt_simps [simp]:
  "vm_vioapic (set_acnt pin g v) =
     (vm_vioapic v)\<lparr>io_acnt := (io_acnt (vm_vioapic v))(pin := g (io_acnt (vm_vioapic v) pin))\<rparr>"
  "vm_lapic (set_acnt pin g v) = vm_lapic v" "vm_active_cpus (set_acnt pin g v) = vm_active_cpus v"
  "vm_vatpic (set_acnt pin g v) = vm_vatpic v" "vm_vatpit (set_acnt pin g v) = vm_vatpit v"
  "vm_callouts (set_acnt pin g v) = vm_callouts v" "vm_vhpet (set_acnt pin g v) = vm_vhpet v" "vm_vrtc (set_acnt pin g v) = vm_vrtc v" "vm_vpmtmr (set_acnt pin g v) = vm_vpmtmr v" "vm_timebase (set_acnt pin g v) = vm_timebase v"
  by (simp_all add: set_acnt_def)

lemma rt_level_bit: "rt_level reg \<longleftrightarrow> bit reg 15"
  using and_pow2_eq_0_iff [of "rt_low reg" 15]
  by (simp add: rt_level_def rt_low_def bit_ucast_iff)

lemma rt_masked_bit: "rt_low reg AND 0x10000 = 0x10000 \<longleftrightarrow> bit reg 16"
  using and_BIT_eq_BIT_iff [of 16 "rt_low reg"]
  by (simp add: BIT_eq_pow2 rt_low_def bit_ucast_iff)

lemma intmask_bit: "reg AND IOART_INTMASK = 0 \<longleftrightarrow> \<not> bit reg 16"
  using and_pow2_eq_0_iff [of reg 16] by simp

lemma rem_irr_bit: "reg AND IOART_REM_IRR = 0 \<longleftrightarrow> \<not> bit reg 14"
  using and_pow2_eq_0_iff [of reg 14] by simp

lemma bit_or_rem_irr [simp]: "bit (reg OR IOART_REM_IRR) n \<longleftrightarrow> bit reg n \<or> n = 14"
proof -
  have "(0x4000 :: u64) = BIT 14" by (simp add: BIT_def)
  then show ?thesis by (simp only: bit_or_BIT) auto
qed

lemma bit_clear_rem_irr [simp]: "bit (reg AND NOT IOART_REM_IRR) n \<longleftrightarrow> bit reg n \<and> n \<noteq> 14"
proof -
  have "(0x4000 :: u64) = BIT 14" by (simp add: BIT_def)
  then show ?thesis by (simp only: bit_clear_BIT)
qed

lemma rt_dest_less: "unat (rt_dest reg) < 256"
proof -
  have "unat (rt_high reg) < 2 ^ 32" using unsigned_less [of "rt_high reg"] by simp
  then show ?thesis by (simp add: rt_dest_def unat_drop_bit_div less_mult_imp_div_less)
qed

lemma rt_vector_less: "rt_vector reg < 256"
proof -
  have "(0xff :: u32) = mask 8" by (simp add: mask_eq_exp_minus_1)
  then have "rt_vector reg = unat (take_bit 8 (rt_low reg))" by (simp only: rt_vector_def take_bit_eq_mask)
  also have "\<dots> < 2 ^ 8" by (simp only: unsigned_take_bit_eq take_bit_nat_less_exp)
  finally show ?thesis by simp
qed

subsection \<open>No destination of this device is undefined\<close>

lemma sint_small:
  assumes "unat w < 256"
  shows "sint (w :: u32) = int (unat w)"
proof -
  have "int (unat w) < 256" using assms by linarith
  then have u: "0 \<le> uint w" "uint w < 256" by simp_all
  have "signed_take_bit 31 (uint w) = uint w"
  proof (rule signed_take_bit_int_eq_self)
    show "- (2 ^ 31) \<le> uint w" using u(1) by (rule order_trans [rotated]) simp
    show "uint w < 2 ^ 31" using u(2) by (rule less_trans) simp
  qed
  then show ?thesis by (simp add: sint_uint)
qed

lemma calcdest_defined:
  assumes "unat dest < 256"
  shows "vlapic_calcdest v dest phys lowprio False \<noteq> None"
  using assms by (auto simp: vlapic_calcdest_def vm_apicid2vcpuid_def sint_small Let_def)

lemma deliver_intr_defined:
  assumes "unat dest < 256"
  obtains v' where "vlapic_deliver_intr level dest phys delmode vec v = Some v'" and "deliver_frame v v'"
proof (cases "vlapic_deliver_intr level dest phys delmode vec v")
  case None
  then have False
    by (simp add: vlapic_deliver_intr_def calcdest_defined [OF assms] split: if_splits Option.bind_splits)
  then show thesis ..
next
  case (Some v')
  with that show thesis by (blast dest: deliver_frame_intr_deliver)
qed

subsection \<open>What the device changes elsewhere\<close>

definition intr_frame :: "vm \<Rightarrow> vm \<Rightarrow> bool" where
  "intr_frame v v' \<longleftrightarrow> (\<forall>j. isr_frame (vm_lapic v j) (vm_lapic v' j))
     \<and> (\<forall>j. vc_nmi_pending (vm_vcpu v j) \<longrightarrow> vc_nmi_pending (vm_vcpu v' j))
     \<and> vm_vatpic v' = vm_vatpic v \<and> vm_vatpit v' = vm_vatpit v
     \<and> vm_active_cpus v' = vm_active_cpus v \<and> vm_callouts v' = vm_callouts v \<and> vm_vhpet v' = vm_vhpet v \<and> vm_vrtc v' = vm_vrtc v \<and> vm_vpmtmr v' = vm_vpmtmr v
     \<and> vm_timebase v' = vm_timebase v"

lemma intr_frame_refl [simp, intro]: "intr_frame v v"
  by (simp add: intr_frame_def)

lemma intr_frame_trans [trans]: "intr_frame a b \<Longrightarrow> intr_frame b c \<Longrightarrow> intr_frame a c"
  unfolding intr_frame_def by (auto intro: isr_frame_trans)

lemma deliver_intr_frame: "deliver_frame v v' \<Longrightarrow> intr_frame v v'"
  by (simp add: intr_frame_def deliver_frame_simps deliver_frame_nmi_pending deliver_frame_lapic lapic_frame_isr)

lemma intr_frame_set_reg [simp]: "intr_frame v (set_reg pin f v)"
  and intr_frame_set_acnt [simp]: "intr_frame v (set_acnt pin g v)"
  and intr_frame_upd_vioapic [simp]: "intr_frame v (upd_vioapic h v)"
  by (simp_all add: intr_frame_def set_reg_def set_acnt_def)

lemma intr_frame_upd_vlapic:
  "isr_frame (vm_lapic v i) (f (vm_lapic v i)) \<Longrightarrow> intr_frame v (upd_vlapic i f v)"
  by (simp add: intr_frame_def)

lemma send_intr_spec:
  obtains v' where "vioapic_send_intr pin v = Some v'" and "intr_frame v v'"
    and "vm_vioapic v' = (vm_vioapic v)\<lparr>io_reg := (io_reg (vm_vioapic v))(pin :=
           (if \<not> bit (vm_reg v pin) 16 \<and> bit (vm_reg v pin) 15 then vm_reg v pin OR IOART_REM_IRR
            else vm_reg v pin))\<rparr>"
proof (cases "bit (vm_reg v pin) 16")
  case True
  then show thesis by (intro that [of v]) (simp_all add: vioapic_send_intr_def rt_masked_bit)
next
  case False
  let ?reg = "vm_reg v pin"
  let ?v1 = "if rt_level ?reg then set_reg pin (\<lambda>r. r OR IOART_REM_IRR) v else v"
  obtain v' where "vlapic_deliver_intr (rt_level ?reg) (rt_dest ?reg) (rt_phys ?reg) (rt_delmode ?reg)
      (rt_vector ?reg) ?v1 = Some v'" and "deliver_frame ?v1 v'"
    using deliver_intr_defined [OF rt_dest_less] by blast
  moreover have "intr_frame v ?v1" by simp
  ultimately show thesis using False
    by (intro that [of v'])
       (auto simp: vioapic_send_intr_def rt_masked_bit Let_def rt_level_bit deliver_frame_simps
         intro: intr_frame_trans deliver_intr_frame)
qed

subsection \<open>No level-triggered interrupt is lost\<close>

text \<open>
  A pin that is asserted, unmasked and level-triggered has its interrupt outstanding
  (remote IRR set): it was sent and not yet ended, so the next end of interrupt sends it again.
\<close>

definition pin_served :: "u64 \<Rightarrow> int \<Rightarrow> bool" where
  "pin_served reg acnt \<longleftrightarrow> (\<not> bit reg 16 \<and> bit reg 15 \<and> acnt > 0 \<longrightarrow> bit reg 14)"

definition level_ok :: "vm \<Rightarrow> bool" where
  "level_ok v \<longleftrightarrow> (\<forall>pin < REDIR_ENTRIES. pin_served (vm_reg v pin) (vm_acnt v pin))"

definition level_ok_but :: "nat \<Rightarrow> vm \<Rightarrow> bool" where
  "level_ok_but p v \<longleftrightarrow> (\<forall>pin < REDIR_ENTRIES. pin \<noteq> p \<longrightarrow> pin_served (vm_reg v pin) (vm_acnt v pin))"

lemma level_ok_butI: "level_ok v \<Longrightarrow> level_ok_but p v"
  by (simp add: level_ok_def level_ok_but_def)

lemma level_ok_from_but: "level_ok_but p v \<Longrightarrow> pin_served (vm_reg v p) (vm_acnt v p) \<Longrightarrow> level_ok v"
  by (auto simp: level_ok_def level_ok_but_def)

lemma level_ok_vioapic: "vm_vioapic v' = vm_vioapic v \<Longrightarrow> level_ok v' \<longleftrightarrow> level_ok v"
  by (simp add: level_ok_def)

lemma level_ok_but_upd [simp]:
  "level_ok_but p (set_reg p f v) \<longleftrightarrow> level_ok_but p v"
  "level_ok_but p (set_acnt p g v) \<longleftrightarrow> level_ok_but p v"
  by (auto simp: level_ok_but_def)

text \<open>An operation that always answers, keeps the frame, and keeps the pins served.\<close>

definition ioapic_safe :: "(vm \<Rightarrow> vm option) \<Rightarrow> bool" where
  "ioapic_safe f \<longleftrightarrow> (\<forall>v. \<exists>v'. f v = Some v' \<and> intr_frame v v' \<and> (level_ok v \<longrightarrow> level_ok v'))"

lemma ioapic_safeE:
  assumes "ioapic_safe f"
  obtains v' where "f v = Some v'" and "intr_frame v v'" and "level_ok v \<Longrightarrow> level_ok v'"
  using assms by (meson ioapic_safe_def)

lemma ioapic_safe_fold:
  assumes "\<And>x. x \<in> set xs \<Longrightarrow> ioapic_safe (f x)"
  shows "\<exists>v'. fold (\<lambda>x s. Option.bind s (f x)) xs (Some v) = Some v' \<and> intr_frame v v'
           \<and> (level_ok v \<longrightarrow> level_ok v')"
  using assms
proof (induction xs arbitrary: v)
  case (Cons x xs)
  obtain v1 where "f x v = Some v1" "intr_frame v v1" "level_ok v \<Longrightarrow> level_ok v1"
    using Cons.prems ioapic_safeE [of "f x"] by (metis list.set_intros(1))
  with Cons.IH [of v1] Cons.prems show ?case by (auto intro: intr_frame_trans)
qed auto

lemma send_intr_served:
  obtains v' where "vioapic_send_intr pin v = Some v'" and "intr_frame v v'"
    and "level_ok_but pin v \<Longrightarrow> level_ok v'"
proof -
  obtain v' where v': "vioapic_send_intr pin v = Some v'" "intr_frame v v'"
    "vm_vioapic v' = (vm_vioapic v)\<lparr>io_reg := (io_reg (vm_vioapic v))(pin :=
       (if \<not> bit (vm_reg v pin) 16 \<and> bit (vm_reg v pin) 15 then vm_reg v pin OR IOART_REM_IRR
        else vm_reg v pin))\<rparr>" by (rule send_intr_spec)
  have "level_ok v'" if "level_ok_but pin v"
    using that by (auto simp: level_ok_def level_ok_but_def pin_served_def v'(3))
  with v' show thesis by (blast intro: that)
qed

lemma set_pinstate_safe: "ioapic_safe (vioapic_set_pinstate pin newstate)"
  unfolding ioapic_safe_def
proof
  fix v
  let ?v1 = "set_acnt pin (\<lambda>n. if newstate then n + 1 else n - 1) v"
  show "\<exists>v'. vioapic_set_pinstate pin newstate v = Some v' \<and> intr_frame v v' \<and> (level_ok v \<longrightarrow> level_ok v')"
  proof (cases "vm_acnt v pin = 0 \<and> vm_acnt ?v1 pin = 1")
    case True
    obtain v' where "vioapic_send_intr pin ?v1 = Some v'" "intr_frame ?v1 v'"
      "level_ok_but pin ?v1 \<Longrightarrow> level_ok v'"
      by (rule send_intr_served [of pin ?v1]) blast
    with True show ?thesis
      by (auto simp: vioapic_set_pinstate_def Let_def intro: intr_frame_trans [OF intr_frame_set_acnt]
          level_ok_butI)
  next
    case False
    then have "vioapic_set_pinstate pin newstate v = Some ?v1"
      by (auto simp: vioapic_set_pinstate_def Let_def)
    moreover have "level_ok ?v1" if "level_ok v"
      using that False by (auto simp: level_ok_def pin_served_def split: if_splits)
    ultimately show ?thesis by simp
  qed
qed

lemma process_eoi_pin_safe: "ioapic_safe (process_eoi_pin vector pin)"
  unfolding ioapic_safe_def
proof
  fix v
  let ?v1 = "set_reg pin (\<lambda>r. r AND NOT IOART_REM_IRR) v"
  obtain v' where "vioapic_send_intr pin ?v1 = Some v'" "intr_frame ?v1 v'"
      "level_ok_but pin ?v1 \<Longrightarrow> level_ok v'"
    by (rule send_intr_served [of pin ?v1]) blast
  moreover have "level_ok ?v1" if "level_ok v" "\<not> vm_acnt v pin > 0"
    using that by (auto simp: level_ok_def pin_served_def)
  ultimately show "\<exists>v'. process_eoi_pin vector pin v = Some v' \<and> intr_frame v v' \<and> (level_ok v \<longrightarrow> level_ok v')"
    by (auto simp: process_eoi_pin_def Let_def intro: intr_frame_trans [OF intr_frame_set_reg] level_ok_butI)
qed

lemma vioapic_process_eoi_safe: "ioapic_safe (vioapic_process_eoi vector)"
  unfolding ioapic_safe_def vioapic_process_eoi_def by (metis ioapic_safe_fold process_eoi_pin_safe)

subsection \<open>Trigger mode registers follow the redirection table\<close>

lemma set_tmr_frame [simp]: "isr_frame l (vlapic_set_tmr vector level l)"
  by (simp add: isr_frame_def vlapic_set_tmr_def Let_def)

lemma reset_tmr_frame [simp]: "isr_frame l (vlapic_reset_tmr l)"
  unfolding vlapic_reset_tmr_def
  by (rule fold_invariant_rule [where P = "isr_frame l"]) (auto intro: isr_frame_trans)

lemma tmr_after_set:
  "vec_bit (la_tmr (vl_page (vlapic_set_tmr vector level l))) x \<longleftrightarrow>
     (if x = vector then level else vec_bit (la_tmr (vl_page l)) x)"
  by (simp add: vlapic_set_tmr_def Let_def vec_bit_set vec_bit_clear)

lemma set_tmr_sel [simp]:
  "vl_vcpuid (vlapic_set_tmr vector level l) = vl_vcpuid l"
  "vl_msr_apicbase (vlapic_set_tmr vector level l) = vl_msr_apicbase l"
  "la_dfr (vl_page (vlapic_set_tmr vector level l)) = la_dfr (vl_page l)"
  "la_ldr (vl_page (vlapic_set_tmr vector level l)) = la_ldr (vl_page l)"
  "la_irr (vl_page (vlapic_set_tmr vector level l)) = la_irr (vl_page l)"
  by (simp_all add: vlapic_set_tmr_def Let_def)

lemma reset_tmr_sel [simp]:
  "vl_vcpuid (vlapic_reset_tmr l) = vl_vcpuid l"
  "vl_msr_apicbase (vlapic_reset_tmr l) = vl_msr_apicbase l"
  "la_dfr (vl_page (vlapic_reset_tmr l)) = la_dfr (vl_page l)"
  "la_ldr (vl_page (vlapic_reset_tmr l)) = la_ldr (vl_page l)"
  "la_irr (vl_page (vlapic_reset_tmr l)) = la_irr (vl_page l)"
  by (simp_all add: vlapic_reset_tmr_def fold_field_const [where g = "vl_vcpuid"]
      fold_field_const [where g = "vl_msr_apicbase"] fold_field_const [where g = "\<lambda>l. la_dfr (vl_page l)"]
      fold_field_const [where g = "\<lambda>l. la_ldr (vl_page l)"] fold_field_const [where g = "\<lambda>l. la_irr (vl_page l)"])

lemma tmr_after_reset:
  assumes "x < 256"
  shows "\<not> vec_bit (la_tmr (vl_page (vlapic_reset_tmr l))) x"
proof -
  have "vec_bit (la_tmr (vl_page (fold (\<lambda>vector. vlapic_set_tmr vector False) vs l))) x
      \<longleftrightarrow> x \<notin> set vs \<and> vec_bit (la_tmr (vl_page l)) x" for vs l
    by (induction vs arbitrary: l) (auto simp: tmr_after_set)
  then show ?thesis using assms by (simp add: vlapic_reset_tmr_def)
qed

text \<open>The vectors for which a level-triggered pin addresses a local APIC.\<close>

definition pin_levels :: "vm \<Rightarrow> nat \<Rightarrow> nat \<Rightarrow> nat \<Rightarrow> bool" where
  "pin_levels v i pin x \<longleftrightarrow>
     (let reg = vm_reg v pin in
      rt_level reg \<and> (rt_delmode reg = IOART_DELFIXED \<or> rt_delmode reg = IOART_DELLOPRI) \<and> rt_vector reg = x
      \<and> (case vlapic_calcdest v (rt_dest reg) (rt_phys reg) (rt_delmode reg = IOART_DELLOPRI) False of
           Some d \<Rightarrow> CPU_ISSET (vl_vcpuid (vm_lapic v i)) d | None \<Rightarrow> False))"

text \<open>What destination decoding reads of the machine.\<close>

definition addressing_eq :: "vm \<Rightarrow> vm \<Rightarrow> bool" where
  "addressing_eq v v' \<longleftrightarrow> vm_active_cpus v' = vm_active_cpus v \<and> vm_vioapic v' = vm_vioapic v
     \<and> (\<forall>j. vl_msr_apicbase (vm_lapic v' j) = vl_msr_apicbase (vm_lapic v j)
            \<and> vl_vcpuid (vm_lapic v' j) = vl_vcpuid (vm_lapic v j)
            \<and> la_dfr (vl_page (vm_lapic v' j)) = la_dfr (vl_page (vm_lapic v j))
            \<and> la_ldr (vl_page (vm_lapic v' j)) = la_ldr (vl_page (vm_lapic v j)))"

lemma logical_match_cong:
  "addressing_eq v v' \<Longrightarrow> logical_match (vm_lapic v' j) x2 dest = logical_match (vm_lapic v j) x2 dest"
  by (simp add: addressing_eq_def logical_match_def x2apic_def Let_def)

lemma calcdest_cong:
  assumes "addressing_eq v v'"
  shows "vlapic_calcdest v' = vlapic_calcdest v"
proof -
  have "vm_active_cpus v' = vm_active_cpus v" using assms by (simp add: addressing_eq_def)
  then show ?thesis
    by (simp add: fun_eq_iff vlapic_calcdest_def logical_match_cong [OF assms])
qed

lemma pin_levels_cong:
  assumes "addressing_eq v v'"
  shows "pin_levels v' i pin x = pin_levels v i pin x"
proof -
  have "vl_vcpuid (vm_lapic v' i) = vl_vcpuid (vm_lapic v i)" "vm_vioapic v' = vm_vioapic v"
    using assms by (simp_all add: addressing_eq_def)
  then show ?thesis by (simp only: pin_levels_def calcdest_cong [OF assms])
qed

lemma addressing_eq_refl [simp]: "addressing_eq v v"
  by (simp add: addressing_eq_def)

lemma addressing_eq_trans: "addressing_eq a b \<Longrightarrow> addressing_eq b c \<Longrightarrow> addressing_eq a c"
  by (simp add: addressing_eq_def)

lemma update_tmr_pin_spec:
  obtains v' where "update_tmr_pin i pin v = Some v'" and "intr_frame v v'" and "addressing_eq v v'"
    and "\<And>j x. vec_bit (la_tmr (vl_page (vm_lapic v' j))) x
           \<longleftrightarrow> vec_bit (la_tmr (vl_page (vm_lapic v j))) x \<or> (j = i \<and> pin_levels v i pin x)"
proof -
  let ?reg = "vm_reg v pin"
  obtain d where d: "vlapic_calcdest v (rt_dest ?reg) (rt_phys ?reg) (rt_delmode ?reg = IOART_DELLOPRI) False = Some d"
    using calcdest_defined [OF rt_dest_less] by blast
  let ?hit = "rt_level ?reg \<and> (rt_delmode ?reg = IOART_DELFIXED \<or> rt_delmode ?reg = IOART_DELLOPRI)
      \<and> CPU_ISSET (vl_vcpuid (vm_lapic v i)) d"
  let ?v' = "if ?hit then upd_vlapic i (vlapic_set_tmr (rt_vector ?reg) True) v else v"
  have "update_tmr_pin i pin v = Some ?v'"
    using d by (auto simp: update_tmr_pin_def vlapic_set_tmr_level_def Let_def)
  then show thesis
  proof (rule that)
    show "intr_frame v ?v'" by (simp add: intr_frame_upd_vlapic)
    show "addressing_eq v ?v'" by (simp add: addressing_eq_def)
    show "vec_bit (la_tmr (vl_page (vm_lapic ?v' j))) x
           \<longleftrightarrow> vec_bit (la_tmr (vl_page (vm_lapic v j))) x \<or> (j = i \<and> pin_levels v i pin x)" for j x
      using d by (auto simp: tmr_after_set pin_levels_def Let_def)
  qed
qed

lemma update_tmr_fold:
  "\<exists>v'. fold (\<lambda>pin s. Option.bind s (update_tmr_pin i pin)) pins (Some v) = Some v'
     \<and> intr_frame v v' \<and> addressing_eq v v'
     \<and> (\<forall>j x. vec_bit (la_tmr (vl_page (vm_lapic v' j))) x
           \<longleftrightarrow> vec_bit (la_tmr (vl_page (vm_lapic v j))) x \<or> (j = i \<and> (\<exists>pin\<in>set pins. pin_levels v i pin x)))"
proof (induction pins arbitrary: v)
  case Nil
  then show ?case by (simp add: addressing_eq_def)
next
  case (Cons pin pins)
  obtain v1 where v1: "update_tmr_pin i pin v = Some v1" "intr_frame v v1" "addressing_eq v v1"
    "\<And>j x. vec_bit (la_tmr (vl_page (vm_lapic v1 j))) x
           \<longleftrightarrow> vec_bit (la_tmr (vl_page (vm_lapic v j))) x \<or> (j = i \<and> pin_levels v i pin x)"
    by (rule update_tmr_pin_spec [of i pin v]) blast
  obtain v' where v': "fold (\<lambda>pin s. Option.bind s (update_tmr_pin i pin)) pins (Some v1) = Some v'"
    "intr_frame v1 v'" "addressing_eq v1 v'"
    "\<forall>j x. vec_bit (la_tmr (vl_page (vm_lapic v' j))) x
       \<longleftrightarrow> vec_bit (la_tmr (vl_page (vm_lapic v1 j))) x \<or> (j = i \<and> (\<exists>pin\<in>set pins. pin_levels v1 i pin x))"
    using Cons.IH by blast
  show ?case
  proof (intro exI conjI)
    show "fold (\<lambda>pin s. Option.bind s (update_tmr_pin i pin)) (pin # pins) (Some v) = Some v'"
      using v1(1) v'(1) by simp
    show "intr_frame v v'" using v1(2) v'(2) by (rule intr_frame_trans)
    show "addressing_eq v v'" using v1(3) v'(3) by (rule addressing_eq_trans)
  qed (auto simp: v'(4) v1(4) pin_levels_cong [OF v1(3)])
qed

lemma update_tmr_spec:
  obtains v' where "vioapic_update_tmr i v = Some v'" and "intr_frame v v'" and "addressing_eq v v'"
    and "\<And>x. x < 256 \<Longrightarrow> vec_bit (la_tmr (vl_page (vm_lapic v' i))) x
           \<longleftrightarrow> (\<exists>pin < REDIR_ENTRIES. pin_levels v i pin x)"
    and "\<And>j. j \<noteq> i \<Longrightarrow> (\<And>x. vec_bit (la_tmr (vl_page (vm_lapic v' j))) x
           \<longleftrightarrow> vec_bit (la_tmr (vl_page (vm_lapic v j))) x)"
proof -
  let ?v0 = "upd_vlapic i vlapic_reset_tmr v"
  have a0: "addressing_eq v ?v0" by (simp add: addressing_eq_def)
  have f0: "intr_frame v ?v0" by (simp add: intr_frame_upd_vlapic)
  obtain v' where v': "fold (\<lambda>pin s. Option.bind s (update_tmr_pin i pin)) [0..<REDIR_ENTRIES] (Some ?v0) = Some v'"
    "intr_frame ?v0 v'" "addressing_eq ?v0 v'"
    "\<forall>j x. vec_bit (la_tmr (vl_page (vm_lapic v' j))) x \<longleftrightarrow> vec_bit (la_tmr (vl_page (vm_lapic ?v0 j))) x
       \<or> (j = i \<and> (\<exists>pin\<in>set [0..<REDIR_ENTRIES]. pin_levels ?v0 i pin x))"
    using update_tmr_fold [of i "[0..<REDIR_ENTRIES]" ?v0] by blast
  show thesis
  proof (rule that [of v'])
    show "vioapic_update_tmr i v = Some v'" using v'(1) by (simp only: vioapic_update_tmr_def)
    show "intr_frame v v'" using f0 v'(2) by (rule intr_frame_trans)
    show "addressing_eq v v'" using a0 v'(3) by (rule addressing_eq_trans)
    show "vec_bit (la_tmr (vl_page (vm_lapic v' i))) x \<longleftrightarrow> (\<exists>pin < REDIR_ENTRIES. pin_levels v i pin x)"
      if "x < 256" for x
      using v'(4) that by (auto simp: pin_levels_cong [OF a0] tmr_after_reset)
  qed (use v'(4) in auto)
qed

lemma addressing_level_ok: "addressing_eq v v' \<Longrightarrow> level_ok v' \<longleftrightarrow> level_ok v"
  by (rule level_ok_vioapic) (simp add: addressing_eq_def)

lemma notify_fold_frame:
  "deliver_frame v (fold (\<lambda>i s. if P i then vcpu_notify_event i s else s) xs v)"
  by (rule fold_invariant_rule [where P = "deliver_frame v"]) (auto intro: deliver_frame_trans)

lemma deliver_addressing_eq: "deliver_frame v v' \<Longrightarrow> addressing_eq v v'"
  by (simp add: addressing_eq_def deliver_frame_simps lapic_frame_simps [OF deliver_frame_lapic])

lemma update_tmr_all:
  "\<exists>v'. fold (\<lambda>i s. Option.bind s (vioapic_update_tmr i)) cs (Some v) = Some v'
     \<and> intr_frame v v' \<and> addressing_eq v v'
     \<and> (\<forall>j x. x < 256 \<longrightarrow> (vec_bit (la_tmr (vl_page (vm_lapic v' j))) x \<longleftrightarrow>
          (if j \<in> set cs then \<exists>pin < REDIR_ENTRIES. pin_levels v j pin x
           else vec_bit (la_tmr (vl_page (vm_lapic v j))) x)))"
proof (induction cs arbitrary: v)
  case Nil
  then show ?case by (simp add: addressing_eq_def)
next
  case (Cons i cs)
  obtain v1 where v1: "vioapic_update_tmr i v = Some v1" "intr_frame v v1" "addressing_eq v v1"
    "\<And>x. x < 256 \<Longrightarrow> vec_bit (la_tmr (vl_page (vm_lapic v1 i))) x
       \<longleftrightarrow> (\<exists>pin < REDIR_ENTRIES. pin_levels v i pin x)"
    "\<And>j x. j \<noteq> i \<Longrightarrow> vec_bit (la_tmr (vl_page (vm_lapic v1 j))) x
       \<longleftrightarrow> vec_bit (la_tmr (vl_page (vm_lapic v j))) x"
    by (rule update_tmr_spec [of i v]) blast
  obtain v' where v': "fold (\<lambda>i s. Option.bind s (vioapic_update_tmr i)) cs (Some v1) = Some v'"
    "intr_frame v1 v'" "addressing_eq v1 v'"
    "\<forall>j x. x < 256 \<longrightarrow> (vec_bit (la_tmr (vl_page (vm_lapic v' j))) x \<longleftrightarrow>
          (if j \<in> set cs then \<exists>pin < REDIR_ENTRIES. pin_levels v1 j pin x
           else vec_bit (la_tmr (vl_page (vm_lapic v1 j))) x))"
    using Cons.IH by blast
  show ?case
  proof (intro exI conjI)
    show "fold (\<lambda>i s. Option.bind s (vioapic_update_tmr i)) (i # cs) (Some v) = Some v'"
      using v1(1) v'(1) by simp
    show "intr_frame v v'" using v1(2) v'(2) by (rule intr_frame_trans)
    show "addressing_eq v v'" using v1(3) v'(3) by (rule addressing_eq_trans)
  qed (auto simp: v'(4) v1(4,5) pin_levels_cong [OF v1(3)] split: if_splits)
qed

lemma rendezvous_update_tmr:
  obtains v' where "vm_smp_rendezvous dest vioapic_update_tmr v = Some v'"
    and "intr_frame v v'" and "addressing_eq v v'"
    and "\<And>j x. x < 256 \<Longrightarrow> j < VM_MAXCPU \<Longrightarrow> CPU_ISSET j dest \<Longrightarrow>
           vec_bit (la_tmr (vl_page (vm_lapic v' j))) x \<longleftrightarrow> (\<exists>pin < REDIR_ENTRIES. pin_levels v j pin x)"
proof -
  let ?v0 = "fold (\<lambda>i s. if CPU_ISSET i dest then vcpu_notify_event i s else s) [0..<VM_MAXCPU] v"
  let ?cs = "filter (\<lambda>i. CPU_ISSET i dest) [0..<VM_MAXCPU]"
  have d0: "deliver_frame v ?v0" by (rule notify_fold_frame)
  obtain v' where v': "fold (\<lambda>i s. Option.bind s (vioapic_update_tmr i)) ?cs (Some ?v0) = Some v'"
    "intr_frame ?v0 v'" "addressing_eq ?v0 v'"
    "\<forall>j x. x < 256 \<longrightarrow> (vec_bit (la_tmr (vl_page (vm_lapic v' j))) x \<longleftrightarrow>
          (if j \<in> set ?cs then \<exists>pin < REDIR_ENTRIES. pin_levels ?v0 j pin x
           else vec_bit (la_tmr (vl_page (vm_lapic ?v0 j))) x))"
    using update_tmr_all [of ?cs ?v0] by blast
  show thesis
  proof (rule that [of v'])
    show "vm_smp_rendezvous dest vioapic_update_tmr v = Some v'"
      using v'(1) by (simp only: vm_smp_rendezvous_def)
    show "intr_frame v v'" using deliver_intr_frame [OF d0] v'(2) by (rule intr_frame_trans)
    show "addressing_eq v v'" using deliver_addressing_eq [OF d0] v'(3) by (rule addressing_eq_trans)
    show "vec_bit (la_tmr (vl_page (vm_lapic v' j))) x \<longleftrightarrow> (\<exists>pin < REDIR_ENTRIES. pin_levels v j pin x)"
      if "x < 256" "j < VM_MAXCPU" "CPU_ISSET j dest" for j x
      using v'(4) that pin_levels_cong [OF deliver_addressing_eq [OF d0]] by simp
  qed
qed

subsection \<open>Guest writes to the redirection table\<close>

lemma bit_ro_bits: "bit (RTBL_RO_BITS :: u64) n \<longleftrightarrow> n = 12 \<or> n = 14"
proof -
  have "(RTBL_RO_BITS :: u64) = BIT 12 OR BIT 14" by (simp add: BIT_def)
  then show ?thesis by (simp only: bit_or_BIT bit_BIT) auto
qed

lemma bit_lane: "bit (push_bit s 0xffffffff :: u64) n \<longleftrightarrow> s \<le> n \<and> n < 64 \<and> n < s + 32"
proof -
  have "(0xffffffff :: u64) = mask 32" by (simp add: mask_eq_exp_minus_1)
  then show ?thesis by (simp only: bit_push_bit_iff bit_mask_iff possible_bit_word) auto
qed

text \<open>
  A 32-bit write replaces its half of the entry except the two read-only bits
  (delivery status and remote IRR).
\<close>

lemma bit_rtbl_merge:
  assumes "s = 0 \<or> s = 32"
  shows "bit (rtbl_merge s data reg) n \<longleftrightarrow>
     (if n = 12 \<or> n = 14 \<or> \<not> (s \<le> n \<and> n < s + 32) then bit reg n else bit data (n - s))"
proof -
  have d: "bit data m \<Longrightarrow> m < 32" for m by (auto dest: bit_imp_le_length)
  have r: "bit reg m \<Longrightarrow> m < 64" for m by (auto dest: bit_imp_le_length)
  show ?thesis
    unfolding rtbl_merge_def Let_def bit_or_iff bit_and_iff bit_not_iff bit_ro_bits bit_lane
      possible_bit_word
    using assms by (auto simp: bit_push_bit_iff bit_ucast_iff dest: d r)
qed

text \<open>
  The effect of a write that selects half of an entry: the table entry, the counters, the trigger mode
  registers, and the step that follows the update of the table.
\<close>

lemma vioapic_write_redir:
  fixes addr data :: u32 and v :: vm
  assumes "IOAPIC_REDTBL \<le> unat (addr AND 0xff)" and "unat (addr AND 0xff) < IOAPIC_REDTBL + REDIR_ENTRIES * 2"
  defines "pin \<equiv> (unat (addr AND 0xff) - IOAPIC_REDTBL) div 2"
    and "lshift \<equiv> (if (unat (addr AND 0xff) - IOAPIC_REDTBL) mod 2 \<noteq> 0 then 32 else 0 :: nat)"
  defines "chg \<equiv> (vm_reg v pin XOR rtbl_merge lshift data (vm_reg v pin)) AND NOT (IOART_INTMASK OR IOART_INTPOL) \<noteq> 0"
  obtains v3 where "intr_frame v v3"
    and "addressing_eq (set_reg pin (rtbl_merge lshift data) v) v3"
    and "\<And>j x. chg \<Longrightarrow> x < 256 \<Longrightarrow> j < VM_MAXCPU \<Longrightarrow> CPU_ISSET j (vm_active_cpus v) \<Longrightarrow>
           vec_bit (la_tmr (vl_page (vm_lapic v3 j))) x
           \<longleftrightarrow> (\<exists>q < REDIR_ENTRIES. pin_levels (set_reg pin (rtbl_merge lshift data) v) j q x)"
    and "vioapic_write addr data v = (if vm_reg v3 pin AND IOART_INTMASK = 0
           \<and> vm_reg v3 pin AND IOART_REM_IRR = 0 \<and> vm_acnt v3 pin > 0 then vioapic_send_intr pin v3 else Some v3)"
proof -
  define v2 where "v2 = set_reg pin (rtbl_merge lshift data) v"
  define r where "r = (if chg then vm_smp_rendezvous (vm_active_cpus v2) vioapic_update_tmr v2 else Some v2)"
  have w: "vioapic_write addr data v = Option.bind r (\<lambda>v3. if vm_reg v3 pin AND IOART_INTMASK = 0
      \<and> vm_reg v3 pin AND IOART_REM_IRR = 0 \<and> vm_acnt v3 pin > 0 then vioapic_send_intr pin v3 else Some v3)"
    using assms(1,2) unfolding vioapic_write_def Let_def r_def chg_def v2_def pin_def lshift_def by simp
  have f2: "intr_frame v v2" and a2: "vm_active_cpus v2 = vm_active_cpus v" by (simp_all add: v2_def)
  obtain v' where v': "vm_smp_rendezvous (vm_active_cpus v2) vioapic_update_tmr v2 = Some v'"
    "intr_frame v2 v'" "addressing_eq v2 v'"
    "\<And>j x. x < 256 \<Longrightarrow> j < VM_MAXCPU \<Longrightarrow> CPU_ISSET j (vm_active_cpus v2) \<Longrightarrow>
       vec_bit (la_tmr (vl_page (vm_lapic v' j))) x \<longleftrightarrow> (\<exists>q < REDIR_ENTRIES. pin_levels v2 j q x)"
    by (rule rendezvous_update_tmr [of "vm_active_cpus v2" v2]) blast
  show thesis
  proof (cases chg)
    case True
    show ?thesis
      by (rule that [of v']) (use True w v' intr_frame_trans [OF f2] in \<open>simp_all add: r_def a2 flip: v2_def\<close>)
  next
    case False
    show ?thesis by (rule that [of v2]) (use False w f2 in \<open>simp_all add: r_def flip: v2_def\<close>)
  qed
qed

lemma vioapic_write_safe: "ioapic_safe (vioapic_write addr data)"
  unfolding ioapic_safe_def
proof
  fix v
  let ?n = "unat (addr AND 0xff)"
  let ?v1 = "if ?n = IOAPIC_ID then upd_vioapic (\<lambda>io. io\<lparr>io_id := data AND 0xff000000\<rparr>) v else v"
  show "\<exists>v'. vioapic_write addr data v = Some v' \<and> intr_frame v v' \<and> (level_ok v \<longrightarrow> level_ok v')"
  proof (cases "IOAPIC_REDTBL \<le> ?n \<and> ?n < IOAPIC_REDTBL + REDIR_ENTRIES * 2")
    case False
    then have "vioapic_write addr data v = Some ?v1" by (auto simp: vioapic_write_def Let_def)
    moreover have "intr_frame v ?v1" "level_ok ?v1 = level_ok v" by (simp_all add: level_ok_def)
    ultimately show ?thesis by blast
  next
    case True
    let ?pin = "(?n - IOAPIC_REDTBL) div 2"
    let ?v2 = "set_reg ?pin (rtbl_merge (if (?n - IOAPIC_REDTBL) mod 2 \<noteq> 0 then 32 else 0) data) v"
    obtain v3 where v3: "intr_frame v v3" "addressing_eq ?v2 v3"
      "vioapic_write addr data v = (if vm_reg v3 ?pin AND IOART_INTMASK = 0
         \<and> vm_reg v3 ?pin AND IOART_REM_IRR = 0 \<and> vm_acnt v3 ?pin > 0 then vioapic_send_intr ?pin v3 else Some v3)"
      by (rule vioapic_write_redir [OF True [THEN conjunct1] True [THEN conjunct2], of v data]) blast
    have but: "level_ok_but ?pin v3" if "level_ok v"
    proof -
      have "level_ok_but ?pin ?v2" using that by (simp add: level_ok_butI)
      then show ?thesis using v3(2) by (simp add: level_ok_but_def addressing_eq_def)
    qed
    obtain v' where v': "vioapic_send_intr ?pin v3 = Some v'" "intr_frame v3 v'"
      "level_ok_but ?pin v3 \<Longrightarrow> level_ok v'" by (rule send_intr_served [of ?pin v3]) blast
    have "level_ok v3" if "level_ok v" "\<not> (vm_reg v3 ?pin AND IOART_INTMASK = 0
        \<and> vm_reg v3 ?pin AND IOART_REM_IRR = 0 \<and> vm_acnt v3 ?pin > 0)"
      using but [OF that(1)] that(2)
      by (intro level_ok_from_but [of ?pin]) (auto simp: pin_served_def intmask_bit rem_irr_bit)
    then show ?thesis
      using v3(1,3) v' but intr_frame_trans [OF v3(1) v'(2)]
      by (cases "vm_reg v3 ?pin AND IOART_INTMASK = 0 \<and> vm_reg v3 ?pin AND IOART_REM_IRR = 0 \<and> vm_acnt v3 ?pin > 0") auto
  qed
qed

lemma vioapic_init_served: "vm_vioapic v = vioapic_init \<Longrightarrow> level_ok v"
  by (simp add: level_ok_def pin_served_def vioapic_init_def)

subsection \<open>Whom an interrupt reaches\<close>

text \<open>
  The destination of a message of the I/O APIC or of a device, by the rules of the architecture: 0xff is
  everybody; a physical destination is one processor; a logical one is every active processor whose
  destination registers match, or the first of them in lowest-priority mode.
\<close>

definition addressed :: "vm \<Rightarrow> u32 \<Rightarrow> bool \<Rightarrow> bool \<Rightarrow> nat \<Rightarrow> bool" where
  "addressed v dest phys lowprio j \<longleftrightarrow>
     (if dest = 0xff then CPU_ISSET j (vm_active_cpus v)
      else if phys then unat dest = j \<and> j < VM_MAXCPU
      else CPU_ISSET j (vm_active_cpus v) \<and> logical_match (vm_lapic v j) False dest
        \<and> (lowprio \<longrightarrow> (\<forall>k<j. CPU_ISSET k (vm_active_cpus v) \<longrightarrow> \<not> logical_match (vm_lapic v k) False dest)))"

lemma calcdest_addressed:
  assumes "unat dest < 256"
  obtains d where "vlapic_calcdest v dest phys lowprio False = Some d"
    and "\<And>j. CPU_ISSET j d \<longleftrightarrow> addressed v dest phys lowprio j"
proof -
  obtain d where d: "vlapic_calcdest v dest phys lowprio False = Some d"
    using calcdest_defined [OF assms] by blast
  have "CPU_ISSET j d \<longleftrightarrow> addressed v dest phys lowprio j" for j
  proof -
    consider (all) "dest = 0xff" | (phys) "dest \<noteq> 0xff" phys | (logical) "dest \<noteq> 0xff" "\<not> phys" by blast
    then show ?thesis
    proof cases
      case all
      then show ?thesis using d by (simp add: vlapic_calcdest_def addressed_def)
    next
      case phys
      have "uint dest < 16 \<longleftrightarrow> unat dest < 16"
        by (subst nat_uint_eq [symmetric]) (simp add: nat_less_iff del: nat_uint_eq)
      then show ?thesis using phys d assms
        by (auto simp: vlapic_calcdest_def addressed_def vm_apicid2vcpuid_def sint_small Let_def split: if_splits)
    next
      case logical
      have "dest \<noteq> (if False then 0xffffffff else 0xff)" using logical by simp
      then show ?thesis
        by (rule calcdest_logical [of dest False v lowprio j]) (use d logical in \<open>cases lowprio; simp add: addressed_def\<close>)
    qed
  qed
  then show thesis using that d by blast
qed

lemma deliver_intr_exact:
  assumes "unat dest < 256" and "delmode = IOART_DELFIXED \<or> delmode = IOART_DELLOPRI" and "16 \<le> vec" and "vec \<le> 255"
  obtains v' where "vlapic_deliver_intr level dest phys delmode vec v = Some v'"
    and "\<And>j. vm_lapic v' j = (if addressed v dest phys (delmode = IOART_DELLOPRI) j \<and> j < VM_MAXCPU
               then request_vec vec (vm_lapic v j) else vm_lapic v j)"
proof -
  obtain d where d: "vlapic_calcdest v dest phys (delmode = IOART_DELLOPRI) False = Some d"
    "\<And>j. CPU_ISSET j d \<longleftrightarrow> addressed v dest phys (delmode = IOART_DELLOPRI) j"
    by (rule calcdest_addressed [OF assms(1)]) blast
  have "delmode \<noteq> IOART_DELEXINT" using assms(2) by auto
  then have "vlapic_deliver_intr level dest phys delmode vec v
      = Some (fold (\<lambda>c s. fst (lapic_set_intr c vec level s)) (cpus_of d) v)"
    using assms(2) d(1) by (auto simp: vlapic_deliver_intr_def cpu_foreach_visit visit_no_break)
  then show thesis
    by (rule that) (use assms(3,4) d(2) in \<open>simp add: fold_set_intr_effect set_cpus_of\<close>)
qed

subsection \<open>Properties\<close>

text \<open>A zeroed machine with two active processors, whose pin 4 is set up as in the examples below.\<close>

definition demo_vm :: "u64 \<Rightarrow> vm" where
  "demo_vm reg = (set_reg 4 (\<lambda>_. reg) (vm_calloc \<lparr>tb_numer = 1, tb_denom = 1\<rparr>))\<lparr>vm_active_cpus := 3\<rparr>"



lemma process_eoi_pin_table:
  obtains v' where "process_eoi_pin vector pin v = Some v'"
    and "vm_vioapic v' = (vm_vioapic v)\<lparr>io_reg := (io_reg (vm_vioapic v))(pin :=
           (if bit (vm_reg v pin) 14 \<and> unat (vm_reg v pin AND 0xff) = vector
               \<and> \<not> (vm_acnt v pin > 0 \<and> \<not> bit (vm_reg v pin) 16 \<and> bit (vm_reg v pin) 15)
            then vm_reg v pin AND NOT IOART_REM_IRR else vm_reg v pin))\<rparr>"
proof -
  let ?v1 = "set_reg pin (\<lambda>r. r AND NOT IOART_REM_IRR) v"
  obtain v2 where v2: "vioapic_send_intr pin ?v1 = Some v2"
    "vm_vioapic v2 = (vm_vioapic ?v1)\<lparr>io_reg := (io_reg (vm_vioapic ?v1))(pin :=
       (if \<not> bit (vm_reg ?v1 pin) 16 \<and> bit (vm_reg ?v1 pin) 15 then vm_reg ?v1 pin OR IOART_REM_IRR
        else vm_reg ?v1 pin))\<rparr>"
    by (rule send_intr_spec [of pin ?v1]) blast
  have restore: "r AND NOT IOART_REM_IRR OR IOART_REM_IRR = r" if "bit r 14" for r :: u64
    using that by (intro bit_word_eqI, unfold bit_or_rem_irr bit_clear_rem_irr) auto
  show thesis
  proof (cases "bit (vm_reg v pin) 14 \<and> unat (vm_reg v pin AND 0xff) = vector")
    case False
    then have "process_eoi_pin vector pin v = Some v" by (auto simp: process_eoi_pin_def rem_irr_bit)
    then show ?thesis by (rule that) (use False in auto)
  next
    case True
    let ?v' = "if vm_acnt v pin > 0 then v2 else ?v1"
    have "process_eoi_pin vector pin v = Some ?v'"
      using True v2(1) by (simp add: process_eoi_pin_def rem_irr_bit Let_def)
    then show ?thesis by (rule that) (use True v2(2) restore
        bit_clear_rem_irr [of "vm_reg v pin" 15] bit_clear_rem_irr [of "vm_reg v pin" 16] in auto)
  qed
qed

lemma process_eoi_fold:
  assumes "distinct pins"
  shows "\<exists>v'. fold (\<lambda>pin s. Option.bind s (process_eoi_pin vector pin)) pins (Some v) = Some v'
     \<and> io_acnt (vm_vioapic v') = io_acnt (vm_vioapic v)
     \<and> (\<forall>p. vm_reg v' p = (if p \<in> set pins \<and> bit (vm_reg v p) 14 \<and> unat (vm_reg v p AND 0xff) = vector
               \<and> \<not> (vm_acnt v p > 0 \<and> \<not> bit (vm_reg v p) 16 \<and> bit (vm_reg v p) 15)
            then vm_reg v p AND NOT IOART_REM_IRR else vm_reg v p))"
  using assms
proof (induction pins arbitrary: v)
  case (Cons q pins)
  obtain v1 where v1: "process_eoi_pin vector q v = Some v1"
    "vm_vioapic v1 = (vm_vioapic v)\<lparr>io_reg := (io_reg (vm_vioapic v))(q :=
           (if bit (vm_reg v q) 14 \<and> unat (vm_reg v q AND 0xff) = vector
               \<and> \<not> (vm_acnt v q > 0 \<and> \<not> bit (vm_reg v q) 16 \<and> bit (vm_reg v q) 15)
            then vm_reg v q AND NOT IOART_REM_IRR else vm_reg v q))\<rparr>"
    by (rule process_eoi_pin_table [of vector q v]) blast
  show ?case using Cons.IH [of v1] Cons.prems v1 by auto
qed simp

text \<open>
  C18. The end of interrupt of a vector, seen by the redirection table. Remote IRR is cleared on the entries
  with that vector that had it, except where the line is still asserted on an unmasked level-triggered
  pin: there the interrupt is sent again and remote IRR stays. Nothing else in the table changes.
\<close>

theorem process_eoi_table:
  "\<exists>v'. vioapic_process_eoi vector v = Some v' \<and> io_acnt (vm_vioapic v') = io_acnt (vm_vioapic v)
     \<and> (\<forall>p. vm_reg v' p = (if p < REDIR_ENTRIES \<and> bit (vm_reg v p) 14 \<and> unat (vm_reg v p AND 0xff) = vector
               \<and> \<not> (vm_acnt v p > 0 \<and> \<not> bit (vm_reg v p) 16 \<and> bit (vm_reg v p) 15)
            then vm_reg v p AND NOT IOART_REM_IRR else vm_reg v p))"
  unfolding vioapic_process_eoi_def using process_eoi_fold [of "[0..<REDIR_ENTRIES]" vector v] by simp

text \<open>
  C21. A guest write to half of a redirection entry reads back: all bits of that half hold the data written, except
  the two read-only ones (delivery status and remote IRR), which the write cannot change; the other
  half and every other entry keep their value.
\<close>

theorem redirection_write_reads_back:
  fixes addr data :: u32 and v :: vm
  assumes "IOAPIC_REDTBL \<le> unat (addr AND 0xff)" and "unat (addr AND 0xff) < IOAPIC_REDTBL + REDIR_ENTRIES * 2"
  defines "pin \<equiv> (unat (addr AND 0xff) - IOAPIC_REDTBL) div 2"
    and "high \<equiv> (unat (addr AND 0xff) - IOAPIC_REDTBL) mod 2 \<noteq> 0"
  shows "\<exists>v'. vioapic_write addr data v = Some v'
     \<and> (\<forall>n. high \<or> n \<noteq> 12 \<and> n \<noteq> 14 \<longrightarrow> bit (vioapic_read addr v') n = bit data n)
     \<and> (\<forall>n. n \<noteq> 14 \<and> (n = 12 \<or> (n \<ge> 32) \<noteq> high) \<longrightarrow> bit (vm_reg v' pin) n = bit (vm_reg v pin) n)
     \<and> (bit (vm_reg v pin) 14 \<longrightarrow> bit (vm_reg v' pin) 14)
     \<and> (\<forall>q. q \<noteq> pin \<longrightarrow> vm_reg v' q = vm_reg v q)"
proof -
  let ?s = "if high then 32 else 0 :: nat"
  let ?v2 = "set_reg pin (rtbl_merge ?s data) v"
  obtain v3 where v3: "addressing_eq ?v2 v3"
    "vioapic_write addr data v = (if vm_reg v3 pin AND IOART_INTMASK = 0
       \<and> vm_reg v3 pin AND IOART_REM_IRR = 0 \<and> vm_acnt v3 pin > 0 then vioapic_send_intr pin v3 else Some v3)"
    by (rule vioapic_write_redir [OF assms(1,2), of v data]) (use pin_def high_def in simp)
  obtain v4 where v4: "vioapic_send_intr pin v3 = Some v4"
    "vm_vioapic v4 = (vm_vioapic v3)\<lparr>io_reg := (io_reg (vm_vioapic v3))(pin :=
       (if \<not> bit (vm_reg v3 pin) 16 \<and> bit (vm_reg v3 pin) 15 then vm_reg v3 pin OR IOART_REM_IRR else vm_reg v3 pin))\<rparr>"
    by (rule send_intr_spec [of pin v3]) blast
  have io: "vm_vioapic v3 = vm_vioapic ?v2" using v3(1) by (simp add: addressing_eq_def)
  obtain v' where v': "vioapic_write addr data v = Some v'" "v' = v3 \<or> v' = v4"
    using v3(2) v4(1) by (metis (full_types))
  have new: "vm_reg v' pin = rtbl_merge ?s data (vm_reg v pin)
      \<or> vm_reg v' pin = rtbl_merge ?s data (vm_reg v pin) OR IOART_REM_IRR"
    using v'(2) v4(2) io by auto
  have bits: "n \<noteq> 14 \<Longrightarrow> bit (vm_reg v' pin) n = bit (rtbl_merge ?s data (vm_reg v pin)) n"
    "bit (rtbl_merge ?s data (vm_reg v pin)) n \<Longrightarrow> bit (vm_reg v' pin) n" for n
    using new by auto
  have merge: "bit (rtbl_merge ?s data (vm_reg v pin)) n \<longleftrightarrow>
      (if n = 12 \<or> n = 14 \<or> \<not> (?s \<le> n \<and> n < ?s + 32) then bit (vm_reg v pin) n else bit data (n - ?s))" for n
    by (rule bit_rtbl_merge) simp
  have rd: "vioapic_read addr v' = ucast (drop_bit ?s (vm_reg v' pin))"
    using assms(1,2) by (auto simp: vioapic_read_def Let_def pin_def high_def)
  have len: "bit data n \<Longrightarrow> n < 32" "bit (vm_reg v pin) n \<Longrightarrow> n < 64" for n
    by (auto dest: bit_imp_le_length)
  have "bit (vioapic_read addr v') n = bit data n" if "high \<or> n \<noteq> 12 \<and> n \<noteq> 14" for n
    using that bits [of "?s + n"] merge [of "?s + n"] len(1) [of n]
    by (cases high) (auto simp: rd bit_ucast_iff bit_drop_bit_eq)
  moreover have "bit (vm_reg v' pin) n = bit (vm_reg v pin) n" if "n \<noteq> 14 \<and> (n = 12 \<or> (n \<ge> 32) \<noteq> high)" for n
    using that bits(1) [of n] merge [of n] len(2) [of n] by (cases high) auto
  moreover have "bit (vm_reg v' pin) 14" if "bit (vm_reg v pin) 14" using that bits(2) [of 14] merge [of 14] by simp
  moreover have "vm_reg v' q = vm_reg v q" if "q \<noteq> pin" for q using that v'(2) v4(2) io by auto
  ultimately show ?thesis using v'(1) by blast
qed

theorem redirection_write_reads_back_witness:
  "\<exists>v'. vioapic_write 0x18 0x9031 (demo_vm 0x10000) = Some v' \<and> vm_reg v' 5 = 0
     \<and> (\<forall>n. n \<noteq> 12 \<and> n \<noteq> 14 \<longrightarrow> bit (vioapic_read 0x18 v') n = bit (0x9031 :: u32) n)"
  using redirection_write_reads_back [of "0x18" "0x9031" "demo_vm 0x10000"]
  by (auto simp: demo_vm_def vm_calloc_def)

text \<open>
  When a guest write changes more than mask and polarity of an entry, the trigger mode register of every
  active vcpu is recomputed: afterwards it has exactly the vectors of the level-triggered pins,
  fixed or lowest priority, that address this vcpu.
\<close>

theorem redirection_write_updates_tmr:
  fixes addr data :: u32 and v :: vm
  assumes "IOAPIC_REDTBL \<le> unat (addr AND 0xff)" and "unat (addr AND 0xff) < IOAPIC_REDTBL + REDIR_ENTRIES * 2"
  defines "pin \<equiv> (unat (addr AND 0xff) - IOAPIC_REDTBL) div 2"
    and "lshift \<equiv> (if (unat (addr AND 0xff) - IOAPIC_REDTBL) mod 2 \<noteq> 0 then 32 else 0 :: nat)"
  defines "new \<equiv> rtbl_merge lshift data (vm_reg v pin)"
  assumes "(vm_reg v pin XOR new) AND NOT (IOART_INTMASK OR IOART_INTPOL) \<noteq> 0"
    and "CPU_ISSET j (vm_active_cpus v)" and "j < VM_MAXCPU" and "x < 256"
  shows "\<exists>v'. vioapic_write addr data v = Some v'
     \<and> (vec_bit (la_tmr (vl_page (vm_lapic v' j))) x
        \<longleftrightarrow> (\<exists>q < REDIR_ENTRIES. pin_levels (set_reg pin (\<lambda>_. new) v) j q x))"
proof -
  have eq: "set_reg pin (rtbl_merge lshift data) v = set_reg pin (\<lambda>_. new) v"
    by (simp add: set_reg_def new_def upd_vioapic_def)
  obtain v3 where v3: "vec_bit (la_tmr (vl_page (vm_lapic v3 j))) x
       \<longleftrightarrow> (\<exists>q < REDIR_ENTRIES. pin_levels (set_reg pin (\<lambda>_. new) v) j q x)"
    "vioapic_write addr data v = (if vm_reg v3 pin AND IOART_INTMASK = 0
       \<and> vm_reg v3 pin AND IOART_REM_IRR = 0 \<and> vm_acnt v3 pin > 0 then vioapic_send_intr pin v3 else Some v3)"
    by (rule vioapic_write_redir [OF assms(1,2), of v data, folded pin_def lshift_def, folded new_def, unfolded eq])
      (use assms(6-9) in blast)
  have "\<exists>v4. vioapic_send_intr pin v3 = Some v4 \<and> la_tmr (vl_page (vm_lapic v4 j)) = la_tmr (vl_page (vm_lapic v3 j))"
  proof -
    let ?r = "vm_reg v3 pin" and ?v = "set_reg pin (\<lambda>r. r OR IOART_REM_IRR) v3"
    obtain a where "vlapic_deliver_intr (rt_level ?r) (rt_dest ?r) (rt_phys ?r) (rt_delmode ?r) (rt_vector ?r)
        (if rt_level ?r then ?v else v3) = Some a" "deliver_frame (if rt_level ?r then ?v else v3) a"
      by (rule deliver_intr_defined [OF rt_dest_less]) blast
    then show ?thesis
      using lapic_frame_simps(12) [OF deliver_frame_lapic, of "if rt_level ?r then ?v else v3" a j]
      by (auto simp: vioapic_send_intr_def Let_def)
  qed
  then show ?thesis using v3 by (cases "vm_reg v3 pin AND IOART_INTMASK = 0
       \<and> vm_reg v3 pin AND IOART_REM_IRR = 0 \<and> vm_acnt v3 pin > 0") auto
qed

theorem redirection_write_updates_tmr_witness:
  "\<exists>v'. vioapic_write 0x18 0x8031 (demo_vm 0x10000) = Some v'
     \<and> (vec_bit (la_tmr (vl_page (vm_lapic v' 1))) 0x31
        \<longleftrightarrow> (\<exists>q < REDIR_ENTRIES. pin_levels (set_reg 4 (\<lambda>_. 0x8031) (demo_vm 0x10000)) 1 q 0x31))"
proof -
  have m: "rtbl_merge 0 0x8031 0x10000 = 0x8031" by code_simp
  have r: "vm_reg (demo_vm 0x10000) 4 = 0x10000" by (simp add: demo_vm_def)
  have a: "CPU_ISSET 1 (vm_active_cpus (demo_vm 0x10000))" by (simp add: demo_vm_def CPU_ISSET_iff)
  show ?thesis
    using redirection_write_updates_tmr [of "0x18" "demo_vm 0x10000" "0x8031" 1 "0x31"] a by (simp add: m r)
qed

end
