(* ===== verification/Vatpic.thy ===== *)
theory Vatpic
  imports Vioapic
begin

text \<open>
  The two cascaded 8259A interrupt controllers of \<open>src/vmm/io/vatpic.c\<close>. \<open>atpic[0]\<close> is the
  master, \<open>atpic[1]\<close> the slave, whose output is pin 2 of the master. A function that returns
  a pin or -1 returns an option here. Pin numbers are natural numbers.
\<close>

subsection \<open>Priorities\<close>

text \<open>\<open>ATPIC_PIN_FOREACH\<close>: all pins, from the highest priority to the lowest.\<close>

definition prio_pins :: "atpic \<Rightarrow> nat list" where
  "prio_pins a = map (\<lambda>t. nat ((pic_lowprio a + 1 + int t) mod 8)) [0..<8]"

fun isrpin_scan :: "atpic \<Rightarrow> nat list \<Rightarrow> nat option" where
  "isrpin_scan a [] = None"
| "isrpin_scan a (pin # pins) =
     (if pic_service a AND BIT pin \<noteq> 0
      then if pic_smm a \<and> pic_mask a AND BIT pin \<noteq> 0 then isrpin_scan a pins else Some pin
      else isrpin_scan a pins)"

definition vatpic_get_highest_isrpin :: "atpic \<Rightarrow> nat option" where
  "vatpic_get_highest_isrpin a = isrpin_scan a (prio_pins a)"

fun irrpin_scan :: "atpic \<Rightarrow> u8 \<Rightarrow> nat list \<Rightarrow> nat option" where
  "irrpin_scan a serviced [] = None"
| "irrpin_scan a serviced (pin # pins) =
     (if serviced AND BIT pin \<noteq> 0 then None
      else if pic_request a AND BIT pin \<noteq> 0 \<and> pic_mask a AND BIT pin = 0 then Some pin
      else irrpin_scan a serviced pins)"

definition pic_serviced :: "atpic \<Rightarrow> u8" where
  "pic_serviced a =
     (if pic_smm a then 0 else if pic_sfn a then pic_service a AND NOT (BIT 2) else pic_service a)"

definition vatpic_get_highest_irrpin :: "atpic \<Rightarrow> nat option" where
  "vatpic_get_highest_irrpin a = irrpin_scan a (pic_serviced a) (prio_pins a)"

subsection \<open>Pins and notification\<close>

text \<open>The part of \<open>vatpic_set_pinstate\<close> before the call of \<open>vatpic_notify_intr\<close>.\<close>

definition pin_update :: "nat \<Rightarrow> bool \<Rightarrow> vm \<Rightarrow> vm" where
  "pin_update pin newstate v =
     (let k = pin div 8; n = pin mod 8; a = vm_atpic v k;
          oldcnt = pic_acnt a n;
          newcnt = (if newstate then oldcnt + 1 else oldcnt - 1);
          level = (vp_elc (vm_vatpic v) k AND BIT n \<noteq> 0);
          request = (if (oldcnt = 0 \<and> newcnt = 1) \<or> (newcnt > 0 \<and> level) then pic_request a OR BIT n
                     else if oldcnt = 1 \<and> newcnt = 0 \<and> level then pic_request a AND NOT (BIT n)
                     else pic_request a)
      in upd_atpic k (\<lambda>a. a\<lparr>pic_acnt := (pic_acnt a)(n := newcnt), pic_request := request\<rparr>) v)"

definition set_intr_raised :: "nat \<Rightarrow> bool \<Rightarrow> vm \<Rightarrow> vm" where
  "set_intr_raised k b = upd_atpic k (\<lambda>a. a\<lparr>pic_intr_raised := b\<rparr>)"

text \<open>The second half of \<open>vatpic_notify_intr\<close>: the master.\<close>

definition notify_master :: "vm \<Rightarrow> vm option" where
  "notify_master v =
     (if \<not> pic_intr_raised (vm_atpic v 0) \<and> vatpic_get_highest_irrpin (vm_atpic v 0) \<noteq> None
      then map_option fst (vioapic_pulse_irq 0
             (fst (lapic_set_local_intr (-1) (int APIC_LVT_LINT0) (set_intr_raised 0 True v))))
      else Some v)"

text \<open>
  \<open>vatpic_notify_intr\<close> and \<open>vatpic_set_pinstate\<close> call each other: cascading a request of the
  slave asserts and deasserts pin 2 of the master, and each change of a pin notifies again.
\<close>

partial_function (option) vatpic_notify_intr :: "vm \<Rightarrow> vm option" where
  "vatpic_notify_intr v =
     (if \<not> pic_intr_raised (vm_atpic v 1) \<and> vatpic_get_highest_irrpin (vm_atpic v 1) \<noteq> None
      then Option.bind (vatpic_notify_intr (pin_update 2 True (set_intr_raised 1 True v))) (\<lambda>v1.
           Option.bind (vatpic_notify_intr (pin_update 2 False v1)) notify_master)
      else notify_master v)"

definition vatpic_set_pinstate :: "nat \<Rightarrow> bool \<Rightarrow> vm \<Rightarrow> vm option" where
  "vatpic_set_pinstate pin newstate v = vatpic_notify_intr (pin_update pin newstate v)"

definition vatpic_set_irqstate :: "int \<Rightarrow> irqstate \<Rightarrow> vm \<Rightarrow> (vm \<times> int) option" where
  "vatpic_set_irqstate irq irqstate v =
     (if irq < 0 \<or> irq > 15 then Some (v, EINVAL)
      else if \<not> pic_ready (vm_atpic v (nat irq div 8)) then Some (v, 0)
      else map_option (\<lambda>v'. (v', 0)) (case irqstate of
             IRQSTATE_ASSERT \<Rightarrow> vatpic_set_pinstate (nat irq) True v
           | IRQSTATE_DEASSERT \<Rightarrow> vatpic_set_pinstate (nat irq) False v
           | IRQSTATE_PULSE \<Rightarrow> Option.bind (vatpic_set_pinstate (nat irq) True v)
                                 (vatpic_set_pinstate (nat irq) False)))"

definition vatpic_assert_irq :: "int \<Rightarrow> vm \<Rightarrow> (vm \<times> int) option" where
  "vatpic_assert_irq irq = vatpic_set_irqstate irq IRQSTATE_ASSERT"

definition vatpic_deassert_irq :: "int \<Rightarrow> vm \<Rightarrow> (vm \<times> int) option" where
  "vatpic_deassert_irq irq = vatpic_set_irqstate irq IRQSTATE_DEASSERT"

definition vatpic_pulse_irq :: "int \<Rightarrow> vm \<Rightarrow> (vm \<times> int) option" where
  "vatpic_pulse_irq irq = vatpic_set_irqstate irq IRQSTATE_PULSE"

definition set_elc :: "nat \<Rightarrow> u8 \<Rightarrow> vm \<Rightarrow> vm" where
  "set_elc k x v = v\<lparr>vm_vatpic := (vm_vatpic v)\<lparr>vp_elc := (vp_elc (vm_vatpic v))(k := x)\<rparr>\<rparr>"

definition vatpic_set_irq_trigger :: "int \<Rightarrow> vm_intr_trigger \<Rightarrow> vm \<Rightarrow> vm \<times> int" where
  "vatpic_set_irq_trigger irq trigger v =
     (if irq < 0 \<or> irq > 15 then (v, EINVAL)
      else if trigger = LEVEL_TRIGGER \<and> irq \<in> {0, 1, 2, 8, 13} then (v, EINVAL)
      else let k = nat irq div 8; n = nat irq mod 8; e = vp_elc (vm_vatpic v) k
           in (set_elc k (if trigger = LEVEL_TRIGGER then e OR BIT n else e AND NOT (BIT n)) v, 0))"

subsection \<open>Acceptance\<close>

definition vatpic_pending_intr :: "vm \<Rightarrow> int" where
  "vatpic_pending_intr v =
     (let a = vm_atpic v 0; pin = vatpic_get_highest_irrpin a;
          (a, pin) = (if pin = Some 2 then (vm_atpic v 1, vatpic_get_highest_irrpin (vm_atpic v 1))
                      else (a, pin))
      in pic_irq_base a + (case pin of None \<Rightarrow> 7 | Some n \<Rightarrow> int n))"

definition vatpic_pin_accepted :: "nat \<Rightarrow> atpic \<Rightarrow> atpic" where
  "vatpic_pin_accepted pin a =
     (let a = a\<lparr>pic_intr_raised := False\<rparr>;
          a = (if pic_acnt a pin = 0 then a\<lparr>pic_request := pic_request a AND NOT (BIT pin)\<rparr> else a)
      in if pic_aeoi a then (if pic_rotate a then a\<lparr>pic_lowprio := int pin\<rparr> else a)
         else a\<lparr>pic_service := pic_service a OR BIT pin\<rparr>)"

definition vatpic_intr_accepted :: "int \<Rightarrow> vm \<Rightarrow> vm option" where
  "vatpic_intr_accepted vector v =
     (let pin = nat (vector mod 8)
      in vatpic_notify_intr
           (if vector - vector mod 8 = pic_irq_base (vm_atpic v 1)
            then upd_atpic 0 (vatpic_pin_accepted 2) (upd_atpic 1 (vatpic_pin_accepted pin) v)
            else upd_atpic 0 (vatpic_pin_accepted pin) v))"

subsection \<open>Command words\<close>

text \<open>Each answers the controller and the C return value.\<close>

definition vatpic_icw1 :: "u8 \<Rightarrow> atpic \<Rightarrow> atpic \<times> int" where
  "vatpic_icw1 val a =
     (let a = a\<lparr>pic_ready := False, pic_icw_num := 1, pic_request := 0, pic_mask := 0,
                pic_lowprio := 7, pic_rd_cmd_reg := 0, pic_poll := False, pic_smm := False\<rparr>
      in if val AND 0x02 \<noteq> 0 then (a, -1)
         else if val AND 0x01 = 0 then (a, -1)
         else (a\<lparr>pic_icw_num := pic_icw_num a + 1\<rparr>, 0))"

definition vatpic_icw2 :: "u8 \<Rightarrow> atpic \<Rightarrow> atpic \<times> int" where
  "vatpic_icw2 val a =
     (a\<lparr>pic_irq_base := uint (val AND 0xf8), pic_icw_num := pic_icw_num a + 1\<rparr>, 0)"

definition vatpic_icw3 :: "u8 \<Rightarrow> atpic \<Rightarrow> atpic \<times> int" where
  "vatpic_icw3 val a = (a\<lparr>pic_icw_num := pic_icw_num a + 1\<rparr>, 0)"

text \<open>\<open>k\<close> is the index of the controller, for \<open>master_atpic\<close>.\<close>

definition vatpic_icw4 :: "nat \<Rightarrow> u8 \<Rightarrow> atpic \<Rightarrow> atpic \<times> int" where
  "vatpic_icw4 k val a =
     (if val AND 0x01 = 0 then (a, -1)
      else (a\<lparr>pic_aeoi := (pic_aeoi a \<or> val AND 0x02 \<noteq> 0),
              pic_sfn := (pic_sfn a \<or> (val AND 0x10 \<noteq> 0 \<and> k = 0)),
              pic_icw_num := 0, pic_ready := True\<rparr>, 0))"

definition vatpic_ocw1 :: "u8 \<Rightarrow> atpic \<Rightarrow> atpic \<times> int" where
  "vatpic_ocw1 val a = (a\<lparr>pic_mask := val AND 0xff\<rparr>, 0)"

definition vatpic_ocw2 :: "u8 \<Rightarrow> atpic \<Rightarrow> atpic \<times> int" where
  "vatpic_ocw2 val a =
     (let a = a\<lparr>pic_rotate := (val AND 0x80 \<noteq> 0)\<rparr>
      in if val AND 0x20 \<noteq> 0 then
           let isr_bit = (if val AND 0x40 \<noteq> 0 then Some (unat (val AND 0x7))
                          else vatpic_get_highest_isrpin a)
           in (case isr_bit of
                 None \<Rightarrow> (a, 0)
               | Some n \<Rightarrow>
                   (a\<lparr>pic_service := pic_service a AND NOT (BIT n),
                      pic_lowprio := (if pic_rotate a then int n else pic_lowprio a)\<rparr>, 0))
         else if val AND 0x40 \<noteq> 0 \<and> pic_rotate a then (a\<lparr>pic_lowprio := uint (val AND 0x7)\<rparr>, 0)
         else (a, 0))"

definition vatpic_ocw3 :: "u8 \<Rightarrow> atpic \<Rightarrow> atpic \<times> int" where
  "vatpic_ocw3 val a =
     (let a = (if val AND 0x40 \<noteq> 0 then a\<lparr>pic_smm := (val AND 0x20 \<noteq> 0)\<rparr> else a)
      in (if val AND 0x02 \<noteq> 0
          then a\<lparr>pic_rd_cmd_reg := uint (val AND 0x01), pic_poll := (val AND 0x04 \<noteq> 0)\<rparr> else a, 0))"

subsection \<open>Port access\<close>

definition vatpic_read :: "nat \<Rightarrow> u32 \<Rightarrow> vm \<Rightarrow> vm \<times> u32" where
  "vatpic_read k port v =
     (let a = vm_atpic v k
      in if pic_poll a then
           let a1 = a\<lparr>pic_poll := False\<rparr>
           in (case vatpic_get_highest_irrpin a1 of
                 Some pin \<Rightarrow> (upd_atpic k (\<lambda>_. vatpic_pin_accepted pin a1) v, 0x80 OR of_nat pin)
               | None \<Rightarrow> (upd_atpic k (\<lambda>_. a1) v, 0))
         else if port AND 1 \<noteq> 0 then (v, ucast (pic_mask a))
         else if pic_rd_cmd_reg a = 1 then (v, ucast (pic_service a))
         else (v, ucast (pic_request a)))"

definition pic_command :: "nat \<Rightarrow> u32 \<Rightarrow> u8 \<Rightarrow> atpic \<Rightarrow> atpic \<times> int" where
  "pic_command k port val a =
     (if port AND 1 \<noteq> 0 then
        (if pic_icw_num a = 2 then vatpic_icw2 val a
         else if pic_icw_num a = 3 then vatpic_icw3 val a
         else if pic_icw_num a = 4 then vatpic_icw4 k val a
         else vatpic_ocw1 val a)
      else
        let (a, error) = (if val AND BIT 4 \<noteq> 0 then vatpic_icw1 val a else (a, 0))
        in if pic_ready a then (if val AND BIT 3 \<noteq> 0 then vatpic_ocw3 val a else vatpic_ocw2 val a)
           else (a, error))"

definition vatpic_write :: "nat \<Rightarrow> u32 \<Rightarrow> u32 \<Rightarrow> vm \<Rightarrow> (vm \<times> int) option" where
  "vatpic_write k port eax v =
     (let (a, error) = pic_command k port (ucast eax) (vm_atpic v k);
          v1 = upd_atpic k (\<lambda>_. a) v
      in map_option (\<lambda>v'. (v', error)) (if pic_ready a then vatpic_notify_intr v1 else Some v1))"

definition atpic_handler :: "nat \<Rightarrow> bool \<Rightarrow> u32 \<Rightarrow> int \<Rightarrow> u32 \<Rightarrow> vm \<Rightarrow> (vm \<times> u32 \<times> int) option" where
  "atpic_handler k in_dir port bytes eax v =
     (if bytes \<noteq> 1 then Some (v, eax, -1)
      else if in_dir then (let (v', x) = vatpic_read k port v in Some (v', x, 0))
      else map_option (\<lambda>(v', e). (v', eax, e)) (vatpic_write k port eax v))"

definition vatpic_master_handler :: "bool \<Rightarrow> u32 \<Rightarrow> int \<Rightarrow> u32 \<Rightarrow> vm \<Rightarrow> (vm \<times> u32 \<times> int) option" where
  "vatpic_master_handler = atpic_handler 0"

definition vatpic_slave_handler :: "bool \<Rightarrow> u32 \<Rightarrow> int \<Rightarrow> u32 \<Rightarrow> vm \<Rightarrow> (vm \<times> u32 \<times> int) option" where
  "vatpic_slave_handler = atpic_handler 1"

abbreviation (input) IO_ELCR1 :: u32 where "IO_ELCR1 \<equiv> 0x4d0"

definition vatpic_elc_handler :: "bool \<Rightarrow> u32 \<Rightarrow> int \<Rightarrow> u32 \<Rightarrow> vm \<Rightarrow> vm \<times> u32 \<times> int" where
  "vatpic_elc_handler in_dir port bytes eax v =
     (let is_master = (port = IO_ELCR1)
      in if bytes \<noteq> 1 then (v, eax, -1)
         else if in_dir then (v, ucast (vp_elc (vm_vatpic v) (if is_master then 0 else 1)), 0)
         else if is_master then (set_elc 0 (ucast (eax AND 0xf8)) v, eax, 0)
         else (set_elc 1 (ucast (eax AND 0xde)) v, eax, 0))"

definition vatpic_init :: vatpic where
  "vatpic_init = \<lparr>vp_atpic = (\<lambda>_. atpic_bzero), vp_elc = (\<lambda>_. 0)\<rparr>"

subsection \<open>Notification terminates and misses nothing\<close>

lemma pin_update_slave [simp]: "pin < 8 \<Longrightarrow> vm_atpic (pin_update pin b v) (Suc 0) = vm_atpic v (Suc 0)"
  by (simp add: pin_update_def Let_def)

lemma set_intr_raised_atpic [simp]:
  "vm_atpic (set_intr_raised k b v) j = (if j = k then (vm_atpic v k)\<lparr>pic_intr_raised := b\<rparr> else vm_atpic v j)"
  by (simp add: set_intr_raised_def)

text \<open>What the interrupt controllers change of the rest of the machine.\<close>

definition pic_frame :: "vm \<Rightarrow> vm \<Rightarrow> bool" where
  "pic_frame v v' \<longleftrightarrow> (\<forall>j. isr_frame (vm_lapic v j) (vm_lapic v' j))
     \<and> (\<forall>j. vc_nmi_pending (vm_vcpu v j) \<longrightarrow> vc_nmi_pending (vm_vcpu v' j))
     \<and> vm_vatpit v' = vm_vatpit v \<and> vm_active_cpus v' = vm_active_cpus v
     \<and> vm_callouts v' = vm_callouts v \<and> vm_vhpet v' = vm_vhpet v \<and> vm_vrtc v' = vm_vrtc v \<and> vm_vpmtmr v' = vm_vpmtmr v \<and> vm_timebase v' = vm_timebase v \<and> (level_ok v \<longrightarrow> level_ok v')"

lemma pic_frame_refl [simp, intro]: "pic_frame v v"
  by (simp add: pic_frame_def)

lemma pic_frame_trans [trans]: "pic_frame a b \<Longrightarrow> pic_frame b c \<Longrightarrow> pic_frame a c"
  unfolding pic_frame_def by (auto intro: isr_frame_trans)

lemma pic_frame_upd_atpic [simp]: "pic_frame v (upd_atpic k f v)"
  by (simp add: pic_frame_def level_ok_def)

lemma pic_frame_simple [simp]:
  "pic_frame v (pin_update pin b v)" "pic_frame v (set_intr_raised k b v)" "pic_frame v (set_elc k x v)"
  by (simp_all add: pin_update_def Let_def set_intr_raised_def)
     (simp add: pic_frame_def set_elc_def vm_lapic_def level_ok_def)

lemma pic_frame_intr: "intr_frame v v' \<Longrightarrow> (level_ok v \<Longrightarrow> level_ok v') \<Longrightarrow> pic_frame v v'"
  by (simp add: pic_frame_def intr_frame_def)

lemma vioapic_set_irqstate_safe:
  obtains v' e where "vioapic_set_irqstate irq st v = Some (v', e)" and "intr_frame v v'"
    and "level_ok v \<Longrightarrow> level_ok v'"
proof -
  let ?p = "vioapic_set_pinstate (nat irq)"
  obtain a where a: "?p True v = Some a" "intr_frame v a" "level_ok v \<Longrightarrow> level_ok a"
    by (rule ioapic_safeE [OF set_pinstate_safe]) blast
  obtain b where b: "?p False v = Some b" "intr_frame v b" "level_ok v \<Longrightarrow> level_ok b"
    by (rule ioapic_safeE [OF set_pinstate_safe]) blast
  obtain c where c: "?p False a = Some c" "intr_frame a c" "level_ok a \<Longrightarrow> level_ok c"
    by (rule ioapic_safeE [OF set_pinstate_safe]) blast
  have range: "irq < 0 \<or> irq \<ge> int REDIR_ENTRIES \<Longrightarrow> thesis"
    by (rule that [of v EINVAL]) (auto simp: vioapic_set_irqstate_def)
  show thesis
  proof (cases "irq < 0 \<or> irq \<ge> int REDIR_ENTRIES")
    case False
    then show thesis
    proof (cases st)
      case IRQSTATE_ASSERT
      then show thesis using False a by (intro that [of a 0]) (auto simp: vioapic_set_irqstate_def)
    next
      case IRQSTATE_DEASSERT
      then show thesis using False b by (intro that [of b 0]) (auto simp: vioapic_set_irqstate_def)
    next
      case IRQSTATE_PULSE
      then show thesis using False a c
        by (intro that [of c 0]) (auto simp: vioapic_set_irqstate_def intro: intr_frame_trans)
    qed
  qed (rule range)
qed

lemma notify_master_spec:
  obtains v' where "notify_master v = Some v'" and "pic_frame v v'"
    and "vm_vatpic v' = vm_vatpic (if \<not> pic_intr_raised (vm_atpic v 0)
           \<and> vatpic_get_highest_irrpin (vm_atpic v 0) \<noteq> None then set_intr_raised 0 True v else v)"
proof (cases "\<not> pic_intr_raised (vm_atpic v 0) \<and> vatpic_get_highest_irrpin (vm_atpic v 0) \<noteq> None")
  case False
  then show thesis by (intro that [of v]) (auto simp: notify_master_def)
next
  case True
  let ?v1 = "set_intr_raised 0 True v"
  let ?v2 = "fst (lapic_set_local_intr (-1) (int APIC_LVT_LINT0) ?v1)"
  have d: "deliver_frame ?v1 ?v2" by (rule deliver_frame_local_intr)
  obtain v' e where p: "vioapic_set_irqstate 0 IRQSTATE_PULSE ?v2 = Some (v', e)" "intr_frame ?v2 v'"
    "level_ok ?v2 \<Longrightarrow> level_ok v'" by (rule vioapic_set_irqstate_safe [of 0 IRQSTATE_PULSE ?v2]) blast
  have "notify_master v = Some v'"
    unfolding notify_master_def if_P [OF True] using p(1) by (simp add: vioapic_pulse_irq_def)
  moreover have "pic_frame ?v1 ?v2"
    using deliver_intr_frame [OF d] level_ok_vioapic [of ?v2 ?v1] deliver_frame_simps(1) [OF d]
    by (blast intro: pic_frame_intr)
  then have "pic_frame v v'"
    using pic_frame_intr [OF p(2,3)] by (blast intro: pic_frame_trans pic_frame_simple)
  moreover have "vm_vatpic v' = vm_vatpic ?v1"
    using p(2) deliver_frame_simps(2) [OF d] by (simp add: intr_frame_def)
  ultimately show thesis using True by (intro that [of v']) auto
qed

lemma notify_intr_raised:
  "pic_intr_raised (vm_atpic v 1) \<Longrightarrow> vatpic_notify_intr v = notify_master v"
  by (subst vatpic_notify_intr.simps) simp

definition signalled :: "atpic \<Rightarrow> bool" where
  "signalled a \<longleftrightarrow> pic_intr_raised a \<or> vatpic_get_highest_irrpin a = None"

lemma irrpin_raised [simp]:
  "vatpic_get_highest_irrpin (a\<lparr>pic_intr_raised := b\<rparr>) = vatpic_get_highest_irrpin a"
proof -
  have "irrpin_scan (a\<lparr>pic_intr_raised := b\<rparr>) s ps = irrpin_scan a s ps" for s ps
    by (induction ps) auto
  then show ?thesis by (simp add: vatpic_get_highest_irrpin_def pic_serviced_def prio_pins_def)
qed

lemma notify_master_signalled:
  assumes "notify_master v = Some v'"
  shows "signalled (vm_atpic v' 0)" and "k \<noteq> 0 \<Longrightarrow> vm_atpic v' k = vm_atpic v k"
    and "vp_elc (vm_vatpic v') = vp_elc (vm_vatpic v)" and "pic_frame v v'"
    and "vm_atpic v' 0 = (vm_atpic v 0)\<lparr>pic_intr_raised := pic_intr_raised (vm_atpic v' 0)\<rparr>"
proof -
  let ?c = "\<not> pic_intr_raised (vm_atpic v 0) \<and> vatpic_get_highest_irrpin (vm_atpic v 0) \<noteq> None"
  have *: "pic_frame v v' \<and> vm_vatpic v' = vm_vatpic (if ?c then set_intr_raised 0 True v else v)"
    by (rule notify_master_spec [of v]) (use assms in simp)
  then show "pic_frame v v'" ..
  show "signalled (vm_atpic v' 0)" "k \<noteq> 0 \<Longrightarrow> vm_atpic v' k = vm_atpic v k"
    "vp_elc (vm_vatpic v') = vp_elc (vm_vatpic v)"
    "vm_atpic v' 0 = (vm_atpic v 0)\<lparr>pic_intr_raised := pic_intr_raised (vm_atpic v' 0)\<rparr>"
    using * by (cases ?c; simp add: signalled_def; simp add: set_intr_raised_def)+
qed

lemma notify_master_total: "\<exists>v'. notify_master v = Some v'"
  by (rule notify_master_spec [of v]) blast

lemma notify_intr_spec:
  obtains v' where "vatpic_notify_intr v = Some v'" and "pic_frame v v'"
    and "signalled (vm_atpic v' 0)" and "signalled (vm_atpic v' 1)"
    and "vp_elc (vm_vatpic v') = vp_elc (vm_vatpic v)"
    and "vm_atpic v' 1 = (vm_atpic v 1)\<lparr>pic_intr_raised := pic_intr_raised (vm_atpic v' 1)\<rparr>"
proof (cases "\<not> pic_intr_raised (vm_atpic v 1) \<and> vatpic_get_highest_irrpin (vm_atpic v 1) \<noteq> None")
  case False
  then have e: "vatpic_notify_intr v = notify_master v"
    by (subst vatpic_notify_intr.simps) (simp only: if_False)
  obtain v' where v': "notify_master v = Some v'" using notify_master_total by blast
  note m = notify_master_signalled [OF v']
  have m1: "vm_atpic v' 1 = vm_atpic v 1" by (rule m(2)) simp
  show thesis
  proof (rule that [of v'])
    show "vatpic_notify_intr v = Some v'" by (simp only: e v')
    show "signalled (vm_atpic v' 1)" unfolding m1 signalled_def using False by blast
    show "vm_atpic v' 1 = (vm_atpic v 1)\<lparr>pic_intr_raised := pic_intr_raised (vm_atpic v' 1)\<rparr>"
      unfolding m1 by simp
  qed (rule m)+
next
  case True
  let ?v1 = "pin_update 2 True (set_intr_raised 1 True v)"
  obtain a where a: "notify_master ?v1 = Some a" using notify_master_total by blast
  obtain b where b: "notify_master (pin_update 2 False a) = Some b" using notify_master_total by blast
  obtain c where c: "notify_master b = Some c" using notify_master_total by blast
  note ma = notify_master_signalled [OF a] and mb = notify_master_signalled [OF b]
    and mc = notify_master_signalled [OF c]
  have s: "vm_atpic ?v1 1 = (vm_atpic v 1)\<lparr>pic_intr_raised := True\<rparr>" by simp
  have na: "vatpic_notify_intr ?v1 = Some a"
    using a by (subst notify_intr_raised) simp_all
  have sa: "vm_atpic a 1 = (vm_atpic v 1)\<lparr>pic_intr_raised := True\<rparr>" using ma(2) [of 1] s by simp
  have nb: "vatpic_notify_intr (pin_update 2 False a) = Some b"
    using b sa by (subst notify_intr_raised) simp_all
  have n: "vatpic_notify_intr v = Some c"
    by (subst vatpic_notify_intr.simps) (use True na nb c in simp)
  have e: "vp_elc (vm_vatpic (pin_update p x w)) = vp_elc (vm_vatpic w)"
    "vp_elc (vm_vatpic (set_intr_raised k x w)) = vp_elc (vm_vatpic w)" for p x k w
    by (simp_all add: pin_update_def Let_def set_intr_raised_def)
  have sc: "vm_atpic c 1 = (vm_atpic v 1)\<lparr>pic_intr_raised := True\<rparr>"
    using mc(2) [of 1] mb(2) [of 1] sa by simp
  have "pic_frame v ?v1" by (blast intro: pic_frame_trans pic_frame_simple)
  then have "pic_frame v a" using ma(4) by (rule pic_frame_trans)
  then have "pic_frame v (pin_update 2 False a)" by (rule pic_frame_trans) simp
  then have "pic_frame v b" using mb(4) by (rule pic_frame_trans)
  then have f: "pic_frame v c" using mc(4) by (rule pic_frame_trans)
  show thesis
    by (rule that [OF n f mc(1)]) (simp_all add: sc [simplified] mc(3) mb(3) ma(3) e signalled_def)
qed

subsection \<open>Well-formed controllers\<close>

text \<open>
  The ranges that the arithmetic on pins and vectors relies on. \<open>icw_num\<close> counts the
  initialisation words; a controller that is ready is not in the middle of a sequence.
\<close>

definition atpic_wf :: "atpic \<Rightarrow> bool" where
  "atpic_wf a \<longleftrightarrow> 0 \<le> pic_lowprio a \<and> pic_lowprio a \<le> 7 \<and> 0 \<le> pic_irq_base a \<and> pic_irq_base a \<le> 248
     \<and> 8 dvd pic_irq_base a \<and> 0 \<le> pic_icw_num a \<and> pic_icw_num a \<le> 4 \<and> (pic_ready a \<longrightarrow> pic_icw_num a = 0)
     \<and> (pic_rd_cmd_reg a = 0 \<or> pic_rd_cmd_reg a = 1)"

definition vatpic_wf :: "vatpic \<Rightarrow> bool" where
  "vatpic_wf p \<longleftrightarrow> atpic_wf (vp_atpic p 0) \<and> atpic_wf (vp_atpic p 1)
     \<and> (\<forall>n\<in>{0, 1, 2}. \<not> bit (vp_elc p 0) n) \<and> (\<forall>n\<in>{0, 5}. \<not> bit (vp_elc p 1) n)"

lemma atpic_wf_bzero: "atpic_wf atpic_bzero"
  by (simp add: atpic_wf_def atpic_bzero_def)

lemma vatpic_wf_init: "vatpic_wf vatpic_init"
  by (simp add: vatpic_wf_def vatpic_init_def atpic_wf_bzero)

lemma prio_pins_lt: "p \<in> set (prio_pins a) \<Longrightarrow> p < 8"
  by (auto simp: prio_pins_def nat_less_iff)

lemma irrpin_scan_mem: "irrpin_scan a s ps = Some p \<Longrightarrow> p \<in> set ps"
  by (induction ps) (auto split: if_splits)

lemma isrpin_scan_mem: "isrpin_scan a ps = Some p \<Longrightarrow> p \<in> set ps"
  by (induction ps) (auto split: if_splits)

lemma irrpin_lt: "vatpic_get_highest_irrpin a = Some p \<Longrightarrow> p < 8"
  by (auto simp: vatpic_get_highest_irrpin_def dest: irrpin_scan_mem prio_pins_lt)

lemma isrpin_lt: "vatpic_get_highest_isrpin a = Some p \<Longrightarrow> p < 8"
  by (auto simp: vatpic_get_highest_isrpin_def dest: isrpin_scan_mem prio_pins_lt)

lemma atpic_wf_upd [simp]:
  "atpic_wf (a\<lparr>pic_intr_raised := b\<rparr>) = atpic_wf a" "atpic_wf (a\<lparr>pic_request := r\<rparr>) = atpic_wf a"
  "atpic_wf (a\<lparr>pic_acnt := f\<rparr>) = atpic_wf a"
  "atpic_wf (a\<lparr>pic_service := r\<rparr>) = atpic_wf a" "atpic_wf (a\<lparr>pic_poll := b\<rparr>) = atpic_wf a"
  "atpic_wf (a\<lparr>pic_rotate := b\<rparr>) = atpic_wf a" "atpic_wf (a\<lparr>pic_mask := r\<rparr>) = atpic_wf a"
  by (simp_all add: atpic_wf_def)

lemma pin_accepted_wf: "atpic_wf a \<Longrightarrow> pin < 8 \<Longrightarrow> atpic_wf (vatpic_pin_accepted pin a)"
  by (auto simp: atpic_wf_def vatpic_pin_accepted_def Let_def)

lemma and_mask_range: "unat (val AND 0xf8 :: u8) \<le> 248" "unat (val AND 0x7 :: u8) \<le> 7"
  "unat (val AND 0x01 :: u8) \<le> 1"
  using word_and_le1 [of val "0xf8"] word_and_le1 [of val 7] word_and_le1 [of val 1]
  by (simp_all add: word_le_nat_alt)

lemma uint_mask_range: "uint (val AND 0xf8 :: u8) \<le> 248" "uint (val AND 0x7 :: u8) \<le> 7"
  "uint (val AND 0x01 :: u8) = 0 \<or> uint (val AND 0x01 :: u8) = 1"
proof -
  show "uint (val AND 0xf8) \<le> 248" "uint (val AND 0x7) \<le> 7"
    using word_and_le1 [of val "0xf8"] word_and_le1 [of val 7] by (simp_all add: word_le_def)
  have "uint (val AND 1) \<le> 1" using word_and_le1 [of val 1] by (simp add: word_le_def)
  then show "uint (val AND 0x01) = 0 \<or> uint (val AND 0x01) = 1"
    using uint_ge_0 [of "val AND 1"] by linarith
qed

lemma irq_base_dvd: "8 dvd uint (val AND 0xf8 :: u8)"
proof -
  have "(7 :: u8) = mask 3" by (simp add: mask_eq_exp_minus_1)
  then have "take_bit 3 (val AND 0xf8) = (val AND 0xf8) AND 7" by (simp only: take_bit_eq_mask)
  also have "\<dots> = val AND (0xf8 AND 7)" by (simp only: and.assoc)
  also have "\<dots> = 0" by simp
  finally have "take_bit 3 (uint (val AND 0xf8)) = 0" by (metis unsigned_take_bit_eq unsigned_0)
  then show ?thesis by (simp add: take_bit_eq_mod mod_eq_0_iff_dvd)
qed

lemma ocw2_wf: "atpic_wf a \<Longrightarrow> atpic_wf (fst (vatpic_ocw2 val a))"
  using uint_mask_range(2) [of val] and_mask_range(2) [of val]
  by (auto simp: vatpic_ocw2_def Let_def atpic_wf_def dest: isrpin_lt split: option.splits if_splits)

lemma ocw3_wf: "atpic_wf a \<Longrightarrow> atpic_wf (fst (vatpic_ocw3 val a))"
  using uint_mask_range(3) [of val] by (auto simp: vatpic_ocw3_def Let_def atpic_wf_def)

lemma icw1_wf: "atpic_wf a \<Longrightarrow> atpic_wf (fst (vatpic_icw1 val a))"
  by (auto simp: vatpic_icw1_def Let_def atpic_wf_def)

lemma pic_command_wf:
  assumes "atpic_wf a"
  shows "atpic_wf (fst (pic_command k port val a))"
proof (cases "port AND 1 \<noteq> 0")
  case True
  then show ?thesis using assms uint_mask_range(1) [of val] irq_base_dvd [of val]
    by (auto simp: pic_command_def vatpic_icw2_def vatpic_icw3_def vatpic_icw4_def vatpic_ocw1_def atpic_wf_def)
next
  case False
  then show ?thesis using assms icw1_wf [of a val] ocw2_wf ocw3_wf
    by (auto simp: pic_command_def split: prod.splits)
qed

lemma vatpic_wf_atpic:
  assumes "vatpic_wf (vm_vatpic v)" and "atpic_wf a" and "k < 2"
  shows "vatpic_wf (vm_vatpic (upd_atpic k (\<lambda>_. a) v))"
  using assms by (auto simp: vatpic_wf_def less_2_cases_iff)

lemma vatpic_wf_upd:
  assumes "vatpic_wf (vm_vatpic v)" and "\<And>a. atpic_wf a \<Longrightarrow> atpic_wf (f a)" and "k < 2"
  shows "vatpic_wf (vm_vatpic (upd_atpic k f v))"
  using assms by (auto simp: vatpic_wf_def less_2_cases_iff)

lemma notify_master_wf:
  assumes "notify_master v = Some v'" and "vatpic_wf (vm_vatpic v)"
  shows "vatpic_wf (vm_vatpic v')"
proof -
  note m = notify_master_signalled [OF assms(1)]
  have "atpic_wf (vm_atpic v' 0)" using assms(2) by (subst m(5)) (simp add: vatpic_wf_def)
  then show ?thesis using assms(2) m(2) [of 1] by (simp add: vatpic_wf_def m(3))
qed

lemma pin_update_wf:
  assumes "vatpic_wf (vm_vatpic v)" and "pin < 16"
  shows "vatpic_wf (vm_vatpic (pin_update pin b v))"
proof -
  have "pin div 8 < 2" using assms(2) by auto
  then show ?thesis unfolding pin_update_def Let_def by (intro vatpic_wf_upd assms(1)) simp_all
qed

lemma set_intr_raised_wf:
  assumes "vatpic_wf (vm_vatpic v)" and "k < 2"
  shows "vatpic_wf (vm_vatpic (set_intr_raised k b v))"
  unfolding set_intr_raised_def by (intro vatpic_wf_upd assms) simp

text \<open>Notification keeps the controllers well formed.\<close>

lemma notify_intr_wf:
  assumes "vatpic_notify_intr v = Some v'" and "vatpic_wf (vm_vatpic v)"
  shows "vatpic_wf (vm_vatpic v')"
proof (cases "\<not> pic_intr_raised (vm_atpic v 1) \<and> vatpic_get_highest_irrpin (vm_atpic v 1) \<noteq> None")
  case False
  then have "vatpic_notify_intr v = notify_master v"
    by (subst vatpic_notify_intr.simps) (simp only: if_False)
  then show ?thesis using assms notify_master_wf by simp
next
  case True
  let ?v1 = "pin_update 2 True (set_intr_raised 1 True v)"
  have wf1: "vatpic_wf (vm_vatpic ?v1)" by (intro pin_update_wf set_intr_raised_wf assms(2)) simp_all
  obtain a where a: "notify_master ?v1 = Some a" using notify_master_total by blast
  obtain b where b: "notify_master (pin_update 2 False a) = Some b" using notify_master_total by blast
  have na: "vatpic_notify_intr ?v1 = Some a" using a by (subst notify_intr_raised) simp_all
  have "vm_atpic a 1 = vm_atpic ?v1 1" by (rule notify_master_signalled(2) [OF a]) simp
  then have nb: "vatpic_notify_intr (pin_update 2 False a) = Some b"
    using b by (subst notify_intr_raised) simp_all
  have "vatpic_notify_intr v = notify_master b"
    by (subst vatpic_notify_intr.simps) (use True na nb in simp)
  moreover have "vatpic_wf (vm_vatpic b)"
    by (rule notify_master_wf [OF b pin_update_wf [OF notify_master_wf [OF a wf1]]]) simp
  ultimately show ?thesis using assms(1) notify_master_wf by simp
qed

subsection \<open>Priority resolution\<close>

text \<open>
  A pin wins when it is requested and unmasked, and no pin of at least its priority is in
  service or could win before it. \<open>prio_rank\<close> is the position in the rotated order.
\<close>

definition prio_rank :: "atpic \<Rightarrow> nat \<Rightarrow> nat" where
  "prio_rank a p = nat ((int p - pic_lowprio a - 1) mod 8)"

lemma nth_prio_pins:
  assumes "t < 8"
  shows "prio_rank a (prio_pins a ! t) = t"
proof -
  have "(int (nat ((pic_lowprio a + 1 + int t) mod 8)) - pic_lowprio a - 1) mod 8
      = ((pic_lowprio a + 1 + int t) mod 8 - (pic_lowprio a + 1)) mod 8"
    by (simp add: algebra_simps)
  also have "\<dots> = ((pic_lowprio a + 1 + int t) - (pic_lowprio a + 1)) mod 8" by (rule mod_diff_left_eq)
  also have "\<dots> = int t" using assms by simp
  finally show ?thesis using assms by (simp add: prio_rank_def prio_pins_def)
qed

lemma prio_rank_lt [simp]: "prio_rank a p < 8"
  by (simp add: prio_rank_def nat_less_iff)

lemma prio_pins_rank:
  assumes "p < 8"
  shows "prio_pins a ! prio_rank a p = p"
proof -
  have "(pic_lowprio a + 1 + int (prio_rank a p)) mod 8 = int p"
    using assms by (simp add: prio_rank_def mod_simps)
  then show ?thesis by (simp add: prio_pins_def)
qed

abbreviation eligible :: "atpic \<Rightarrow> nat \<Rightarrow> bool" where
  "eligible a p \<equiv> bit (pic_request a) p \<and> \<not> bit (pic_mask a) p"

lemma irrpin_scan_SomeD:
  assumes "irrpin_scan a s ps = Some p"
  shows "\<exists>n < length ps. ps ! n = p \<and> eligible a p \<and> (\<forall>m \<le> n. \<not> bit s (ps ! m))
        \<and> (\<forall>m < n. \<not> eligible a (ps ! m))"
  using assms
proof (induction ps)
  case (Cons q ps)
  show ?case
  proof (cases "eligible a q")
    case True
    then show ?thesis using Cons.prems by (intro exI [of _ 0]) (auto split: if_splits)
  next
    case False
    then have q: "\<not> bit s q" and "irrpin_scan a s ps = Some p" using Cons.prems by (auto split: if_splits)
    then obtain n where n: "n < length ps" "ps ! n = p" "eligible a p" "\<forall>m \<le> n. \<not> bit s (ps ! m)"
      "\<forall>m < n. \<not> eligible a (ps ! m)" using Cons.IH by blast
    have "\<not> bit s ((q # ps) ! m)" if "m \<le> Suc n" for m using that q n(4) by (cases m) auto
    moreover have "\<not> eligible a ((q # ps) ! m)" if "m < Suc n" for m
      using that False n(5) by (cases m) auto
    ultimately show ?thesis using n by (intro exI [of _ "Suc n"]) auto
  qed
qed simp

lemma irrpin_scan_NoneD:
  assumes "irrpin_scan a s ps = None" and "n < length ps" and "eligible a (ps ! n)"
  shows "\<exists>m \<le> n. bit s (ps ! m)"
  using assms
proof (induction ps arbitrary: n)
  case (Cons q ps)
  show ?case
  proof (cases "bit s q")
    case True
    then show ?thesis by (intro exI [of _ 0]) simp
  next
    case False
    then have "irrpin_scan a s ps = None" and "\<not> eligible a q"
      using Cons.prems(1) by (auto split: if_splits)
    moreover obtain k where "n = Suc k" using Cons.prems(3) \<open>\<not> eligible a q\<close> by (cases n) auto
    ultimately obtain m where "m \<le> k" "bit s (ps ! m)" using Cons.IH [of k] Cons.prems by auto
    then show ?thesis using \<open>n = Suc k\<close> by (intro exI [of _ "Suc m"]) auto
  qed
qed simp

lemma length_prio_pins [simp]: "length (prio_pins a) = 8"
  by (simp add: prio_pins_def)

lemma highest_irrpin_Some:
  assumes "vatpic_get_highest_irrpin a = Some p"
  shows "eligible a p" "\<And>q. q < 8 \<Longrightarrow> prio_rank a q \<le> prio_rank a p \<Longrightarrow> \<not> bit (pic_serviced a) q"
    "\<And>q. q < 8 \<Longrightarrow> prio_rank a q < prio_rank a p \<Longrightarrow> \<not> eligible a q"
proof -
  obtain n where n: "n < 8" "prio_pins a ! n = p" "eligible a p"
    "\<forall>m \<le> n. \<not> bit (pic_serviced a) (prio_pins a ! m)" "\<forall>m < n. \<not> eligible a (prio_pins a ! m)"
    using irrpin_scan_SomeD [OF assms [unfolded vatpic_get_highest_irrpin_def]] by auto
  have r: "prio_rank a p = n" using nth_prio_pins [OF n(1), of a] n(2) by simp
  show "eligible a p" by (rule n(3))
  show "\<not> bit (pic_serviced a) q" if "q < 8" "prio_rank a q \<le> prio_rank a p" for q
    using n(4) that r prio_pins_rank [OF that(1)] by metis
  show "\<not> eligible a q" if "q < 8" "prio_rank a q < prio_rank a p" for q
    using n(5) that r prio_pins_rank [OF that(1)] by metis
qed

lemma highest_irrpin_None:
  assumes "vatpic_get_highest_irrpin a = None" and "q < 8" and "eligible a q"
  obtains r where "r < 8" and "bit (pic_serviced a) r" and "prio_rank a r \<le> prio_rank a q"
proof -
  obtain m where m: "m \<le> prio_rank a q" "bit (pic_serviced a) (prio_pins a ! m)"
    using irrpin_scan_NoneD [OF assms(1) [unfolded vatpic_get_highest_irrpin_def], of "prio_rank a q"]
      assms(3) prio_pins_rank [OF assms(2)] by auto
  have "m < 8" using m(1) prio_rank_lt [of a q] by linarith
  then have "prio_pins a ! m < 8" by (intro prio_pins_lt [of _ a] nth_mem) simp
  then show thesis
    using that [of "prio_pins a ! m"] m nth_prio_pins [OF \<open>m < 8\<close>, of a] by simp
qed

lemma isrpin_scan_first:
  assumes "\<not> pic_smm a" and "n < length ps" and "bit (pic_service a) (ps ! n)"
    and "\<forall>m < n. \<not> bit (pic_service a) (ps ! m)"
  shows "isrpin_scan a ps = Some (ps ! n)"
  using assms(2-)
proof (induction ps arbitrary: n)
  case (Cons q ps)
  then show ?case
  proof (cases n)
    case (Suc k)
    then have "\<not> bit (pic_service a) q" using Cons.prems(3) by auto
    moreover have "isrpin_scan a ps = Some (ps ! k)"
      using Cons.prems Suc by (intro Cons.IH) (auto dest: spec [of _ "Suc _"])
    ultimately show ?thesis using Suc by simp
  qed (use assms(1) in simp)
qed simp

text \<open>The vector in service of highest priority is the one a non-specific EOI ends.\<close>

lemma accept_isrpin:
  assumes irr: "vatpic_get_highest_irrpin a = Some p"
    and "\<not> pic_smm a" and "\<not> pic_sfn a" and "\<not> pic_aeoi a"
  shows "vatpic_get_highest_isrpin (vatpic_pin_accepted p a) = Some p"
    and "\<not> bit (pic_service a) p"
    and "pic_service (vatpic_pin_accepted p a) = pic_service a OR BIT p"
proof -
  let ?a = "vatpic_pin_accepted p a"
  have p: "p < 8" by (rule irrpin_lt [OF irr])
  have sv: "pic_serviced a = pic_service a" using assms by (simp add: pic_serviced_def)
  show svc: "pic_service ?a = pic_service a OR BIT p" using assms by (simp add: vatpic_pin_accepted_def Let_def)
  have lo: "prio_pins ?a = prio_pins a" using assms by (simp add: prio_pins_def vatpic_pin_accepted_def Let_def)
  have free: "\<not> bit (pic_service a) q" if "q < 8" "prio_rank a q \<le> prio_rank a p" for q
    using highest_irrpin_Some(2) [OF irr that] by (simp add: sv)
  show "\<not> bit (pic_service a) p" using free p by blast
  have "isrpin_scan ?a (prio_pins a) = Some (prio_pins a ! prio_rank a p)"
  proof (rule isrpin_scan_first)
    show "\<not> pic_smm ?a" using assms by (simp add: vatpic_pin_accepted_def Let_def)
    show "bit (pic_service ?a) (prio_pins a ! prio_rank a p)"
      using p by (simp add: svc prio_pins_rank bit_or_iff)
    show "\<forall>m < prio_rank a p. \<not> bit (pic_service ?a) (prio_pins a ! m)"
    proof (intro allI impI)
      fix m assume m: "m < prio_rank a p"
      then have m8: "m < 8" using prio_rank_lt [of a p] by linarith
      then have "prio_rank a (prio_pins a ! m) = m" by (rule nth_prio_pins)
      moreover have "prio_pins a ! m < 8" using m8 by (intro prio_pins_lt [of _ a] nth_mem) simp
      ultimately show "\<not> bit (pic_service ?a) (prio_pins a ! m)"
        using free [of "prio_pins a ! m"] m by (auto simp: svc bit_or_iff)
    qed
  qed simp
  then show "vatpic_get_highest_isrpin ?a = Some p"
    using p by (simp add: vatpic_get_highest_isrpin_def lo prio_pins_rank)
qed

subsection \<open>Every operation answers and keeps the controllers well formed\<close>

definition vatpic_step_ok :: "vm \<Rightarrow> vm \<Rightarrow> bool" where
  "vatpic_step_ok v v' \<longleftrightarrow> pic_frame v v' \<and> (vatpic_wf (vm_vatpic v) \<longrightarrow> vatpic_wf (vm_vatpic v'))"

lemma vatpic_step_ok_refl [simp, intro]: "vatpic_step_ok v v"
  by (simp add: vatpic_step_ok_def)

lemma vatpic_step_ok_trans: "vatpic_step_ok a b \<Longrightarrow> vatpic_step_ok b c \<Longrightarrow> vatpic_step_ok a c"
  unfolding vatpic_step_ok_def by (blast intro: pic_frame_trans)

lemma notify_intr_ok:
  obtains v' where "vatpic_notify_intr v = Some v'" and "vatpic_step_ok v v'"
    and "signalled (vm_atpic v' 0)" and "signalled (vm_atpic v' 1)"
proof -
  obtain v' where "vatpic_notify_intr v = Some v'" "pic_frame v v'" "signalled (vm_atpic v' 0)"
    "signalled (vm_atpic v' 1)" by (rule notify_intr_spec [of v]) blast
  then show thesis using that notify_intr_wf by (auto simp: vatpic_step_ok_def)
qed

lemma vatpic_set_pinstate_ok:
  assumes "pin < 16"
  obtains v' where "vatpic_set_pinstate pin b v = Some v'" and "vatpic_step_ok v v'"
    and "signalled (vm_atpic v' 0)" and "signalled (vm_atpic v' 1)"
proof -
  have "vatpic_step_ok v (pin_update pin b v)"
    using assms by (simp add: vatpic_step_ok_def pin_update_wf)
  moreover obtain v' where "vatpic_notify_intr (pin_update pin b v) = Some v'"
    "vatpic_step_ok (pin_update pin b v) v'" "signalled (vm_atpic v' 0)" "signalled (vm_atpic v' 1)"
    by (rule notify_intr_ok [of "pin_update pin b v"]) blast
  ultimately show thesis using that by (metis vatpic_set_pinstate_def vatpic_step_ok_trans)
qed

lemma vatpic_set_irqstate_ok:
  obtains v' e where "vatpic_set_irqstate irq st v = Some (v', e)" and "vatpic_step_ok v v'"
    and "0 \<le> irq \<Longrightarrow> irq \<le> 15 \<Longrightarrow> pic_ready (vm_atpic v (nat irq div 8)) \<Longrightarrow>
           e = 0 \<and> signalled (vm_atpic v' 0) \<and> signalled (vm_atpic v' 1)"
proof (cases "irq < 0 \<or> irq > 15 \<or> \<not> pic_ready (vm_atpic v (nat irq div 8))")
  case True
  then show thesis by (intro that [of v "if irq < 0 \<or> irq > 15 then EINVAL else 0"])
      (auto simp: vatpic_set_irqstate_def)
next
  case False
  let ?p = "vatpic_set_pinstate (nat irq)"
  have irq: "nat irq < 16" using False by auto
  obtain a where a: "?p True v = Some a" "vatpic_step_ok v a" "signalled (vm_atpic a 0)" "signalled (vm_atpic a 1)"
    by (rule vatpic_set_pinstate_ok [OF irq, of True v]) blast
  obtain b where b: "?p False v = Some b" "vatpic_step_ok v b" "signalled (vm_atpic b 0)" "signalled (vm_atpic b 1)"
    by (rule vatpic_set_pinstate_ok [OF irq, of False v]) blast
  obtain c where c: "?p False a = Some c" "vatpic_step_ok a c" "signalled (vm_atpic c 0)" "signalled (vm_atpic c 1)"
    by (rule vatpic_set_pinstate_ok [OF irq, of False a]) blast
  show thesis
  proof (cases st)
    case IRQSTATE_ASSERT
    then show thesis using False a by (intro that [of a 0]) (auto simp: vatpic_set_irqstate_def)
  next
    case IRQSTATE_DEASSERT
    then show thesis using False b by (intro that [of b 0]) (auto simp: vatpic_set_irqstate_def)
  next
    case IRQSTATE_PULSE
    then show thesis using False a c
      by (intro that [of c 0]) (auto simp: vatpic_set_irqstate_def intro: vatpic_step_ok_trans)
  qed
qed

lemma vatpic_intr_accepted_ok:
  obtains v' where "vatpic_intr_accepted vector v = Some v'" and "vatpic_step_ok v v'"
    and "signalled (vm_atpic v' 0)" and "signalled (vm_atpic v' 1)"
proof -
  let ?pin = "nat (vector mod 8)"
  let ?w = "if vector - vector mod 8 = pic_irq_base (vm_atpic v 1)
            then upd_atpic 0 (vatpic_pin_accepted 2) (upd_atpic 1 (vatpic_pin_accepted ?pin) v)
            else upd_atpic 0 (vatpic_pin_accepted ?pin) v"
  have pin: "?pin < 8" by (simp add: nat_less_iff)
  have wf: "vatpic_wf (vm_vatpic ?w)" if "vatpic_wf (vm_vatpic v)"
    using that pin by (auto intro!: vatpic_wf_upd pin_accepted_wf)
  have "pic_frame v ?w" using pic_frame_trans [OF pic_frame_upd_atpic pic_frame_upd_atpic] by simp
  with wf have w: "vatpic_step_ok v ?w" by (simp add: vatpic_step_ok_def)
  obtain v' where n: "vatpic_notify_intr ?w = Some v'" "vatpic_step_ok ?w v'" "signalled (vm_atpic v' 0)"
    "signalled (vm_atpic v' 1)" by (rule notify_intr_ok [of ?w]) blast
  have "vatpic_intr_accepted vector v = Some v'" using n(1) by (simp only: vatpic_intr_accepted_def Let_def)
  then show thesis using vatpic_step_ok_trans [OF w n(2)] n(3,4) by (rule that)
qed

lemma vatpic_write_ok:
  assumes "k < 2"
  obtains v' e where "vatpic_write k port eax v = Some (v', e)" and "vatpic_step_ok v v'"
    and "pic_ready (vm_atpic v' k) \<Longrightarrow> signalled (vm_atpic v' 0) \<and> signalled (vm_atpic v' 1)"
proof -
  obtain a error where cmd: "pic_command k port (ucast eax) (vm_atpic v k) = (a, error)" by fastforce
  let ?w = "upd_atpic k (\<lambda>_. a) v"
  have "atpic_wf a" if "atpic_wf (vm_atpic v k)" using pic_command_wf [OF that] cmd by (metis fst_conv)
  moreover have "vatpic_wf (vm_vatpic v) \<Longrightarrow> atpic_wf (vm_atpic v k)"
    using assms by (auto simp: vatpic_wf_def less_2_cases_iff)
  ultimately have w: "vatpic_step_ok v ?w"
    using assms by (auto simp: vatpic_step_ok_def intro: vatpic_wf_atpic)
  show thesis
  proof (cases "pic_ready a")
    case True
    obtain v' where "vatpic_notify_intr ?w = Some v'" "vatpic_step_ok ?w v'" "signalled (vm_atpic v' 0)"
      "signalled (vm_atpic v' 1)" by (rule notify_intr_ok [of ?w]) blast
    then show thesis using w True cmd
      by (intro that [of v' error]) (auto simp: vatpic_write_def intro: vatpic_step_ok_trans)
  next
    case False
    then show thesis using w cmd by (intro that [of ?w error]) (simp_all add: vatpic_write_def)
  qed
qed

lemma vatpic_read_ok:
  assumes "k < 2"
  shows "vatpic_step_ok v (fst (vatpic_read k port v))"
proof -
  let ?a1 = "(vm_atpic v k)\<lparr>pic_poll := False\<rparr>"
  have a: "vatpic_wf (vm_vatpic v) \<Longrightarrow> atpic_wf ?a1"
    using assms by (auto simp: vatpic_wf_def less_2_cases_iff)
  have "vatpic_step_ok v (upd_atpic k (\<lambda>_. vatpic_pin_accepted p ?a1) v)" if "p < 8" for p
    using a that assms by (auto simp: vatpic_step_ok_def intro!: vatpic_wf_atpic pin_accepted_wf)
  moreover have "vatpic_step_ok v (upd_atpic k (\<lambda>_. ?a1) v)"
    using a assms by (auto simp: vatpic_step_ok_def intro!: vatpic_wf_atpic)
  ultimately show ?thesis
    by (auto simp: vatpic_read_def Let_def split: option.splits dest: irrpin_lt)
qed

subsection \<open>Properties\<close>





lemma isrpin_scan_rotate [simp]: "isrpin_scan (a\<lparr>pic_rotate := b\<rparr>) ps = isrpin_scan a ps"
  by (induction ps) simp_all

lemma isrpin_rotate [simp]: "vatpic_get_highest_isrpin (a\<lparr>pic_rotate := b\<rparr>) = vatpic_get_highest_isrpin a"
  by (simp add: vatpic_get_highest_isrpin_def prio_pins_def)

text \<open>
  C31. In the normal mode of operation, accepting the signalled pin marks it in service, and a
  non-specific end of interrupt then retires that pin and no other: the in-service register is
  back to what it was.
\<close>

theorem pic_accept_then_eoi:
  assumes "vatpic_get_highest_irrpin a = Some p" and "\<not> pic_smm a" and "\<not> pic_sfn a" and "\<not> pic_aeoi a"
  shows "bit (pic_service (vatpic_pin_accepted p a)) p
     \<and> pic_service (fst (vatpic_ocw2 0x20 (vatpic_pin_accepted p a))) = pic_service a
     \<and> snd (vatpic_ocw2 0x20 (vatpic_pin_accepted p a)) = 0"
proof -
  note acc = accept_isrpin [OF assms]
  have "p < 8" using irrpin_lt assms(1) .
  have "(pic_service a OR BIT p) AND NOT (BIT p) = pic_service a"
    using acc(2) by (intro bit_word_eqI) (auto simp: bit_clear_BIT bit_or_BIT)
  then show ?thesis using acc \<open>p < 8\<close> by (simp add: vatpic_ocw2_def Let_def bit_or_BIT)
qed

theorem pic_accept_then_eoi_witness:
  "bit (pic_service (vatpic_pin_accepted 3 (atpic_bzero\<lparr>pic_request := 0x18, pic_lowprio := 7\<rparr>))) 3
   \<and> pic_service (fst (vatpic_ocw2 0x20 (vatpic_pin_accepted 3 (atpic_bzero\<lparr>pic_request := 0x18, pic_lowprio := 7\<rparr>)))) = 0"
proof -
  let ?a = "atpic_bzero\<lparr>pic_request := 0x18, pic_lowprio := 7\<rparr>"
  have p: "vatpic_get_highest_irrpin ?a = Some 3" by code_simp
  show ?thesis using pic_accept_then_eoi [OF p] by (simp add: atpic_bzero_def)
qed

end
