(* ===== verification/Vatpit.thy ===== *)
theory Vatpit
  imports Vatpic "HOL-Library.Signed_Division"
begin

text \<open>
  The 8254 interval timer of \<open>src/vmm/io/vatpit.c\<close>. \<open>sbintime_t\<close> is a signed 64-bit number:
  differences and products wrap, comparisons, quotients and remainders are signed. The host
  clock \<open>mat\<close> is an argument and does not move within one operation. The handler and
  argument registered for channel 0 are the number \<open>VATPIT_HANDLER\<close>.
\<close>

abbreviation (input) TIMER_INTTC :: u8 where "TIMER_INTTC \<equiv> 0x00"
abbreviation (input) TIMER_RATEGEN :: u8 where "TIMER_RATEGEN \<equiv> 0x04"
abbreviation (input) TIMER_SQWAVE :: u8 where "TIMER_SQWAVE \<equiv> 0x06"
abbreviation (input) TIMER_SWSTROBE :: u8 where "TIMER_SWSTROBE \<equiv> 0x08"
abbreviation (input) TIMER_LATCH :: u8 where "TIMER_LATCH \<equiv> 0x00"
abbreviation (input) TIMER_16BIT :: u8 where "TIMER_16BIT \<equiv> 0x30"
abbreviation (input) TIMER_STS_OUT :: u8 where "TIMER_STS_OUT \<equiv> 0x80"
abbreviation (input) TIMER_STS_NULLCNT :: u8 where "TIMER_STS_NULLCNT \<equiv> 0x40"
abbreviation (input) TIMER_CNTR0 :: u32 where "TIMER_CNTR0 \<equiv> 0x40"
abbreviation (input) TIMER_CNTR2 :: u32 where "TIMER_CNTR2 \<equiv> 0x42"
abbreviation (input) TIMER_MODE :: u32 where "TIMER_MODE \<equiv> 0x43"
abbreviation (input) PIT_8254_FREQ :: nat where "PIT_8254_FREQ \<equiv> 1193182"
abbreviation (input) TMR2_OUT_STS :: u32 where "TMR2_OUT_STS \<equiv> 0x20"
abbreviation (input) VATPIT_HANDLER :: nat where "VATPIT_HANDLER \<equiv> 1"

subsection \<open>Counters\<close>

definition pit_now :: "u64 \<Rightarrow> vm \<Rightarrow> sbintime" where
  "pit_now mat v = sbinuptime (vm_timebase v) mat"

definition pit_delta_ticks :: "u64 \<Rightarrow> channel \<Rightarrow> vm \<Rightarrow> int" where
  "pit_delta_ticks mat c v =
     sint (pit_now mat v - ch_now_sbt c) sdiv sint (pit_freq_sbt (vm_vatpit v))"

definition vatpit_get_out :: "u64 \<Rightarrow> nat \<Rightarrow> vm \<Rightarrow> bool" where
  "vatpit_get_out mat k v =
     (let c = vm_channel v k
      in if ch_mode c = TIMER_INTTC then uint (ch_initial c) - pit_delta_ticks mat c v \<le> 0 else False)"

definition pit_update_counter :: "u64 \<Rightarrow> nat \<Rightarrow> bool \<Rightarrow> vm \<Rightarrow> vm \<times> u16" where
  "pit_update_counter mat k latch v =
     (if latch \<and> ch_olbyte (vm_channel v k) \<noteq> 0 then (v, 0)
      else
        let v1 = (if ch_initial (vm_channel v k) = 0
                  then upd_channel k (\<lambda>c. c\<lparr>ch_initial := of_nat ((PIT_8254_FREQ + 100 div 2) div 100),
                         ch_now_sbt := pit_now mat v, ch_status := ch_status c AND NOT TIMER_STS_NULLCNT\<rparr>) v
                  else v);
            c = vm_channel v1 k;
            lval = word_of_int (uint (ch_initial c) - pit_delta_ticks mat c v1 smod uint (ch_initial c))
        in if latch
           then (upd_channel k (\<lambda>c. c\<lparr>ch_olbyte := 2,
                   ch_ol := (ch_ol c)(1 := ucast lval, 0 := ucast (drop_bit 8 lval))\<rparr>) v1, lval)
           else (v1, lval))"

subsection \<open>Channel 0 drives the interrupt\<close>

definition with_callouts :: "callout_sys \<Rightarrow> vm \<Rightarrow> vm" where
  "with_callouts s v = v\<lparr>vm_callouts := s\<rparr>"

definition pit_timer_start_cntr0 :: "u64 \<Rightarrow> vm \<Rightarrow> vm option" where
  "pit_timer_start_cntr0 mat v =
     (let c = vm_channel v 0
      in if ch_initial c \<noteq> 0 then
           let delta = ucast (ch_initial c) * pit_freq_sbt (vm_vatpit v);
               target = ch_callout_sbt c + delta;
               now = pit_now mat v;
               target = (if sint target < sint now then now + delta else target);
               v1 = upd_channel 0 (\<lambda>c. c\<lparr>ch_callout_sbt := target\<rparr>) v
           in map_option (\<lambda>s. with_callouts s v1)
                (callout_reset_sbt (vm_timebase v1) mat (vatpit_callout 0) target VATPIT_HANDLER C_ABSOLUTE
                   (vm_callouts v1))
         else Some v)"

text \<open>The handler of channel \<open>k\<close>: \<open>done\<close> when the callout was reset or stopped meanwhile.\<close>

definition vatpit_callout_handler :: "u64 \<Rightarrow> nat \<Rightarrow> vm \<Rightarrow> vm option" where
  "vatpit_callout_handler mat k v =
     (let co = cs_store (vm_callouts v) (vatpit_callout k)
      in if callout_pending co then Some v
         else if \<not> callout_active co then Some v
         else
           let v1 = with_callouts (upd (vatpit_callout k) callout_deactivate (vm_callouts v)) v
           in Option.bind (if ch_mode (vm_channel v1 k) = TIMER_RATEGEN then pit_timer_start_cntr0 mat v1
                           else Some v1) (\<lambda>v2.
              Option.bind (vatpic_pulse_irq 0 v2) (\<lambda>(v3, _).
              map_option fst (vioapic_pulse_irq 2 v3))))"

subsection \<open>Read-back and mode words\<close>

definition pit_readback1 :: "u64 \<Rightarrow> nat \<Rightarrow> u8 \<Rightarrow> vm \<Rightarrow> vm" where
  "pit_readback1 mat k cmd v =
     (let v1 = (if cmd AND 0x20 = 0 \<and> ch_olbyte (vm_channel v k) = 0
                then fst (pit_update_counter mat k True v) else v)
      in if cmd AND 0x10 = 0 \<and> \<not> ch_slatched (vm_channel v1 k)
         then upd_channel k (\<lambda>c. c\<lparr>ch_slatched := True, ch_status :=
                (if ch_mode c = TIMER_INTTC \<and> vatpit_get_out mat k v1 then ch_status c OR TIMER_STS_OUT
                 else ch_status c AND NOT TIMER_STS_OUT)\<rparr>) v1
         else v1)"

definition pit_readback :: "u64 \<Rightarrow> u8 \<Rightarrow> vm \<Rightarrow> vm \<times> int" where
  "pit_readback mat cmd v =
     (let v = (if cmd AND 0x02 \<noteq> 0 then pit_readback1 mat 0 cmd v else v);
          v = (if cmd AND 0x04 \<noteq> 0 then pit_readback1 mat 1 cmd v else v);
          v = (if cmd AND 0x08 \<noteq> 0 then pit_readback1 mat 2 cmd v else v)
      in (v, 0))"

definition vatpit_update_mode :: "u64 \<Rightarrow> u8 \<Rightarrow> vm \<Rightarrow> vm \<times> int" where
  "vatpit_update_mode mat val v =
     (let sel = val AND 0xc0; rw = val AND 0x30; mode = val AND 0x0f; k = unat (drop_bit 6 sel)
      in if sel = 0xc0 then pit_readback mat val v
         else if rw \<noteq> TIMER_LATCH \<and> rw \<noteq> TIMER_16BIT then (v, -1)
         else if rw \<noteq> TIMER_LATCH \<and> mode \<noteq> TIMER_INTTC \<and> mode \<noteq> TIMER_RATEGEN \<and> mode \<noteq> TIMER_SQWAVE
                 \<and> mode \<noteq> TIMER_SWSTROBE then (v, -1)
         else if rw = TIMER_LATCH then (fst (pit_update_counter mat k True v), 0)
         else (upd_channel k (\<lambda>c. c\<lparr>ch_mode := mode, ch_olbyte := 0,
                 ch_status := ch_status c OR TIMER_STS_NULLCNT\<rparr>) v, 0))"

subsection \<open>Port access\<close>

definition pit_read_channel :: "u64 \<Rightarrow> nat \<Rightarrow> vm \<Rightarrow> vm \<times> u32" where
  "pit_read_channel mat k v =
     (let c = vm_channel v k
      in if ch_slatched c
         then (upd_channel k (\<lambda>c. c\<lparr>ch_slatched := False, ch_status := 0\<rparr>) v, ucast (ch_status c))
         else if ch_olbyte c = 0
         then let (v1, tmp) = pit_update_counter mat k False v;
                  tmp = (if ch_frbyte (vm_channel v1 k) then drop_bit 8 tmp else tmp)
              in (upd_channel k (\<lambda>c. c\<lparr>ch_frbyte := \<not> ch_frbyte c\<rparr>) v1, ucast (tmp AND 0xff))
         else (upd_channel k (\<lambda>c. c\<lparr>ch_olbyte := ch_olbyte c - 1\<rparr>) v,
               ucast (ch_ol c (ch_olbyte c - 1))))"

definition pit_write_channel :: "u64 \<Rightarrow> nat \<Rightarrow> u8 \<Rightarrow> vm \<Rightarrow> vm option" where
  "pit_write_channel mat k val v =
     (let v1 = upd_channel k (\<lambda>c. c\<lparr>ch_cr := (ch_cr c)(ch_crbyte c := val), ch_crbyte := Suc (ch_crbyte c)\<rparr>) v
      in if ch_crbyte (vm_channel v1 k) = 2
         then let v2 = upd_channel k (\<lambda>c. c\<lparr>ch_status := ch_status c AND NOT TIMER_STS_NULLCNT,
                         ch_frbyte := False, ch_crbyte := 0,
                         ch_initial := ucast (ch_cr c 0) OR push_bit 8 (ucast (ch_cr c 1)),
                         ch_now_sbt := pit_now mat v1\<rparr>) v1
              in map_option
                   (upd_channel k (\<lambda>c. if ch_initial c = 0 then c\<lparr>ch_initial := 0xffff\<rparr> else c))
                   (if k = 0 then pit_timer_start_cntr0 mat
                        (upd_channel 0 (\<lambda>c. c\<lparr>ch_callout_sbt := ch_now_sbt c\<rparr>) v2)
                    else Some v2)
         else Some v1)"

definition vatpit_handler :: "u64 \<Rightarrow> bool \<Rightarrow> u32 \<Rightarrow> int \<Rightarrow> u32 \<Rightarrow> vm \<Rightarrow> (vm \<times> u32 \<times> int) option" where
  "vatpit_handler mat in_dir port bytes eax v =
     (if bytes \<noteq> 1 then Some (v, eax, -1)
      else if port = TIMER_MODE then
        if in_dir then Some (v, eax, -1)
        else (let (v', e) = vatpit_update_mode mat (ucast eax) v in Some (v', eax, e))
      else if \<not> (port \<ge> TIMER_CNTR0 \<and> port \<le> TIMER_CNTR2) then None
      else let k = unat (port - TIMER_CNTR0)
           in if in_dir then (let (v', x) = pit_read_channel mat k v in Some (v', x, 0))
              else map_option (\<lambda>v'. (v', eax, 0)) (pit_write_channel mat k (ucast eax) v))"

definition vatpit_nmisc_handler :: "u64 \<Rightarrow> bool \<Rightarrow> u32 \<Rightarrow> vm \<Rightarrow> u32 \<times> int" where
  "vatpit_nmisc_handler mat in_dir eax v =
     (if in_dir then (if vatpit_get_out mat 2 v then TMR2_OUT_STS else 0, 0) else (eax, 0))"

definition vatpit_init :: vatpit where
  "vatpit_init = \<lparr>pit_freq_sbt = bttosbt (FREQ2BT (of_nat PIT_8254_FREQ)),
     pit_channel = (\<lambda>_. channel_bzero)\<rparr>"

subsection \<open>Array bounds\<close>

text \<open>\<open>crbyte\<close> indexes \<open>cr[2]\<close> and \<open>olbyte - 1\<close> indexes \<open>ol[2]\<close>.\<close>

definition channel_wf :: "channel \<Rightarrow> bool" where
  "channel_wf c \<longleftrightarrow> ch_crbyte c < 2 \<and> ch_olbyte c \<le> 2"

definition vatpit_wf :: "vatpit \<Rightarrow> bool" where
  "vatpit_wf p \<longleftrightarrow> (\<forall>k. channel_wf (pit_channel p k))"

lemma vatpit_wf_init: "vatpit_wf vatpit_init"
  by (simp add: vatpit_wf_def vatpit_init_def channel_wf_def channel_bzero_def)

lemma vatpit_wf_upd:
  assumes "vatpit_wf (vm_vatpit v)" and "\<And>c. channel_wf c \<Longrightarrow> channel_wf (f c)"
  shows "vatpit_wf (vm_vatpit (upd_channel k f v))"
  using assms by (simp add: vatpit_wf_def)

text \<open>What the timer leaves alone; \<open>chan_frame\<close> also keeps the callouts.\<close>

definition chan_frame :: "vm \<Rightarrow> vm \<Rightarrow> bool" where
  "chan_frame v v' \<longleftrightarrow> vm_vcpu v' = vm_vcpu v \<and> vm_vioapic v' = vm_vioapic v \<and> vm_vatpic v' = vm_vatpic v
     \<and> vm_active_cpus v' = vm_active_cpus v \<and> vm_callouts v' = vm_callouts v \<and> vm_vhpet v' = vm_vhpet v \<and> vm_vrtc v' = vm_vrtc v \<and> vm_vpmtmr v' = vm_vpmtmr v \<and> vm_timebase v' = vm_timebase v
     \<and> vm_host_calls v' = vm_host_calls v
     \<and> pit_freq_sbt (vm_vatpit v') = pit_freq_sbt (vm_vatpit v)
     \<and> (vatpit_wf (vm_vatpit v) \<longrightarrow> vatpit_wf (vm_vatpit v'))"

lemma chan_frame_refl [simp, intro]: "chan_frame v v"
  by (simp add: chan_frame_def)

lemma chan_frame_trans [trans]: "chan_frame a b \<Longrightarrow> chan_frame b c \<Longrightarrow> chan_frame a c"
  by (simp add: chan_frame_def)

lemma chan_frame_upd: "(\<And>c. channel_wf c \<Longrightarrow> channel_wf (f c)) \<Longrightarrow> chan_frame v (upd_channel k f v)"
  by (simp add: chan_frame_def vatpit_wf_upd)

lemma update_counter_frame: "chan_frame v (fst (pit_update_counter mat k latch v))"
proof -
  define v1 where "v1 = (if ch_initial (vm_channel v k) = 0
      then upd_channel k (\<lambda>c. c\<lparr>ch_initial := of_nat ((PIT_8254_FREQ + 100 div 2) div 100),
             ch_now_sbt := pit_now mat v, ch_status := ch_status c AND NOT TIMER_STS_NULLCNT\<rparr>) v else v)"
  have "chan_frame v v1"
    unfolding v1_def by (simp, intro impI chan_frame_upd) (simp add: channel_wf_def)
  moreover have "chan_frame v1 (upd_channel k (\<lambda>c. c\<lparr>ch_olbyte := 2, ch_ol := f c\<rparr>) v1)" for f
    by (rule chan_frame_upd) (simp add: channel_wf_def)
  ultimately show ?thesis
    unfolding pit_update_counter_def v1_def [symmetric] Let_def by (auto intro: chan_frame_trans)
qed

lemma readback1_frame: "chan_frame v (pit_readback1 mat k cmd v)"
proof -
  define v1 where "v1 = (if cmd AND 0x20 = 0 \<and> ch_olbyte (vm_channel v k) = 0
      then fst (pit_update_counter mat k True v) else v)"
  have "chan_frame v v1" by (simp add: v1_def update_counter_frame)
  moreover have "chan_frame v1 (upd_channel k (\<lambda>c. c\<lparr>ch_slatched := True, ch_status := f c\<rparr>) v1)" for f
    by (rule chan_frame_upd) (simp add: channel_wf_def)
  ultimately show ?thesis
    unfolding pit_readback1_def v1_def [symmetric] Let_def by (auto intro: chan_frame_trans)
qed

lemma readback1_if_frame: "chan_frame v w \<Longrightarrow> chan_frame v (if b then pit_readback1 mat k cmd w else w)"
  by (auto intro: chan_frame_trans readback1_frame)

lemma readback_frame: "chan_frame v (fst (pit_readback mat cmd v))"
  unfolding pit_readback_def Let_def fst_conv by (intro readback1_if_frame chan_frame_refl)

lemma update_mode_frame: "chan_frame v (fst (vatpit_update_mode mat val v))"
  unfolding vatpit_update_mode_def Let_def
  by (auto simp: channel_wf_def intro!: readback_frame update_counter_frame chan_frame_upd)

lemma read_channel_frame: "chan_frame v (fst (pit_read_channel mat k v))"
proof -
  obtain v1 t where u: "pit_update_counter mat k False v = (v1, t)" by fastforce
  then have "chan_frame v v1" using update_counter_frame [of v mat k False] by simp
  moreover have "chan_frame v1 (upd_channel k (\<lambda>c. c\<lparr>ch_frbyte := \<not> ch_frbyte c\<rparr>) v1)"
    by (rule chan_frame_upd) (simp add: channel_wf_def)
  ultimately show ?thesis
    by (auto simp: pit_read_channel_def u Let_def channel_wf_def intro!: chan_frame_upd intro: chan_frame_trans)
qed

subsection \<open>Arming the timer\<close>

lemma with_callouts_simps [simp]:
  "vm_callouts (with_callouts s v) = s" "vm_vhpet (with_callouts s v) = vm_vhpet v" "vm_vrtc (with_callouts s v) = vm_vrtc v" "vm_vpmtmr (with_callouts s v) = vm_vpmtmr v" "vm_vcpu (with_callouts s v) = vm_vcpu v"
  "vm_lapic (with_callouts s v) = vm_lapic v"
  "vm_vioapic (with_callouts s v) = vm_vioapic v" "vm_vatpic (with_callouts s v) = vm_vatpic v"
  "vm_vatpit (with_callouts s v) = vm_vatpit v" "vm_active_cpus (with_callouts s v) = vm_active_cpus v"
  "vm_timebase (with_callouts s v) = vm_timebase v" "vm_host_calls (with_callouts s v) = vm_host_calls v"
  by (simp_all add: with_callouts_def vm_lapic_def fun_eq_iff)

text \<open>Which callouts of the HPET and of the real-time clock are active does not change.\<close>

definition timers_undisturbed :: "callout_sys \<Rightarrow> callout_sys \<Rightarrow> bool" where
  "timers_undisturbed s s' \<longleftrightarrow>
     (\<forall>n. callout_active (cs_store s' (vhpet_callout n)) = callout_active (cs_store s (vhpet_callout n)))
     \<and> callout_active (cs_store s' vrtc_callout) = callout_active (cs_store s vrtc_callout)"

lemma timers_undisturbed_refl [simp, intro]: "timers_undisturbed s s"
  by (simp add: timers_undisturbed_def)

lemma timers_undisturbed_ops:
  "callouts_ok r s \<Longrightarrow> callout_reset_sbt tb mat c sbt ftn flags s = Some s1 \<Longrightarrow> \<forall>n. vhpet_callout n \<noteq> c \<Longrightarrow> vrtc_callout \<noteq> c \<Longrightarrow> timers_undisturbed s s1"
  "\<forall>n. vhpet_callout n \<noteq> c \<Longrightarrow> vrtc_callout \<noteq> c \<Longrightarrow> timers_undisturbed s (callout_stop c s)"
  "\<forall>n. vhpet_callout n \<noteq> c \<Longrightarrow> vrtc_callout \<noteq> c \<Longrightarrow> timers_undisturbed s (upd c callout_deactivate s)"
  "callout_thread_round mat s = Some (s2, pc) \<Longrightarrow> timers_undisturbed s s2"
  "callout_wake timed_out mat c s = (s3, pc) \<Longrightarrow> timers_undisturbed s s3"
  "timers_undisturbed s (dispatch_end c s)"
  unfolding timers_undisturbed_def
  by (simp_all add: callout_active_reset callout_active_stop callout_active_deactivate callout_active_thread)

definition timer_frame :: "vm \<Rightarrow> vm \<Rightarrow> bool" where
  "timer_frame v v' \<longleftrightarrow> vm_vcpu v' = vm_vcpu v \<and> vm_vioapic v' = vm_vioapic v \<and> vm_vatpic v' = vm_vatpic v
     \<and> vm_active_cpus v' = vm_active_cpus v \<and> vm_timebase v' = vm_timebase v \<and> vm_vhpet v' = vm_vhpet v \<and> vm_vrtc v' = vm_vrtc v \<and> vm_vpmtmr v' = vm_vpmtmr v
     \<and> (vatpit_wf (vm_vatpit v) \<longrightarrow> vatpit_wf (vm_vatpit v'))
     \<and> (\<forall>r. callouts_ok r (vm_callouts v) \<longrightarrow> callouts_ok r (vm_callouts v')) \<and> timers_undisturbed (vm_callouts v) (vm_callouts v')"

lemma timer_frame_refl [simp, intro]: "timer_frame v v"
  by (simp add: timer_frame_def)

lemma timer_frame_trans [trans]: "timer_frame a b \<Longrightarrow> timer_frame b c \<Longrightarrow> timer_frame a c"
  by (simp add: timer_frame_def timers_undisturbed_def)

lemma timer_frame_chan: "chan_frame v v' \<Longrightarrow> timer_frame v v'"
  by (simp add: timer_frame_def chan_frame_def)

lemma timer_frame_callouts:
  "(\<And>r. callouts_ok r (vm_callouts v) \<Longrightarrow> callouts_ok r s) \<Longrightarrow> timers_undisturbed (vm_callouts v) s \<Longrightarrow> timer_frame v (with_callouts s v)"
  by (simp add: timer_frame_def)

lemma start_cntr0_spec:
  assumes ok: "callouts_ok r (vm_callouts v)"
  obtains v' where "pit_timer_start_cntr0 mat v = Some v'" and "timer_frame v v'"
    and "callout_armed (vm_callouts v') (vatpit_callout 0) \<longleftrightarrow>
           ch_initial (vm_channel v 0) \<noteq> 0 \<or> callout_armed (vm_callouts v) (vatpit_callout 0)"
    and "ch_initial (vm_channel v' k) = ch_initial (vm_channel v k)"
proof (cases "ch_initial (vm_channel v 0) = 0")
  case True
  then show thesis using ok by (intro that [of v]) (simp_all add: pit_timer_start_cntr0_def timer_frame_chan)
next
  case False
  define delta where "delta = ucast (ch_initial (vm_channel v 0)) * pit_freq_sbt (vm_vatpit v)"
  define t where "t = ch_callout_sbt (vm_channel v 0) + delta"
  define target where "target = (if sint t < sint (pit_now mat v) then pit_now mat v + delta else t)"
  let ?v1 = "upd_channel 0 (\<lambda>c. c\<lparr>ch_callout_sbt := target\<rparr>) v"
  let ?args = "(vm_timebase v, mat, target, VATPIT_HANDLER, C_ABSOLUTE)"
  obtain s where s: "callout_arm ?args (vatpit_callout 0) (vm_callouts v) = Some s"
    "callout_armed s (vatpit_callout 0)"
    using callouts.arm_law [OF ok, of ?args "vatpit_callout 0"] by blast
  have oks: "callouts_ok q s" if "callouts_ok q (vm_callouts v)" for q
    using callouts.arm_law [OF that, of ?args "vatpit_callout 0"] s(1) by simp
  have "pit_timer_start_cntr0 mat v = Some (with_callouts s ?v1)"
    using False s(1) unfolding pit_timer_start_cntr0_def Let_def delta_def [symmetric] t_def [symmetric]
      target_def [symmetric] by (simp add: callout_arm_def)
  moreover have "timers_undisturbed (vm_callouts v) s"
    using timers_undisturbed_ops(1) [OF ok] s(1) by (fastforce simp: callout_arm_def)
  moreover have "chan_frame v ?v1" by (rule chan_frame_upd) (simp add: channel_wf_def)
  ultimately have "timer_frame v (with_callouts s ?v1)"
    by (intro timer_frame_trans [OF timer_frame_chan timer_frame_callouts]) (simp_all add: oks)
  moreover note \<open>pit_timer_start_cntr0 mat v = Some (with_callouts s ?v1)\<close>
  ultimately show thesis using s False by (intro that [of "with_callouts s ?v1"]) simp_all
qed

text \<open>Loading a count: the second byte completes it, and channel 0 arms its callout.\<close>

definition load_count :: "u64 \<Rightarrow> u8 \<Rightarrow> channel \<Rightarrow> vm \<Rightarrow> channel" where
  "load_count mat val c v = c\<lparr>ch_cr := (ch_cr c)(ch_crbyte c := val), ch_status := ch_status c AND NOT TIMER_STS_NULLCNT,
     ch_frbyte := False, ch_crbyte := 0,
     ch_initial := ucast (((ch_cr c)(ch_crbyte c := val)) 0) OR push_bit 8 (ucast (((ch_cr c)(ch_crbyte c := val)) 1)),
     ch_now_sbt := pit_now mat v\<rparr>"

lemma pit_now_upd [simp]: "pit_now mat (upd_channel k f v) = pit_now mat v"
  by (simp add: pit_now_def)

lemma write_channel_spec:
  assumes ok: "callouts_ok r (vm_callouts v)" and wf: "vatpit_wf (vm_vatpit v)"
  obtains v' where "pit_write_channel mat k val v = Some v'" and "timer_frame v v'"
    and "k = 0 \<Longrightarrow> ch_crbyte (vm_channel v 0) = 1 \<Longrightarrow> callout_armed (vm_callouts v') (vatpit_callout 0) \<longleftrightarrow>
           ch_initial (load_count mat val (vm_channel v 0) v) \<noteq> 0 \<or> callout_armed (vm_callouts v) (vatpit_callout 0)"
proof -
  define v1 where "v1 = upd_channel k (\<lambda>c. c\<lparr>ch_cr := (ch_cr c)(ch_crbyte c := val), ch_crbyte := Suc (ch_crbyte c)\<rparr>) v"
  have cr: "ch_crbyte (vm_channel v k) < 2" using wf by (simp add: vatpit_wf_def channel_wf_def)
  show thesis
  proof (cases "ch_crbyte (vm_channel v k) = 1")
    case False
    then have z: "ch_crbyte (vm_channel v k) = 0" using cr by linarith
    then have "ch_crbyte (vm_channel v1 k) \<noteq> 2" by (simp add: v1_def)
    then have "pit_write_channel mat k val v = Some v1"
      unfolding pit_write_channel_def v1_def [symmetric] Let_def by simp
    moreover have "vatpit_wf (vm_vatpit v1)"
      using wf z by (auto simp: v1_def vatpit_wf_def channel_wf_def)
    then have "timer_frame v v1" by (simp add: v1_def timer_frame_def)
    ultimately show thesis using False by (intro that) auto
  next
    case True
    define v2 where "v2 = upd_channel k (\<lambda>c. c\<lparr>ch_status := ch_status c AND NOT TIMER_STS_NULLCNT,
        ch_frbyte := False, ch_crbyte := 0,
        ch_initial := ucast (ch_cr c 0) OR push_bit 8 (ucast (ch_cr c 1)), ch_now_sbt := pit_now mat v1\<rparr>) v1"
    have c2: "vm_channel v2 k = load_count mat val (vm_channel v k) v"
      by (simp add: v2_def v1_def load_count_def)
    have wf2: "vatpit_wf (vm_vatpit v2)"
      using wf by (auto simp: v2_def v1_def vatpit_wf_def channel_wf_def)
    then have f2: "timer_frame v v2" by (simp add: v2_def v1_def timer_frame_def)
    define g where "g = upd_channel k (\<lambda>c. if ch_initial c = 0 then c\<lparr>ch_initial := 0xffff\<rparr> else c)"
    have fg: "chan_frame w (g w)" for w unfolding g_def by (rule chan_frame_upd) (simp add: channel_wf_def)
    have w: "pit_write_channel mat k val v = map_option g
        (if k = 0 then pit_timer_start_cntr0 mat (upd_channel 0 (\<lambda>c. c\<lparr>ch_callout_sbt := ch_now_sbt c\<rparr>) v2)
         else Some v2)"
      unfolding pit_write_channel_def v1_def [symmetric] Let_def v2_def [symmetric] g_def
      using True by (simp add: v1_def)
    show thesis
    proof (cases "k = 0")
      case False
      then show thesis using w f2 fg [of v2] by (intro that [of "g v2"]) (auto intro: timer_frame_trans timer_frame_chan)
    next
      case k0: True
      let ?v3 = "upd_channel 0 (\<lambda>c. c\<lparr>ch_callout_sbt := ch_now_sbt c\<rparr>) v2"
      have f3: "timer_frame v2 ?v3" by (intro timer_frame_chan chan_frame_upd) (simp add: channel_wf_def)
      have co: "vm_callouts ?v3 = vm_callouts v" by (simp add: v2_def v1_def)
      obtain v' where v': "pit_timer_start_cntr0 mat ?v3 = Some v'" "timer_frame ?v3 v'"
        "callout_armed (vm_callouts v') (vatpit_callout 0) \<longleftrightarrow>
           ch_initial (vm_channel ?v3 0) \<noteq> 0 \<or> callout_armed (vm_callouts ?v3) (vatpit_callout 0)"
        by (rule start_cntr0_spec [of r ?v3 mat]) (use ok co in auto)
      have "timer_frame v (g v')"
        using f2 f3 v'(2) fg by (blast intro: timer_frame_trans timer_frame_chan)
      moreover have "vm_callouts (g v') = vm_callouts v'" using fg [of v'] by (simp add: chan_frame_def)
      moreover have "ch_initial (vm_channel ?v3 0) = ch_initial (load_count mat val (vm_channel v 0) v)"
        using c2 k0 by simp
      ultimately show thesis using w k0 v' co by (intro that [of "g v'"]) auto
    qed
  qed
qed

subsection \<open>The counter\<close>

lemma uint_of_int_u16: "0 \<le> x \<Longrightarrow> x < 2 ^ 16 \<Longrightarrow> uint (word_of_int x :: u16) = x"
  by (simp add: uint_word_of_int)

text \<open>A free-running count stays between 1 and the initial value.\<close>

lemma update_counter_value:
  assumes "ch_initial (vm_channel v k) \<noteq> 0" and "\<not> latch \<or> ch_olbyte (vm_channel v k) = 0"
    and "0 \<le> pit_delta_ticks mat (vm_channel v k) v"
  shows "uint (snd (pit_update_counter mat k latch v))
       = uint (ch_initial (vm_channel v k)) - pit_delta_ticks mat (vm_channel v k) v mod uint (ch_initial (vm_channel v k))"
proof -
  let ?i = "uint (ch_initial (vm_channel v k))" and ?d = "pit_delta_ticks mat (vm_channel v k) v"
  have i: "0 < ?i" using assms(1) by (metis uint_0_iff uint_ge_0 order_le_less)
  have i': "?i < 2 ^ 16" using uint_lt2p [of "ch_initial (vm_channel v k)"] by simp
  have sm: "?d smod ?i = ?d mod ?i" using assms(3) i by (simp add: signed_modulo_int_def signed_divide_int_def minus_div_mult_eq_mod [symmetric] sgn_if)
  have r: "0 \<le> ?i - ?d mod ?i" "?i - ?d mod ?i < 2 ^ 16"
    using i i' pos_mod_bound [OF i, of ?d] pos_mod_sign [OF i, of ?d] by linarith+
  have "uint (word_of_int (?i - ?d mod ?i) :: u16) = ?i - ?d mod ?i"
    using r by (rule uint_of_int_u16)
  moreover have "snd (pit_update_counter mat k latch v) = word_of_int (?i - ?d mod ?i)"
    using assms(1,2) by (auto simp: pit_update_counter_def Let_def sm)
  ultimately show ?thesis by simp
qed

text \<open>Reading a latched count: least significant byte, then most significant byte.\<close>

lemma latch_then_read:
  assumes "ch_olbyte (vm_channel v k) = 0" and "\<not> ch_slatched (vm_channel v k)"
  shows "let (v1, lval) = pit_update_counter mat k True v;
             (v2, lsb) = pit_read_channel mat2 k v1;
             (v3, msb) = pit_read_channel mat3 k v2
         in lsb = ucast (ucast lval :: u8) \<and> msb = ucast (ucast (drop_bit 8 lval) :: u8)
            \<and> ch_olbyte (vm_channel v3 k) = 0"
proof -
  define v1 where "v1 = (if ch_initial (vm_channel v k) = 0
      then upd_channel k (\<lambda>c. c\<lparr>ch_initial := of_nat ((PIT_8254_FREQ + 100 div 2) div 100),
             ch_now_sbt := pit_now mat v, ch_status := ch_status c AND NOT TIMER_STS_NULLCNT\<rparr>) v else v)"
  have sl: "\<not> ch_slatched (vm_channel v1 k)" using assms(2) by (simp add: v1_def)
  show ?thesis
    unfolding pit_update_counter_def v1_def [symmetric] using assms(1) sl
    by (simp add: Let_def pit_read_channel_def)
qed

subsection \<open>Properties\<close>

text \<open>
  The value the 8254 shows: with a count loaded and the clock not behind the moment of loading, a channel counts down
  from the initial count to 1 and starts over; the value never leaves that range.
\<close>

theorem pit_counter_counts_down:
  assumes "ch_initial (vm_channel v k) \<noteq> 0" and "\<not> latch \<or> ch_olbyte (vm_channel v k) = 0"
    and "0 \<le> pit_delta_ticks mat (vm_channel v k) v"
  shows "uint (snd (pit_update_counter mat k latch v))
       = uint (ch_initial (vm_channel v k)) - pit_delta_ticks mat (vm_channel v k) v mod uint (ch_initial (vm_channel v k))
     \<and> 1 \<le> uint (snd (pit_update_counter mat k latch v))
     \<and> uint (snd (pit_update_counter mat k latch v)) \<le> uint (ch_initial (vm_channel v k))"
proof -
  have "0 < uint (ch_initial (vm_channel v k))" using assms(1) by (simp add: order_less_le eq_commute [of 0] uint_0_iff)
  then have "0 \<le> pit_delta_ticks mat (vm_channel v k) v mod uint (ch_initial (vm_channel v k))"
    "pit_delta_ticks mat (vm_channel v k) v mod uint (ch_initial (vm_channel v k)) < uint (ch_initial (vm_channel v k))"
    by simp_all
  then show ?thesis unfolding update_counter_value [OF assms] by linarith
qed

theorem pit_counter_counts_down_witness:
  "uint (snd (pit_update_counter 0 1 False
     (upd_channel 1 (\<lambda>c. c\<lparr>ch_initial := 100\<rparr>) (vm_calloc \<lparr>tb_numer = 1, tb_denom = 1\<rparr>)))) \<le> 100"
proof -
  let ?v = "upd_channel 1 (\<lambda>c. c\<lparr>ch_initial := 100\<rparr>) (vm_calloc \<lparr>tb_numer = 1, tb_denom = 1\<rparr>)"
  have "0 \<le> pit_delta_ticks 0 (vm_channel ?v 1) ?v"
    by (simp add: pit_delta_ticks_def vm_calloc_def)
  then show ?thesis using pit_counter_counts_down [of ?v 1 False 0] by simp
qed

text \<open>
  A latched count is read back in two byte reads, low byte first, and does not change in between however
  late the reads come; together they give the value the counter had when it was latched, and afterwards
  nothing is latched any more.
\<close>

theorem pit_latch_then_read:
  assumes "ch_olbyte (vm_channel v k) = 0" and "\<not> ch_slatched (vm_channel v k)"
  shows "let (v1, lval) = pit_update_counter mat k True v;
             (v2, lsb) = pit_read_channel mat2 k v1;
             (v3, msb) = pit_read_channel mat3 k v2
         in lsb + 256 * msb = ucast lval \<and> ch_olbyte (vm_channel v3 k) = 0"
proof -
  have "ucast (ucast lval :: u8) + 256 * ucast (ucast (drop_bit 8 lval) :: u8) = (ucast lval :: u32)" for lval :: u16
  proof -
    have "unat lval < 65536" using unsigned_less [of lval] by simp
    then show ?thesis
      by (simp add: word_unat_eq_iff unat_word_ariths unsigned_ucast_eq unat_drop_bit_div take_bit_eq_mod)
  qed
  then show ?thesis using latch_then_read [OF assms, of mat mat2 mat3] by (auto simp: Let_def split: prod.splits)
qed

theorem pit_latch_then_read_witness:
  "let (v1, lval) = pit_update_counter 0 2 True (vm_calloc \<lparr>tb_numer = 1, tb_denom = 1\<rparr>);
       (v2, lsb) = pit_read_channel 7 2 v1; (v3, msb) = pit_read_channel 9 2 v2
   in lsb + 256 * msb = ucast lval \<and> ch_olbyte (vm_channel v3 2) = 0"
  by (rule pit_latch_then_read) (simp_all add: vm_calloc_def channel_bzero_def)

text \<open>
  Loading the second byte of channel 0's count always answers and schedules its interrupt, provided the
  count is not 0. A count of 0 stands for 65536 on the 8254; here the timer is started before 0 is replaced by
  0xffff, so the count is stored but no interrupt is scheduled.
\<close>

theorem pit_load_schedules:
  assumes "co_inv (vm_callouts v, r)" and "vatpit_wf (vm_vatpit v)" and "ch_crbyte (vm_channel v 0) = 1"
    and "\<not> callout_armed (vm_callouts v) (vatpit_callout 0)"
  shows "\<exists>v'. pit_write_channel mat 0 val v = Some v'
     \<and> (callout_armed (vm_callouts v') (vatpit_callout 0) \<longleftrightarrow>
          (ucast (ch_cr (vm_channel v 0) 0) :: u16) OR push_bit 8 (ucast val) \<noteq> 0)"
proof -
  have ok: "callouts_ok r (vm_callouts v)" using assms(1) by (simp add: callouts_ok_def)
  obtain v' where v': "pit_write_channel mat 0 val v = Some v'"
    "callout_armed (vm_callouts v') (vatpit_callout 0) \<longleftrightarrow>
       ch_initial (load_count mat val (vm_channel v 0) v) \<noteq> 0 \<or> callout_armed (vm_callouts v) (vatpit_callout 0)"
    by (rule write_channel_spec [OF ok assms(2), of mat 0 val]) (use assms(3) in blast)
  then show ?thesis using assms(3,4) by (simp add: load_count_def)
qed

theorem pit_load_schedules_witness:
  "\<exists>v'. pit_write_channel 0 0 0 (upd_channel 0 (\<lambda>c. c\<lparr>ch_crbyte := 1\<rparr>) (vm_calloc \<lparr>tb_numer = 1, tb_denom = 1\<rparr>)) = Some v'
     \<and> \<not> callout_armed (vm_callouts v') (vatpit_callout 0)"
proof -
  let ?v = "upd_channel 0 (\<lambda>c. c\<lparr>ch_crbyte := 1\<rparr>) (vm_calloc \<lparr>tb_numer = 1, tb_denom = 1\<rparr>)"
  have c: "co_inv (vm_callouts ?v, None)" using co_inv_init by (simp add: vm_calloc_def)
  have w: "vatpit_wf (vm_vatpit ?v)"
    by (rule vatpit_wf_upd) (simp_all add: vatpit_wf_def channel_wf_def vm_calloc_def channel_bzero_def)
  have n: "\<not> callout_armed (vm_callouts ?v) (vatpit_callout 0)"
    by (simp add: vm_calloc_def callout_sys_init_def callout_zero_def callout_armed_def callout_pending_def)
  show ?thesis using pit_load_schedules [OF c w _ n, of 0 0] by (simp add: vm_calloc_def channel_bzero_def)
qed

end
