(* ===== verification/Vlapic_Mmio.thy ===== *)
theory Vlapic_Mmio
  imports Vatpit
begin

text \<open>
  The register interface of the local APIC (\<open>vlapic.c\<close>): end of interrupt, inter-processor
  interrupts and the start-up of application processors, the timer, the spurious-vector
  register, and the dispatch of reads and writes, by MMIO or x2APIC MSR (\<open>vmm_lapic.c\<close>).
  \<open>i\<close> is the number of the vcpu whose local APIC is accessed, the source's
  \<open>vlapic->vcpuid\<close>. \<open>mat\<close> is the host clock. \<open>None\<close> is \<open>xhyve_abort\<close>, a failed \<open>KASSERT\<close> or an
  undefined shift.
\<close>

subsection \<open>End of interrupt\<close>

definition vlapic_process_eoi :: "nat \<Rightarrow> vm \<Rightarrow> vm option" where
  "vlapic_process_eoi i v =
     (case eoi_local (vm_lapic v i) of
        None \<Rightarrow> None
      | Some (l', vec, level) \<Rightarrow>
          let v1 = upd_vlapic i (\<lambda>_. l') v
          in (case vec of
                Some vector \<Rightarrow> if level then vioapic_process_eoi vector v1 else Some v1
              | None \<Rightarrow> Some v1))"

subsection \<open>Inter-processor interrupts\<close>

abbreviation (input) APIC_DELMODE_FIXED :: u32 where "APIC_DELMODE_FIXED \<equiv> 0"
abbreviation (input) APIC_DELMODE_NMI :: u32 where "APIC_DELMODE_NMI \<equiv> 0x400"
abbreviation (input) APIC_DELMODE_INIT :: u32 where "APIC_DELMODE_INIT \<equiv> 0x500"
abbreviation (input) APIC_DELMODE_STARTUP :: u32 where "APIC_DELMODE_STARTUP \<equiv> 0x600"

definition icr_dmask :: "nat \<Rightarrow> u32 \<Rightarrow> u32 \<Rightarrow> vm \<Rightarrow> cpuset option" where
  "icr_dmask i icr_lo dest v =
     (let shorthand = icr_lo AND 0xc0000
      in if shorthand = 0 then
           vlapic_calcdest v dest (icr_lo AND 0x800 = 0) False (x2apic (vm_lapic v i))
         else if shorthand = 0x40000 then Some (CPU_SETOF i)
         else if shorthand = 0x80000 then Some (vm_active_cpus v)
         else Some (CPU_CLR i (vm_active_cpus v)))"

definition set_boot_state :: "nat \<Rightarrow> boot_state \<Rightarrow> vm \<Rightarrow> vm" where
  "set_boot_state d b = upd_vlapic d (\<lambda>l. l\<lparr>vl_boot_state := b\<rparr>)"

text \<open>The result: the machine, the C return value, and whether \<open>*retu\<close> is set.\<close>

definition vlapic_icrlo_write_handler :: "nat \<Rightarrow> vm \<Rightarrow> (vm \<times> int \<times> bool) option" where
  "vlapic_icrlo_write_handler i v =
     (let v = upd_vlapic i (upd_page (\<lambda>p. p\<lparr>la_icr_lo := la_icr_lo p AND NOT 0x1000\<rparr>)) v;
          l = vm_lapic v i;
          icr_lo = la_icr_lo (vl_page l); icr_hi = la_icr_hi (vl_page l);
          dest = (if x2apic l then icr_hi else drop_bit 24 icr_hi);
          vec = icr_lo AND 0xff; mode = icr_lo AND 0x700
      in if mode = APIC_DELMODE_FIXED \<and> vec < 16
         then Some (vlapic_set_error i APIC_ESR_SEND_ILLEGAL_VECTOR v, 0, False)
         else if mode = APIC_DELMODE_FIXED \<or> mode = APIC_DELMODE_NMI
         then Option.bind (icr_dmask i icr_lo dest v) (\<lambda>dmask.
                Some (cpu_foreach (\<lambda>c s. (if mode = APIC_DELMODE_FIXED then fst (lapic_intr_edge c (unat vec) s)
                                           else fst (vm_inject_nmi c s), False)) dmask v, 0, False))
         else if mode = APIC_DELMODE_INIT \<and> icr_lo AND 0x4000 = 0 then Some (v, 0, False)
         else if mode = APIC_DELMODE_INIT \<and> i = 0 \<and> dest \<noteq> 0 \<and> dest < of_nat VM_MAXCPU
         then Some (if vl_boot_state (vm_lapic v (unat dest)) = BS_INIT
                    then set_boot_state (unat dest) BS_SIPI v else v, 0, False)
         else if mode = APIC_DELMODE_STARTUP \<and> i = 0 \<and> dest \<noteq> 0 \<and> dest < of_nat VM_MAXCPU
         then if vl_boot_state (vm_lapic v (unat dest)) \<noteq> BS_SIPI then Some (v, 0, False)
              else Some (upd_vcpu i (\<lambda>c. c\<lparr>vc_exitinfo := VM_EXITCODE_SPINUP_AP (int (unat dest))
                                            (push_bit 12 (ucast vec))\<rparr>)
                           (set_boot_state (unat dest) BS_RUNNING v), 0, True)
         else Some (v, 1, False))"

definition vlapic_self_ipi_handler :: "nat \<Rightarrow> u64 \<Rightarrow> vm \<Rightarrow> vm option" where
  "vlapic_self_ipi_handler i val v =
     (if \<not> x2apic (vm_lapic v i) then None
      else Some (fst (lapic_intr_edge i (unat (val AND 0xff)) v)))"

subsection \<open>Timer\<close>

abbreviation (input) VLAPIC_HANDLER :: nat where "VLAPIC_HANDLER \<equiv> 0"

definition vlapic_now :: "u64 \<Rightarrow> vm \<Rightarrow> bintime" where
  "vlapic_now mat v = binuptime (vm_timebase v) mat"

definition arm_vlapic_timer :: "u64 \<Rightarrow> nat \<Rightarrow> sbintime \<Rightarrow> vm \<Rightarrow> vm option" where
  "arm_vlapic_timer mat i sbt v =
     map_option (\<lambda>s. with_callouts s v)
       (callout_reset_sbt (vm_timebase v) mat (vlapic_callout i) sbt VLAPIC_HANDLER 0 (vm_callouts v))"

definition vlapic_icrtmr_write_handler :: "u64 \<Rightarrow> nat \<Rightarrow> vm \<Rightarrow> vm option" where
  "vlapic_icrtmr_write_handler mat i v =
     (let icr_timer = la_icr_timer (vl_page (vm_lapic v i));
          v1 = upd_vlapic i (\<lambda>l. l\<lparr>vl_timer_period_bt := bintime_mul (vl_timer_freq_bt l) icr_timer\<rparr>) v
      in if icr_timer \<noteq> 0 then
           let v2 = upd_vlapic i (\<lambda>l. l\<lparr>vl_timer_fire_bt :=
                      bintime_add (vlapic_now mat v1) (vl_timer_period_bt l)\<rparr>) v1
           in arm_vlapic_timer mat i (bttosbt (vl_timer_period_bt (vm_lapic v2 i))) v2
         else Some (with_callouts (callout_stop (vlapic_callout i) (vm_callouts v1)) v1))"

definition vlapic_callout_handler :: "u64 \<Rightarrow> nat \<Rightarrow> vm \<Rightarrow> vm option" where
  "vlapic_callout_handler mat i v =
     (let co = cs_store (vm_callouts v) (vlapic_callout i)
      in if callout_pending co then Some v
         else if \<not> callout_active co then Some v
         else
           let v1 = with_callouts (upd (vlapic_callout i) callout_deactivate (vm_callouts v)) v;
               v2 = vlapic_fire_timer i v1
           in if vlapic_periodic_timer (vm_lapic v2 i) then
                let btnow = vlapic_now mat v2;
                    l = vm_lapic v2 i;
                    bt = bintime_sub btnow (vl_timer_fire_bt l);
                    period = vl_timer_period_bt l;
                    catch_up = bintime_cmp bt period (<);
                    rem_sbt = (if catch_up then bttosbt period - bttosbt bt else bttosbt period);
                    fire = (if catch_up then vl_timer_fire_bt l else btnow);
                    v3 = upd_vlapic i (\<lambda>l. l\<lparr>vl_timer_fire_bt := bintime_add fire period\<rparr>) v2
                in arm_vlapic_timer mat i rem_sbt v3
              else Some v2)"

subsection \<open>Spurious vector register\<close>

definition vlapic_svr_write_handler :: "u64 \<Rightarrow> nat \<Rightarrow> vm \<Rightarrow> vm option" where
  "vlapic_svr_write_handler mat i v =
     (let new = la_svr (vl_page (vm_lapic v i));
          old = vl_svr_last (vm_lapic v i);
          v1 = upd_vlapic i (\<lambda>l. l\<lparr>vl_svr_last := new\<rparr>) v
      in if (old XOR new) AND APIC_SVR_ENABLE \<noteq> 0 then
           if new AND APIC_SVR_ENABLE = 0 then
             let v2 = with_callouts (callout_stop (vlapic_callout i) (vm_callouts v1)) v1
             in map_option (\<lambda>l. upd_vlapic i (\<lambda>_. l) v2) (vlapic_mask_lvts (vm_lapic v2 i))
           else if vlapic_periodic_timer (vm_lapic v1 i) then vlapic_icrtmr_write_handler mat i v1
           else Some v1
         else Some v1)"

subsection \<open>Register dispatch\<close>

text \<open>The offsets with a case of their own; \<open>sizeof(struct LAPIC)\<close> is 0x400.\<close>

definition is_lvt_offset :: "u64 \<Rightarrow> bool" where
  "is_lvt_offset off \<longleftrightarrow> off = 0x2F0 \<or> off = 0x320 \<or> off = 0x330 \<or> off = 0x340 \<or> off = 0x350
     \<or> off = 0x360 \<or> off = 0x370"

definition bank_index :: "u64 \<Rightarrow> u64 \<Rightarrow> nat option" where
  "bank_index base off =
     (if base \<le> off \<and> off < base + 0x80 \<and> off AND 0xf = 0 then Some (unat (drop_bit 4 (off - base))) else None)"

definition vlapic_read_reg :: "u64 \<Rightarrow> nat \<Rightarrow> u64 \<Rightarrow> vm \<Rightarrow> u64 option" where
  "vlapic_read_reg mat i off v =
     (let l = vm_lapic v i; p = vl_page l in
      if off = 0x20 then Some (ucast (la_id p))
      else if off = 0x30 then Some (ucast (la_version p))
      else if off = 0x80 then Some (ucast (vlapic_get_tpr l))
      else if off = 0x90 then Some (ucast (la_apr p))
      else if off = 0xA0 then Some (ucast (la_ppr p))
      else if off = 0xB0 then Some (ucast (la_eoi p))
      else if off = 0xD0 then Some (ucast (la_ldr p))
      else if off = 0xE0 then Some (ucast (la_dfr p))
      else if off = 0xF0 then Some (ucast (la_svr p))
      else case bank_index 0x100 off of Some n \<Rightarrow> Some (ucast (la_isr p n)) | None \<Rightarrow>
      case bank_index 0x180 off of Some n \<Rightarrow> Some (ucast (la_tmr p n)) | None \<Rightarrow>
      case bank_index 0x200 off of Some n \<Rightarrow> Some (ucast (la_irr p n)) | None \<Rightarrow>
      if off = 0x280 then Some (ucast (la_esr p))
      else if off = 0x300 then
        Some (if x2apic l then ucast (la_icr_lo p) OR push_bit 32 (ucast (la_icr_hi p)) else ucast (la_icr_lo p))
      else if off = 0x310 then Some (ucast (la_icr_hi p))
      else if is_lvt_offset off then map_option ucast (vlapic_get_lvt l (ucast off))
      else if off = 0x380 then Some (ucast (la_icr_timer p))
      else if off = 0x390 then
        map_option ucast (vlapic_get_ccr l (cs_store (vm_callouts v) (vlapic_callout i)) (vlapic_now mat v))
      else if off = 0x3E0 then Some (ucast (la_dcr_timer p))
      else Some 0)"

definition vlapic_read :: "u64 \<Rightarrow> nat \<Rightarrow> bool \<Rightarrow> u64 \<Rightarrow> vm \<Rightarrow> u64 option" where
  "vlapic_read mat i mmio_access off v =
     (if x2apic (vm_lapic v i) \<and> mmio_access then Some 0
      else if \<not> x2apic (vm_lapic v i) \<and> \<not> mmio_access then Some 0
      else if off > 0x400 then Some 0
      else vlapic_read_reg mat i (off AND NOT 3) v)"

definition wr_page :: "nat \<Rightarrow> (LAPIC \<Rightarrow> LAPIC) \<Rightarrow> vm \<Rightarrow> vm" where
  "wr_page i f = upd_vlapic i (upd_page f)"

definition lift_vlapic :: "nat \<Rightarrow> (vlapic \<Rightarrow> vlapic option) \<Rightarrow> vm \<Rightarrow> vm option" where
  "lift_vlapic i f v = map_option (\<lambda>l. upd_vlapic i (\<lambda>_. l) v) (f (vm_lapic v i))"

definition vlapic_write_reg :: "u64 \<Rightarrow> nat \<Rightarrow> u64 \<Rightarrow> u64 \<Rightarrow> vm \<Rightarrow> (vm \<times> int \<times> bool) option" where
  "vlapic_write_reg mat i off data v =
     (let ret = map_option (\<lambda>v'. (v', 0, False)); d = (ucast data :: u32) in
      if off = 0x20 then
        Some (upd_vlapic i vlapic_id_write_handler (wr_page i (\<lambda>p. p\<lparr>la_id := d\<rparr>) v), 0, False)
      else if off = 0x80 then ret (lift_vlapic i (\<lambda>l. vlapic_set_tpr l (ucast (data AND 0xff))) v)
      else if off = 0xB0 then ret (vlapic_process_eoi i v)
      else if off = 0xD0 then
        Some (upd_vlapic i vlapic_ldr_write_handler (wr_page i (\<lambda>p. p\<lparr>la_ldr := d\<rparr>) v), 0, False)
      else if off = 0xE0 then
        Some (upd_vlapic i vlapic_dfr_write_handler (wr_page i (\<lambda>p. p\<lparr>la_dfr := d\<rparr>) v), 0, False)
      else if off = 0xF0 then ret (vlapic_svr_write_handler mat i (wr_page i (\<lambda>p. p\<lparr>la_svr := d\<rparr>) v))
      else if off = 0x300 then
        vlapic_icrlo_write_handler i (wr_page i (\<lambda>p. if x2apic (vm_lapic v i)
            then p\<lparr>la_icr_lo := d, la_icr_hi := ucast (drop_bit 32 data)\<rparr> else p\<lparr>la_icr_lo := d\<rparr>) v)
      else if off = 0x310 then Some (wr_page i (\<lambda>p. p\<lparr>la_icr_hi := d\<rparr>) v, 0, False)
      else if is_lvt_offset off then
        (case vlapic_get_lvtptr (ucast off) of
           None \<Rightarrow> None
         | Some lp \<Rightarrow> ret (lift_vlapic i (\<lambda>l. vlapic_lvt_write_handler l (ucast off)) (wr_page i (lvt_put lp d) v)))
      else if off = 0x380 then
        ret (vlapic_icrtmr_write_handler mat i (wr_page i (\<lambda>p. p\<lparr>la_icr_timer := d\<rparr>) v))
      else if off = 0x3E0 then
        ret (lift_vlapic i vlapic_dcr_write_handler (wr_page i (\<lambda>p. p\<lparr>la_dcr_timer := d\<rparr>) v))
      else if off = 0x280 then Some (upd_vlapic i vlapic_esr_write_handler v, 0, False)
      else if off = 0x3F0 then
        (if x2apic (vm_lapic v i) then ret (vlapic_self_ipi_handler i data v) else Some (v, 0, False))
      else Some (v, 0, False))"

definition vlapic_write :: "u64 \<Rightarrow> nat \<Rightarrow> bool \<Rightarrow> u64 \<Rightarrow> u64 \<Rightarrow> vm \<Rightarrow> (vm \<times> int \<times> bool) option" where
  "vlapic_write mat i mmio_access off data v =
     (if \<not> (off AND 0xf = 0 \<and> off < 0x1000) then None
      else if off > 0x400 then Some (v, 0, False)
      else if x2apic (vm_lapic v i) \<and> mmio_access then Some (v, 0, False)
      else if \<not> x2apic (vm_lapic v i) \<and> \<not> mmio_access then Some (v, 0, False)
      else vlapic_write_reg mat i off data v)"

subsection \<open>MSR and MMIO entry points (\<open>vmm_lapic.c\<close>)\<close>

abbreviation (input) MSR_APICBASE :: u32 where "MSR_APICBASE \<equiv> 0x1b"

definition x2apic_msr :: "u32 \<Rightarrow> bool" where
  "x2apic_msr msr = (msr \<ge> 0x800 \<and> msr \<le> 0xBFF)"

definition x2apic_msr_to_regoff :: "u32 \<Rightarrow> u32" where
  "x2apic_msr_to_regoff msr = push_bit 4 (msr - 0x800)"

definition lapic_msr :: "u32 \<Rightarrow> bool" where
  "lapic_msr msr = (x2apic_msr msr \<or> msr = MSR_APICBASE)"

definition lapic_rdmsr :: "u64 \<Rightarrow> nat \<Rightarrow> u32 \<Rightarrow> vm \<Rightarrow> (u64 \<times> int) option" where
  "lapic_rdmsr mat cpu msr v =
     (if msr = MSR_APICBASE then Some (vlapic_get_apicbase (vm_lapic v cpu), 0)
      else map_option (\<lambda>x. (x, 0)) (vlapic_read mat cpu False (ucast (x2apic_msr_to_regoff msr)) v))"

definition lapic_wrmsr :: "u64 \<Rightarrow> nat \<Rightarrow> u32 \<Rightarrow> u64 \<Rightarrow> vm \<Rightarrow> (vm \<times> int \<times> bool) option" where
  "lapic_wrmsr mat cpu msr val v =
     (if msr = MSR_APICBASE then Some (v, vlapic_set_apicbase (vm_lapic v cpu) val, False)
      else vlapic_write mat cpu False (ucast (x2apic_msr_to_regoff msr)) val v)"

definition lapic_mmio_write :: "u64 \<Rightarrow> nat \<Rightarrow> u64 \<Rightarrow> u64 \<Rightarrow> int \<Rightarrow> vm \<Rightarrow> (vm \<times> int \<times> bool) option" where
  "lapic_mmio_write mat cpu gpa wval sz v =
     (let off = gpa - DEFAULT_APIC_BASE
      in if sz \<noteq> 4 \<or> off AND 0xf \<noteq> 0 then Some (v, EINVAL, False)
         else vlapic_write mat cpu True off wval v)"

definition lapic_mmio_read :: "u64 \<Rightarrow> nat \<Rightarrow> u64 \<Rightarrow> vm \<Rightarrow> (u64 option \<times> int) option" where
  "lapic_mmio_read mat cpu gpa v =
     (let off = (gpa - DEFAULT_APIC_BASE) AND NOT 3
      in if off AND 0xf \<noteq> 0 then Some (None, EINVAL)
         else map_option (\<lambda>x. (Some x, 0)) (vlapic_read mat cpu True off v))"

end
