(* ===== verification/Vhpet.thy ===== *)
theory Vhpet
  imports Vatpit
begin

text \<open>
  The event timers of \<open>src/vmm/io/vhpet.c\<close>: a 32-bit main counter that is derived from the host clock,
  and eight comparators, one-shot or periodic, that interrupt through the I/O APIC or by message. The locks, traces and
  \<open>vhpet_cleanup\<close> are left out. As in the timers before, the clock \<open>mat\<close> is an argument.
\<close>

abbreviation (input) VHPET_NUM_TIMERS :: nat where "VHPET_NUM_TIMERS \<equiv> 8"
abbreviation (input) VHPET_BASE :: u64 where "VHPET_BASE \<equiv> 0xfed00000"
abbreviation (input) HPET_FREQ :: u64 where "HPET_FREQ \<equiv> 10000000"
abbreviation (input) HPET_CNF_ENABLE :: u64 where "HPET_CNF_ENABLE \<equiv> 0x1"
abbreviation (input) HPET_CNF_LEG_RT :: u64 where "HPET_CNF_LEG_RT \<equiv> 0x2"
abbreviation (input) HPET_TCAP_RO_MASK :: u64 where "HPET_TCAP_RO_MASK \<equiv> 0xffffffff00008030"
abbreviation (input) HPET_TCAP_FSB_INT_DEL :: u64 where "HPET_TCAP_FSB_INT_DEL \<equiv> 0x8000"
abbreviation (input) HPET_TCNF_FSB_EN :: u64 where "HPET_TCNF_FSB_EN \<equiv> 0x4000"
abbreviation (input) HPET_TCNF_INT_ROUTE :: u64 where "HPET_TCNF_INT_ROUTE \<equiv> 0x3e00"
abbreviation (input) HPET_TCNF_32MODE :: u64 where "HPET_TCNF_32MODE \<equiv> 0x100"
abbreviation (input) HPET_TCNF_VAL_SET :: u64 where "HPET_TCNF_VAL_SET \<equiv> 0x40"
abbreviation (input) HPET_TCAP_PER_INT :: u64 where "HPET_TCAP_PER_INT \<equiv> 0x10"
abbreviation (input) HPET_TCNF_TYPE :: u64 where "HPET_TCNF_TYPE \<equiv> 0x8"
abbreviation (input) HPET_TCNF_INT_ENB :: u64 where "HPET_TCNF_INT_ENB \<equiv> 0x4"
abbreviation (input) HPET_TCNF_INT_TYPE :: u64 where "HPET_TCNF_INT_TYPE \<equiv> 0x2"
abbreviation (input) VHPET_HANDLER :: nat where "VHPET_HANDLER \<equiv> 2"

subsection \<open>Registers and the counter\<close>

definition upd_timer :: "nat \<Rightarrow> (hpet_timer \<Rightarrow> hpet_timer) \<Rightarrow> vm \<Rightarrow> vm" where
  "upd_timer n f = upd_vhpet (\<lambda>hp. hp\<lparr>hp_timer := (hp_timer hp)(n := f (hp_timer hp n))\<rparr>)"

definition vhpet_capabilities :: u64 where
  "vhpet_capabilities =
     (((push_bit 16 0x8086 OR push_bit 8 7 OR 1) AND NOT 0x2000) AND 0xffffffff)
       OR push_bit 32 (1000000000000000 div HPET_FREQ)"

definition vhpet_counter_enabled :: "vhpet \<Rightarrow> bool" where
  "vhpet_counter_enabled hp \<longleftrightarrow> hp_config hp AND HPET_CNF_ENABLE \<noteq> 0"

definition vhpet_timer_msi_enabled :: "hpet_timer \<Rightarrow> bool" where
  "vhpet_timer_msi_enabled t \<longleftrightarrow>
     ht_cap_config t AND (HPET_TCAP_FSB_INT_DEL OR HPET_TCNF_FSB_EN) = (HPET_TCAP_FSB_INT_DEL OR HPET_TCNF_FSB_EN)"

definition vhpet_timer_ioapic_pin :: "hpet_timer \<Rightarrow> nat" where
  "vhpet_timer_ioapic_pin t =
     (if vhpet_timer_msi_enabled t then 0 else unat (drop_bit 9 (ht_cap_config t AND HPET_TCNF_INT_ROUTE)))"

text \<open>
  \<open>vhpet_counter\<close>; \<open>want\<close> says that the caller passes a pointer for the time. The second component is that
  time. A division by the tick length 0 would end the process.
\<close>

definition vhpet_counter :: "u64 \<Rightarrow> bool \<Rightarrow> vm \<Rightarrow> (u32 \<times> sbintime) option" where
  "vhpet_counter mat want v =
     (let hp = vm_vhpet v
      in if vhpet_counter_enabled hp then
           let now = sbinuptime (vm_timebase v) mat; delta = now - hp_countbase_sbt hp
           in if sint delta < 0 \<or> hp_freq_sbt hp = 0 then None
              else Some (word_of_int (uint (hp_countbase hp) + sint delta sdiv sint (hp_freq_sbt hp)), now)
         else if want then None else Some (hp_countbase hp, 0))"

definition vhpet_periodic_timer :: "hpet_timer \<Rightarrow> bool" where
  "vhpet_periodic_timer t \<longleftrightarrow> ht_cap_config t AND HPET_TCNF_TYPE \<noteq> 0"

definition vhpet_timer_interrupt_enabled :: "hpet_timer \<Rightarrow> bool" where
  "vhpet_timer_interrupt_enabled t \<longleftrightarrow> ht_cap_config t AND HPET_TCNF_INT_ENB \<noteq> 0"

text \<open>Its assertion that the timer does not use MSI is part of the result: \<^const>\<open>None\<close>.\<close>

definition vhpet_timer_edge_trig :: "hpet_timer \<Rightarrow> bool option" where
  "vhpet_timer_edge_trig t =
     (if vhpet_timer_msi_enabled t then None else Some (ht_cap_config t AND HPET_TCNF_INT_TYPE = 0))"

subsection \<open>Interrupts\<close>

definition vhpet_timer_clear_isr :: "nat \<Rightarrow> vm \<Rightarrow> vm option" where
  "vhpet_timer_clear_isr n v =
     (if hp_isr (vm_vhpet v) AND BIT n \<noteq> 0 then
        let pin = vhpet_timer_ioapic_pin (hp_timer (vm_vhpet v) n)
        in if pin = 0 then None
           else Option.bind (vioapic_deassert_irq (int pin) v) (\<lambda>(v1, _).
                Some (upd_vhpet (\<lambda>hp. hp\<lparr>hp_isr := hp_isr hp AND NOT (BIT n)\<rparr>) v1))
      else Some v)"

definition vhpet_timer_interrupt :: "nat \<Rightarrow> vm \<Rightarrow> vm option" where
  "vhpet_timer_interrupt n v =
     (let t = hp_timer (vm_vhpet v) n
      in if \<not> vhpet_timer_interrupt_enabled t then Some v
         else if hp_isr (vm_vhpet v) AND BIT n \<noteq> 0 then Some v
         else if vhpet_timer_msi_enabled t
         then map_option fst (lapic_intr_msi (drop_bit 32 (ht_msireg t)) (ht_msireg t AND 0xffffffff) v)
         else let pin = vhpet_timer_ioapic_pin t
              in if pin = 0 then Some v
                 else Option.bind (vhpet_timer_edge_trig t) (\<lambda>edge.
                   if edge then map_option fst (vioapic_pulse_irq (int pin) v)
                   else map_option fst (vioapic_assert_irq (int pin)
                          (upd_vhpet (\<lambda>hp. hp\<lparr>hp_isr := hp_isr hp OR BIT n\<rparr>) v))))"

subsection \<open>Timers\<close>

definition vhpet_adjust_compval :: "nat \<Rightarrow> u32 \<Rightarrow> vm \<Rightarrow> vm option" where
  "vhpet_adjust_compval n counter v =
     (let t = hp_timer (vm_vhpet v) n; compval = ht_compval t; comprate = ht_comprate t
      in if comprate = 0 then None
         else Some (upd_timer n (\<lambda>t. t\<lparr>ht_compval := compval + ((counter - compval) div comprate + 1) * comprate\<rparr>) v))"

definition vhpet_start_timer :: "u64 \<Rightarrow> nat \<Rightarrow> u32 \<Rightarrow> sbintime \<Rightarrow> vm \<Rightarrow> vm option" where
  "vhpet_start_timer mat n counter now v =
     Option.bind (if ht_comprate (hp_timer (vm_vhpet v) n) \<noteq> 0 then vhpet_adjust_compval n counter v else Some v) (\<lambda>v1.
       let delta = ucast (ht_compval (hp_timer (vm_vhpet v1) n) - counter) * hp_freq_sbt (vm_vhpet v1);
           v2 = upd_timer n (\<lambda>t. t\<lparr>ht_callout_sbt := now + delta\<rparr>) v1
       in map_option (\<lambda>s. with_callouts s v2)
            (callout_reset_sbt (vm_timebase v2) mat (vhpet_callout n) (now + delta) VHPET_HANDLER C_ABSOLUTE (vm_callouts v2)))"

definition vhpet_handler :: "u64 \<Rightarrow> nat \<Rightarrow> vm \<Rightarrow> vm option" where
  "vhpet_handler mat n v =
     (let co = cs_store (vm_callouts v) (vhpet_callout n)
      in if callout_pending co then Some v
         else if \<not> callout_active co then Some v
         else
           let v1 = with_callouts (upd (vhpet_callout n) callout_deactivate (vm_callouts v)) v
           in if \<not> vhpet_counter_enabled (vm_vhpet v1) then None
              else Option.bind (vhpet_counter mat True v1) (\<lambda>(counter, now).
                   Option.bind (vhpet_start_timer mat n counter now v1) (vhpet_timer_interrupt n)))"

definition vhpet_stop_timer :: "nat \<Rightarrow> sbintime \<Rightarrow> vm \<Rightarrow> vm option" where
  "vhpet_stop_timer n now v =
     (let v1 = with_callouts (callout_stop (vhpet_callout n) (vm_callouts v)) v
      in if sint (ht_callout_sbt (hp_timer (vm_vhpet v1) n)) < sint now then vhpet_timer_interrupt n v1 else Some v1)"

definition vhpet_start_counting :: "u64 \<Rightarrow> vm \<Rightarrow> vm option" where
  "vhpet_start_counting mat v =
     (let now = sbinuptime (vm_timebase v) mat
      in fold (\<lambda>i s. Option.bind s (\<lambda>w. vhpet_start_timer mat i (hp_countbase (vm_vhpet w)) (hp_countbase_sbt (vm_vhpet w)) w))
           [0..<VHPET_NUM_TIMERS] (Some (upd_vhpet (\<lambda>hp. hp\<lparr>hp_countbase_sbt := now\<rparr>) v)))"

definition vhpet_stop_counting :: "u32 \<Rightarrow> sbintime \<Rightarrow> vm \<Rightarrow> vm option" where
  "vhpet_stop_counting counter now v =
     fold (\<lambda>i s. Option.bind s (vhpet_stop_timer i now)) [0..<VHPET_NUM_TIMERS]
       (Some (upd_vhpet (\<lambda>hp. hp\<lparr>hp_countbase := counter\<rparr>) v))"

definition update_register :: "u64 \<Rightarrow> u64 \<Rightarrow> u64 \<Rightarrow> u64" where
  "update_register reg data msk = (reg AND NOT msk) OR (data AND msk)"

subsection \<open>Guest accesses\<close>

text \<open>The configuration a write leaves: read-only bits kept, an interrupt route that is not allowed replaced by 0.\<close>

definition timer_newval :: "u64 \<Rightarrow> u64 \<Rightarrow> u64 \<Rightarrow> u64" where
  "timer_newval oldval data msk =
     ((update_register oldval data msk AND NOT (HPET_TCAP_RO_MASK OR HPET_TCNF_32MODE)) OR (oldval AND HPET_TCAP_RO_MASK))"

definition vhpet_timer_update_config :: "nat \<Rightarrow> u64 \<Rightarrow> u64 \<Rightarrow> vm \<Rightarrow> vm option" where
  "vhpet_timer_update_config n data msk v =
     (let t = hp_timer (vm_vhpet v) n; isr = (hp_isr (vm_vhpet v) AND BIT n \<noteq> 0)
      in if (vhpet_timer_msi_enabled t \<or> vhpet_timer_edge_trig t = Some True) \<and> isr then None
         else
           let old_pin = vhpet_timer_ioapic_pin t; oldval = ht_cap_config t; newval = timer_newval oldval data msk
           in if newval = oldval then Some v
              else
                let t1 = t\<lparr>ht_cap_config := newval\<rparr>;
                    allowed_irqs = (ucast (drop_bit 32 newval) :: u32);
                    new_pin = vhpet_timer_ioapic_pin t1;
                    t2 = (if new_pin \<noteq> 0 \<and> allowed_irqs AND BIT new_pin = 0
                          then t1\<lparr>ht_cap_config := ht_cap_config t1 AND NOT HPET_TCNF_INT_ROUTE\<rparr> else t1);
                    t3 = (if \<not> vhpet_periodic_timer t2 then t2\<lparr>ht_comprate := 0\<rparr> else t2);
                    v1 = upd_timer n (\<lambda>_. t3) v
                in if isr then
                     if old_pin = 0 then None
                     else if \<not> vhpet_timer_interrupt_enabled t3 \<or> vhpet_timer_msi_enabled t3
                          \<or> vhpet_timer_edge_trig t3 = Some True \<or> vhpet_timer_ioapic_pin t3 \<noteq> old_pin
                     then Option.bind (vioapic_deassert_irq (int old_pin) v1) (\<lambda>(v2, _).
                          Some (upd_vhpet (\<lambda>hp. hp\<lparr>hp_isr := hp_isr hp AND NOT (BIT n)\<rparr>) v2))
                     else Some v1
                   else Some v1)"

text \<open>A write to comparator \<open>i\<close>.\<close>

definition vhpet_write_comparator :: "u64 \<Rightarrow> nat \<Rightarrow> u64 \<Rightarrow> u64 \<Rightarrow> vm \<Rightarrow> vm option" where
  "vhpet_write_comparator mat i data msk v =
     (let t = hp_timer (vm_vhpet v) i
      in if \<not> vhpet_periodic_timer t \<and> ht_comprate t \<noteq> 0 then None
         else
           let t1 = (if vhpet_periodic_timer t
                     then let val = ucast (update_register (ucast (ht_comprate t)) data msk);
                              t' = t\<lparr>ht_comprate := val\<rparr>
                          in if ht_cap_config t' AND HPET_TCNF_VAL_SET \<noteq> 0 then t'\<lparr>ht_compval := val\<rparr> else t'
                     else t\<lparr>ht_compval := ucast (update_register (ucast (ht_compval t)) data msk)\<rparr>);
               t2 = t1\<lparr>ht_cap_config := ht_cap_config t1 AND NOT HPET_TCNF_VAL_SET\<rparr>;
               v1 = upd_timer i (\<lambda>_. t2) v
           in if (ht_compval t2 \<noteq> ht_compval t \<or> ht_comprate t2 \<noteq> ht_comprate t) \<and> vhpet_counter_enabled (vm_vhpet v1)
              then Option.bind (vhpet_counter mat True v1) (\<lambda>(counter, now). vhpet_start_timer mat i counter now v1)
              else Some v1)"

text \<open>The register of a timer an offset names; the two halves of a register have offsets that differ by 4.\<close>

definition HPET_TIMER_CAP_CNF :: "nat \<Rightarrow> int" where "HPET_TIMER_CAP_CNF i = int i * 0x20 + 0x100"
definition HPET_TIMER_COMPARATOR :: "nat \<Rightarrow> int" where "HPET_TIMER_COMPARATOR i = int i * 0x20 + 0x108"
definition HPET_TIMER_FSB_VAL :: "nat \<Rightarrow> int" where "HPET_TIMER_FSB_VAL i = int i * 0x20 + 0x110"
definition HPET_TIMER_FSB_ADDR :: "nat \<Rightarrow> int" where "HPET_TIMER_FSB_ADDR i = int i * 0x20 + 0x114"

fun vhpet_write_timers :: "u64 \<Rightarrow> int \<Rightarrow> u64 \<Rightarrow> u64 \<Rightarrow> nat list \<Rightarrow> vm \<Rightarrow> vm option" where
  "vhpet_write_timers mat offset data msk [] v = Some v"
| "vhpet_write_timers mat offset data msk (i # is) v =
     (if offset = HPET_TIMER_CAP_CNF i \<or> offset = HPET_TIMER_CAP_CNF i + 4 then vhpet_timer_update_config i data msk v
      else if offset = HPET_TIMER_COMPARATOR i \<or> offset = HPET_TIMER_COMPARATOR i + 4 then vhpet_write_comparator mat i data msk v
      else if offset = HPET_TIMER_FSB_VAL i \<or> offset = HPET_TIMER_FSB_ADDR i
      then Some (upd_timer i (\<lambda>t. t\<lparr>ht_msireg := update_register (ht_msireg t) data msk\<rparr>) v)
      else vhpet_write_timers mat offset data msk is v)"

text \<open>The registers of the block, after the checks of width and alignment.\<close>

definition vhpet_write_config :: "u64 \<Rightarrow> u64 \<Rightarrow> u64 \<Rightarrow> vm \<Rightarrow> vm option" where
  "vhpet_write_config mat data msk v =
     Option.bind (vhpet_counter mat (vhpet_counter_enabled (vm_vhpet v)) v) (\<lambda>(counter, now).
       let oldval = hp_config (vm_vhpet v);
           v1 = upd_vhpet (\<lambda>hp. hp\<lparr>hp_config := update_register (hp_config hp) data msk AND NOT HPET_CNF_LEG_RT\<rparr>) v
       in if (oldval XOR hp_config (vm_vhpet v1)) AND HPET_CNF_ENABLE \<noteq> 0 then
            if vhpet_counter_enabled (vm_vhpet v1) then vhpet_start_counting mat v1
            else vhpet_stop_counting counter now v1
          else Some v1)"

definition vhpet_write_isr :: "u64 \<Rightarrow> vm \<Rightarrow> vm option" where
  "vhpet_write_isr data v =
     (let isr_clear_mask = (ucast (hp_isr (vm_vhpet v) AND data) :: u32)
      in fold (\<lambda>i s. Option.bind s (\<lambda>w. if isr_clear_mask AND BIT i \<noteq> 0 then vhpet_timer_clear_isr i w else Some w))
           [0..<VHPET_NUM_TIMERS] (Some v))"

definition vhpet_write_counter :: "u64 \<Rightarrow> u64 \<Rightarrow> u64 \<Rightarrow> vm \<Rightarrow> vm option" where
  "vhpet_write_counter mat data msk v =
     Option.bind (vhpet_counter mat False v) (\<lambda>(val, _).
       let v1 = upd_vhpet (\<lambda>hp. hp\<lparr>hp_countbase := ucast (update_register (ucast val) data msk)\<rparr>) v
       in if vhpet_counter_enabled (vm_vhpet v1) then vhpet_start_counting mat v1 else Some v1)"

definition vhpet_mmio_write :: "u64 \<Rightarrow> u64 \<Rightarrow> u64 \<Rightarrow> int \<Rightarrow> vm \<Rightarrow> vm option" where
  "vhpet_mmio_write mat gpa val sz v =
     (let offset = sint (ucast (gpa - VHPET_BASE) :: u32);
          high = (sz = 4 \<and> offset AND 0x4 \<noteq> 0);
          msk = (if sz = 8 then 0xffffffffffffffff else if high then push_bit 32 0xffffffff else 0xffffffff);
          data = (if high then push_bit 32 val else val)
      in if sz \<noteq> 8 \<and> sz \<noteq> 4 then Some v
         else if offset AND (sz - 1) \<noteq> 0 then Some v
         else if offset = 0x10 \<or> offset = 0x10 + 4 then vhpet_write_config mat data msk v
         else if offset = 0x20 \<or> offset = 0x20 + 4 then vhpet_write_isr data v
         else if offset = 0xf0 \<or> offset = 0xf0 + 4 then vhpet_write_counter mat data msk v
         else vhpet_write_timers mat offset data msk [0..<VHPET_NUM_TIMERS] v)"

fun vhpet_read_timers :: "int \<Rightarrow> nat list \<Rightarrow> vhpet \<Rightarrow> u64" where
  "vhpet_read_timers offset [] hp = 0"
| "vhpet_read_timers offset (i # is) hp =
     (if offset = HPET_TIMER_CAP_CNF i \<or> offset = HPET_TIMER_CAP_CNF i + 4 then ht_cap_config (hp_timer hp i)
      else if offset = HPET_TIMER_COMPARATOR i \<or> offset = HPET_TIMER_COMPARATOR i + 4 then ucast (ht_compval (hp_timer hp i))
      else if offset = HPET_TIMER_FSB_VAL i \<or> offset = HPET_TIMER_FSB_ADDR i then ht_msireg (hp_timer hp i)
      else vhpet_read_timers offset is hp)"

definition vhpet_mmio_read :: "u64 \<Rightarrow> u64 \<Rightarrow> int \<Rightarrow> vm \<Rightarrow> u64 option" where
  "vhpet_mmio_read mat gpa sz v =
     (let offset = sint (ucast (gpa - VHPET_BASE) :: u32)
      in map_option (\<lambda>data. if sz = 4 \<and> offset AND 0x4 \<noteq> 0 then drop_bit 32 data else data)
           (if sz \<noteq> 4 \<and> sz \<noteq> 8 then Some 0
            else if offset AND (sz - 1) \<noteq> 0 then Some 0
            else if offset = 0 \<or> offset = 0 + 4 then Some vhpet_capabilities
            else if offset = 0x10 \<or> offset = 0x10 + 4 then Some (hp_config (vm_vhpet v))
            else if offset = 0x20 \<or> offset = 0x20 + 4 then Some (hp_isr (vm_vhpet v))
            else if offset = 0xf0 \<or> offset = 0xf0 + 4 then map_option (\<lambda>(val, _). ucast val) (vhpet_counter mat False v)
            else Some (vhpet_read_timers offset [0..<VHPET_NUM_TIMERS] (vm_vhpet v))))"

text \<open>\<open>callout_init\<close> leaves the zeroed callout objects of the timers as they are.\<close>

definition vhpet_init :: vhpet where
  "vhpet_init =
     (let allowed_irqs = (if vioapic_pincount \<ge> 24 then 0x00f00000 else 0) :: u64
      in vhpet_bzero\<lparr>hp_freq_sbt := bttosbt (FREQ2BT HPET_FREQ),
           hp_timer := (\<lambda>_. \<lparr>ht_cap_config = push_bit 32 allowed_irqs OR HPET_TCAP_PER_INT OR HPET_TCAP_FSB_INT_DEL,
             ht_msireg = 0, ht_compval = 0xffffffff, ht_comprate = 0, ht_callout_sbt = 0\<rparr>)\<rparr>)"

definition vhpet_getcap :: u32 where
  "vhpet_getcap = ucast vhpet_capabilities"

subsection \<open>Well-formedness\<close>

text \<open>
  A status bit is set only for a timer that interrupts by level through a routed pin, and a one-shot timer has no rate:
  what the self-checks of the code test. A stopped block has no active callout.
\<close>

definition timer_level :: "hpet_timer \<Rightarrow> bool" where
  "timer_level t \<longleftrightarrow> \<not> vhpet_timer_msi_enabled t \<and> ht_cap_config t AND HPET_TCNF_INT_TYPE \<noteq> 0 \<and> vhpet_timer_ioapic_pin t \<noteq> 0"

definition hpet_wf :: "vhpet \<Rightarrow> bool" where
  "hpet_wf hp \<longleftrightarrow> hp_freq_sbt hp \<noteq> 0
     \<and> (\<forall>n. bit (hp_isr hp) n \<and> n < VHPET_NUM_TIMERS \<longrightarrow> timer_level (hp_timer hp n))
     \<and> (\<forall>n. \<not> vhpet_periodic_timer (hp_timer hp n) \<longrightarrow> ht_comprate (hp_timer hp n) = 0)"

definition hpet_quiet :: "vhpet \<Rightarrow> callout_sys \<Rightarrow> bool" where
  "hpet_quiet hp co \<longleftrightarrow> (vhpet_counter_enabled hp \<or> (\<forall>n < VHPET_NUM_TIMERS. \<not> callout_active (cs_store co (vhpet_callout n))))"

lemma hpet_wf_init: "hpet_wf vhpet_init"
proof -
  have "hp_freq_sbt vhpet_init \<noteq> 0" by code_simp
  then show ?thesis by (simp add: hpet_wf_def vhpet_init_def vhpet_bzero_def Let_def)
qed

abbreviation rtc_active :: "vm \<Rightarrow> bool" where
  "rtc_active v \<equiv> callout_active (cs_store (vm_callouts v) vrtc_callout)"

text \<open>What a step of the timer block leaves of the machine.\<close>

definition hpet_step :: "vm \<Rightarrow> vm \<Rightarrow> bool" where
  "hpet_step v v' \<longleftrightarrow> (\<forall>j. isr_frame (vm_lapic v j) (vm_lapic v' j)) \<and> (level_ok v \<longrightarrow> level_ok v')
     \<and> vm_vatpic v' = vm_vatpic v \<and> vm_vatpit v' = vm_vatpit v \<and> vm_vrtc v' = vm_vrtc v \<and> vm_vpmtmr v' = vm_vpmtmr v \<and> rtc_active v' = rtc_active v \<and> vm_timebase v' = vm_timebase v
     \<and> (\<forall>r. callouts_ok r (vm_callouts v) \<longrightarrow> callouts_ok r (vm_callouts v'))
     \<and> (hpet_wf (vm_vhpet v) \<longrightarrow> hpet_wf (vm_vhpet v')) \<and> hp_config (vm_vhpet v') = hp_config (vm_vhpet v)"

lemma hpet_step_refl [simp, intro]: "hpet_step v v"
  by (simp add: hpet_step_def)

lemma hpet_step_trans: "hpet_step a b \<Longrightarrow> hpet_step b c \<Longrightarrow> hpet_step a c"
  unfolding hpet_step_def by (auto intro: isr_frame_trans)

lemma hpet_step_intr: "intr_frame v v' \<Longrightarrow> (level_ok v \<Longrightarrow> level_ok v') \<Longrightarrow> hpet_step v v'"
  by (simp add: hpet_step_def intr_frame_def)

lemma hpet_step_callouts:
  "(\<And>r. callouts_ok r (vm_callouts v) \<Longrightarrow> callouts_ok r s)
   \<Longrightarrow> callout_active (cs_store s vrtc_callout) = rtc_active v \<Longrightarrow> hpet_step v (with_callouts s v)"
  by (simp add: hpet_step_def level_ok_def)

lemma hpet_step_upd:
  "(hpet_wf (vm_vhpet v) \<Longrightarrow> hpet_wf (f (vm_vhpet v))) \<Longrightarrow> hp_config (f (vm_vhpet v)) = hp_config (vm_vhpet v)
   \<Longrightarrow> hpet_step v (upd_vhpet f v)"
  by (simp add: hpet_step_def level_ok_def)

lemma hpet_wf_timer:
  assumes "hpet_wf hp" and "timer_level (hp_timer hp n) \<Longrightarrow> timer_level t" and "\<not> vhpet_periodic_timer t \<Longrightarrow> ht_comprate t = 0"
  shows "hpet_wf (hp\<lparr>hp_timer := (hp_timer hp)(n := t)\<rparr>)"
  using assms by (auto simp: hpet_wf_def)

lemma hpet_step_timer:
  assumes "hpet_wf (vm_vhpet v) \<Longrightarrow> timer_level (hp_timer (vm_vhpet v) n) \<Longrightarrow> timer_level (f (hp_timer (vm_vhpet v) n))"
    and "hpet_wf (vm_vhpet v) \<Longrightarrow> \<not> vhpet_periodic_timer (f (hp_timer (vm_vhpet v) n)) \<Longrightarrow> ht_comprate (f (hp_timer (vm_vhpet v) n)) = 0"
  shows "hpet_step v (upd_timer n f v)"
  unfolding upd_timer_def by (rule hpet_step_upd) (auto intro: hpet_wf_timer assms)

lemma timer_config_cong:
  assumes "ht_cap_config t' = ht_cap_config t"
  shows "timer_level t' = timer_level t" "vhpet_periodic_timer t' = vhpet_periodic_timer t"
  using assms by (simp_all add: timer_level_def vhpet_timer_msi_enabled_def vhpet_timer_ioapic_pin_def vhpet_periodic_timer_def)

lemma hpet_step_keep:
  assumes "\<And>t. ht_cap_config (f t) = ht_cap_config t" and "\<And>t. ht_comprate (f t) = ht_comprate t"
  shows "hpet_step v (upd_timer n f v)"
  using timer_config_cong [OF assms(1)] by (intro hpet_step_timer) (simp_all add: assms(2) hpet_wf_def)

lemma hpet_isr_clear: "hpet_wf hp \<Longrightarrow> hpet_wf (hp\<lparr>hp_isr := hp_isr hp AND NOT (BIT n)\<rparr>)"
  by (auto simp: hpet_wf_def bit_clear_BIT)

lemma hpet_isr_set: "hpet_wf hp \<Longrightarrow> timer_level (hp_timer hp n) \<Longrightarrow> hpet_wf (hp\<lparr>hp_isr := hp_isr hp OR BIT n\<rparr>)"
  by (auto simp: hpet_wf_def bit_or_BIT)

subsection \<open>Interrupts answer\<close>

lemma msi_defined: obtains v' e where "lapic_intr_msi addr msg v = Some (v', e)" and "deliver_frame v v'"
proof -
  have "unat (drop_bit 12 addr AND 0xff) \<le> 0xff"
    using word_and_le1 [of "drop_bit 12 addr" "0xff"] by (simp add: word_le_nat_alt)
  then have d: "unat (ucast (drop_bit 12 addr AND 0xff :: u64) :: u32) < 256"
    by (simp add: unsigned_ucast_eq take_bit_nat_eq_self)
  obtain w where "vlapic_deliver_intr False (ucast (drop_bit 12 addr AND 0xff))
      (addr AND (0x8 OR 0x4) \<noteq> (0x8 OR 0x4)) (ucast (msg AND 0x700)) (unat (msg AND 0xff)) v = Some w"
    "deliver_frame v w" using deliver_intr_defined [OF d] by blast
  then show thesis using that by (cases "addr AND 0xfff00000 = 0xfee00000") (auto simp: lapic_intr_msi_def Let_def)
qed

lemma irq_step: obtains v' e where "vioapic_set_irqstate irq st v = Some (v', e)" and "hpet_step v v'" and "vm_vhpet v' = vm_vhpet v"
    and "vm_callouts v' = vm_callouts v"
  by (rule vioapic_set_irqstate_safe [of irq st v]) (auto intro!: that hpet_step_intr simp: intr_frame_def)

lemma clear_isr_step:
  assumes "hpet_wf (vm_vhpet v)" and "n < VHPET_NUM_TIMERS"
  obtains v' where "vhpet_timer_clear_isr n v = Some v'" and "hpet_step v v'" and "vm_callouts v' = vm_callouts v"
proof (cases "bit (hp_isr (vm_vhpet v)) n")
  case True
  let ?pin = "vhpet_timer_ioapic_pin (hp_timer (vm_vhpet v) n)"
  have pin: "?pin \<noteq> 0" using assms True by (simp add: hpet_wf_def timer_level_def)
  obtain w e where w: "vioapic_set_irqstate (int ?pin) IRQSTATE_DEASSERT v = Some (w, e)" "hpet_step v w" "vm_callouts w = vm_callouts v"
    by (rule irq_step)
  have "hpet_step w (upd_vhpet (\<lambda>hp. hp\<lparr>hp_isr := hp_isr hp AND NOT (BIT n)\<rparr>) w)"
    by (rule hpet_step_upd) (simp_all add: hpet_isr_clear)
  then show thesis
    using True pin w that hpet_step_trans by (simp add: vhpet_timer_clear_isr_def vioapic_deassert_irq_def)
qed (use that [of v] in \<open>simp add: vhpet_timer_clear_isr_def\<close>)

lemma interrupt_step:
  obtains v' where "vhpet_timer_interrupt n v = Some v'" and "hpet_step v v'" and "vm_callouts v' = vm_callouts v"
proof -
  let ?t = "hp_timer (vm_vhpet v) n"
  consider (off) "\<not> vhpet_timer_interrupt_enabled ?t \<or> bit (hp_isr (vm_vhpet v)) n \<or> \<not> vhpet_timer_msi_enabled ?t \<and> vhpet_timer_ioapic_pin ?t = 0"
    | (msi) "vhpet_timer_interrupt_enabled ?t" "\<not> bit (hp_isr (vm_vhpet v)) n" "vhpet_timer_msi_enabled ?t"
    | (pin) "vhpet_timer_interrupt_enabled ?t" "\<not> bit (hp_isr (vm_vhpet v)) n" "\<not> vhpet_timer_msi_enabled ?t" "vhpet_timer_ioapic_pin ?t \<noteq> 0"
    by blast
  then show thesis
  proof cases
    case off
    then show thesis using that [of v] by (auto simp: vhpet_timer_interrupt_def Let_def)
  next
    case msi
    obtain w e where w: "lapic_intr_msi (drop_bit 32 (ht_msireg ?t)) (ht_msireg ?t AND 0xffffffff) v = Some (w, e)" "deliver_frame v w"
      by (rule msi_defined)
    have "hpet_step v w" using w(2) by (intro hpet_step_intr deliver_intr_frame) (simp_all add: level_ok_def deliver_frame_simps)
    then show thesis using msi w that [of w] by (simp add: vhpet_timer_interrupt_def Let_def deliver_frame_simps)
  next
    case pin
    let ?irq = "int (vhpet_timer_ioapic_pin ?t)" and ?edge = "ht_cap_config ?t AND HPET_TCNF_INT_TYPE = 0"
    let ?v1 = "if ?edge then v else upd_vhpet (\<lambda>hp. hp\<lparr>hp_isr := hp_isr hp OR BIT n\<rparr>) v"
    have 1: "hpet_step v ?v1" using pin by (auto intro!: hpet_step_upd hpet_isr_set simp: timer_level_def)
    obtain w e where w: "vioapic_set_irqstate ?irq (if ?edge then IRQSTATE_PULSE else IRQSTATE_ASSERT) ?v1 = Some (w, e)"
      "hpet_step ?v1 w" "vm_callouts w = vm_callouts ?v1" by (rule irq_step)
    have "vhpet_timer_interrupt n v = Some w"
      using pin w(1) by (simp add: vhpet_timer_interrupt_def Let_def vhpet_timer_edge_trig_def vioapic_pulse_irq_def vioapic_assert_irq_def
          split: if_splits)
    then show thesis using that [of w] hpet_step_trans [OF 1 w(2)] w(3) by simp
  qed
qed

subsection \<open>Timers answer\<close>

abbreviation hpet_active :: "vm \<Rightarrow> nat \<Rightarrow> bool" where
  "hpet_active v n \<equiv> callout_active (cs_store (vm_callouts v) (vhpet_callout n))"

lemma upd_timer_simps [simp]:
  "vm_callouts (upd_timer n f v) = vm_callouts v" "vm_timebase (upd_timer n f v) = vm_timebase v"
  "vm_vhpet (upd_timer n f v) = (vm_vhpet v)\<lparr>hp_timer := (hp_timer (vm_vhpet v))(n := f (hp_timer (vm_vhpet v) n))\<rparr>"
  by (simp_all add: upd_timer_def)

lemma start_timer_step:
  assumes ok: "callouts_ok r (vm_callouts v)"
  obtains v' where "vhpet_start_timer mat n counter now v = Some v'" and "hpet_step v v'"
    and "\<And>m. hpet_active v' m \<longleftrightarrow> m = n \<or> hpet_active v m"
    and "hp_countbase (vm_vhpet v') = hp_countbase (vm_vhpet v)" and "hp_countbase_sbt (vm_vhpet v') = hp_countbase_sbt (vm_vhpet v)"
proof -
  let ?t = "hp_timer (vm_vhpet v) n"
  define f where "f = (\<lambda>t :: hpet_timer. if ht_comprate ?t \<noteq> 0
      then t\<lparr>ht_compval := ht_compval ?t + ((counter - ht_compval ?t) div ht_comprate ?t + 1) * ht_comprate ?t\<rparr> else t)"
  define v1 where "v1 = upd_timer n f v"
  define sbt where "sbt = now + ucast (ht_compval (hp_timer (vm_vhpet v1) n) - counter) * hp_freq_sbt (vm_vhpet v1)"
  define v2 where "v2 = upd_timer n (\<lambda>t. t\<lparr>ht_callout_sbt := sbt\<rparr>) v1"
  have same: "upd_timer n (\<lambda>t. t) v = v" by (simp add: upd_timer_def upd_vhpet_def)
  have adj: "(if ht_comprate ?t \<noteq> 0 then vhpet_adjust_compval n counter v else Some v) = Some v1"
    by (simp add: v1_def f_def vhpet_adjust_compval_def Let_def same)
  have s1: "hpet_step v v1"
    unfolding v1_def by (rule hpet_step_keep) (simp_all add: f_def)
  have s2: "hpet_step v1 v2"
    unfolding v2_def by (rule hpet_step_keep) simp_all
  have co: "vm_callouts v2 = vm_callouts v" by (simp add: v2_def v1_def)
  let ?args = "(vm_timebase v2, mat, sbt, VHPET_HANDLER, C_ABSOLUTE)"
  obtain c where c: "callout_reset_sbt (vm_timebase v2) mat (vhpet_callout n) sbt VHPET_HANDLER C_ABSOLUTE (vm_callouts v2) = Some c"
    using callouts.arm_law [OF ok, of ?args "vhpet_callout n"] co by (auto simp: callout_arm_def)
  have oks: "callouts_ok q c" if "callouts_ok q (vm_callouts v2)" for q
    using callouts.arm_law [OF that, of ?args "vhpet_callout n"] c by (auto simp: callout_arm_def)
  show thesis
  proof (rule that)
    show "vhpet_start_timer mat n counter now v = Some (with_callouts c v2)"
      unfolding vhpet_start_timer_def adj using c by (simp add: Let_def sbt_def v2_def)
    show "hpet_step v (with_callouts c v2)"
      using hpet_step_trans [OF hpet_step_trans [OF s1 s2] hpet_step_callouts] oks callout_active_reset [OF _ c, of r] ok co by simp
    show "hpet_active (with_callouts c v2) m \<longleftrightarrow> m = n \<or> hpet_active v m" for m
      using callout_active_reset [OF _ c, of r] ok co by simp
  qed (simp_all add: v2_def v1_def)
qed

lemma stop_timer_step:
  obtains v' where "vhpet_stop_timer n now v = Some v'" and "hpet_step v v'"
    and "\<And>m. hpet_active v' m \<longleftrightarrow> m \<noteq> n \<and> hpet_active v m"
proof -
  let ?v1 = "with_callouts (callout_stop (vhpet_callout n) (vm_callouts v)) v"
  have 1: "hpet_step v ?v1" using callouts.disarm_law by (intro hpet_step_callouts) (blast, simp add: callout_active_stop)
  have a: "hpet_active ?v1 m \<longleftrightarrow> m \<noteq> n \<and> hpet_active v m" for m by (simp add: callout_active_stop)
  obtain w where w: "vhpet_timer_interrupt n ?v1 = Some w" "hpet_step ?v1 w" "vm_callouts w = vm_callouts ?v1" by (rule interrupt_step)
  show thesis
    using that [of w] that [of ?v1] w 1 a hpet_step_trans [OF 1 w(2)]
    by (cases "sint (ht_callout_sbt (hp_timer (vm_vhpet ?v1) n)) < sint now") (auto simp: vhpet_stop_timer_def Let_def)
qed

lemma start_counting_step:
  assumes ok: "callouts_ok r (vm_callouts v)" and wf: "hpet_wf (vm_vhpet v)"
  obtains v' where "vhpet_start_counting mat v = Some v'" and "hpet_step v v'"
proof -
  let ?f = "\<lambda>i s. Option.bind s (\<lambda>w. vhpet_start_timer mat i (hp_countbase (vm_vhpet w)) (hp_countbase_sbt (vm_vhpet w)) w)"
  have "\<exists>v'. fold ?f is (Some w) = Some v' \<and> hpet_step w v'" if "callouts_ok r (vm_callouts w)" for "is" w
    using that
  proof (induction "is" arbitrary: w)
    case (Cons i "is")
    obtain x where x: "vhpet_start_timer mat i (hp_countbase (vm_vhpet w)) (hp_countbase_sbt (vm_vhpet w)) w = Some x" "hpet_step w x"
      by (rule start_timer_step [OF Cons.prems]) blast
    have "callouts_ok r (vm_callouts x)" using x(2) Cons.prems by (simp add: hpet_step_def)
    then obtain y where "fold ?f is (Some x) = Some y" "hpet_step x y" using Cons.IH by blast
    then show ?case using x(1) hpet_step_trans [OF x(2)] by (intro exI [of _ y]) simp
  qed simp
  moreover have "hpet_step v (upd_vhpet (\<lambda>hp. hp\<lparr>hp_countbase_sbt := t\<rparr>) v)" for t
    by (rule hpet_step_upd) (simp_all add: hpet_wf_def)
  moreover have "callouts_ok r (vm_callouts (upd_vhpet (\<lambda>hp. hp\<lparr>hp_countbase_sbt := t\<rparr>) v))" for t using ok by simp
  ultimately show thesis using that hpet_step_trans unfolding vhpet_start_counting_def Let_def by blast
qed

lemma stop_counting_step:
  obtains v' where "vhpet_stop_counting counter now v = Some v'" and "hpet_step v v'"
    and "\<And>n. n < VHPET_NUM_TIMERS \<Longrightarrow> \<not> hpet_active v' n"
proof -
  let ?f = "\<lambda>i s. Option.bind s (vhpet_stop_timer i now)"
  have "\<exists>v'. fold ?f is (Some w) = Some v' \<and> hpet_step w v' \<and> (\<forall>m. hpet_active v' m \<longleftrightarrow> m \<notin> set is \<and> hpet_active w m)" for "is" w
  proof (induction "is" arbitrary: w)
    case (Cons i "is")
    obtain x where x: "vhpet_stop_timer i now w = Some x" "hpet_step w x" "\<And>m. hpet_active x m \<longleftrightarrow> m \<noteq> i \<and> hpet_active w m"
      by (rule stop_timer_step) blast
    obtain y where "fold ?f is (Some x) = Some y" "hpet_step x y" "\<forall>m. hpet_active y m \<longleftrightarrow> m \<notin> set is \<and> hpet_active x m"
      using Cons.IH by blast
    then show ?case using x hpet_step_trans by (intro exI [of _ y]) auto
  qed simp
  then obtain v' where "fold ?f [0..<VHPET_NUM_TIMERS] (Some (upd_vhpet (\<lambda>hp. hp\<lparr>hp_countbase := counter\<rparr>) v)) = Some v'"
    "hpet_step (upd_vhpet (\<lambda>hp. hp\<lparr>hp_countbase := counter\<rparr>) v) v'" "\<forall>m < VHPET_NUM_TIMERS. \<not> hpet_active v' m" by fastforce
  moreover have "hpet_step v (upd_vhpet (\<lambda>hp. hp\<lparr>hp_countbase := counter\<rparr>) v)"
    by (rule hpet_step_upd) (simp_all add: hpet_wf_def)
  ultimately show thesis using that hpet_step_trans unfolding vhpet_stop_counting_def by blast
qed

subsection \<open>Guest accesses answer\<close>

text \<open>The clock is not behind the moment at which the counter was last set.\<close>

definition hpet_clock :: "u64 \<Rightarrow> vm \<Rightarrow> bool" where
  "hpet_clock mat v \<longleftrightarrow> (vhpet_counter_enabled (vm_vhpet v) \<longrightarrow>
     0 \<le> sint (sbinuptime (vm_timebase v) mat - hp_countbase_sbt (vm_vhpet v)))"

lemma counter_defined:
  assumes "hpet_wf (vm_vhpet v)" and "hpet_clock mat v" and "want \<Longrightarrow> vhpet_counter_enabled (vm_vhpet v)"
  obtains c now where "vhpet_counter mat want v = Some (c, now)"
  using assms that by (cases "vhpet_counter mat want v")
    (auto simp: vhpet_counter_def hpet_wf_def hpet_clock_def Let_def split: if_splits)

lemma hpet_wf_update:
  assumes "hpet_wf hp" and "\<And>m. m \<noteq> n \<Longrightarrow> bit isr m \<Longrightarrow> bit (hp_isr hp) m"
    and "bit isr n \<Longrightarrow> n < VHPET_NUM_TIMERS \<Longrightarrow> timer_level t" and "\<not> vhpet_periodic_timer t \<Longrightarrow> ht_comprate t = 0"
  shows "hpet_wf (hp\<lparr>hp_timer := (hp_timer hp)(n := t), hp_isr := isr\<rparr>)"
  using assms by (auto simp: hpet_wf_def)

lemma update_config_step:
  assumes wf: "hpet_wf (vm_vhpet v)" and n: "n < VHPET_NUM_TIMERS"
  obtains v' where "vhpet_timer_update_config n data msk v = Some v'" and "hpet_step v v'" and "vm_callouts v' = vm_callouts v"
proof -
  let ?t = "hp_timer (vm_vhpet v) n"
  define isr where "isr \<longleftrightarrow> bit (hp_isr (vm_vhpet v)) n"
  have lv: "isr \<Longrightarrow> timer_level ?t" using wf n by (simp add: isr_def hpet_wf_def)
  then have safe: "\<not> ((vhpet_timer_msi_enabled ?t \<or> vhpet_timer_edge_trig ?t = Some True) \<and> isr)"
    and pin: "isr \<Longrightarrow> vhpet_timer_ioapic_pin ?t \<noteq> 0"
    by (auto simp: timer_level_def vhpet_timer_edge_trig_def)
  let ?newval = "timer_newval (ht_cap_config ?t) data msk"
  define t1 where "t1 = ?t\<lparr>ht_cap_config := ?newval\<rparr>"
  define t2 where "t2 = (if vhpet_timer_ioapic_pin t1 \<noteq> 0 \<and> (ucast (drop_bit 32 ?newval) :: u32) AND BIT (vhpet_timer_ioapic_pin t1) = 0
      then t1\<lparr>ht_cap_config := ht_cap_config t1 AND NOT HPET_TCNF_INT_ROUTE\<rparr> else t1)"
  define t3 where "t3 = (if \<not> vhpet_periodic_timer t2 then t2\<lparr>ht_comprate := 0\<rparr> else t2)"
  define v1 where "v1 = upd_timer n (\<lambda>_. t3) v"
  define clr where "clr \<longleftrightarrow> \<not> vhpet_timer_interrupt_enabled t3 \<or> vhpet_timer_msi_enabled t3
      \<or> vhpet_timer_edge_trig t3 = Some True \<or> vhpet_timer_ioapic_pin t3 \<noteq> vhpet_timer_ioapic_pin ?t"
  have rate: "\<not> vhpet_periodic_timer t3 \<Longrightarrow> ht_comprate t3 = 0"
    by (auto simp: t3_def vhpet_periodic_timer_def)
  have keep: "isr \<Longrightarrow> \<not> clr \<Longrightarrow> timer_level t3"
    using pin by (auto simp: clr_def timer_level_def vhpet_timer_edge_trig_def)
  have eq: "vhpet_timer_update_config n data msk v =
      (if ?newval = ht_cap_config ?t then Some v
       else if isr \<and> clr then Option.bind (vioapic_deassert_irq (int (vhpet_timer_ioapic_pin ?t)) v1) (\<lambda>(v2, _).
              Some (upd_vhpet (\<lambda>hp. hp\<lparr>hp_isr := hp_isr hp AND NOT (BIT n)\<rparr>) v2))
       else Some v1)"
  proof -
    let ?clear = "Option.bind (vioapic_deassert_irq (int (vhpet_timer_ioapic_pin ?t)) v1) (\<lambda>(v2, _).
              Some (upd_vhpet (\<lambda>hp. hp\<lparr>hp_isr := hp_isr hp AND NOT (BIT n)\<rparr>) v2))"
    have "vhpet_timer_update_config n data msk v =
        (if (vhpet_timer_msi_enabled ?t \<or> vhpet_timer_edge_trig ?t = Some True) \<and> isr then None
         else if ?newval = ht_cap_config ?t then Some v
         else if isr then if vhpet_timer_ioapic_pin ?t = 0 then None else if clr then ?clear else Some v1
         else Some v1)"
      unfolding vhpet_timer_update_config_def Let_def clr_def v1_def t3_def t2_def t1_def isr_def and_BIT_eq_0_iff not_not by (rule refl)
    then show ?thesis using safe pin by (simp only: if_False simp_thms if_split) argo
  qed
  obtain w e where w: "vioapic_set_irqstate (int (vhpet_timer_ioapic_pin ?t)) IRQSTATE_DEASSERT v1 = Some (w, e)" "hpet_step v1 w"
    "vm_vhpet w = vm_vhpet v1" "vm_callouts w = vm_callouts v1" by (rule irq_step)
  have c1: "vm_callouts v1 = vm_callouts v" by (simp add: v1_def)
  have f1: "hpet_step v x" if "hpet_step v1 x" "hpet_wf (vm_vhpet x)" for x
    using that by (auto simp: hpet_step_def v1_def level_ok_def upd_timer_def)
  consider (same) "?newval = ht_cap_config ?t" | (clear) "?newval \<noteq> ht_cap_config ?t" "isr" "clr"
    | (set) "?newval \<noteq> ht_cap_config ?t" "\<not> (isr \<and> clr)" by blast
  then show thesis
  proof cases
    case same
    then show thesis using that [of v] eq by simp
  next
    case clear
    let ?x = "upd_vhpet (\<lambda>hp. hp\<lparr>hp_isr := hp_isr hp AND NOT (BIT n)\<rparr>) w"
    have "hpet_wf (vm_vhpet ?x)"
      using hpet_wf_update [OF wf, of n "hp_isr (vm_vhpet v) AND NOT (BIT n)" t3] rate w(3) by (simp add: v1_def bit_clear_BIT)
    moreover have "hpet_step v1 ?x"
      using w(2,3) \<open>hpet_wf (vm_vhpet ?x)\<close> by (auto simp: hpet_step_def level_ok_def)
    ultimately show thesis
      using that [of ?x] f1 eq clear w(1,4) c1 by (simp add: vioapic_deassert_irq_def)
  next
    case set
    have "hpet_wf (vm_vhpet v1)"
      using hpet_wf_update [OF wf, of n "hp_isr (vm_vhpet v)" t3] rate keep set(2) by (simp add: v1_def isr_def)
    then show thesis using that [of v1] f1 [of v1] eq set c1 by simp
  qed
qed

lemma val_set_cong:
  assumes "ht_cap_config t' = ht_cap_config t AND NOT HPET_TCNF_VAL_SET"
  shows "timer_level t' = timer_level t" "vhpet_periodic_timer t' = vhpet_periodic_timer t"
  using assms
  by (simp_all add: timer_level_def vhpet_timer_msi_enabled_def vhpet_timer_ioapic_pin_def vhpet_periodic_timer_def and.assoc)

text \<open>Armed timers stay confined to a running counter.\<close>

definition hpet_ok :: "vm \<Rightarrow> bool" where
  "hpet_ok v \<longleftrightarrow> hpet_wf (vm_vhpet v) \<and> hpet_quiet (vm_vhpet v) (vm_callouts v)"

lemma hpet_enabled_cong: "hp_config hp' = hp_config hp \<Longrightarrow> vhpet_counter_enabled hp' = vhpet_counter_enabled hp"
  by (simp add: vhpet_counter_enabled_def)

lemma hpet_ok_step:
  assumes "hpet_step v v'" and "hpet_ok v"
    and "vhpet_counter_enabled (vm_vhpet v) \<or> (\<forall>n < VHPET_NUM_TIMERS. hpet_active v' n \<longrightarrow> hpet_active v n)"
  shows "hpet_ok v'"
  using assms hpet_enabled_cong [of "vm_vhpet v'" "vm_vhpet v"] by (auto simp: hpet_ok_def hpet_quiet_def hpet_step_def)

lemma hpet_ok_cong:
  assumes "vm_vhpet v' = vm_vhpet v" and "\<And>n. hpet_active v' n = hpet_active v n"
  shows "hpet_ok v' = hpet_ok v"
  using assms by (simp add: hpet_ok_def hpet_quiet_def)

lemma write_comparator_step:
  assumes ok: "callouts_ok r (vm_callouts v)" and h: "hpet_ok v" and clk: "hpet_clock mat v"
  obtains v' where "vhpet_write_comparator mat i data msk v = Some v'" and "hpet_step v v'" and "hpet_ok v'"
proof -
  let ?t = "hp_timer (vm_vhpet v) i"
  have wf: "hpet_wf (vm_vhpet v)" using h by (simp add: hpet_ok_def)
  then have safe: "\<not> (\<not> vhpet_periodic_timer ?t \<and> ht_comprate ?t \<noteq> 0)" by (auto simp: hpet_wf_def)
  define t1 where "t1 = (if vhpet_periodic_timer ?t
      then let val = ucast (update_register (ucast (ht_comprate ?t)) data msk); t' = ?t\<lparr>ht_comprate := val\<rparr>
           in if ht_cap_config t' AND HPET_TCNF_VAL_SET \<noteq> 0 then t'\<lparr>ht_compval := val\<rparr> else t'
      else ?t\<lparr>ht_compval := ucast (update_register (ucast (ht_compval ?t)) data msk)\<rparr>)"
  define t2 where "t2 = t1\<lparr>ht_cap_config := ht_cap_config t1 AND NOT HPET_TCNF_VAL_SET\<rparr>"
  define v1 where "v1 = upd_timer i (\<lambda>_. t2) v"
  have "ht_cap_config t1 = ht_cap_config ?t" by (simp add: t1_def Let_def)
  then have c2: "ht_cap_config t2 = ht_cap_config ?t AND NOT HPET_TCNF_VAL_SET" by (simp add: t2_def)
  note cong = val_set_cong [OF c2]
  have "\<not> vhpet_periodic_timer ?t \<Longrightarrow> ht_comprate t2 = 0" using safe by (auto simp: t2_def t1_def)
  then have s1: "hpet_step v v1" unfolding v1_def by (intro hpet_step_timer) (simp_all add: cong)
  have en: "vhpet_counter_enabled (vm_vhpet v1) = vhpet_counter_enabled (vm_vhpet v)"
    using s1 by (intro hpet_enabled_cong) (simp add: hpet_step_def)
  have h1: "hpet_ok v1" using hpet_ok_step [OF s1 h] by (simp add: v1_def)
  let ?go = "(ht_compval t2 \<noteq> ht_compval ?t \<or> ht_comprate t2 \<noteq> ht_comprate ?t) \<and> vhpet_counter_enabled (vm_vhpet v1)"
  have eq: "vhpet_write_comparator mat i data msk v =
      (if ?go then Option.bind (vhpet_counter mat True v1) (\<lambda>(counter, now). vhpet_start_timer mat i counter now v1) else Some v1)"
    using safe unfolding vhpet_write_comparator_def Let_def v1_def t2_def t1_def by (simp only: if_False)
  show thesis
  proof (cases ?go)
    case True
    have "hpet_clock mat v1" using clk by (simp add: hpet_clock_def v1_def vhpet_counter_enabled_def)
    then obtain c now where c: "vhpet_counter mat True v1 = Some (c, now)"
      using counter_defined [of v1 mat True] h1 True by (auto simp: hpet_ok_def)
    have "callouts_ok r (vm_callouts v1)" using ok by (simp add: v1_def)
    then obtain w where w: "vhpet_start_timer mat i c now v1 = Some w" "hpet_step v1 w" by (rule start_timer_step) blast
    show thesis
      by (rule that [of w]) (use True eq c w hpet_step_trans [OF s1 w(2)] hpet_ok_step [OF w(2) h1] in simp_all)
  next
    case False
    then have "vhpet_write_comparator mat i data msk v = Some v1" using eq by (simp only: if_False)
    then show thesis using s1 h1 by (rule that)
  qed
qed

lemma write_timers_step:
  assumes ok: "callouts_ok r (vm_callouts v)" and h: "hpet_ok v" and clk: "hpet_clock mat v" and "set is \<subseteq> {..<VHPET_NUM_TIMERS}"
  obtains v' where "vhpet_write_timers mat offset data msk is v = Some v'" and "hpet_step v v'" and "hpet_ok v'"
proof -
  have "\<exists>v'. vhpet_write_timers mat offset data msk is v = Some v' \<and> hpet_step v v' \<and> hpet_ok v'" using assms(4)
  proof (induction "is")
    case (Cons i "is")
    have wf: "hpet_wf (vm_vhpet v)" using h by (simp add: hpet_ok_def)
    obtain a where a: "vhpet_timer_update_config i data msk v = Some a" "hpet_step v a" "vm_callouts a = vm_callouts v"
      by (rule update_config_step [OF wf, of i]) (use Cons.prems in auto)
    have ha: "hpet_ok a" using hpet_ok_step [OF a(2) h] a(3) by simp
    obtain b where b: "vhpet_write_comparator mat i data msk v = Some b" "hpet_step v b" "hpet_ok b"
      by (rule write_comparator_step [OF ok h clk])
    let ?c = "upd_timer i (\<lambda>t. t\<lparr>ht_msireg := update_register (ht_msireg t) data msk\<rparr>) v"
    have c: "hpet_step v ?c" by (rule hpet_step_keep) simp_all
    have "hpet_ok ?c" using hpet_ok_step [OF c h] by simp
    then show ?case using a b c ha Cons by simp
  qed (use h in simp)
  then show thesis using that by blast
qed

text \<open>
  The effect on the machine without the configuration register: writing it starts or stops the
  counter, and all timers with it.
\<close>

definition hpet_moves :: "nat option \<Rightarrow> vm \<Rightarrow> vm \<Rightarrow> bool" where
  "hpet_moves r v v' \<longleftrightarrow> (\<forall>j. isr_frame (vm_lapic v j) (vm_lapic v' j)) \<and> (level_ok v \<longrightarrow> level_ok v')
     \<and> vm_vatpic v' = vm_vatpic v \<and> vm_vatpit v' = vm_vatpit v \<and> vm_vrtc v' = vm_vrtc v \<and> vm_vpmtmr v' = vm_vpmtmr v \<and> rtc_active v' = rtc_active v \<and> vm_timebase v' = vm_timebase v
     \<and> (callouts_ok r (vm_callouts v) \<longrightarrow> callouts_ok r (vm_callouts v')) \<and> hpet_ok v'"

lemma hpet_step_moves: "hpet_step v v' \<Longrightarrow> hpet_ok v' \<Longrightarrow> hpet_moves r v v'"
  by (simp add: hpet_step_def hpet_moves_def)

lemma write_config_moves:
  assumes ok: "callouts_ok r (vm_callouts v)" and h: "hpet_ok v" and clk: "hpet_clock mat v"
  obtains v' where "vhpet_write_config mat data msk v = Some v'" and "hpet_moves r v v'"
proof -
  obtain c now where c: "vhpet_counter mat (vhpet_counter_enabled (vm_vhpet v)) v = Some (c, now)"
    using counter_defined [OF _ clk, of "vhpet_counter_enabled (vm_vhpet v)"] h by (auto simp: hpet_ok_def)
  define v1 where "v1 = upd_vhpet (\<lambda>hp. hp\<lparr>hp_config := update_register (hp_config hp) data msk AND NOT HPET_CNF_LEG_RT\<rparr>) v"
  let ?on = "vhpet_counter_enabled (vm_vhpet v1)" and ?was = "vhpet_counter_enabled (vm_vhpet v)"
  have one: "(HPET_CNF_ENABLE :: u64) = BIT 0" by (simp add: BIT_def)
  have flip: "((hp_config (vm_vhpet v) XOR hp_config (vm_vhpet v1)) AND HPET_CNF_ENABLE \<noteq> 0) \<longleftrightarrow> ?on \<noteq> ?was"
    unfolding vhpet_counter_enabled_def one by (auto simp: bit_xor_iff)
  have eq: "vhpet_write_config mat data msk v =
      (if ?on \<noteq> ?was then if ?on then vhpet_start_counting mat v1 else vhpet_stop_counting c now v1 else Some v1)"
    unfolding vhpet_write_config_def Let_def v1_def [symmetric] using c flip by simp
  have m1: "hpet_moves r v x" if "hpet_step v1 x" "hpet_ok x" for x
    using that by (auto simp: hpet_step_def hpet_moves_def v1_def level_ok_def)
  have wf1: "hpet_wf (vm_vhpet v1)" using h by (simp add: v1_def hpet_ok_def hpet_wf_def)
  have co1: "vm_callouts v1 = vm_callouts v" by (simp add: v1_def)
  have ok1: "callouts_ok r (vm_callouts v1)" using ok co1 by simp
  obtain a where a: "vhpet_start_counting mat v1 = Some a" "hpet_step v1 a" by (rule start_counting_step [OF ok1 wf1])
  obtain b where b: "vhpet_stop_counting c now v1 = Some b" "hpet_step v1 b" "\<And>n. n < VHPET_NUM_TIMERS \<Longrightarrow> \<not> hpet_active b n"
    by (rule stop_counting_step [of c now v1]) blast
  have "?on \<Longrightarrow> hpet_ok a"
    using a(2) wf1 hpet_enabled_cong [of "vm_vhpet a" "vm_vhpet v1"] by (simp add: hpet_ok_def hpet_quiet_def hpet_step_def)
  moreover have "hpet_ok b" using b wf1 by (simp add: hpet_ok_def hpet_quiet_def hpet_step_def)
  moreover have "?on = ?was \<Longrightarrow> hpet_ok v1" using h wf1 co1 by (simp add: hpet_ok_def hpet_quiet_def)
  ultimately show thesis
    using eq a b m1 that by (cases "?on = ?was"; cases ?on) auto
qed

lemma write_isr_moves:
  assumes h: "hpet_ok v"
  obtains v' where "vhpet_write_isr data v = Some v'" and "hpet_moves r v v'"
proof -
  let ?m = "ucast (hp_isr (vm_vhpet v) AND data) :: u32"
  let ?f = "\<lambda>i s. Option.bind s (\<lambda>w. if ?m AND BIT i \<noteq> 0 then vhpet_timer_clear_isr i w else Some w)"
  have "\<exists>v'. fold ?f is (Some w) = Some v' \<and> hpet_step w v' \<and> hpet_ok v'"
    if "hpet_ok w" "set is \<subseteq> {..<VHPET_NUM_TIMERS}" for "is" w
    using that
  proof (induction "is" arbitrary: w)
    case (Cons i "is")
    obtain a where a: "vhpet_timer_clear_isr i w = Some a" "hpet_step w a" "vm_callouts a = vm_callouts w"
      by (rule clear_isr_step [of w i]) (use Cons.prems in \<open>auto simp: hpet_ok_def\<close>)
    let ?x = "if ?m AND BIT i \<noteq> 0 then a else w"
    have x: "?f i (Some w) = Some ?x" "hpet_step w ?x" "hpet_ok ?x"
      using a Cons.prems(1) hpet_ok_step [OF a(2) Cons.prems(1)] by auto
    obtain y where "fold ?f is (Some ?x) = Some y" "hpet_step ?x y" "hpet_ok y"
      using Cons.IH [OF x(3)] Cons.prems(2) by auto
    moreover have "fold ?f (i # is) (Some w) = fold ?f is (Some ?x)" unfolding fold_simps x(1) by (rule refl)
    ultimately show ?case using hpet_step_trans [OF x(2)] by (intro exI [of _ y]) simp
  qed simp
  from this [OF h, of "[0..<VHPET_NUM_TIMERS]"] show thesis
    using that hpet_step_moves unfolding vhpet_write_isr_def Let_def by fastforce
qed

lemma write_counter_moves:
  assumes ok: "callouts_ok r (vm_callouts v)" and h: "hpet_ok v" and clk: "hpet_clock mat v"
  obtains v' where "vhpet_write_counter mat data msk v = Some v'" and "hpet_moves r v v'"
proof -
  obtain c now where c: "vhpet_counter mat False v = Some (c, now)"
    using counter_defined [OF _ clk, of False] h by (auto simp: hpet_ok_def)
  let ?v1 = "upd_vhpet (\<lambda>hp. hp\<lparr>hp_countbase := ucast (update_register (ucast c) data msk)\<rparr>) v"
  have s1: "hpet_step v ?v1" by (rule hpet_step_upd) (simp_all add: hpet_wf_def)
  have h1: "hpet_ok ?v1" using hpet_ok_step [OF s1 h] by simp
  have ok1: "callouts_ok r (vm_callouts ?v1)" using ok by simp
  obtain a where a: "vhpet_start_counting mat ?v1 = Some a" "hpet_step ?v1 a"
    using start_counting_step [OF ok1, of mat] h1 by (auto simp: hpet_ok_def)
  have "vhpet_counter_enabled (vm_vhpet ?v1) \<Longrightarrow> hpet_ok a" using hpet_ok_step [OF a(2) h1] by simp
  then show thesis
    using that [of a] that [of ?v1] c a(1) h1 hpet_step_moves hpet_step_trans [OF s1 a(2)] s1
    by (cases "vhpet_counter_enabled (vm_vhpet ?v1)") (auto simp: vhpet_write_counter_def Let_def)
qed

lemma mmio_write_moves:
  assumes ok: "callouts_ok r (vm_callouts v)" and h: "hpet_ok v" and clk: "hpet_clock mat v"
  shows "\<exists>v'. vhpet_mmio_write mat gpa val sz v = Some v' \<and> hpet_moves r v v'"
proof -
  have same: "hpet_moves r v v" using h by (simp add: hpet_step_moves)
  have "\<exists>v'. vhpet_write_config mat data msk v = Some v' \<and> hpet_moves r v v'" for data msk
    by (rule write_config_moves [OF assms]) blast
  moreover have "\<exists>v'. vhpet_write_isr data v = Some v' \<and> hpet_moves r v v'" for data
    by (rule write_isr_moves [OF h]) blast
  moreover have "\<exists>v'. vhpet_write_counter mat data msk v = Some v' \<and> hpet_moves r v v'" for data msk
    by (rule write_counter_moves [OF assms]) blast
  moreover have "\<exists>v'. vhpet_write_timers mat offset data msk [0..<VHPET_NUM_TIMERS] v = Some v' \<and> hpet_moves r v v'" for offset data msk
    by (rule write_timers_step [OF assms, of "[0..<VHPET_NUM_TIMERS]"]) (auto intro: hpet_step_moves)
  moreover have "\<exists>v'. (if b then x else y) = Some v' \<and> hpet_moves r v v'"
    if "\<exists>v'. x = Some v' \<and> hpet_moves r v v'" "\<exists>v'. y = Some v' \<and> hpet_moves r v v'" for b x y using that by simp
  ultimately show ?thesis using same unfolding vhpet_mmio_write_def Let_def by simp
qed

lemma handler_moves:
  assumes ok: "callouts_ok (Some (vhpet_callout n)) (vm_callouts v)" and h: "hpet_ok v" and clk: "hpet_clock mat v"
    and n: "n < VHPET_NUM_TIMERS"
  shows "\<exists>v'. vhpet_handler mat n v = Some v' \<and> hpet_moves (Some (vhpet_callout n)) v v'"
proof (cases "callout_pending (cs_store (vm_callouts v) (vhpet_callout n)) \<or> \<not> hpet_active v n")
  case True
  then show ?thesis using h hpet_step_moves [of v v] by (auto simp: vhpet_handler_def Let_def)
next
  case False
  let ?v1 = "with_callouts (upd (vhpet_callout n) callout_deactivate (vm_callouts v)) v"
  have on: "vhpet_counter_enabled (vm_vhpet v)" using False h n by (auto simp: hpet_ok_def hpet_quiet_def)
  have ok1: "callouts_ok (Some (vhpet_callout n)) (vm_callouts ?v1)" using ok by (simp add: callouts_ok_deactivate)
  have h1: "hpet_ok ?v1" using h on by (simp add: hpet_ok_def hpet_quiet_def)
  obtain c now where c: "vhpet_counter mat True ?v1 = Some (c, now)"
    using counter_defined [of ?v1 mat True] h1 clk on by (auto simp: hpet_ok_def hpet_clock_def)
  obtain w where w: "vhpet_start_timer mat n c now ?v1 = Some w" "hpet_step ?v1 w" by (rule start_timer_step [OF ok1]) blast
  have hw: "hpet_ok w" using hpet_ok_step [OF w(2) h1] on by simp
  obtain x where x: "vhpet_timer_interrupt n w = Some x" "hpet_step w x" "vm_callouts x = vm_callouts w" by (rule interrupt_step)
  have hx: "hpet_ok x" using hpet_ok_step [OF x(2) hw] x(3) by simp
  have "hpet_moves (Some (vhpet_callout n)) ?v1 x" by (rule hpet_step_moves [OF hpet_step_trans [OF w(2) x(2)] hx])
  then have "hpet_moves (Some (vhpet_callout n)) v x" using ok1 by (simp add: hpet_moves_def level_ok_def)
  moreover have "vhpet_handler mat n v = Some x" using False on c w(1) x(1) by (simp add: vhpet_handler_def Let_def)
  ultimately show ?thesis by blast
qed

subsection \<open>Periodic timers\<close>

lemma next_multiple:
  fixes counter compval comprate :: u32
  assumes "comprate \<noteq> 0"
  shows "unat (compval + ((counter - compval) div comprate + 1) * comprate - counter)
    = unat comprate - unat (counter - compval) mod unat comprate"
proof -
  define d r where "d = unat (counter - compval)" and "r = unat comprate"
  have r: "0 < r" "r < 2 ^ 32" using assms unsigned_less [of comprate] by (auto simp: r_def unat_eq_0 [symmetric] simp del: unat_eq_0)
  have le: "d \<le> (d div r + 1) * r" using dividend_less_div_times [OF r(1), of d] by simp
  have "compval + ((counter - compval) div comprate + 1) * comprate - counter
      = ((counter - compval) div comprate + 1) * comprate - (counter - compval)" by simp
  also have "\<dots> = of_nat ((d div r + 1) * r) - of_nat d"
    by (simp add: d_def r_def unat_div [symmetric] algebra_simps)
  also have "\<dots> = of_nat ((d div r + 1) * r - d)" using le by (simp add: of_nat_diff)
  also have "(d div r + 1) * r - d = r - d mod r" by (simp add: minus_mult_div_eq_mod [symmetric] algebra_simps)
  finally have "compval + ((counter - compval) div comprate + 1) * comprate - counter = of_nat (r - d mod r)" .
  moreover have "unat (of_nat (r - d mod r) :: u32) = r - d mod r" using r by (simp add: unat_of_nat del: of_nat_diff of_nat_diff_if)
  ultimately show ?thesis by (simp only: d_def r_def)
qed

text \<open>
  C33. A periodic timer keeps its rhythm. However late its callout runs, the comparator moves on by whole periods
  to the first value ahead of the counter, also when the 32-bit counter wraps, and the callout is armed for
  the moment at which the counter gets there, at most one period away.
\<close>

theorem hpet_periodic_rearms:
  fixes v :: vm and n :: nat
  defines "t \<equiv> hp_timer (vm_vhpet v) n"
  assumes "co_inv (vm_callouts v, r)" and "ht_comprate t \<noteq> 0"
  shows "\<exists>v' k. vhpet_start_timer mat n counter now v = Some v'
     \<and> (let t' = hp_timer (vm_vhpet v') n; ticks = unat (ht_compval t' - counter)
        in ht_compval t' = ht_compval t + of_nat k * ht_comprate t
           \<and> unat (counter - ht_compval t) < k * unat (ht_comprate t)
           \<and> k * unat (ht_comprate t) \<le> unat (counter - ht_compval t) + unat (ht_comprate t)
           \<and> 1 \<le> ticks \<and> ticks \<le> unat (ht_comprate t)
           \<and> callout_armed (vm_callouts v') (vhpet_callout n)
           \<and> timeout_of (vm_callouts v') (vhpet_callout n) = sbt2mat (vm_timebase v) (now + of_nat ticks * hp_freq_sbt (vm_vhpet v)))"
proof -
  let ?k = "unat ((counter - ht_compval t) div ht_comprate t) + 1"
  let ?new = "ht_compval t + ((counter - ht_compval t) div ht_comprate t + 1) * ht_comprate t"
  let ?ticks = "unat (?new - counter)"
  define v2 where "v2 = upd_timer n (\<lambda>u. u\<lparr>ht_callout_sbt := now + ucast (?new - counter) * hp_freq_sbt (vm_vhpet v)\<rparr>)
      (upd_timer n (\<lambda>u. u\<lparr>ht_compval := ?new\<rparr>) v)"
  have co: "vm_callouts v2 = vm_callouts v" "vm_timebase v2 = vm_timebase v" "ht_compval (hp_timer (vm_vhpet v2) n) = ?new"
    by (simp_all add: v2_def)
  obtain xs where xs: "queue_is (vm_callouts v) xs" "sorted (map (timeout_of (vm_callouts v)) xs)"
    using assms(2) by (auto simp: co_inv_def)
  obtain s where s: "callout_reset_sbt (vm_timebase v) mat (vhpet_callout n) (now + ucast (?new - counter) * hp_freq_sbt (vm_vhpet v))
      VHPET_HANDLER C_ABSOLUTE (vm_callouts v) = Some s" "callout_pending (cs_store s (vhpet_callout n))"
    "timeout_of s (vhpet_callout n) = sbt2mat (vm_timebase v) (now + ucast (?new - counter) * hp_freq_sbt (vm_vhpet v))"
    using callout_reset_sbt_correct [OF xs, of "vm_timebase v" mat "vhpet_callout n"
        "now + ucast (?new - counter) * hp_freq_sbt (vm_vhpet v)" VHPET_HANDLER C_ABSOLUTE] by auto
  have "vhpet_start_timer mat n counter now v = Some (with_callouts s v2)"
    using s(1) assms(3) by (simp add: vhpet_start_timer_def vhpet_adjust_compval_def Let_def t_def [symmetric] v2_def)
  moreover have "?new = ht_compval t + of_nat ?k * ht_comprate t" by (simp add: algebra_simps)
  moreover have "unat (counter - ht_compval t) < ?k * unat (ht_comprate t)"
    using dividend_less_div_times [of "unat (ht_comprate t)" "unat (counter - ht_compval t)"] assms(3)
    by (simp add: unat_div unat_gt_0)
  moreover have "?k * unat (ht_comprate t) \<le> unat (counter - ht_compval t) + unat (ht_comprate t)"
    using div_times_less_eq_dividend [of "unat (counter - ht_compval t)" "unat (ht_comprate t)"] by (simp add: unat_div)
  moreover have "1 \<le> ?ticks" "?ticks \<le> unat (ht_comprate t)"
    unfolding next_multiple [OF assms(3)] using assms(3) by (simp_all add: unat_gt_0 Suc_leI)
  moreover have "(of_nat ?ticks :: u64) = ucast (?new - counter)" by (rule of_nat_unat)
  ultimately show ?thesis
    using s co by (intro exI [of _ "with_callouts s v2"] exI [of _ ?k]) (simp add: Let_def callout_armed_def)
qed

theorem hpet_periodic_rearms_witness:
  "let v = upd_timer 2 (\<lambda>t. t\<lparr>ht_compval := 100, ht_comprate := 10\<rparr>) (vm_calloc \<lparr>tb_numer = 1, tb_denom = 1\<rparr>)
   in \<exists>v' k. vhpet_start_timer 0 2 105 0 v = Some v'
     \<and> ht_compval (hp_timer (vm_vhpet v') 2) = 100 + of_nat k * 10 \<and> 5 < k * 10 \<and> k * 10 \<le> 15
     \<and> callout_armed (vm_callouts v') (vhpet_callout 2)"
proof -
  let ?v = "upd_timer 2 (\<lambda>t. t\<lparr>ht_compval := 100, ht_comprate := 10\<rparr>) (vm_calloc \<lparr>tb_numer = 1, tb_denom = 1\<rparr>)"
  have "co_inv (vm_callouts ?v, None)" by (simp add: co_inv_init vm_calloc_def)
  from hpet_periodic_rearms [OF this, of 2 0 105 0] show ?thesis by (auto simp: Let_def)
qed

end
