(* ===== verification/Calendar.thy ===== *)
theory Calendar
  imports Vm_Types "HOL-Library.Signed_Division"
begin

text \<open>
  The calendar of the real-time clock (\<open>clock_ct_to_ts\<close> and \<open>clock_ts_to_ct\<close> of \<open>src/vmm/io/vrtc.c\<close>) and its proof against an
  independent calendar: the Gregorian lengths of months and years, and the tick of one second.
\<close>

subsection \<open>Conversions\<close>

record clocktime =
  ct_year :: int
  ct_mon :: int
  ct_day :: int
  ct_hour :: int
  ct_min :: int
  ct_sec :: int
  ct_dow :: int
  ct_nsec :: int

record timespec =
  tv_sec :: int
  tv_nsec :: int

abbreviation (input) POSIX_BASE_YEAR :: int where "POSIX_BASE_YEAR \<equiv> 1970"
abbreviation (input) SECDAY :: int where "SECDAY \<equiv> 86400"

definition leapyear :: "int \<Rightarrow> int" where
  "leapyear year =
     (if year AND 3 = 0 then if year smod 100 = 0 then if year smod 400 = 0 then 1 else 0 else 1 else 0)"

definition days_in_year :: "int \<Rightarrow> int" where
  "days_in_year y = (if leapyear y \<noteq> 0 then 366 else 365)"

definition month_days :: "int list" where
  "month_days = [31, 28, 31, 30, 31, 30, 31, 31, 30, 31, 30, 31]"

text \<open>The index is within the table for the months 1 to 12; the callers see to that.\<close>

definition days_in_month :: "int \<Rightarrow> int \<Rightarrow> int" where
  "days_in_month y m = month_days ! nat (m - 1) + (if m = 2 then leapyear y else 0)"

definition day_of_week :: "int \<Rightarrow> int" where
  "day_of_week days = (days + 4) smod 7"

definition clock_ct_to_ts :: "clocktime \<Rightarrow> int + timespec" where
  "clock_ct_to_ts ct =
     (let year = ct_year ct
      in if ct_mon ct < 1 \<or> ct_mon ct > 12 \<or> ct_day ct < 1 \<or> ct_day ct > days_in_month year (ct_mon ct)
            \<or> ct_hour ct > 23 \<or> ct_min ct > 59 \<or> ct_sec ct > 59 then Inl EINVAL
         else let days = fold (\<lambda>i d. d + days_in_year i) [POSIX_BASE_YEAR..year - 1] 0;
                  days = fold (\<lambda>i d. d + days_in_month year i) [1..ct_mon ct - 1] days;
                  days = days + (ct_day ct - 1)
              in Inr \<lparr>tv_sec = ((days * 24 + ct_hour ct) * 60 + ct_min ct) * 60 + ct_sec ct, tv_nsec = ct_nsec ct\<rparr>)"

text \<open>The two loops of \<open>clock_ts_to_ct\<close>; the second one must not run past the table.\<close>

lemma days_in_year_pos: "0 < days_in_year y"
  by (simp add: days_in_year_def)

function year_loop :: "int \<Rightarrow> int \<Rightarrow> int \<times> int" where
  "year_loop year days = (if days \<ge> days_in_year year then year_loop (year + 1) (days - days_in_year year) else (year, days))"
  by auto
termination
proof (relation "measure (\<lambda>(year, days). nat days)", goal_cases)
  case (2 year days)
  then show ?case using days_in_year_pos [of year] by simp
qed simp

declare year_loop.simps [simp del]

function month_loop :: "int \<Rightarrow> int \<Rightarrow> int \<Rightarrow> (int \<times> int) option" where
  "month_loop year i days =
     (if i > 12 then None
      else if days \<ge> days_in_month year i then month_loop year (i + 1) (days - days_in_month year i) else Some (i, days))"
  by auto
termination by (relation "measure (\<lambda>(year, i, days). nat (13 - i))") auto

declare month_loop.simps [simp del]

definition clock_ts_to_ct :: "timespec \<Rightarrow> clocktime option" where
  "clock_ts_to_ct ts =
     (let secs = tv_sec ts; days = sint (word_of_int (secs sdiv SECDAY) :: u32); rsec = secs smod SECDAY;
          (year, days') = year_loop POSIX_BASE_YEAR days
      in map_option (\<lambda>(mon, days'').
           \<lparr>ct_year = year, ct_mon = mon, ct_day = days'' + 1, ct_hour = rsec sdiv 3600,
             ct_min = (rsec smod 3600) sdiv 60, ct_sec = (rsec smod 3600) smod 60,
             ct_dow = day_of_week days, ct_nsec = tv_nsec ts\<rparr>) (month_loop year 1 days'))"

subsection \<open>The calendar is a bijection\<close>

lemma fold_add_upto: "fold (\<lambda>i d. d + f i) xs (a :: int) = a + (\<Sum>i\<leftarrow>xs. f i)"
  by (induction xs arbitrary: a) simp_all

lemma leapyear_01: "leapyear y = 0 \<or> leapyear y = 1"
  by (simp add: leapyear_def)

lemma days_in_month_pos: "1 \<le> m \<Longrightarrow> m \<le> 12 \<Longrightarrow> 28 \<le> days_in_month y m \<and> days_in_month y m \<le> 31"
proof -
  assume m: "1 \<le> m" "m \<le> 12"
  then have "m \<in> {1, 2, 3, 4, 5, 6, 7, 8, 9, 10, 11, 12}" by simp presburger
  then show ?thesis using leapyear_01 [of y] by (auto simp: days_in_month_def month_days_def)
qed

lemma months_of_year: "(\<Sum>i\<leftarrow>[1..12]. days_in_month y i) = days_in_year y"
  using leapyear_01 [of y] by (auto simp: upto_rec1 days_in_month_def month_days_def days_in_year_def)

abbreviation days_before :: "(int \<Rightarrow> int) \<Rightarrow> int \<Rightarrow> int \<Rightarrow> int" where
  "days_before f a b \<equiv> (\<Sum>i\<leftarrow>[a..b - 1]. f i)"

lemma days_before_step: "a < b \<Longrightarrow> days_before f a b = f a + days_before f (a + 1) b"
  by (simp add: upto_rec1)

lemma days_before_nonneg: "(\<And>i. a \<le> i \<Longrightarrow> i < b \<Longrightarrow> 0 \<le> f i) \<Longrightarrow> 0 \<le> days_before f a b"
  by (rule sum_list_nonneg) auto

text \<open>The loops undo the sums of \<open>clock_ct_to_ts\<close>, and every number of days is such a sum.\<close>

lemma year_loop_sum:
  assumes "y \<le> y'" and "0 \<le> d" and "d < days_in_year y'"
  shows "year_loop y (days_before days_in_year y y' + d) = (y', d)"
  using assms(1)
proof (induction "nat (y' - y)" arbitrary: y)
  case 0
  then show ?case using assms(3) by (simp add: year_loop.simps)
next
  case (Suc n)
  have "0 \<le> days_before days_in_year (y + 1) y'" by (rule days_before_nonneg) (simp add: days_in_year_pos less_imp_le)
  moreover have "year_loop (y + 1) (days_before days_in_year (y + 1) y' + d) = (y', d)" using Suc by (intro Suc.hyps) simp_all
  moreover have "days_before days_in_year y y' = days_in_year y + days_before days_in_year (y + 1) y'"
    using Suc by (intro days_before_step) simp
  ultimately show ?case using assms(2) by (subst year_loop.simps) simp
qed

lemma year_loop_split:
  assumes "0 \<le> d"
  obtains y' d' where "year_loop y d = (y', d')" and "y \<le> y'" and "d = days_before days_in_year y y' + d'"
    and "0 \<le> d'" and "d' < days_in_year y'"
proof -
  have "\<exists>y' d'. year_loop y d = (y', d') \<and> y \<le> y' \<and> d = days_before days_in_year y y' + d' \<and> 0 \<le> d' \<and> d' < days_in_year y'"
    using assms
  proof (induction y d rule: year_loop.induct)
    case (1 y d)
    show ?case
    proof (cases "d \<ge> days_in_year y")
      case True
      then obtain y' d' where "year_loop (y + 1) (d - days_in_year y) = (y', d')" "y + 1 \<le> y'"
        "d - days_in_year y = days_before days_in_year (y + 1) y' + d'" "0 \<le> d'" "d' < days_in_year y'"
        using 1 by (metis diff_ge_0_iff_ge)
      then show ?thesis
        using True days_before_step [of y y' days_in_year] by (intro exI [of _ y'] exI [of _ d']) (simp add: year_loop.simps [of y])
    next
      case False
      then show ?thesis using 1 by (intro exI [of _ y] exI [of _ d]) (simp add: year_loop.simps [of y])
    qed
  qed
  then show thesis using that by blast
qed

lemma month_loop_sum:
  assumes "i \<le> m" and "1 \<le> i" and "m \<le> 12" and "0 \<le> d" and "d < days_in_month y m"
  shows "month_loop y i (days_before (days_in_month y) i m + d) = Some (m, d)"
  using assms(1,2)
proof (induction "nat (m - i)" arbitrary: i)
  case 0
  then show ?case using assms by (simp add: month_loop.simps)
next
  case (Suc n)
  have "0 \<le> days_before (days_in_month y) (i + 1) m"
  proof (rule days_before_nonneg)
    fix j assume "i + 1 \<le> j" "j < m"
    then show "0 \<le> days_in_month y j" using days_in_month_pos [of j y] Suc.prems assms(3) by simp
  qed
  moreover have "month_loop y (i + 1) (days_before (days_in_month y) (i + 1) m + d) = Some (m, d)"
    using Suc by (intro Suc.hyps) simp_all
  moreover have "days_before (days_in_month y) i m = days_in_month y i + days_before (days_in_month y) (i + 1) m"
    using Suc by (intro days_before_step) simp
  ultimately show ?case using assms(3,4) Suc by (subst month_loop.simps) simp
qed

lemma month_split:
  assumes "0 \<le> d" and "d < (\<Sum>j\<leftarrow>[i..12]. days_in_month y j)" and "1 \<le> i" and "i \<le> 13"
  obtains m d' where "i \<le> m" and "m \<le> 12" and "d = days_before (days_in_month y) i m + d'" and "0 \<le> d'" and "d' < days_in_month y m"
proof -
  have "\<exists>m d'. i \<le> m \<and> m \<le> 12 \<and> d = days_before (days_in_month y) i m + d' \<and> 0 \<le> d' \<and> d' < days_in_month y m"
    using assms
  proof (induction "nat (13 - i)" arbitrary: i d)
    case (Suc n)
    show ?case
    proof (cases "d < days_in_month y i")
      case True
      then show ?thesis using Suc by (intro exI [of _ i] exI [of _ d]) simp
    next
      case False
      have "i \<le> 12" using Suc by simp
      then have "(\<Sum>j\<leftarrow>[i..12]. days_in_month y j) = days_in_month y i + (\<Sum>j\<leftarrow>[i + 1..12]. days_in_month y j)" by (simp add: upto_rec1)
      moreover have "n = nat (13 - (i + 1))" using Suc.hyps(2) by simp
      ultimately obtain m d' where "i + 1 \<le> m" "m \<le> 12" "d - days_in_month y i = days_before (days_in_month y) (i + 1) m + d'"
        "0 \<le> d'" "d' < days_in_month y m"
        using Suc.hyps(1) [of "i + 1" "d - days_in_month y i"] Suc.prems False \<open>i \<le> 12\<close> by auto
      then show ?thesis
        using days_before_step [of i m "days_in_month y"] by (intro exI [of _ m] exI [of _ d']) simp
    qed
  qed simp
  then show thesis using that by blast
qed

lemma sdiv_smod_nonneg [simp]:
  fixes k l :: int
  assumes "0 \<le> k" and "0 < l"
  shows "k sdiv l = k div l" "k smod l = k mod l"
  using assms by (auto simp: signed_divide_int_def signed_modulo_int_def sgn_if minus_div_mult_eq_mod)

text \<open>
  The calendar by itself: the Gregorian lengths of the months, and the passage of one second on a date
  and time with its day of the week.
\<close>

definition gregorian_leap :: "int \<Rightarrow> bool" where
  "gregorian_leap y \<longleftrightarrow> 4 dvd y \<and> (100 dvd y \<longrightarrow> 400 dvd y)"

definition month_length :: "int \<Rightarrow> int \<Rightarrow> int" where
  "month_length y m = (if m = 2 then if gregorian_leap y then 29 else 28 else if m \<in> {4, 6, 9, 11} then 30 else 31)"

definition next_day :: "clocktime \<Rightarrow> clocktime" where
  "next_day ct = (let d = ct\<lparr>ct_hour := 0, ct_min := 0, ct_sec := 0, ct_dow := (ct_dow ct + 1) mod 7\<rparr>
     in if ct_day ct < month_length (ct_year ct) (ct_mon ct) then d\<lparr>ct_day := ct_day ct + 1\<rparr>
        else if ct_mon ct < 12 then d\<lparr>ct_day := 1, ct_mon := ct_mon ct + 1\<rparr>
        else d\<lparr>ct_day := 1, ct_mon := 1, ct_year := ct_year ct + 1\<rparr>)"

definition tick :: "clocktime \<Rightarrow> clocktime" where
  "tick ct =
     (if ct_sec ct < 59 then ct\<lparr>ct_sec := ct_sec ct + 1\<rparr>
      else if ct_min ct < 59 then ct\<lparr>ct_min := ct_min ct + 1, ct_sec := 0\<rparr>
      else if ct_hour ct < 23 then ct\<lparr>ct_hour := ct_hour ct + 1, ct_min := 0, ct_sec := 0\<rparr>
      else next_day ct)"

lemma leapyear_iff: "0 \<le> y \<Longrightarrow> leapyear y = (if gregorian_leap y then 1 else 0)"
proof -
  assume "0 \<le> y"
  moreover have "y AND 3 = take_bit 2 y" by (simp add: take_bit_eq_mask mask_eq_exp_minus_1)
  then have "y AND 3 = y mod 4" by (simp add: take_bit_eq_mod)
  ultimately show ?thesis
    by (auto simp: leapyear_def gregorian_leap_def dvd_eq_mod_eq_0)
qed

lemma month_length_eq: "0 \<le> y \<Longrightarrow> 1 \<le> m \<Longrightarrow> m \<le> 12 \<Longrightarrow> days_in_month y m = month_length y m"
proof -
  assume a: "0 \<le> y" "1 \<le> m" "m \<le> 12"
  then have "m \<in> {1, 2, 3, 4, 5, 6, 7, 8, 9, 10, 11, 12}" by simp presburger
  then show ?thesis using a(1) by (auto simp: days_in_month_def month_days_def month_length_def leapyear_iff)
qed

text \<open>The days and seconds since 1970 of a date, as sums over years and months.\<close>

definition epoch_days :: "clocktime \<Rightarrow> int" where
  "epoch_days ct = days_before days_in_year POSIX_BASE_YEAR (ct_year ct)
     + days_before (days_in_month (ct_year ct)) 1 (ct_mon ct) + (ct_day ct - 1)"

definition epoch_secs :: "clocktime \<Rightarrow> int" where
  "epoch_secs ct = ((epoch_days ct * 24 + ct_hour ct) * 60 + ct_min ct) * 60 + ct_sec ct"

definition valid_clocktime :: "clocktime \<Rightarrow> bool" where
  "valid_clocktime ct \<longleftrightarrow> POSIX_BASE_YEAR \<le> ct_year ct \<and> 1 \<le> ct_mon ct \<and> ct_mon ct \<le> 12
     \<and> 1 \<le> ct_day ct \<and> ct_day ct \<le> days_in_month (ct_year ct) (ct_mon ct)
     \<and> 0 \<le> ct_hour ct \<and> ct_hour ct < 24 \<and> 0 \<le> ct_min ct \<and> ct_min ct < 60 \<and> 0 \<le> ct_sec ct \<and> ct_sec ct < 60
     \<and> ct_dow ct = (epoch_days ct + 4) mod 7"

lemma epoch_days_nonneg: "valid_clocktime ct \<Longrightarrow> 0 \<le> epoch_days ct"
proof -
  assume v: "valid_clocktime ct"
  have "0 \<le> days_before days_in_year POSIX_BASE_YEAR (ct_year ct)"
    by (rule days_before_nonneg) (simp add: days_in_year_pos less_imp_le)
  moreover have "0 \<le> days_before (days_in_month (ct_year ct)) 1 (ct_mon ct)"
  proof (rule days_before_nonneg)
    fix j assume "1 \<le> j" "j < ct_mon ct"
    then show "0 \<le> days_in_month (ct_year ct) j" using days_in_month_pos [of j "ct_year ct"] v by (simp add: valid_clocktime_def)
  qed
  ultimately show ?thesis using v by (simp add: epoch_days_def valid_clocktime_def)
qed

lemma ct_to_ts_valid:
  assumes "valid_clocktime ct"
  shows "clock_ct_to_ts ct = Inr \<lparr>tv_sec = epoch_secs ct, tv_nsec = ct_nsec ct\<rparr>"
proof -
  have "fold (\<lambda>i d. d + days_in_month (ct_year ct) i) [1..ct_mon ct - 1]
      (fold (\<lambda>i d. d + days_in_year i) [POSIX_BASE_YEAR..ct_year ct - 1] 0) + (ct_day ct - 1) = epoch_days ct"
    by (simp add: fold_add_upto epoch_days_def)
  then show ?thesis using assms by (simp add: clock_ct_to_ts_def valid_clocktime_def epoch_secs_def Let_def)
qed

lemma day_split:
  fixes D h m x :: int
  assumes "0 \<le> h" "h < 24" "0 \<le> m" "m < 60" "0 \<le> x" "x < 60"
  defines "r \<equiv> (h * 60 + m) * 60 + x"
  shows "(((D * 24 + h) * 60 + m) * 60 + x) div 86400 = D" "(((D * 24 + h) * 60 + m) * 60 + x) mod 86400 = r"
    "r div 3600 = h" "r mod 3600 div 60 = m" "r mod 3600 mod 60 = x"
proof -
  have t: "((D * 24 + h) * 60 + m) * 60 + x = r + 86400 * D" and "0 \<le> r" "r < 86400" using assms(1-6) by (auto simp: r_def)
  then show "(((D * 24 + h) * 60 + m) * 60 + x) div 86400 = D" "(((D * 24 + h) * 60 + m) * 60 + x) mod 86400 = r"
    unfolding t by simp_all
  have r: "r = (m * 60 + x) + 3600 * h" and "0 \<le> m * 60 + x" "m * 60 + x < 3600" using assms(3-6) by (auto simp: r_def)
  then show "r div 3600 = h" "r mod 3600 div 60 = m" "r mod 3600 mod 60 = x" unfolding r using assms(5,6) by simp_all
qed

lemma hms_join: "((D * 24 + r div 3600) * 60 + r mod 3600 div 60) * 60 + r mod 60 = D * 86400 + (r :: int)"
proof -
  define h q m x where "h = r div 3600" and "q = r mod 3600" and "m = q div 60" and "x = r mod 60"
  have "q mod 60 = x" unfolding q_def x_def by (rule mod_mod_cancel) simp
  then have "r = h * 3600 + q" "q = m * 60 + x" by (simp_all only: h_def q_def m_def div_mult_mod_eq flip: \<open>q mod 60 = x\<close>)
  then show ?thesis unfolding h_def [symmetric] q_def [symmetric] m_def [symmetric] x_def [symmetric] by simp
qed

lemma ts_to_ct_valid:
  assumes "valid_clocktime ct" and "epoch_days ct < 2 ^ 31"
  shows "clock_ts_to_ct \<lparr>tv_sec = epoch_secs ct, tv_nsec = ct_nsec ct\<rparr> = Some ct"
proof -
  note v = assms(1) [unfolded valid_clocktime_def]
  let ?d = "days_before (days_in_month (ct_year ct)) 1 (ct_mon ct) + (ct_day ct - 1)"
  have nn: "0 \<le> epoch_days ct" "0 \<le> epoch_secs ct" using epoch_days_nonneg [OF assms(1)] v by (auto simp: epoch_secs_def)
  have days: "sint (word_of_int (epoch_days ct) :: u32) = epoch_days ct"
    using nn(1) assms(2) by (simp add: signed_of_int signed_take_bit_int_eq_self)
  define r where "r = (ct_hour ct * 60 + ct_min ct) * 60 + ct_sec ct"
  have r: "0 \<le> r" using v by (simp add: r_def)
  have dm: "epoch_secs ct sdiv SECDAY = epoch_days ct" "epoch_secs ct smod SECDAY = r"
    using day_split(1,2) [of "ct_hour ct" "ct_min ct" "ct_sec ct" "epoch_days ct", folded epoch_secs_def r_def] v
      sdiv_smod_nonneg [OF nn(2), of SECDAY] by (simp_all only: zero_less_numeral)
  have hms: "r sdiv 3600 = ct_hour ct" "r smod 3600 sdiv 60 = ct_min ct" "r smod 3600 smod 60 = ct_sec ct"
    using day_split(3-5) [of "ct_hour ct" "ct_min ct" "ct_sec ct", folded r_def] v sdiv_smod_nonneg [OF r, of 3600]
      sdiv_smod_nonneg [of "r mod 3600" 60] pos_mod_sign [of 3600 r] by (simp_all only: zero_less_numeral)
  have d0: "0 \<le> days_before (days_in_month (ct_year ct)) 1 (ct_mon ct)"
    using days_in_month_pos [of _ "ct_year ct"] v by (intro days_before_nonneg) fastforce
  have "month_loop (ct_year ct) 1 ?d = Some (ct_mon ct, ct_day ct - 1)" using v by (intro month_loop_sum) simp_all
  moreover have "?d < days_in_year (ct_year ct)"
  proof -
    have "[1..12] = [1..ct_mon ct - 1] @ [ct_mon ct..12]" using v upto_split1 [of 1 "ct_mon ct" 12] by simp
    then have "days_in_year (ct_year ct) = days_before (days_in_month (ct_year ct)) 1 (ct_mon ct)
        + (\<Sum>i\<leftarrow>[ct_mon ct..12]. days_in_month (ct_year ct) i)"
      by (metis months_of_year map_append sum_list_append)
    moreover have "days_in_month (ct_year ct) (ct_mon ct) \<le> (\<Sum>i\<leftarrow>[ct_mon ct..12]. days_in_month (ct_year ct) i)"
    proof -
      have "0 \<le> days_in_month (ct_year ct) j" if "ct_mon ct + 1 \<le> j" "j \<le> 12" for j
        using days_in_month_pos [of j "ct_year ct"] v that by simp
      then have "0 \<le> (\<Sum>i\<leftarrow>[ct_mon ct + 1..12]. days_in_month (ct_year ct) i)" by (intro sum_list_nonneg) auto
      then show ?thesis using v by (simp add: upto_rec1)
    qed
    ultimately show ?thesis using v by linarith
  qed
  moreover have "year_loop POSIX_BASE_YEAR (epoch_days ct) = (ct_year ct, ?d)"
    using v d0 calculation year_loop_sum [of POSIX_BASE_YEAR "ct_year ct" ?d] by (simp add: epoch_days_def add.assoc)
  moreover have "day_of_week (epoch_days ct) = ct_dow ct" using v nn(1) by (simp add: day_of_week_def)
  ultimately show ?thesis by (simp add: clock_ts_to_ct_def Let_def dm hms days del: sdiv_smod_nonneg)
qed

lemma epoch_split:
  assumes "0 \<le> secs" and "secs < 86400 * 2 ^ 31"
  obtains ct where "valid_clocktime ct" and "epoch_secs ct = secs" and "epoch_days ct < 2 ^ 31" and "ct_nsec ct = nsec"
proof -
  define D r where "D = secs div 86400" and "r = secs mod 86400"
  have D: "0 \<le> D" "D < 2 ^ 31" using assms by (auto simp: D_def)
  obtain y d where y: "POSIX_BASE_YEAR \<le> y" "D = days_before days_in_year POSIX_BASE_YEAR y + d" "0 \<le> d" "d < days_in_year y"
    by (rule year_loop_split [OF D(1), of POSIX_BASE_YEAR])
  obtain m e where m: "1 \<le> m" "m \<le> 12" "d = days_before (days_in_month y) 1 m + e" "0 \<le> e" "e < days_in_month y m"
    by (rule month_split [of d y 1]) (use y in \<open>simp_all add: months_of_year\<close>)
  define hh mm ss where "hh = r div 3600" and "mm = r mod 3600 div 60" and "ss = r mod 60"
  let ?ct = "\<lparr>ct_year = y, ct_mon = m, ct_day = e + 1, ct_hour = hh, ct_min = mm, ct_sec = ss, ct_dow = (D + 4) mod 7, ct_nsec = nsec\<rparr>"
  have days: "epoch_days ?ct = D" unfolding epoch_days_def y(2) m(3) by simp
  have "0 \<le> r" "r < 86400" by (simp_all add: r_def)
  then have h: "0 \<le> hh" "hh < 24" by (simp_all add: hh_def pos_imp_zdiv_nonneg_iff)
  have n: "0 \<le> mm" "mm < 60"
    using pos_mod_bound [of 3600 r] pos_mod_sign [of 3600 r] by (simp_all add: mm_def pos_imp_zdiv_nonneg_iff)
  have x: "0 \<le> ss" "ss < 60" by (simp_all add: ss_def)
  have "valid_clocktime ?ct" unfolding valid_clocktime_def days using y(1) m h n x by simp
  moreover have "((D * 24 + hh) * 60 + mm) * 60 + ss = D * 86400 + r" unfolding hh_def mm_def ss_def by (rule hms_join)
  then have "epoch_secs ?ct = secs" unfolding epoch_secs_def days by (simp only: clocktime.simps D_def r_def div_mult_mod_eq)
  ultimately show thesis using that [of ?ct] D(2) days by simp
qed

lemma days_before_snoc: "a \<le> b \<Longrightarrow> days_before f a (b + 1) = days_before f a b + f b"
  using upto_rec2 [of a b] by simp

lemma epoch_next_day:
  assumes "valid_clocktime ct"
  shows "valid_clocktime (next_day ct)" "epoch_days (next_day ct) = epoch_days ct + 1"
proof -
  note v = assms [unfolded valid_clocktime_def]
  have len: "days_in_month (ct_year ct) (ct_mon ct) = month_length (ct_year ct) (ct_mon ct)" using v by (intro month_length_eq) simp_all
  show days: "epoch_days (next_day ct) = epoch_days ct + 1"
  proof (cases "ct_day ct < month_length (ct_year ct) (ct_mon ct)")
    case False
    then have last: "ct_day ct = days_in_month (ct_year ct) (ct_mon ct)" using v len by simp
    have "days_before (days_in_month (ct_year ct)) 1 (ct_mon ct) + days_in_month (ct_year ct) (ct_mon ct) = days_in_year (ct_year ct)"
      if "ct_mon ct = 12" using days_before_snoc [of 1 12 "days_in_month (ct_year ct)"] months_of_year [of "ct_year ct"] that by simp
    then show ?thesis
      using False last v days_before_snoc [of 1 "ct_mon ct" "days_in_month (ct_year ct)"]
        days_before_snoc [of POSIX_BASE_YEAR "ct_year ct" days_in_year]
      by (auto simp: next_day_def epoch_days_def Let_def)
  qed (simp add: next_day_def epoch_days_def Let_def)
  have "ct_dow (next_day ct) = (epoch_days ct + 4 + 1) mod 7"
    using v by (simp add: next_day_def Let_def mod_add_left_eq)
  then have dow: "ct_dow (next_day ct) = (epoch_days (next_day ct) + 4) mod 7" by (simp add: days algebra_simps)
  have pos: "1 \<le> days_in_month y m" if "1 \<le> m" "m \<le> 12" for y m using days_in_month_pos [OF that, of y] by simp
  consider "ct_day ct < month_length (ct_year ct) (ct_mon ct)"
    | "\<not> ct_day ct < month_length (ct_year ct) (ct_mon ct)" "ct_mon ct < 12"
    | "\<not> ct_day ct < month_length (ct_year ct) (ct_mon ct)" "\<not> ct_mon ct < 12" by blast
  then have date: "POSIX_BASE_YEAR \<le> ct_year (next_day ct) \<and> 1 \<le> ct_mon (next_day ct) \<and> ct_mon (next_day ct) \<le> 12
      \<and> 1 \<le> ct_day (next_day ct) \<and> ct_day (next_day ct) \<le> days_in_month (ct_year (next_day ct)) (ct_mon (next_day ct))"
    by cases (use v len in \<open>simp_all add: next_day_def Let_def pos\<close>)
  have "ct_hour (next_day ct) = 0 \<and> ct_min (next_day ct) = 0 \<and> ct_sec (next_day ct) = 0" by (simp add: next_day_def Let_def)
  then show "valid_clocktime (next_day ct)" unfolding valid_clocktime_def using date dow by simp
qed

lemma epoch_tick:
  assumes "valid_clocktime ct"
  shows "valid_clocktime (tick ct)" "epoch_secs (tick ct) = epoch_secs ct + 1"
proof -
  note v = assms [unfolded valid_clocktime_def]
  have d: "epoch_days (ct\<lparr>ct_sec := a\<rparr>) = epoch_days ct" "epoch_days (ct\<lparr>ct_min := b, ct_sec := a\<rparr>) = epoch_days ct"
    "epoch_days (ct\<lparr>ct_hour := c, ct_min := b, ct_sec := a\<rparr>) = epoch_days ct" for a b c
    by (simp_all add: epoch_days_def)
  have n: "ct_hour (next_day ct) = 0" "ct_min (next_day ct) = 0" "ct_sec (next_day ct) = 0" by (simp_all add: next_day_def Let_def)
  show "valid_clocktime (tick ct)" using v d epoch_next_day(1) [OF assms] by (simp add: tick_def valid_clocktime_def)
  show "epoch_secs (tick ct) = epoch_secs ct + 1"
    using v d n epoch_next_day(2) [OF assms] by (simp add: tick_def epoch_secs_def)
qed



end
