(* ===== verification/Vrtc.thy ===== *)
theory Vrtc
  imports Calendar Vhpet
begin

text \<open>
  The MC146818 real-time clock (\<open>src/vmm/io/vrtc.c\<close>): the date and time fields in their four formats, the alarm, periodic and update
  interrupts over one callout, and the two ports. The calendar clock of the host is an argument (\<open>wall\<close>): its
  seconds are 32 bits wide.
\<close>

subsection \<open>Registers\<close>

abbreviation (input) RTC_CENTURY :: nat where "RTC_CENTURY \<equiv> 0x32"
abbreviation (input) RTC_IRQ :: int where "RTC_IRQ \<equiv> 8"
abbreviation (input) RTCSB_24HR :: u8 where "RTCSB_24HR \<equiv> 0x02"
abbreviation (input) RTCSB_BIN :: u8 where "RTCSB_BIN \<equiv> 0x04"
abbreviation (input) RTCSB_SQWE :: u8 where "RTCSB_SQWE \<equiv> 0x08"
abbreviation (input) RTCSB_UINTR :: u8 where "RTCSB_UINTR \<equiv> 0x10"
abbreviation (input) RTCSB_AINTR :: u8 where "RTCSB_AINTR \<equiv> 0x20"
abbreviation (input) RTCSB_PINTR :: u8 where "RTCSB_PINTR \<equiv> 0x40"
abbreviation (input) RTCSB_HALT :: u8 where "RTCSB_HALT \<equiv> 0x80"
abbreviation (input) RTCSB_ALL_INTRS :: u8 where "RTCSB_ALL_INTRS \<equiv> 0x70"
abbreviation (input) RTCIR_UPDATE :: u8 where "RTCIR_UPDATE \<equiv> 0x10"
abbreviation (input) RTCIR_ALARM :: u8 where "RTCIR_ALARM \<equiv> 0x20"
abbreviation (input) RTCIR_PERIOD :: u8 where "RTCIR_PERIOD \<equiv> 0x40"
abbreviation (input) RTCIR_INT :: u8 where "RTCIR_INT \<equiv> 0x80"
abbreviation (input) VRTC_BROKEN_TIME :: int where "VRTC_BROKEN_TIME \<equiv> -1"
abbreviation (input) VRTC_HANDLER :: nat where "VRTC_HANDLER \<equiv> 3"
abbreviation (input) SBT_1S :: sbintime where "SBT_1S \<equiv> 0x100000000"

text \<open>The fields of \<open>struct rtcdev\<close> by their offsets.\<close>

abbreviation (input) rtc_sec :: nat where "rtc_sec \<equiv> 0"
abbreviation (input) rtc_alarm_sec :: nat where "rtc_alarm_sec \<equiv> 1"
abbreviation (input) rtc_min :: nat where "rtc_min \<equiv> 2"
abbreviation (input) rtc_alarm_min :: nat where "rtc_alarm_min \<equiv> 3"
abbreviation (input) rtc_hour :: nat where "rtc_hour \<equiv> 4"
abbreviation (input) rtc_alarm_hour :: nat where "rtc_alarm_hour \<equiv> 5"
abbreviation (input) rtc_day_of_week :: nat where "rtc_day_of_week \<equiv> 6"
abbreviation (input) rtc_day_of_month :: nat where "rtc_day_of_month \<equiv> 7"
abbreviation (input) rtc_month :: nat where "rtc_month \<equiv> 8"
abbreviation (input) rtc_year :: nat where "rtc_year \<equiv> 9"
abbreviation (input) rtc_reg_a :: nat where "rtc_reg_a \<equiv> 10"
abbreviation (input) rtc_reg_b :: nat where "rtc_reg_b \<equiv> 11"
abbreviation (input) rtc_reg_c :: nat where "rtc_reg_c \<equiv> 12"
abbreviation (input) rtc_reg_d :: nat where "rtc_reg_d \<equiv> 13"

abbreviation reg_b :: "vrtc \<Rightarrow> u8" where "reg_b r \<equiv> rtc_dev r rtc_reg_b"

definition rtc_halted :: "vrtc \<Rightarrow> bool" where "rtc_halted r \<longleftrightarrow> reg_b r AND RTCSB_HALT \<noteq> 0"
definition aintr_enabled :: "vrtc \<Rightarrow> bool" where "aintr_enabled r \<longleftrightarrow> reg_b r AND RTCSB_AINTR \<noteq> 0"
definition pintr_enabled :: "vrtc \<Rightarrow> bool" where "pintr_enabled r \<longleftrightarrow> reg_b r AND RTCSB_PINTR \<noteq> 0"
definition uintr_enabled :: "vrtc \<Rightarrow> bool" where "uintr_enabled r \<longleftrightarrow> reg_b r AND RTCSB_UINTR \<noteq> 0"

definition set_dev :: "nat \<Rightarrow> u8 \<Rightarrow> vrtc \<Rightarrow> vrtc" where
  "set_dev off x r = r\<lparr>rtc_dev := (rtc_dev r)(off := x)\<rparr>"

definition divider_enabled :: "u8 \<Rightarrow> bool" where
  "divider_enabled reg_a \<longleftrightarrow> reg_a AND 0x70 = 0x20"

definition update_enabled :: "vrtc \<Rightarrow> bool" where
  "update_enabled r \<longleftrightarrow> divider_enabled (rtc_dev r rtc_reg_a) \<and> \<not> rtc_halted r \<and> rtc_base_rtctime r \<noteq> VRTC_BROKEN_TIME"

definition vrtc_curtime :: "timebase \<Rightarrow> u64 \<Rightarrow> vrtc \<Rightarrow> (int \<times> sbintime) option" where
  "vrtc_curtime tb mat r =
     (if update_enabled r then
        let delta = sbinuptime tb mat - rtc_base_uptime r
        in if sint delta < 0 then None
           else let secs = sint delta sdiv sint SBT_1S
                in Some (rtc_base_rtctime r + secs, rtc_base_uptime r + word_of_int secs * SBT_1S)
      else Some (rtc_base_rtctime r, rtc_base_uptime r))"

definition bin2bcd_data :: "u8 list" where
  "bin2bcd_data = [
     0x00, 0x01, 0x02, 0x03, 0x04, 0x05, 0x06, 0x07, 0x08, 0x09,
     0x10, 0x11, 0x12, 0x13, 0x14, 0x15, 0x16, 0x17, 0x18, 0x19,
     0x20, 0x21, 0x22, 0x23, 0x24, 0x25, 0x26, 0x27, 0x28, 0x29,
     0x30, 0x31, 0x32, 0x33, 0x34, 0x35, 0x36, 0x37, 0x38, 0x39,
     0x40, 0x41, 0x42, 0x43, 0x44, 0x45, 0x46, 0x47, 0x48, 0x49,
     0x50, 0x51, 0x52, 0x53, 0x54, 0x55, 0x56, 0x57, 0x58, 0x59,
     0x60, 0x61, 0x62, 0x63, 0x64, 0x65, 0x66, 0x67, 0x68, 0x69,
     0x70, 0x71, 0x72, 0x73, 0x74, 0x75, 0x76, 0x77, 0x78, 0x79,
     0x80, 0x81, 0x82, 0x83, 0x84, 0x85, 0x86, 0x87, 0x88, 0x89,
     0x90, 0x91, 0x92, 0x93, 0x94, 0x95, 0x96, 0x97, 0x98, 0x99]"

definition rtcset :: "vrtc \<Rightarrow> int \<Rightarrow> u8 option" where
  "rtcset r val =
     (if \<not> (val \<ge> 0 \<and> val < 100) then None
      else Some (if reg_b r AND RTCSB_BIN \<noteq> 0 then word_of_int val else bin2bcd_data ! nat val))"

text \<open>One field of the date, set in the current format.\<close>

definition put_field :: "nat \<Rightarrow> int \<Rightarrow> vrtc \<Rightarrow> vrtc option" where
  "put_field off val r = map_option (\<lambda>x. set_dev off x r) (rtcset r val)"

text \<open>
  The argument \<open>rtctime\<close> is only tested for \<open>VRTC_BROKEN_TIME\<close>: the fields are set from the host's calendar
  clock, which \<open>clock_get_time\<close> reads; its nanoseconds go nowhere.
\<close>

definition hour12 :: "vrtc \<Rightarrow> int \<Rightarrow> int" where
  "hour12 r hour = (if reg_b r AND RTCSB_24HR \<noteq> 0 then hour else if hour = 0 \<or> hour = 12 then 12 else hour smod 12)"

definition put_hour :: "int \<Rightarrow> vrtc \<Rightarrow> vrtc option" where
  "put_hour hour r =
     map_option (\<lambda>r1. if reg_b r1 AND RTCSB_24HR = 0 \<and> hour \<ge> 12 then set_dev rtc_hour (rtc_dev r1 rtc_hour OR 0x80) r1 else r1)
       (put_field rtc_hour (hour12 r hour) r)"

definition clocktime_checks :: "clocktime \<Rightarrow> bool" where
  "clocktime_checks ct \<longleftrightarrow> 0 \<le> ct_sec ct \<and> ct_sec ct \<le> 59 \<and> 0 \<le> ct_min ct \<and> ct_min ct \<le> 59 \<and> 0 \<le> ct_hour ct \<and> ct_hour ct \<le> 23
     \<and> 0 \<le> ct_dow ct \<and> ct_dow ct \<le> 6 \<and> 1 \<le> ct_day ct \<and> ct_day ct \<le> 31 \<and> 1 \<le> ct_mon ct \<and> ct_mon ct \<le> 12 \<and> 1900 \<le> ct_year ct"

definition secs_to_rtc :: "u32 \<Rightarrow> int \<Rightarrow> bool \<Rightarrow> vrtc \<Rightarrow> vrtc option" where
  "secs_to_rtc wall rtctime force_update r =
     (if rtctime < 0 then if rtctime = VRTC_BROKEN_TIME then Some r else None
      else if rtc_halted r \<and> \<not> force_update then Some r
      else Option.bind (clock_ts_to_ct \<lparr>tv_sec = uint wall, tv_nsec = 0\<rparr>) (\<lambda>ct.
           if \<not> clocktime_checks ct then None
           else Option.bind (put_field rtc_sec (ct_sec ct) r) (\<lambda>r.
                Option.bind (put_field rtc_min (ct_min ct) r) (\<lambda>r.
                Option.bind (put_hour (ct_hour ct) r) (\<lambda>r.
                Option.bind (put_field rtc_day_of_week (ct_dow ct + 1) r) (\<lambda>r.
                Option.bind (put_field rtc_day_of_month (ct_day ct) r) (\<lambda>r.
                Option.bind (put_field rtc_month (ct_mon ct) r) (\<lambda>r.
                Option.bind (put_field rtc_year (ct_year ct smod 100) r)
                  (put_field RTC_CENTURY (ct_year ct sdiv 100))))))))))"

text \<open>\<open>None\<close> is the error \<open>-1\<close>.\<close>

definition rtcget :: "vrtc \<Rightarrow> int \<Rightarrow> int option" where
  "rtcget r val =
     (if reg_b r AND RTCSB_BIN \<noteq> 0 then Some val
      else let lower = val AND 0xf; upper = drop_bit 4 val AND 0xf
           in if lower > 9 \<or> upper > 9 then None else Some (upper * 10 + lower))"

definition get_field :: "vrtc \<Rightarrow> nat \<Rightarrow> int option" where
  "get_field r off = rtcget r (uint (rtc_dev r off))"

text \<open>
  The hour in the 24-hour representation. In C the error of \<open>rtcget\<close> is tested only after the conversion; until
  then \<open>ct.hour\<close> is 0, which the 12-hour format rejects.
\<close>

definition get_hour :: "vrtc \<Rightarrow> int option" where
  "get_hour r =
     (if reg_b r AND RTCSB_24HR = 0 then
        let hour = rtc_dev r rtc_hour; pm = hour AND 0x80 \<noteq> 0
        in Option.bind (rtcget r (uint (hour AND NOT 0x80))) (\<lambda>h.
             if h \<ge> 1 \<and> h \<le> 12 then Some ((if h = 12 then 0 else h) + (if pm then 12 else 0)) else None)
      else get_field r rtc_hour)"

definition in_range :: "int \<Rightarrow> int \<Rightarrow> int option \<Rightarrow> int option" where
  "in_range lo hi x = Option.bind x (\<lambda>n. if n < lo \<or> n > hi then None else Some n)"

definition rtc_fields :: "vrtc \<Rightarrow> clocktime option" where
  "rtc_fields r =
     Option.bind (in_range 0 59 (get_field r rtc_sec)) (\<lambda>sec.
     Option.bind (in_range 0 59 (get_field r rtc_min)) (\<lambda>min.
     Option.bind (in_range 0 23 (get_hour r)) (\<lambda>hour.
     Option.bind (in_range 1 31 (get_field r rtc_day_of_month)) (\<lambda>day.
     Option.bind (in_range 1 12 (get_field r rtc_month)) (\<lambda>mon.
     Option.bind (in_range 0 99 (get_field r rtc_year)) (\<lambda>year.
     Option.bind (get_field r RTC_CENTURY) (\<lambda>century.
       if century * 100 + year < 1900 then None
       else Some \<lparr>ct_year = century * 100 + year, ct_mon = mon, ct_day = day, ct_hour = hour, ct_min = min,
                   ct_sec = sec, ct_dow = -1, ct_nsec = 0\<rparr>)))))))"

definition rtc_to_secs :: "vrtc \<Rightarrow> int" where
  "rtc_to_secs r =
     (case rtc_fields r of None \<Rightarrow> VRTC_BROKEN_TIME
      | Some ct \<Rightarrow> (case clock_ct_to_ts ct of Inl _ \<Rightarrow> VRTC_BROKEN_TIME
                   | Inr ts \<Rightarrow> if tv_sec ts < 0 then VRTC_BROKEN_TIME else tv_sec ts))"

subsection \<open>Interrupts and the callout\<close>

definition vrtc_set_reg_c :: "u8 \<Rightarrow> vm \<Rightarrow> vm option" where
  "vrtc_set_reg_c newval0 v =
     (let r = vm_vrtc v;
          newval = newval0 AND (RTCIR_ALARM OR RTCIR_PERIOD OR RTCIR_UPDATE);
          oldirqf = rtc_dev r rtc_reg_c AND RTCIR_INT;
          newirqf = (if (aintr_enabled r \<and> newval AND RTCIR_ALARM \<noteq> 0) \<or> (pintr_enabled r \<and> newval AND RTCIR_PERIOD \<noteq> 0)
                        \<or> (uintr_enabled r \<and> newval AND RTCIR_UPDATE \<noteq> 0) then RTCIR_INT else 0);
          v1 = upd_vrtc (set_dev rtc_reg_c (newirqf OR newval)) v
      in if oldirqf = 0 \<and> newirqf \<noteq> 0
         then Option.bind (vatpic_pulse_irq RTC_IRQ v1) (\<lambda>(v2, _). map_option fst (vioapic_pulse_irq RTC_IRQ v2))
         else Some v1)"

text \<open>
  The loop of \<open>vrtc_time_update\<close>: with the alarm enabled and a valid old time it visits every second up to
  the new time. It does not end when the new time lies before the old one. The alarm fields are those
  of before the loop.
\<close>

definition alarm_matches :: "(nat \<Rightarrow> u8) \<Rightarrow> vrtc \<Rightarrow> bool" where
  "alarm_matches dev0 r \<longleftrightarrow>
     (dev0 rtc_alarm_sec \<ge> 0xC0 \<or> dev0 rtc_alarm_sec = rtc_dev r rtc_sec)
     \<and> (dev0 rtc_alarm_min \<ge> 0xC0 \<or> dev0 rtc_alarm_min = rtc_dev r rtc_min)
     \<and> (dev0 rtc_alarm_hour \<ge> 0xC0 \<or> dev0 rtc_alarm_hour = rtc_dev r rtc_hour)"

definition visit_second :: "u32 \<Rightarrow> int \<Rightarrow> int \<Rightarrow> (nat \<Rightarrow> u8) \<Rightarrow> vm \<Rightarrow> vm option" where
  "visit_second wall oldtime newtime dev0 v =
     (let v1 = upd_vrtc (\<lambda>r. r\<lparr>rtc_base_rtctime :=
                 (if aintr_enabled r \<and> oldtime \<noteq> VRTC_BROKEN_TIME then rtc_base_rtctime r + 1 else newtime)\<rparr>) v
      in if aintr_enabled (vm_vrtc v1) then
           Option.bind (secs_to_rtc wall (rtc_base_rtctime (vm_vrtc v1)) False (vm_vrtc v1)) (\<lambda>r.
             let v2 = upd_vrtc (\<lambda>_. r) v1
             in if alarm_matches dev0 r then vrtc_set_reg_c (rtc_dev r rtc_reg_c OR RTCIR_ALARM) v2 else Some v2)
         else Some v1)"

partial_function (option) update_loop :: "u32 \<Rightarrow> int \<Rightarrow> int \<Rightarrow> (nat \<Rightarrow> u8) \<Rightarrow> vm \<Rightarrow> vm option" where
  "update_loop wall oldtime newtime dev0 v =
     Option.bind (visit_second wall oldtime newtime dev0 v) (\<lambda>v1.
       if rtc_base_rtctime (vm_vrtc v1) \<noteq> newtime then update_loop wall oldtime newtime dev0 v1 else Some v1)"

definition vrtc_time_update :: "u32 \<Rightarrow> int \<Rightarrow> sbintime \<Rightarrow> vm \<Rightarrow> (vm \<times> int) option" where
  "vrtc_time_update wall newtime newbase v =
     (let oldtime = rtc_base_rtctime (vm_vrtc v); dev0 = rtc_dev (vm_vrtc v);
          v1 = upd_vrtc (\<lambda>r. r\<lparr>rtc_base_uptime := newbase\<rparr>) v
      in if newtime = oldtime then Some (v1, 0)
         else if newtime = VRTC_BROKEN_TIME then Some (upd_vrtc (\<lambda>r. r\<lparr>rtc_base_rtctime := VRTC_BROKEN_TIME\<rparr>) v1, 0)
         else if rtc_halted (vm_vrtc v1) then Some (v1, EBUSY)
         else Option.bind (update_loop wall oldtime newtime dev0 v1) (\<lambda>v2.
              if uintr_enabled (vm_vrtc v2)
              then map_option (\<lambda>v3. (v3, 0)) (vrtc_set_reg_c (rtc_dev (vm_vrtc v2) rtc_reg_c OR RTCIR_UPDATE) v2)
              else Some (v2, 0)))"

definition pf :: "sbintime list" where
  "pf = [0, SBT_1S div 256, SBT_1S div 128, SBT_1S div 8192, SBT_1S div 4096, SBT_1S div 2048, SBT_1S div 1024,
     SBT_1S div 512, SBT_1S div 256, SBT_1S div 128, SBT_1S div 64, SBT_1S div 32, SBT_1S div 16, SBT_1S div 8,
     SBT_1S div 4, SBT_1S div 2]"

definition vrtc_freq :: "vrtc \<Rightarrow> sbintime" where
  "vrtc_freq r =
     (if pintr_enabled r \<and> divider_enabled (rtc_dev r rtc_reg_a) then pf ! unat (rtc_dev r rtc_reg_a AND 0xf)
      else if aintr_enabled r \<and> update_enabled r then SBT_1S
      else if uintr_enabled r \<and> update_enabled r then SBT_1S
      else 0)"

definition vrtc_callout_reset :: "u64 \<Rightarrow> sbintime \<Rightarrow> vm \<Rightarrow> vm option" where
  "vrtc_callout_reset mat freqsbt v =
     (if freqsbt = 0 then
        Some (if rtc_active v then with_callouts (callout_stop vrtc_callout (vm_callouts v)) v else v)
      else map_option (\<lambda>s. with_callouts s v)
             (callout_reset_sbt (vm_timebase v) mat vrtc_callout freqsbt VRTC_HANDLER 0 (vm_callouts v)))"

definition vrtc_callout_handler :: "u64 \<Rightarrow> u32 \<Rightarrow> vm \<Rightarrow> vm option" where
  "vrtc_callout_handler mat wall v =
     (if callout_pending (cs_store (vm_callouts v) vrtc_callout) then Some v
      else if \<not> rtc_active v then Some v
      else let v1 = with_callouts (upd vrtc_callout callout_deactivate (vm_callouts v)) v
           in if reg_b (vm_vrtc v1) AND RTCSB_ALL_INTRS = 0 then None
              else Option.bind (if pintr_enabled (vm_vrtc v1)
                                then vrtc_set_reg_c (rtc_dev (vm_vrtc v1) rtc_reg_c OR RTCIR_PERIOD) v1 else Some v1) (\<lambda>v2.
                   Option.bind (if aintr_enabled (vm_vrtc v2) \<or> uintr_enabled (vm_vrtc v2)
                                then Option.bind (vrtc_curtime (vm_timebase v2) mat (vm_vrtc v2)) (\<lambda>(rtctime, basetime).
                                     Option.bind (vrtc_time_update wall rtctime basetime v2) (\<lambda>(v3, error).
                                       if error \<noteq> 0 then None else Some v3))
                                else Some v2) (\<lambda>v3.
                   let freqsbt = vrtc_freq (vm_vrtc v3)
                   in if freqsbt = 0 then None else vrtc_callout_reset mat freqsbt v3)))"

definition vrtc_callout_check :: "sbintime \<Rightarrow> vm \<Rightarrow> vm option" where
  "vrtc_callout_check freq v = (if (freq = 0 \<and> \<not> rtc_active v) \<or> (freq \<noteq> 0 \<and> rtc_active v) then Some v else None)"

definition callout_adjust :: "u64 \<Rightarrow> sbintime \<Rightarrow> vm \<Rightarrow> vm option" where
  "callout_adjust mat oldfreq v =
     (let newfreq = vrtc_freq (vm_vrtc v)
      in if newfreq \<noteq> oldfreq then vrtc_callout_reset mat newfreq v else vrtc_callout_check newfreq v)"

text \<open>The part of \<open>vrtc_set_reg_b\<close> that a change of \<open>RTCSB_HALT\<close> triggers; \<open>rtc_flag_broken_time\<close> is 1 throughout.\<close>

definition halt_changed :: "u64 \<Rightarrow> u32 \<Rightarrow> u8 \<Rightarrow> vm \<Rightarrow> (vm \<times> int) option" where
  "halt_changed mat wall newval v =
     (let check = (\<lambda>(v1, error :: int). if error \<noteq> 0 then None else Some (v1, 0))
      in if newval AND RTCSB_HALT = 0 then
           let rtctime = rtc_to_secs (vm_vrtc v)
           in if rtctime = VRTC_BROKEN_TIME then Some (v, -1)
              else Option.bind (vrtc_time_update wall rtctime (sbinuptime (vm_timebase v) mat) v) check
         else Option.bind (vrtc_curtime (vm_timebase v) mat (vm_vrtc v)) (\<lambda>(curtime, basetime).
              if curtime \<noteq> rtc_base_rtctime (vm_vrtc v) then None
              else Option.bind (secs_to_rtc wall curtime True (vm_vrtc v)) (\<lambda>r.
                   Option.bind (vrtc_time_update wall VRTC_BROKEN_TIME basetime
                                 (upd_vrtc (\<lambda>_. set_dev rtc_reg_b (reg_b r AND NOT RTCSB_UINTR) r) v)) check)))"

definition vrtc_set_reg_b :: "u64 \<Rightarrow> u32 \<Rightarrow> u8 \<Rightarrow> vm \<Rightarrow> (vm \<times> int) option" where
  "vrtc_set_reg_b mat wall newval v =
     (let oldval = reg_b (vm_vrtc v); oldfreq = vrtc_freq (vm_vrtc v);
          v1 = upd_vrtc (set_dev rtc_reg_b newval) v; changed = oldval XOR newval
      in Option.bind (if changed AND RTCSB_HALT \<noteq> 0 then halt_changed mat wall newval v1 else Some (v1, 0)) (\<lambda>(v2, error).
         if error \<noteq> 0 then Some (v2, error)
         else Option.bind (if changed AND RTCSB_ALL_INTRS \<noteq> 0 then vrtc_set_reg_c (rtc_dev (vm_vrtc v2) rtc_reg_c) v2 else Some v2) (\<lambda>v3.
              map_option (\<lambda>v4. (v4, 0)) (callout_adjust mat oldfreq v3))))"

definition vrtc_set_reg_a :: "u64 \<Rightarrow> u8 \<Rightarrow> vm \<Rightarrow> vm option" where
  "vrtc_set_reg_a mat newval0 v =
     (let newval = newval0 AND NOT 0x80; oldval = rtc_dev (vm_vrtc v) rtc_reg_a; oldfreq = vrtc_freq (vm_vrtc v);
          v1 = (if \<not> divider_enabled oldval \<and> divider_enabled newval
                then upd_vrtc (\<lambda>r. r\<lparr>rtc_base_uptime := sbinuptime (vm_timebase v) mat\<rparr>) v else v)
      in callout_adjust mat oldfreq (upd_vrtc (set_dev rtc_reg_a newval) v1))"

subsection \<open>The interface to host and guest\<close>

definition vrtc_set_time :: "u64 \<Rightarrow> u32 \<Rightarrow> int \<Rightarrow> vm \<Rightarrow> (vm \<times> int) option" where
  "vrtc_set_time mat wall secs v = vrtc_time_update wall secs (sbinuptime (vm_timebase v) mat) v"

definition vrtc_get_time :: "u64 \<Rightarrow> vm \<Rightarrow> int option" where
  "vrtc_get_time mat v = map_option fst (vrtc_curtime (vm_timebase v) mat (vm_vrtc v))"

text \<open>A negative offset is a huge one after the conversion to \<open>unsigned long\<close>.\<close>

definition vrtc_nvram_write :: "int \<Rightarrow> u8 \<Rightarrow> vm \<Rightarrow> vm \<times> int" where
  "vrtc_nvram_write offset val v =
     (if offset < 14 \<or> offset = int RTC_CENTURY \<or> offset \<ge> 128 then (v, EINVAL)
      else (upd_vrtc (set_dev (nat offset) val) v, 0))"

text \<open>\<open>Inl\<close> is the error code, \<open>Inr\<close> the byte.\<close>

definition vrtc_nvram_read :: "u64 \<Rightarrow> u32 \<Rightarrow> int \<Rightarrow> vm \<Rightarrow> (vm \<times> (int + u8)) option" where
  "vrtc_nvram_read mat wall offset v =
     (if offset < 0 \<or> offset \<ge> 128 then Some (v, Inl EINVAL)
      else Option.bind (if offset < 10 \<or> offset = int RTC_CENTURY
                        then Option.bind (vrtc_curtime (vm_timebase v) mat (vm_vrtc v)) (\<lambda>(curtime, _).
                             map_option (\<lambda>r. upd_vrtc (\<lambda>_. r) v) (secs_to_rtc wall curtime False (vm_vrtc v)))
                        else Some v) (\<lambda>v1. Some (v1, Inr (rtc_dev (vm_vrtc v1) (nat offset)))))"

definition vrtc_addr_handler :: "bool \<Rightarrow> int \<Rightarrow> u32 \<Rightarrow> vm \<Rightarrow> vm \<times> u32 \<times> int" where
  "vrtc_addr_handler dir_in bytes val v =
     (if bytes \<noteq> 1 then (v, val, -1)
      else if dir_in then (v, 0xff, 0)
      else (upd_vrtc (\<lambda>r. r\<lparr>rtc_addr := val AND 0x7f\<rparr>) v, val, 0))"

definition rtc_data_read :: "nat \<Rightarrow> vm \<Rightarrow> (vm \<times> u32) option" where
  "rtc_data_read offset v =
     (if offset = rtc_reg_c then map_option (\<lambda>v1. (v1, ucast (rtc_dev (vm_vrtc v) rtc_reg_c))) (vrtc_set_reg_c 0 v)
      else Some (v, ucast (rtc_dev (vm_vrtc v) offset)))"

definition rtc_data_write :: "u64 \<Rightarrow> u32 \<Rightarrow> nat \<Rightarrow> u32 \<Rightarrow> vm \<Rightarrow> (vm \<times> int) option" where
  "rtc_data_write mat wall offset val v =
     (if offset = rtc_reg_a then map_option (\<lambda>v1. (v1, 0)) (vrtc_set_reg_a mat (ucast val) v)
      else if offset = rtc_reg_b then vrtc_set_reg_b mat wall (ucast val) v
      else if offset = rtc_reg_c \<or> offset = rtc_reg_d then Some (v, 0)
      else Some (upd_vrtc (set_dev offset (ucast (if offset = rtc_sec then val AND 0x7f else val))) v, 0))"

definition rtc_century_written :: "u64 \<Rightarrow> u32 \<Rightarrow> vm \<Rightarrow> (vm \<times> int) option" where
  "rtc_century_written mat wall v =
     (let curtime = rtc_to_secs (vm_vrtc v)
      in Option.bind (vrtc_time_update wall curtime (sbinuptime (vm_timebase v) mat) v) (\<lambda>(v1, error).
         if error \<noteq> 0 then None else Some (v1, if curtime = VRTC_BROKEN_TIME then -1 else 0)))"

definition vrtc_data_handler :: "u64 \<Rightarrow> u32 \<Rightarrow> bool \<Rightarrow> int \<Rightarrow> u32 \<Rightarrow> vm \<Rightarrow> (vm \<times> u32 \<times> int) option" where
  "vrtc_data_handler mat wall dir_in bytes val v =
     (if bytes \<noteq> 1 then Some (v, val, -1)
      else let offset = unat (rtc_addr (vm_vrtc v))
           in if offset \<ge> 128 then Some (v, val, -1)
              else Option.bind (vrtc_curtime (vm_timebase v) mat (vm_vrtc v)) (\<lambda>(curtime, basetime).
                   Option.bind (vrtc_time_update wall curtime basetime v) (\<lambda>(v1, _).
                   Option.bind (if offset < 10 \<or> offset = RTC_CENTURY
                                then map_option (\<lambda>r. upd_vrtc (\<lambda>_. r) v1) (secs_to_rtc wall curtime False (vm_vrtc v1))
                                else Some v1) (\<lambda>v2.
                     if dir_in then map_option (\<lambda>(v3, x). (v3, x, 0)) (rtc_data_read offset v2)
                     else Option.bind (rtc_data_write mat wall offset val v2) (\<lambda>(v3, error).
                          map_option (\<lambda>(v4, e). (v4, if offset = rtc_sec then val AND 0x7f else val, e))
                            (if offset = RTC_CENTURY \<and> \<not> rtc_halted (vm_vrtc v3)
                             then rtc_century_written mat wall v3 else Some (v3, error)))))))"

definition vrtc_reset :: "u64 \<Rightarrow> u32 \<Rightarrow> vm \<Rightarrow> vm option" where
  "vrtc_reset mat wall v =
     Option.bind (vrtc_set_reg_b mat wall (reg_b (vm_vrtc v) AND NOT (RTCSB_ALL_INTRS OR RTCSB_SQWE)) v) (\<lambda>(v1, _).
     Option.bind (vrtc_set_reg_c 0 v1) (\<lambda>v2. if rtc_active v2 then None else Some v2))"

definition vrtc_init :: "u64 \<Rightarrow> u32 \<Rightarrow> vm \<Rightarrow> vm option" where
  "vrtc_init mat wall v =
     (let v1 = upd_vrtc (\<lambda>_. vrtc_bzero\<lparr>rtc_addr := 0x0d, rtc_base_rtctime := VRTC_BROKEN_TIME,
                 rtc_dev := (rtc_dev vrtc_bzero)(rtc_reg_a := 0x20, rtc_reg_b := RTCSB_24HR, rtc_reg_c := 0, rtc_reg_d := 0x80)\<rparr>) v
      in Option.bind (vrtc_time_update wall 0 (sbinuptime (vm_timebase v) mat) v1) (\<lambda>(v2, _).
         map_option (\<lambda>r. upd_vrtc (\<lambda>_. r) v2) (secs_to_rtc wall 0 False (vm_vrtc v2))))"

subsection \<open>The date and time fields\<close>

definition rtc_enc :: "vrtc \<Rightarrow> int \<Rightarrow> u8" where
  "rtc_enc r val = (if reg_b r AND RTCSB_BIN \<noteq> 0 then word_of_int val else bin2bcd_data ! nat val)"

lemma bcd_table: "list_all (\<lambda>n. unat (bin2bcd_data ! n) < (if n < 80 then 128 else 256)
    \<and> uint (bin2bcd_data ! n) AND 0xf = int n mod 10 \<and> drop_bit 4 (uint (bin2bcd_data ! n)) AND 0xf = int n div 10) [0..<100]"
  by code_simp

lemma bcd_entry:
  assumes "0 \<le> val" and "val < 100"
  shows "uint (bin2bcd_data ! nat val) AND 0xf = val mod 10" "drop_bit 4 (uint (bin2bcd_data ! nat val)) AND 0xf = val div 10"
    "val < 80 \<Longrightarrow> bin2bcd_data ! nat val < 128"
proof -
  have "nat val \<in> set [0..<100]" using assms by simp
  then have e: "unat (bin2bcd_data ! nat val) < (if nat val < 80 then 128 else 256)
    \<and> uint (bin2bcd_data ! nat val) AND 0xf = int (nat val) mod 10 \<and> drop_bit 4 (uint (bin2bcd_data ! nat val)) AND 0xf = int (nat val) div 10"
    using bcd_table unfolding list_all_iff by blast
  then show "uint (bin2bcd_data ! nat val) AND 0xf = val mod 10" "drop_bit 4 (uint (bin2bcd_data ! nat val)) AND 0xf = val div 10"
    using assms(1) by simp_all
  show "bin2bcd_data ! nat val < 128" if "val < 80"
  proof -
    have "nat val < 80" using that by simp
    then show ?thesis using e by (simp add: word_less_nat_alt)
  qed
qed

lemma rtcget_enc:
  assumes "0 \<le> val" and "val < 100"
  shows "rtcget r (uint (rtc_enc r val)) = Some val"
proof -
  have "val mod 10 \<le> 9" "val div 10 \<le> 9" using assms by auto
  then show ?thesis
    using bcd_entry(1,2) [OF assms] assms by (simp add: rtcget_def rtc_enc_def Let_def unsigned_of_int take_bit_int_eq_self)
qed

lemma rtc_enc_small: "0 \<le> val \<Longrightarrow> val < 80 \<Longrightarrow> rtc_enc r val < 128"
  using bcd_entry(3) [of val] by (auto simp: rtc_enc_def word_less_def unsigned_of_int take_bit_int_eq_self)

lemma put_field_enc: "0 \<le> val \<Longrightarrow> val < 100 \<Longrightarrow> put_field off val r = Some (set_dev off (rtc_enc r val) r)"
  by (simp add: put_field_def rtcset_def rtc_enc_def)

lemma set_dev_simps [simp]:
  "rtc_dev (set_dev off x r) = (rtc_dev r)(off := x)" "rtc_base_rtctime (set_dev off x r) = rtc_base_rtctime r"
  "rtc_base_uptime (set_dev off x r) = rtc_base_uptime r" "rtc_addr (set_dev off x r) = rtc_addr r"
  by (simp_all add: set_dev_def)

lemma rtc_enc_set_dev [simp]: "off \<noteq> rtc_reg_b \<Longrightarrow> rtc_enc (set_dev off x r) val = rtc_enc r val"
  by (simp add: rtc_enc_def)

definition enc_hour :: "vrtc \<Rightarrow> int \<Rightarrow> u8" where
  "enc_hour r hour = (if reg_b r AND RTCSB_24HR = 0 \<and> hour \<ge> 12 then rtc_enc r (hour12 r hour) OR 0x80 else rtc_enc r (hour12 r hour))"

lemma hour12_range: "0 \<le> h \<Longrightarrow> h < 24 \<Longrightarrow> 0 \<le> hour12 r h \<and> hour12 r h < 24 \<and> (reg_b r AND RTCSB_24HR = 0 \<longrightarrow> 1 \<le> hour12 r h \<and> hour12 r h \<le> 12)"
  by (auto simp: hour12_def) presburger+

lemma put_hour_enc: "0 \<le> h \<Longrightarrow> h < 24 \<Longrightarrow> put_hour h r = Some (set_dev rtc_hour (enc_hour r h) r)"
  using hour12_range [of h r] by (simp add: put_hour_def put_field_enc enc_hour_def set_dev_def)

lemma enc_hour_set_dev [simp]: "off \<noteq> rtc_reg_b \<Longrightarrow> enc_hour (set_dev off x r) h = enc_hour r h"
  by (simp add: enc_hour_def hour12_def)

text \<open>The bit that marks the afternoon does not collide with the hour.\<close>

lemma pm_bit:
  fixes x :: u8
  assumes "x < 128"
  shows "(x OR 0x80) AND 0x80 \<noteq> 0" "(x OR 0x80) AND NOT 0x80 = x" "x AND 0x80 = 0" "x AND NOT 0x80 = x"
proof -
  have "\<not> bit (unat x) 7" using assms by (simp add: bit_iff_odd word_less_nat_alt)
  then have b: "\<not> bit x 7" by (simp add: bit_unsigned_iff)
  have e: "(0x80 :: u8) = BIT 7" by (simp add: BIT_def)
  show "x AND NOT 0x80 = x" unfolding e by (rule bit_word_eqI) (use b in \<open>auto simp: bit_clear_BIT\<close>)
  show "(x OR 0x80) AND NOT 0x80 = x" unfolding e by (rule bit_word_eqI) (use b in \<open>auto simp: bit_clear_BIT bit_or_BIT\<close>)
  show "x AND 0x80 = 0" unfolding e using b by simp
  show "(x OR 0x80) AND 0x80 \<noteq> 0" unfolding e by (simp add: BIT_def)
qed

lemma get_hour_enc:
  assumes "0 \<le> h" and "h < 24" and "rtc_dev r rtc_hour = enc_hour r h"
  shows "get_hour r = Some h"
proof (cases "reg_b r AND RTCSB_24HR = 0")
  case False
  then show ?thesis using assms rtcget_enc [of h r] by (simp add: get_hour_def get_field_def enc_hour_def hour12_def)
next
  case True
  note H = hour12_range [OF assms(1,2), of r] pm_bit [OF rtc_enc_small [of "hour12 r h" r]]
  have g: "rtcget r (uint (rtc_enc r (hour12 r h))) = Some (hour12 r h)" using H by (intro rtcget_enc) simp_all
  have "(if hour12 r h = 12 then 0 else hour12 r h) + (if h \<ge> 12 then 12 else 0) = h"
    using True assms(1,2) by (simp add: hour12_def) presburger
  then show ?thesis using True H g assms(3) by (auto simp: get_hour_def enc_hour_def Let_def)
qed

lemma year_bound:
  assumes "valid_clocktime ct" and "epoch_days ct < 49711"
  shows "ct_year ct < 2107"
proof -
  have "365 * (b - a) \<le> days_before days_in_year a b" if "a \<le> b" for a b
    using that
  proof (induction "nat (b - a)" arbitrary: b)
    case (Suc n)
    have "365 * (b - 1 - a) \<le> days_before days_in_year a (b - 1)" using Suc by (intro Suc.hyps) simp_all
    moreover have "days_before days_in_year a b = days_before days_in_year a (b - 1) + days_in_year (b - 1)"
      using days_before_snoc [of a "b - 1" days_in_year] Suc by simp
    moreover have "365 \<le> days_in_year (b - 1)" by (simp add: days_in_year_def)
    ultimately show ?case by simp
  qed simp
  from this [of POSIX_BASE_YEAR "ct_year ct"] have "365 * (ct_year ct - 1970) \<le> days_before days_in_year POSIX_BASE_YEAR (ct_year ct)"
    using assms(1) by (simp add: valid_clocktime_def)
  moreover have "0 \<le> days_before (days_in_month (ct_year ct)) 1 (ct_mon ct)"
  proof (rule days_before_nonneg)
    fix j assume "1 \<le> j" "j < ct_mon ct"
    then show "0 \<le> days_in_month (ct_year ct) j" using days_in_month_pos [of j "ct_year ct"] assms(1) by (simp add: valid_clocktime_def)
  qed
  ultimately show ?thesis using assms by (simp add: epoch_days_def valid_clocktime_def)
qed

lemma wall_time:
  obtains ct where "clock_ts_to_ct \<lparr>tv_sec = uint (wall :: u32), tv_nsec = 0\<rparr> = Some ct" and "valid_clocktime ct"
    and "epoch_secs ct = uint wall" and "clocktime_checks ct" and "ct_year ct < 2107" and "ct_nsec ct = 0"
proof -
  have w: "0 \<le> uint wall" "uint wall < 2 ^ 32" using uint_bounded [of wall] by simp_all
  then have b: "uint wall < 86400 * 2 ^ 31" by simp
  obtain ct where ct: "valid_clocktime ct" "epoch_secs ct = uint wall" "epoch_days ct < 2 ^ 31" "ct_nsec ct = 0"
    by (rule epoch_split [OF w(1) b])
  have v: "clocktime_checks ct"
    using ct(1) days_in_month_pos [of "ct_mon ct" "ct_year ct"] by (auto simp: valid_clocktime_def clocktime_checks_def)
  have "epoch_days ct * 86400 \<le> epoch_secs ct" using ct(1) by (simp add: epoch_secs_def valid_clocktime_def)
  then have "epoch_days ct < 49711" using ct(2) w(2) by simp
  then show thesis using that [of ct] ts_to_ct_valid [OF ct(1,3)] ct v year_bound by simp
qed

text \<open>What \<open>secs_to_rtc\<close> writes.\<close>

definition with_date :: "clocktime \<Rightarrow> vrtc \<Rightarrow> vrtc" where
  "with_date ct r = set_dev RTC_CENTURY (rtc_enc r (ct_year ct div 100)) (set_dev rtc_year (rtc_enc r (ct_year ct mod 100))
     (set_dev rtc_month (rtc_enc r (ct_mon ct)) (set_dev rtc_day_of_month (rtc_enc r (ct_day ct))
     (set_dev rtc_day_of_week (rtc_enc r (ct_dow ct + 1)) (set_dev rtc_hour (enc_hour r (ct_hour ct))
     (set_dev rtc_min (rtc_enc r (ct_min ct)) (set_dev rtc_sec (rtc_enc r (ct_sec ct)) r)))))))"

lemma secs_to_rtc_writes:
  assumes "0 \<le> t" and "\<not> rtc_halted r \<or> force"
  obtains ct where "secs_to_rtc wall t force r = Some (with_date ct r)" and "valid_clocktime ct" and "epoch_secs ct = uint wall"
    and "ct_year ct < 2107" and "ct_nsec ct = 0"
proof -
  obtain ct where ct: "clock_ts_to_ct \<lparr>tv_sec = uint wall, tv_nsec = 0\<rparr> = Some ct" "valid_clocktime ct" "epoch_secs ct = uint wall"
    "clocktime_checks ct" "ct_year ct < 2107" "ct_nsec ct = 0" by (rule wall_time)
  note v = ct(4) [unfolded clocktime_checks_def]
  have nh: "\<not> (rtc_halted r \<and> \<not> force)" using assms(2) by blast
  have y: "ct_year ct smod 100 = ct_year ct mod 100" "ct_year ct sdiv 100 = ct_year ct div 100" using v by simp_all
  have c: "0 \<le> ct_year ct div 100" "ct_year ct div 100 < 100" using v ct(5) by auto
  have "secs_to_rtc wall t force r = Some (with_date ct r)"
    using assms(1) nh ct(1,4) v c by (cases "rtc_halted r") (simp_all add: secs_to_rtc_def put_field_enc put_hour_enc y with_date_def)
  then show thesis using that ct by blast
qed

lemma with_date_simps [simp]:
  "rtc_base_rtctime (with_date ct r) = rtc_base_rtctime r" "rtc_base_uptime (with_date ct r) = rtc_base_uptime r"
  "rtc_addr (with_date ct r) = rtc_addr r"
  "off \<notin> {rtc_sec, rtc_min, rtc_hour, rtc_day_of_week, rtc_day_of_month, rtc_month, rtc_year, RTC_CENTURY} \<Longrightarrow> rtc_dev (with_date ct r) off = rtc_dev r off"
  by (simp_all add: with_date_def)

lemma with_date_enc [simp]: "rtc_enc (with_date ct r) val = rtc_enc r val" "enc_hour (with_date ct r) h = enc_hour r h"
  by (simp_all add: with_date_def)

lemma with_date_fields:
  assumes "valid_clocktime ct" and "ct_year ct < 2107"
  shows "rtc_fields (with_date ct r) = Some (ct\<lparr>ct_dow := -1, ct_nsec := 0\<rparr>)"
proof -
  note v = assms(1) [unfolded valid_clocktime_def]
  let ?w = "with_date ct r"
  have g: "get_field ?w off = Some val" if "rtc_dev ?w off = rtc_enc r val" "0 \<le> val" "val < 100" for off val
    using rtcget_enc [OF that(2,3), of ?w] that(1) by (simp add: get_field_def)
  have day: "ct_day ct \<le> 31" using v days_in_month_pos [of "ct_mon ct" "ct_year ct"] by simp
  have c: "0 \<le> ct_year ct div 100" "ct_year ct div 100 < 100" using v assms(2) by auto
  have f: "get_field ?w rtc_sec = Some (ct_sec ct)" "get_field ?w rtc_min = Some (ct_min ct)"
    "get_field ?w rtc_day_of_month = Some (ct_day ct)" "get_field ?w rtc_month = Some (ct_mon ct)"
    "get_field ?w rtc_year = Some (ct_year ct mod 100)" "get_field ?w RTC_CENTURY = Some (ct_year ct div 100)"
    by (rule g; use v day c in \<open>simp add: with_date_def\<close>)+
  have h: "get_hour ?w = Some (ct_hour ct)"
    using v by (intro get_hour_enc) (simp_all, simp add: with_date_def)
  have y: "ct_year ct div 100 * 100 + ct_year ct mod 100 = ct_year ct" by (simp only: div_mult_mod_eq)
  have "0 \<le> ct_year ct mod 100" "ct_year ct mod 100 \<le> 99" by simp_all
  then show ?thesis using v day f h by (simp add: rtc_fields_def in_range_def y)
qed

lemma rtc_fields_roundtrip_spec:
  assumes "0 \<le> rtctime" and "\<not> rtc_halted r \<or> force_update"
  shows "\<exists>r'. secs_to_rtc wall rtctime force_update r = Some r' \<and> rtc_to_secs r' = uint wall
     \<and> (\<forall>off. off \<notin> {rtc_sec, rtc_min, rtc_hour, rtc_day_of_week, rtc_day_of_month, rtc_month, rtc_year, RTC_CENTURY}
          \<longrightarrow> rtc_dev r' off = rtc_dev r off)"
proof -
  obtain ct where ct: "secs_to_rtc wall rtctime force_update r = Some (with_date ct r)" "valid_clocktime ct" "epoch_secs ct = uint wall"
    "ct_year ct < 2107" "ct_nsec ct = 0" by (rule secs_to_rtc_writes [OF assms])
  have "clock_ct_to_ts (ct\<lparr>ct_dow := -1, ct_nsec := 0\<rparr>) = clock_ct_to_ts ct" using ct(5) by (simp add: clock_ct_to_ts_def Let_def)
  then have "rtc_to_secs (with_date ct r) = uint wall"
    using with_date_fields [OF ct(2,4)] ct_to_ts_valid [OF ct(2)] ct(3) by (simp add: rtc_to_secs_def)
  then show ?thesis using ct(1) by simp
qed

text \<open>
  C35. The date and time fields read back as the time they were set to, in each of the four formats (BCD or binary, 12 or 24
  hours): when the clock refreshes them, the guest's registers denote exactly the second that the calendar
  clock of the host shows, and no other register changes.
\<close>

theorem rtc_fields_roundtrip:
  assumes "0 \<le> rtctime" and "\<not> rtc_halted r \<or> force_update"
  shows "\<exists>r'. secs_to_rtc wall rtctime force_update r = Some r' \<and> rtc_to_secs r' = uint wall
     \<and> (\<forall>off. off \<notin> {rtc_sec, rtc_min, rtc_hour, rtc_day_of_week, rtc_day_of_month, rtc_month, rtc_year, RTC_CENTURY}
          \<longrightarrow> rtc_dev r' off = rtc_dev r off)"
  using rtc_fields_roundtrip_spec [OF assms] .

theorem rtc_fields_roundtrip_witness:
  "\<exists>r'. secs_to_rtc 951782399 0 False vrtc_bzero = Some r' \<and> rtc_to_secs r' = 951782399 \<and> rtc_dev r' rtc_hour = 0x91"
proof -
  have "map_option (\<lambda>r. rtc_dev r rtc_hour) (secs_to_rtc 951782399 0 False vrtc_bzero) = Some 0x91" by code_simp
  moreover have "\<not> rtc_halted vrtc_bzero" by (simp add: rtc_halted_def vrtc_bzero_def)
  ultimately show ?thesis using rtc_fields_roundtrip [of 0 vrtc_bzero False 951782399] by auto
qed

subsection \<open>Steps of the clock\<close>

text \<open>What a step of the clock leaves of the machine around it, and the part of its own state that decides on the callout.\<close>

definition rtc_step :: "vm \<Rightarrow> vm \<Rightarrow> bool" where
  "rtc_step v v' \<longleftrightarrow> (\<forall>j. isr_frame (vm_lapic v j) (vm_lapic v' j)) \<and> (level_ok v \<longrightarrow> level_ok v')
     \<and> (vatpic_wf (vm_vatpic v) \<longrightarrow> vatpic_wf (vm_vatpic v')) \<and> vm_vatpit v' = vm_vatpit v \<and> vm_vhpet v' = vm_vhpet v \<and> vm_vpmtmr v' = vm_vpmtmr v
     \<and> vm_timebase v' = vm_timebase v \<and> vm_callouts v' = vm_callouts v"

definition rtc_ctl :: "vrtc \<Rightarrow> u8 \<times> u8 \<times> u32" where
  "rtc_ctl r = (rtc_dev r rtc_reg_a, reg_b r, rtc_addr r)"

lemma rtc_step_refl [simp, intro]: "rtc_step v v"
  by (simp add: rtc_step_def)

lemma rtc_step_trans [trans]: "rtc_step a b \<Longrightarrow> rtc_step b c \<Longrightarrow> rtc_step a c"
  unfolding rtc_step_def by (auto intro: isr_frame_trans)

lemma rtc_step_upd [simp, intro]: "rtc_step v (upd_vrtc f v)"
  by (simp add: rtc_step_def level_ok_def)

lemma rtc_enabled_cong:
  assumes "rtc_ctl r' = rtc_ctl r"
  shows "rtc_halted r' = rtc_halted r" "aintr_enabled r' = aintr_enabled r" "pintr_enabled r' = pintr_enabled r"
    "uintr_enabled r' = uintr_enabled r" "reg_b r' = reg_b r" "rtc_addr r' = rtc_addr r" "rtc_dev r' rtc_reg_a = rtc_dev r rtc_reg_a"
  using assms by (simp_all add: rtc_ctl_def rtc_halted_def aintr_enabled_def pintr_enabled_def uintr_enabled_def)

lemma rtc_ctl_simps [simp]:
  "rtc_ctl (r\<lparr>rtc_base_rtctime := t\<rparr>) = rtc_ctl r" "rtc_ctl (r\<lparr>rtc_base_uptime := b\<rparr>) = rtc_ctl r"
  "off \<notin> {rtc_reg_a, rtc_reg_b} \<Longrightarrow> rtc_ctl (set_dev off x r) = rtc_ctl r"
  "rtc_ctl (with_date ct r) = rtc_ctl r"
  by (simp_all add: rtc_ctl_def)

lemma set_reg_c_step:
  obtains v' x where "vrtc_set_reg_c newval v = Some v'" and "rtc_step v v'" and "vm_vrtc v' = set_dev rtc_reg_c x (vm_vrtc v)"
proof -
  define x where "x = (let r = vm_vrtc v; n = newval AND (RTCIR_ALARM OR RTCIR_PERIOD OR RTCIR_UPDATE)
    in (if (aintr_enabled r \<and> n AND RTCIR_ALARM \<noteq> 0) \<or> (pintr_enabled r \<and> n AND RTCIR_PERIOD \<noteq> 0)
           \<or> (uintr_enabled r \<and> n AND RTCIR_UPDATE \<noteq> 0) then RTCIR_INT else 0) OR n)"
  let ?v1 = "upd_vrtc (set_dev rtc_reg_c x) v"
  obtain a e where a: "vatpic_pulse_irq RTC_IRQ ?v1 = Some (a, e)" "vatpic_step_ok ?v1 a"
    unfolding vatpic_pulse_irq_def by (rule vatpic_set_irqstate_ok)
  obtain b e' where b: "vioapic_pulse_irq RTC_IRQ a = Some (b, e')" "intr_frame a b" "level_ok a \<Longrightarrow> level_ok b"
    unfolding vioapic_pulse_irq_def by (rule vioapic_set_irqstate_safe [of RTC_IRQ IRQSTATE_PULSE a]) blast
  have 1: "rtc_step ?v1 a" using a(2) by (simp add: rtc_step_def vatpic_step_ok_def pic_frame_def)
  have 2: "rtc_step a b" using b(2,3) by (simp add: rtc_step_def intr_frame_def)
  have s: "rtc_step v b" "rtc_step v ?v1" using rtc_step_trans [OF rtc_step_upd rtc_step_trans [OF 1 2]] by auto
  have r: "vm_vrtc b = set_dev rtc_reg_c x (vm_vrtc v)"
    using a(2) b(2) by (simp add: vatpic_step_ok_def pic_frame_def intr_frame_def)
  have "vrtc_set_reg_c newval v = Some b \<or> vrtc_set_reg_c newval v = Some ?v1"
    using a(1) b(1) unfolding vrtc_set_reg_c_def x_def Let_def by (simp split: if_splits)
  then show thesis using that s r by auto
qed

text \<open>The refresh of the fields never fails for a time the clock can have.\<close>

lemma secs_to_rtc_total:
  assumes "-1 \<le> t"
  obtains r' where "secs_to_rtc wall t force r = Some r'" and "rtc_ctl r' = rtc_ctl r" and "rtc_base_rtctime r' = rtc_base_rtctime r"
    and "rtc_base_uptime r' = rtc_base_uptime r"
proof (cases "0 \<le> t \<and> (\<not> rtc_halted r \<or> force)")
  case True
  then show thesis using that secs_to_rtc_writes [of t r force wall] by (metis rtc_ctl_simps(4) with_date_simps(1,2))
next
  case False
  then have "secs_to_rtc wall t force r = Some r" using assms by (auto simp: secs_to_rtc_def)
  then show thesis using that by blast
qed

lemma visit_second_step:
  fixes v :: vm and oldtime newtime :: int
  defines "t \<equiv> if aintr_enabled (vm_vrtc v) \<and> oldtime \<noteq> VRTC_BROKEN_TIME then rtc_base_rtctime (vm_vrtc v) + 1 else newtime"
  assumes "-1 \<le> t"
  obtains v' where "visit_second wall oldtime newtime dev0 v = Some v'" and "rtc_step v v'" and "rtc_ctl (vm_vrtc v') = rtc_ctl (vm_vrtc v)"
    and "rtc_base_rtctime (vm_vrtc v') = t" and "rtc_base_uptime (vm_vrtc v') = rtc_base_uptime (vm_vrtc v)"
proof -
  let ?r = "(vm_vrtc v)\<lparr>rtc_base_rtctime := t\<rparr>"
  let ?v1 = "upd_vrtc (\<lambda>_. ?r) v"
  have v1: "upd_vrtc (\<lambda>r. r\<lparr>rtc_base_rtctime := (if aintr_enabled r \<and> oldtime \<noteq> VRTC_BROKEN_TIME then rtc_base_rtctime r + 1 else newtime)\<rparr>) v = ?v1"
    by (simp add: upd_vrtc_def t_def)
  have en: "aintr_enabled ?r = aintr_enabled (vm_vrtc v)" by (rule rtc_enabled_cong) simp
  obtain r2 where r2: "secs_to_rtc wall t False ?r = Some r2" "rtc_ctl r2 = rtc_ctl (vm_vrtc v)" "rtc_base_rtctime r2 = t"
    "rtc_base_uptime r2 = rtc_base_uptime (vm_vrtc v)" by (rule secs_to_rtc_total [OF assms(2), of wall False ?r]) simp
  let ?v2 = "upd_vrtc (\<lambda>_. r2) ?v1"
  obtain w x where w: "vrtc_set_reg_c (rtc_dev r2 rtc_reg_c OR RTCIR_ALARM) ?v2 = Some w" "rtc_step ?v2 w" "vm_vrtc w = set_dev rtc_reg_c x r2"
    by (rule set_reg_c_step [of "rtc_dev r2 rtc_reg_c OR RTCIR_ALARM" ?v2]) simp
  have s: "rtc_step v ?v1" "rtc_step v ?v2" "rtc_step v w" using w(2) rtc_step_trans [OF _ w(2)] by (auto intro: rtc_step_trans)
  show thesis
    using that [of ?v1] that [of ?v2] that [of w] r2 w s
    unfolding visit_second_def v1 Let_def by (cases "aintr_enabled (vm_vrtc v)"; cases "alarm_matches dev0 r2") (simp_all add: en)
qed

lemma update_loop_step:
  assumes "0 \<le> newtime" and "aintr_enabled (vm_vrtc v) \<and> oldtime \<noteq> VRTC_BROKEN_TIME \<Longrightarrow> -1 \<le> rtc_base_rtctime (vm_vrtc v) \<and> rtc_base_rtctime (vm_vrtc v) < newtime"
  obtains v' where "update_loop wall oldtime newtime dev0 v = Some v'" and "rtc_step v v'" and "rtc_ctl (vm_vrtc v') = rtc_ctl (vm_vrtc v)"
    and "rtc_base_rtctime (vm_vrtc v') = newtime" and "rtc_base_uptime (vm_vrtc v') = rtc_base_uptime (vm_vrtc v)"
proof -
  have "\<exists>v'. update_loop wall oldtime newtime dev0 v = Some v' \<and> rtc_step v v' \<and> rtc_ctl (vm_vrtc v') = rtc_ctl (vm_vrtc v)
      \<and> rtc_base_rtctime (vm_vrtc v') = newtime \<and> rtc_base_uptime (vm_vrtc v') = rtc_base_uptime (vm_vrtc v)"
    using assms(2)
  proof (induction "nat (newtime - rtc_base_rtctime (vm_vrtc v))" arbitrary: v rule: less_induct)
    case less
    let ?r = "vm_vrtc v"
    let ?t = "if aintr_enabled ?r \<and> oldtime \<noteq> VRTC_BROKEN_TIME then rtc_base_rtctime ?r + 1 else newtime"
    have "-1 \<le> ?t" using assms(1) less.prems by auto
    then obtain w where w: "visit_second wall oldtime newtime dev0 v = Some w" "rtc_step v w" "rtc_ctl (vm_vrtc w) = rtc_ctl ?r"
      "rtc_base_rtctime (vm_vrtc w) = ?t" "rtc_base_uptime (vm_vrtc w) = rtc_base_uptime ?r" by (rule visit_second_step)
    show ?case
    proof (cases "?t = newtime")
      case True
      then show ?thesis using w by (subst update_loop.simps) simp
    next
      case False
      then have a: "aintr_enabled ?r" "oldtime \<noteq> VRTC_BROKEN_TIME" by (auto split: if_splits)
      then have "nat (newtime - rtc_base_rtctime (vm_vrtc w)) < nat (newtime - rtc_base_rtctime ?r)"
        "-1 \<le> rtc_base_rtctime (vm_vrtc w) \<and> rtc_base_rtctime (vm_vrtc w) < newtime" using less.prems w(4) False by auto
      then obtain v' where "update_loop wall oldtime newtime dev0 w = Some v'" "rtc_step w v'" "rtc_ctl (vm_vrtc v') = rtc_ctl (vm_vrtc w)"
        "rtc_base_rtctime (vm_vrtc v') = newtime" "rtc_base_uptime (vm_vrtc v') = rtc_base_uptime (vm_vrtc w)"
        using less.hyps [of w] by blast
      then show ?thesis using w False rtc_step_trans [OF w(2)] by (subst update_loop.simps) auto
    qed
  qed
  then show thesis using that by blast
qed

lemma time_update_step:
  assumes "-1 \<le> newtime" and "-1 \<le> rtc_base_rtctime (vm_vrtc v)"
    and "aintr_enabled (vm_vrtc v) \<and> rtc_base_rtctime (vm_vrtc v) \<noteq> VRTC_BROKEN_TIME \<and> newtime \<noteq> VRTC_BROKEN_TIME
          \<Longrightarrow> rtc_base_rtctime (vm_vrtc v) \<le> newtime"
    and "rtc_halted (vm_vrtc v) \<Longrightarrow> newtime = VRTC_BROKEN_TIME"
  obtains v' where "vrtc_time_update wall newtime newbase v = Some (v', 0)" and "rtc_step v v'" and "rtc_ctl (vm_vrtc v') = rtc_ctl (vm_vrtc v)"
    and "rtc_base_rtctime (vm_vrtc v') = newtime" and "rtc_base_uptime (vm_vrtc v') = newbase"
proof -
  let ?old = "rtc_base_rtctime (vm_vrtc v)" and ?v1 = "upd_vrtc (\<lambda>r. r\<lparr>rtc_base_uptime := newbase\<rparr>) v"
  have en: "rtc_halted (vm_vrtc ?v1) = rtc_halted (vm_vrtc v)" "aintr_enabled (vm_vrtc ?v1) = aintr_enabled (vm_vrtc v)"
    by (rule rtc_enabled_cong, simp)+
  consider (same) "newtime = ?old" | (broken) "newtime \<noteq> ?old" "newtime = VRTC_BROKEN_TIME" | (moves) "newtime \<noteq> ?old" "newtime \<noteq> VRTC_BROKEN_TIME" by blast
  then show thesis
  proof cases
    case same
    then show thesis by (intro that [of ?v1]) (simp_all add: vrtc_time_update_def)
  next
    case broken
    then show thesis
      by (intro that [of "upd_vrtc (\<lambda>r. r\<lparr>rtc_base_rtctime := VRTC_BROKEN_TIME\<rparr>) ?v1"])
        (auto simp: vrtc_time_update_def intro: rtc_step_trans)
  next
    case moves
    have "0 \<le> newtime" using assms(1) moves by simp
    then obtain w where w: "update_loop wall ?old newtime (rtc_dev (vm_vrtc v)) ?v1 = Some w" "rtc_step ?v1 w" "rtc_ctl (vm_vrtc w) = rtc_ctl (vm_vrtc v)"
      "rtc_base_rtctime (vm_vrtc w) = newtime" "rtc_base_uptime (vm_vrtc w) = newbase"
      by (rule update_loop_step [of newtime ?v1 ?old wall "rtc_dev (vm_vrtc v)"]) (use assms moves en in force)+
    obtain x y where x: "vrtc_set_reg_c (rtc_dev (vm_vrtc w) rtc_reg_c OR RTCIR_UPDATE) w = Some x" "rtc_step w x" "vm_vrtc x = set_dev rtc_reg_c y (vm_vrtc w)"
      by (rule set_reg_c_step)
    have "rtc_step v w" "rtc_step v x" using w(2) x(2) by (auto intro: rtc_step_trans)
    moreover have "vrtc_time_update wall newtime newbase v = Some (if uintr_enabled (vm_vrtc w) then x else w, 0)"
      using moves w(1) x(1) assms(4) en unfolding vrtc_time_update_def Let_def by auto
    ultimately show thesis using that [of "if uintr_enabled (vm_vrtc w) then x else w"] w x by (simp split: if_splits)
  qed
qed

text \<open>
  The invariant of the clock: its callout is active exactly when an interrupt source needs it, a halted clock has no
  time and a running one has, and the index register is within the registers. The host's clock must not
  run back behind the moment of the last update.
\<close>

definition rtc_ok :: "vm \<Rightarrow> bool" where
  "rtc_ok v \<longleftrightarrow> (rtc_active v \<longleftrightarrow> vrtc_freq (vm_vrtc v) \<noteq> 0) \<and> unat (rtc_addr (vm_vrtc v)) < 128
     \<and> (if rtc_halted (vm_vrtc v) then rtc_base_rtctime (vm_vrtc v) = VRTC_BROKEN_TIME else 0 \<le> rtc_base_rtctime (vm_vrtc v))"

definition rtc_clock :: "u64 \<Rightarrow> vm \<Rightarrow> bool" where
  "rtc_clock mat v \<longleftrightarrow> (update_enabled (vm_vrtc v) \<longrightarrow> 0 \<le> sint (sbinuptime (vm_timebase v) mat - rtc_base_uptime (vm_vrtc v)))"

lemma vrtc_freq_cong:
  assumes "rtc_ctl r' = rtc_ctl r" and "rtc_base_rtctime r' = VRTC_BROKEN_TIME \<longleftrightarrow> rtc_base_rtctime r = VRTC_BROKEN_TIME"
  shows "vrtc_freq r' = vrtc_freq r"
  using rtc_enabled_cong [OF assms(1)] assms(2) by (simp add: vrtc_freq_def update_enabled_def)

lemma rtc_ok_cong:
  assumes "rtc_ok v" and "rtc_ctl (vm_vrtc v') = rtc_ctl (vm_vrtc v)" and "rtc_active v' = rtc_active v"
    and "rtc_base_rtctime (vm_vrtc v') = rtc_base_rtctime (vm_vrtc v) \<or> (\<not> rtc_halted (vm_vrtc v) \<and> 0 \<le> rtc_base_rtctime (vm_vrtc v'))"
  shows "rtc_ok v'"
proof -
  have "rtc_base_rtctime (vm_vrtc v') = VRTC_BROKEN_TIME \<longleftrightarrow> rtc_base_rtctime (vm_vrtc v) = VRTC_BROKEN_TIME"
    using assms(1,4) by (auto simp: rtc_ok_def)
  from vrtc_freq_cong [OF assms(2) this] show ?thesis
    using assms rtc_enabled_cong [OF assms(2)] by (auto simp: rtc_ok_def split: if_splits)
qed

text \<open>The time on the clock: whole seconds since the last update.\<close>

lemma curtime_spec:
  assumes "rtc_ok v" and "rtc_clock mat v"
  obtains t b where "vrtc_curtime (vm_timebase v) mat (vm_vrtc v) = Some (t, b)" and "-1 \<le> t" and "rtc_base_rtctime (vm_vrtc v) \<le> t"
    and "rtc_halted (vm_vrtc v) \<Longrightarrow> t = VRTC_BROKEN_TIME" and "\<not> rtc_halted (vm_vrtc v) \<Longrightarrow> 0 \<le> t"
proof (cases "update_enabled (vm_vrtc v)")
  case True
  let ?d = "sint (sbinuptime (vm_timebase v) mat - rtc_base_uptime (vm_vrtc v))"
  have d: "0 \<le> ?d" using True assms(2) by (simp add: rtc_clock_def)
  have "0 \<le> ?d sdiv sint SBT_1S" using d by (simp add: pos_imp_zdiv_nonneg_iff)
  then show thesis
    using that [of "rtc_base_rtctime (vm_vrtc v) + ?d sdiv sint SBT_1S" "rtc_base_uptime (vm_vrtc v) + word_of_int (?d sdiv sint SBT_1S) * SBT_1S"]
      True d assms(1) by (simp add: vrtc_curtime_def update_enabled_def rtc_ok_def Let_def)
next
  case False
  then show thesis using that assms(1) by (auto simp: vrtc_curtime_def rtc_ok_def split: if_splits)
qed

subsection \<open>Accesses and the callout keep the invariant\<close>

definition rtc_moves :: "nat option \<Rightarrow> vm \<Rightarrow> vm \<Rightarrow> bool" where
  "rtc_moves r v v' \<longleftrightarrow> (\<forall>j. isr_frame (vm_lapic v j) (vm_lapic v' j)) \<and> (level_ok v \<longrightarrow> level_ok v')
     \<and> (vatpic_wf (vm_vatpic v) \<longrightarrow> vatpic_wf (vm_vatpic v')) \<and> vm_vatpit v' = vm_vatpit v \<and> vm_vhpet v' = vm_vhpet v \<and> vm_vpmtmr v' = vm_vpmtmr v
     \<and> (\<forall>n. hpet_active v' n = hpet_active v n) \<and> vm_timebase v' = vm_timebase v
     \<and> (callouts_ok r (vm_callouts v) \<longrightarrow> callouts_ok r (vm_callouts v')) \<and> rtc_ok v'"

lemma rtc_step_moves: "rtc_step v v' \<Longrightarrow> rtc_ok v' \<Longrightarrow> rtc_moves r v v'"
  by (simp add: rtc_step_def rtc_moves_def)

lemma rtc_moves_step: "rtc_step a b \<Longrightarrow> rtc_moves r b c \<Longrightarrow> rtc_moves r a c"
  unfolding rtc_step_def rtc_moves_def by (auto intro: isr_frame_trans)

lemma callout_reset_moves:
  assumes ok: "callouts_ok r (vm_callouts v)" and f: "f = vrtc_freq (vm_vrtc v)"
    and own: "unat (rtc_addr (vm_vrtc v)) < 128"
      "if rtc_halted (vm_vrtc v) then rtc_base_rtctime (vm_vrtc v) = VRTC_BROKEN_TIME else 0 \<le> rtc_base_rtctime (vm_vrtc v)"
  obtains v' where "vrtc_callout_reset mat f v = Some v'" and "rtc_moves r v v'"
proof (cases "f = 0")
  case True
  let ?w = "if rtc_active v then with_callouts (callout_stop vrtc_callout (vm_callouts v)) v else v"
  have "rtc_moves r v ?w"
    using True f own callouts.disarm_law [OF ok] by (simp add: rtc_moves_def rtc_ok_def level_ok_def callout_active_stop)
  then show thesis using that [of ?w] True by (simp add: vrtc_callout_reset_def)
next
  case False
  obtain s where s: "callout_reset_sbt (vm_timebase v) mat vrtc_callout f VRTC_HANDLER 0 (vm_callouts v) = Some s" "callouts_ok r s"
    using callouts.arm_law [OF ok, of "(vm_timebase v, mat, f, VRTC_HANDLER, 0)" vrtc_callout] by (auto simp: callout_arm_def)
  have "rtc_moves r v (with_callouts s v)"
    using False f own s(2) callout_active_reset [OF ok s(1)] by (simp add: rtc_moves_def rtc_ok_def level_ok_def)
  then show thesis using that False s(1) by (simp add: vrtc_callout_reset_def)
qed

lemma callout_adjust_moves:
  assumes ok: "callouts_ok r (vm_callouts v)" and old: "rtc_active v \<longleftrightarrow> oldfreq \<noteq> 0"
    and own: "unat (rtc_addr (vm_vrtc v)) < 128"
      "if rtc_halted (vm_vrtc v) then rtc_base_rtctime (vm_vrtc v) = VRTC_BROKEN_TIME else 0 \<le> rtc_base_rtctime (vm_vrtc v)"
  obtains v' where "callout_adjust mat oldfreq v = Some v'" and "rtc_moves r v v'"
proof (cases "vrtc_freq (vm_vrtc v) = oldfreq")
  case True
  then have "rtc_moves r v v" using old own by (intro rtc_step_moves) (simp_all add: rtc_ok_def)
  then show thesis using that True old by (auto simp: callout_adjust_def vrtc_callout_check_def)
next
  case False
  then have e: "callout_adjust mat oldfreq v = vrtc_callout_reset mat (vrtc_freq (vm_vrtc v)) v" by (simp add: callout_adjust_def Let_def)
  show thesis by (rule callout_reset_moves [OF ok refl own, of mat]) (use that e in simp)
qed

lemma set_reg_a_moves:
  assumes ok: "callouts_ok r (vm_callouts v)" and k: "rtc_ok v"
  obtains v' where "vrtc_set_reg_a mat newval v = Some v'" and "rtc_moves r v v'"
proof -
  let ?n = "newval AND NOT 0x80"
  let ?v1 = "if \<not> divider_enabled (rtc_dev (vm_vrtc v) rtc_reg_a) \<and> divider_enabled ?n
    then upd_vrtc (\<lambda>r. r\<lparr>rtc_base_uptime := sbinuptime (vm_timebase v) mat\<rparr>) v else v"
  let ?v2 = "upd_vrtc (set_dev rtc_reg_a ?n) ?v1"
  have s: "rtc_step v ?v2" by (auto intro: rtc_step_trans)
  have h: "rtc_halted (vm_vrtc ?v2) = rtc_halted (vm_vrtc v)" by (simp add: rtc_halted_def)
  obtain v' where "callout_adjust mat (vrtc_freq (vm_vrtc v)) ?v2 = Some v'" "rtc_moves r ?v2 v'"
    by (rule callout_adjust_moves [of r ?v2 "vrtc_freq (vm_vrtc v)" mat]) (use ok k h in \<open>simp_all add: rtc_ok_def split: if_splits\<close>)
  then show thesis using that rtc_moves_step [OF s] by (simp add: vrtc_set_reg_a_def Let_def)
qed

lemma rtc_to_secs_ge: "-1 \<le> rtc_to_secs r"
  by (simp add: rtc_to_secs_def split: option.splits sum.splits)

lemma halted_set_b: "rtc_halted (set_dev rtc_reg_b x r) \<longleftrightarrow> x AND RTCSB_HALT \<noteq> 0"
  by (simp add: rtc_halted_def)

text \<open>
  A write of register B. The guest that lets a halted clock run again must have set a date: otherwise
  the handler reports an error, which ends the run of the vcpu.
\<close>

lemma halt_changed_step:
  fixes v :: vm and newval :: u8
  defines "v1 \<equiv> upd_vrtc (set_dev rtc_reg_b newval) v"
  assumes k: "rtc_ok v" and ch: "(reg_b (vm_vrtc v) XOR newval) AND RTCSB_HALT \<noteq> 0"
    and date: "newval AND RTCSB_HALT = 0 \<Longrightarrow> rtc_to_secs (vm_vrtc v1) \<noteq> VRTC_BROKEN_TIME"
  obtains v2 where "halt_changed mat wall newval v1 = Some (v2, 0)" and "rtc_step v v2" and "rtc_addr (vm_vrtc v2) = rtc_addr (vm_vrtc v)"
    and "if rtc_halted (vm_vrtc v2) then rtc_base_rtctime (vm_vrtc v2) = VRTC_BROKEN_TIME else 0 \<le> rtc_base_rtctime (vm_vrtc v2)"
proof -
  have b7: "(RTCSB_HALT :: u8) = BIT 7" by (simp add: BIT_def)
  have old: "rtc_halted (vm_vrtc v) \<longleftrightarrow> newval AND RTCSB_HALT = 0" using ch unfolding rtc_halted_def b7 by (simp add: bit_xor_iff)
  have new: "rtc_halted (vm_vrtc v1) \<longleftrightarrow> newval AND RTCSB_HALT \<noteq> 0" by (simp add: v1_def halted_set_b)
  have s1: "rtc_step v v1" by (simp add: v1_def)
  have base: "rtc_base_rtctime (vm_vrtc v1) = rtc_base_rtctime (vm_vrtc v)" "rtc_addr (vm_vrtc v1) = rtc_addr (vm_vrtc v)" by (simp_all add: v1_def)
  show thesis
  proof (cases "newval AND RTCSB_HALT = 0")
    case True
    let ?t = "rtc_to_secs (vm_vrtc v1)"
    have t: "0 \<le> ?t" "?t \<noteq> VRTC_BROKEN_TIME" using date [OF True] rtc_to_secs_ge [of "vm_vrtc v1"] by auto
    have b: "rtc_base_rtctime (vm_vrtc v1) = VRTC_BROKEN_TIME" using k True old base by (simp add: rtc_ok_def)
    obtain w where w: "vrtc_time_update wall ?t (sbinuptime (vm_timebase v1) mat) v1 = Some (w, 0)" "rtc_step v1 w"
      "rtc_ctl (vm_vrtc w) = rtc_ctl (vm_vrtc v1)" "rtc_base_rtctime (vm_vrtc w) = ?t"
      by (rule time_update_step [of ?t v1 wall "sbinuptime (vm_timebase v1) mat"]) (use t b new True in auto)
    show thesis
      using that [of w] w t rtc_step_trans [OF s1 w(2)] base(2) rtc_enabled_cong [OF w(3)] new True
      by (simp add: halt_changed_def Let_def)
  next
    case False
    have b: "0 \<le> rtc_base_rtctime (vm_vrtc v1)" using k False old base by (simp add: rtc_ok_def)
    obtain q where q: "secs_to_rtc wall (rtc_base_rtctime (vm_vrtc v1)) True (vm_vrtc v1) = Some q" "rtc_ctl q = rtc_ctl (vm_vrtc v1)"
      "rtc_base_rtctime q = rtc_base_rtctime (vm_vrtc v1)"
      by (rule secs_to_rtc_total [of "rtc_base_rtctime (vm_vrtc v1)" wall True "vm_vrtc v1"]) (use b in simp)
    let ?v2 = "upd_vrtc (\<lambda>_. set_dev rtc_reg_b (reg_b q AND NOT RTCSB_UINTR) q) v1"
    have q5: "reg_b q = newval" using rtc_enabled_cong(5) [OF q(2)] by (simp add: v1_def)
    have u: "(0x10 :: u8) = BIT 4" by (simp add: BIT_def)
    have h2: "rtc_halted (vm_vrtc ?v2)"
      using False unfolding q5 u rtc_halted_def b7 by (simp add: bit_clear_BIT)
    obtain w where w: "vrtc_time_update wall VRTC_BROKEN_TIME (rtc_base_uptime (vm_vrtc v1)) ?v2 = Some (w, 0)" "rtc_step ?v2 w"
      "rtc_ctl (vm_vrtc w) = rtc_ctl (vm_vrtc ?v2)" "rtc_base_rtctime (vm_vrtc w) = VRTC_BROKEN_TIME"
      by (rule time_update_step [of VRTC_BROKEN_TIME ?v2 wall "rtc_base_uptime (vm_vrtc v1)"]) (use b q(3) in auto)
    have cur: "vrtc_curtime (vm_timebase v1) mat (vm_vrtc v1) = Some (rtc_base_rtctime (vm_vrtc v1), rtc_base_uptime (vm_vrtc v1))"
      using new False by (simp add: vrtc_curtime_def update_enabled_def)
    have "halt_changed mat wall newval v1 = Some (w, 0)" using False cur q(1) w(1) by (simp add: halt_changed_def Let_def)
    moreover have "rtc_step v w" using rtc_step_trans [OF rtc_step_trans [OF s1 rtc_step_upd] w(2)] .
    ultimately show thesis
      using that [of w] w(4) rtc_enabled_cong [OF w(3)] h2 rtc_enabled_cong(6) [OF q(2)] base(2) by simp
  qed
qed

lemma set_reg_b_moves:
  assumes ok: "callouts_ok r (vm_callouts v)" and k: "rtc_ok v"
    and date: "rtc_halted (vm_vrtc v) \<and> newval AND RTCSB_HALT = 0 \<Longrightarrow> rtc_to_secs (set_dev rtc_reg_b newval (vm_vrtc v)) \<noteq> VRTC_BROKEN_TIME"
  obtains v' where "vrtc_set_reg_b mat wall newval v = Some (v', 0)" and "rtc_moves r v v'"
proof -
  let ?v1 = "upd_vrtc (set_dev rtc_reg_b newval) v" and ?ch = "(reg_b (vm_vrtc v) XOR newval) AND RTCSB_HALT \<noteq> 0"
  have b7: "(RTCSB_HALT :: u8) = BIT 7" by (simp add: BIT_def)
  have same: "rtc_halted (vm_vrtc ?v1) = rtc_halted (vm_vrtc v)" if "\<not> ?ch" using that unfolding rtc_halted_def b7 by (simp add: bit_xor_iff)
  have "\<exists>v2. (if ?ch then halt_changed mat wall newval ?v1 else Some (?v1, 0)) = Some (v2, 0) \<and> rtc_step v v2
      \<and> rtc_addr (vm_vrtc v2) = rtc_addr (vm_vrtc v)
      \<and> (if rtc_halted (vm_vrtc v2) then rtc_base_rtctime (vm_vrtc v2) = VRTC_BROKEN_TIME else 0 \<le> rtc_base_rtctime (vm_vrtc v2))"
  proof (cases ?ch)
    case True
    have "newval AND RTCSB_HALT = 0 \<Longrightarrow> rtc_to_secs (vm_vrtc ?v1) \<noteq> VRTC_BROKEN_TIME"
      using date True unfolding rtc_halted_def b7 by (simp add: bit_xor_iff)
    from halt_changed_step [OF k True this] show ?thesis using True by metis
  next
    case False
    then show ?thesis using k same [OF False] by (auto simp: rtc_ok_def)
  qed
  then obtain v2 where v2: "(if ?ch then halt_changed mat wall newval ?v1 else Some (?v1, 0)) = Some (v2, 0)" "rtc_step v v2"
    "rtc_addr (vm_vrtc v2) = rtc_addr (vm_vrtc v)"
    "if rtc_halted (vm_vrtc v2) then rtc_base_rtctime (vm_vrtc v2) = VRTC_BROKEN_TIME else 0 \<le> rtc_base_rtctime (vm_vrtc v2)" by blast
  obtain w x where w: "vrtc_set_reg_c (rtc_dev (vm_vrtc v2) rtc_reg_c) v2 = Some w" "rtc_step v2 w" "vm_vrtc w = set_dev rtc_reg_c x (vm_vrtc v2)"
    by (rule set_reg_c_step)
  define v3 where "v3 = (if (reg_b (vm_vrtc v) XOR newval) AND RTCSB_ALL_INTRS \<noteq> 0 then w else v2)"
  have v3: "rtc_step v v3" "rtc_addr (vm_vrtc v3) = rtc_addr (vm_vrtc v)"
    "if rtc_halted (vm_vrtc v3) then rtc_base_rtctime (vm_vrtc v3) = VRTC_BROKEN_TIME else 0 \<le> rtc_base_rtctime (vm_vrtc v3)"
    using v2 w rtc_step_trans [OF v2(2) w(2)] by (auto simp: v3_def rtc_halted_def)
  have co: "vm_callouts v3 = vm_callouts v" using v3(1) by (simp add: rtc_step_def)
  obtain v' where v': "callout_adjust mat (vrtc_freq (vm_vrtc v)) v3 = Some v'" "rtc_moves r v3 v'"
    by (rule callout_adjust_moves [of r v3 "vrtc_freq (vm_vrtc v)" mat]) (use ok k v3 co in \<open>simp_all add: rtc_ok_def\<close>)
  have "vrtc_set_reg_b mat wall newval v = Some (v', 0)"
    using v2(1) w(1) v'(1) by (simp add: vrtc_set_reg_b_def Let_def v3_def split: if_splits)
  then show thesis using that rtc_moves_step [OF v3(1) v'(2)] by blast
qed

text \<open>The beginning of an access to the data port: the clock catches up, and the fields are refreshed.\<close>

definition rtc_catch_up :: "u64 \<Rightarrow> u32 \<Rightarrow> nat \<Rightarrow> vm \<Rightarrow> vm option" where
  "rtc_catch_up mat wall offset v =
     Option.bind (vrtc_curtime (vm_timebase v) mat (vm_vrtc v)) (\<lambda>(curtime, basetime).
     Option.bind (vrtc_time_update wall curtime basetime v) (\<lambda>(v1, _).
       if offset < 10 \<or> offset = RTC_CENTURY
       then map_option (\<lambda>r. upd_vrtc (\<lambda>_. r) v1) (secs_to_rtc wall curtime False (vm_vrtc v1)) else Some v1))"

lemma data_handler_eq:
  "vrtc_data_handler mat wall dir_in bytes val v =
     (if bytes \<noteq> 1 \<or> unat (rtc_addr (vm_vrtc v)) \<ge> 128 then Some (v, val, -1)
      else let offset = unat (rtc_addr (vm_vrtc v)) in Option.bind (rtc_catch_up mat wall offset v) (\<lambda>v2.
        if dir_in then map_option (\<lambda>(v3, x). (v3, x, 0)) (rtc_data_read offset v2)
        else Option.bind (rtc_data_write mat wall offset val v2) (\<lambda>(v3, error).
             map_option (\<lambda>(v4, e). (v4, if offset = rtc_sec then val AND 0x7f else val, e))
               (if offset = RTC_CENTURY \<and> \<not> rtc_halted (vm_vrtc v3)
                then rtc_century_written mat wall v3 else Some (v3, error)))))"
  by (simp add: vrtc_data_handler_def rtc_catch_up_def Let_def Option.bind_assoc split: prod.splits)
    (auto intro!: Option.bind_cong)

lemma catch_up_step:
  assumes k: "rtc_ok v" and c: "rtc_clock mat v"
  obtains v' where "rtc_catch_up mat wall off v = Some v'" and "rtc_step v v'" and "rtc_ok v'" and "rtc_ctl (vm_vrtc v') = rtc_ctl (vm_vrtc v)"
proof -
  obtain t b where t: "vrtc_curtime (vm_timebase v) mat (vm_vrtc v) = Some (t, b)" "-1 \<le> t" "rtc_base_rtctime (vm_vrtc v) \<le> t"
    "rtc_halted (vm_vrtc v) \<Longrightarrow> t = VRTC_BROKEN_TIME" "\<not> rtc_halted (vm_vrtc v) \<Longrightarrow> 0 \<le> t" by (rule curtime_spec [OF k c]) blast
  have base: "-1 \<le> rtc_base_rtctime (vm_vrtc v)" using k by (auto simp: rtc_ok_def split: if_splits)
  obtain w where w: "vrtc_time_update wall t b v = Some (w, 0)" "rtc_step v w" "rtc_ctl (vm_vrtc w) = rtc_ctl (vm_vrtc v)"
    "rtc_base_rtctime (vm_vrtc w) = t" by (rule time_update_step [OF t(2) base, of wall b]) (use t in auto)
  have kw: "rtc_ok w"
    by (rule rtc_ok_cong [OF k w(3)]) (use w t k in \<open>auto simp: rtc_step_def rtc_ok_def split: if_splits\<close>)
  obtain q where q: "secs_to_rtc wall t False (vm_vrtc w) = Some q" "rtc_ctl q = rtc_ctl (vm_vrtc w)" "rtc_base_rtctime q = t"
    by (rule secs_to_rtc_total [OF t(2), of wall False "vm_vrtc w"]) (use w(4) in simp)
  have kq: "rtc_ok (upd_vrtc (\<lambda>_. q) w)" by (rule rtc_ok_cong [OF kw]) (use q w(4) in auto)
  show thesis
    using that [of w] that [of "upd_vrtc (\<lambda>_. q) w"] t(1) w kw kq q rtc_step_trans [OF w(2) rtc_step_upd]
    by (cases "off < 10 \<or> off = RTC_CENTURY") (simp_all add: rtc_catch_up_def)
qed

text \<open>
  What is asked of a write to the data port: when it lets a halted clock run, or sets the century of a running one, the fields hold a
  date (otherwise the handler reports an error and the vcpu stops); and the new century does not move a clock
  with its alarm enabled into the past (otherwise the handler does not return).
\<close>

definition rtc_write_ok :: "u64 \<Rightarrow> u32 \<Rightarrow> u32 \<Rightarrow> vm \<Rightarrow> bool" where
  "rtc_write_ok mat wall val v \<longleftrightarrow>
     (let offset = unat (rtc_addr (vm_vrtc v))
      in case rtc_catch_up mat wall offset v of None \<Rightarrow> True | Some v2 \<Rightarrow>
           (offset = rtc_reg_b \<and> rtc_halted (vm_vrtc v2) \<and> (ucast val :: u8) AND RTCSB_HALT = 0
              \<longrightarrow> rtc_to_secs (set_dev rtc_reg_b (ucast val) (vm_vrtc v2)) \<noteq> VRTC_BROKEN_TIME)
         \<and> (offset = RTC_CENTURY \<and> \<not> rtc_halted (vm_vrtc v2)
              \<longrightarrow> (let t = rtc_to_secs (set_dev RTC_CENTURY (ucast val) (vm_vrtc v2))
                   in t \<noteq> VRTC_BROKEN_TIME \<and> (aintr_enabled (vm_vrtc v2) \<longrightarrow> rtc_base_rtctime (vm_vrtc v2) \<le> t))))"

lemma century_step:
  assumes k: "rtc_ok v" and run: "\<not> rtc_halted (vm_vrtc v)" and t: "rtc_to_secs (vm_vrtc v) \<noteq> VRTC_BROKEN_TIME"
    and fwd: "aintr_enabled (vm_vrtc v) \<Longrightarrow> rtc_base_rtctime (vm_vrtc v) \<le> rtc_to_secs (vm_vrtc v)"
  obtains v' where "rtc_century_written mat wall v = Some (v', 0)" and "rtc_step v v'" and "rtc_ok v'"
proof -
  let ?t = "rtc_to_secs (vm_vrtc v)" and ?b = "sbinuptime (vm_timebase v) mat"
  have t0: "0 \<le> ?t" using t rtc_to_secs_ge [of "vm_vrtc v"] by linarith
  have base: "0 \<le> rtc_base_rtctime (vm_vrtc v)" using k run by (simp add: rtc_ok_def)
  obtain w where w: "vrtc_time_update wall ?t ?b v = Some (w, 0)" "rtc_step v w" "rtc_ctl (vm_vrtc w) = rtc_ctl (vm_vrtc v)"
    "rtc_base_rtctime (vm_vrtc w) = ?t" by (rule time_update_step [of ?t v wall ?b]) (use t0 base fwd run in auto)
  have "rtc_ok w" by (rule rtc_ok_cong [OF k w(3)]) (use w t0 run in \<open>auto simp: rtc_step_def\<close>)
  then show thesis using that w t by (simp add: rtc_century_written_def Let_def)
qed

lemma data_handler_moves:
  assumes ok: "callouts_ok r (vm_callouts v)" and k: "rtc_ok v" and c: "rtc_clock mat v" and w: "\<not> dir_in \<Longrightarrow> rtc_write_ok mat wall val v"
  shows "\<exists>v' x e. vrtc_data_handler mat wall dir_in bytes val v = Some (v', x, e) \<and> rtc_moves r v v'"
proof (cases "bytes \<noteq> 1 \<or> unat (rtc_addr (vm_vrtc v)) \<ge> 128")
  case True
  then show ?thesis using k by (auto simp: data_handler_eq intro: rtc_step_moves)
next
  case False
  define off where "off = unat (rtc_addr (vm_vrtc v))"
  obtain v2 where v2: "rtc_catch_up mat wall off v = Some v2" "rtc_step v v2" "rtc_ok v2" "rtc_ctl (vm_vrtc v2) = rtc_ctl (vm_vrtc v)"
    by (rule catch_up_step [OF k c])
  have ok2: "callouts_ok r (vm_callouts v2)" using ok v2(2) by (simp add: rtc_step_def)
  note up = rtc_moves_step [OF v2(2)]
  show ?thesis
  proof (cases dir_in)
    case True
    obtain w x where w: "vrtc_set_reg_c 0 v2 = Some w" "rtc_step v2 w" "vm_vrtc w = set_dev rtc_reg_c x (vm_vrtc v2)" by (rule set_reg_c_step)
    have "rtc_ok w" by (rule rtc_ok_cong [OF v2(3)]) (use w in \<open>auto simp: rtc_step_def\<close>)
    then have "rtc_moves r v w" "rtc_moves r v v2" using up rtc_step_moves w(2) v2(3) by blast+
    then show ?thesis using False True v2(1) w(1) by (auto simp: data_handler_eq rtc_data_read_def off_def [symmetric])
  next
    case out: False
    have wok: "off = rtc_reg_b \<and> rtc_halted (vm_vrtc v2) \<and> (ucast val :: u8) AND RTCSB_HALT = 0
        \<Longrightarrow> rtc_to_secs (set_dev rtc_reg_b (ucast val) (vm_vrtc v2)) \<noteq> VRTC_BROKEN_TIME"
      "off = RTC_CENTURY \<Longrightarrow> \<not> rtc_halted (vm_vrtc v2) \<Longrightarrow> rtc_to_secs (set_dev RTC_CENTURY (ucast val) (vm_vrtc v2)) \<noteq> VRTC_BROKEN_TIME
         \<and> (aintr_enabled (vm_vrtc v2) \<longrightarrow> rtc_base_rtctime (vm_vrtc v2) \<le> rtc_to_secs (set_dev RTC_CENTURY (ucast val) (vm_vrtc v2)))"
      using w [OF out] v2(1) by (simp_all add: rtc_write_ok_def Let_def off_def)
    consider (a) "off = rtc_reg_a" | (b) "off = rtc_reg_b" | (cd) "off = rtc_reg_c \<or> off = rtc_reg_d" | (m) "off \<notin> {rtc_reg_a, rtc_reg_b, rtc_reg_c, rtc_reg_d}" by blast
    then show ?thesis
    proof cases
      case a
      obtain u where "vrtc_set_reg_a mat (ucast val) v2 = Some u" "rtc_moves r v2 u" by (rule set_reg_a_moves [OF ok2 v2(3)])
      then show ?thesis using False out a v2(1) up by (simp add: data_handler_eq rtc_data_write_def off_def [symmetric])
    next
      case b
      obtain u where "vrtc_set_reg_b mat wall (ucast val) v2 = Some (u, 0)" "rtc_moves r v2 u"
        by (rule set_reg_b_moves [OF ok2 v2(3), of "ucast val" mat wall]) (use wok(1) b in blast)+
      then show ?thesis using False out b v2(1) up by (simp add: data_handler_eq rtc_data_write_def off_def [symmetric])
    next
      case cd
      then show ?thesis using False out v2 up rtc_step_moves [OF rtc_step_refl v2(3)]
        by (auto simp: data_handler_eq rtc_data_write_def off_def [symmetric])
    next
      case m
      define x :: u8 where "x = ucast (if off = rtc_sec then val AND 0x7f else val)"
      let ?u = "upd_vrtc (set_dev off x) v2"
      have s: "rtc_step v2 ?u" "rtc_ctl (vm_vrtc ?u) = rtc_ctl (vm_vrtc v2)" using m by simp_all
      have ku: "rtc_ok ?u" by (rule rtc_ok_cong [OF v2(3) s(2)]) simp_all
      have wr: "rtc_data_write mat wall off val v2 = Some (?u, 0)" using m by (simp add: rtc_data_write_def x_def)
      show ?thesis
      proof (cases "off = RTC_CENTURY \<and> \<not> rtc_halted (vm_vrtc ?u)")
        case True
        have e: "rtc_halted (vm_vrtc ?u) = rtc_halted (vm_vrtc v2)" "aintr_enabled (vm_vrtc ?u) = aintr_enabled (vm_vrtc v2)"
          by (rule rtc_enabled_cong [OF s(2)])+
        obtain y where y: "rtc_century_written mat wall ?u = Some (y, 0)" "rtc_step ?u y" "rtc_ok y"
          by (rule century_step [OF ku, of mat wall]) (use wok(2) True e x_def in auto)
        then have "rtc_moves r v y" using up rtc_step_moves rtc_step_trans [OF s(1) y(2)] by blast
        then show ?thesis using False out True v2(1) wr y(1) by (auto simp: data_handler_eq off_def [symmetric])
      next
        case no: False
        have "rtc_moves r v ?u" by (rule up [OF rtc_step_moves [OF s(1) ku]])
        then show ?thesis using False out no v2(1) wr by (auto simp: data_handler_eq off_def [symmetric])
      qed
    qed
  qed
qed

lemma curtime_cong:
  assumes "rtc_ctl r' = rtc_ctl r" and "rtc_base_rtctime r' = rtc_base_rtctime r" and "rtc_base_uptime r' = rtc_base_uptime r"
  shows "vrtc_curtime tb mat r' = vrtc_curtime tb mat r"
  using rtc_enabled_cong [OF assms(1)] assms(2,3) by (simp add: vrtc_curtime_def update_enabled_def Let_def)

lemma freq_needs_intr: "vrtc_freq r \<noteq> 0 \<Longrightarrow> reg_b r AND RTCSB_ALL_INTRS \<noteq> 0"
proof -
  assume "vrtc_freq r \<noteq> 0"
  then have "aintr_enabled r \<or> pintr_enabled r \<or> uintr_enabled r" by (auto simp: vrtc_freq_def split: if_splits)
  moreover have e: "(0x20 :: u8) = BIT 5" "(0x40 :: u8) = BIT 6" "(0x10 :: u8) = BIT 4" by (simp_all add: BIT_def)
  ultimately have "bit (reg_b r) 5 \<or> bit (reg_b r) 6 \<or> bit (reg_b r) 4"
    unfolding aintr_enabled_def pintr_enabled_def uintr_enabled_def e by simp
  then have "bit (reg_b r AND 0x70) 5 \<or> bit (reg_b r AND 0x70) 6 \<or> bit (reg_b r AND 0x70) 4" by (auto simp: bit_and_iff)
  then show ?thesis by auto
qed

lemma rtc_handler_moves:
  assumes ok: "callouts_ok (Some vrtc_callout) (vm_callouts v)" and k: "rtc_ok v" and c: "rtc_clock mat v"
  shows "\<exists>v'. vrtc_callout_handler mat wall v = Some v' \<and> rtc_moves (Some vrtc_callout) v v'"
proof (cases "callout_pending (cs_store (vm_callouts v) vrtc_callout) \<or> \<not> rtc_active v")
  case True
  then show ?thesis using k by (auto simp: vrtc_callout_handler_def intro: rtc_step_moves)
next
  case False
  define v1 where "v1 = with_callouts (upd vrtc_callout callout_deactivate (vm_callouts v)) v"
  have r1: "vm_vrtc v1 = vm_vrtc v" "vm_timebase v1 = vm_timebase v" by (simp_all add: v1_def)
  have f: "vrtc_freq (vm_vrtc v) \<noteq> 0" using False k by (auto simp: rtc_ok_def)
  obtain a x where a: "vrtc_set_reg_c (rtc_dev (vm_vrtc v1) rtc_reg_c OR RTCIR_PERIOD) v1 = Some a" "rtc_step v1 a" "vm_vrtc a = set_dev rtc_reg_c x (vm_vrtc v1)"
    by (rule set_reg_c_step)
  define v2 where "v2 = (if pintr_enabled (vm_vrtc v1) then a else v1)"
  have s2: "rtc_step v1 v2" using a(2) by (simp add: v2_def)
  have q2: "rtc_ctl (vm_vrtc v2) = rtc_ctl (vm_vrtc v)" "rtc_base_rtctime (vm_vrtc v2) = rtc_base_rtctime (vm_vrtc v)"
    "rtc_base_uptime (vm_vrtc v2) = rtc_base_uptime (vm_vrtc v)" "vm_timebase v2 = vm_timebase v"
    using a r1 s2 by (auto simp: v2_def rtc_step_def)
  obtain t b where t: "vrtc_curtime (vm_timebase v) mat (vm_vrtc v) = Some (t, b)" "-1 \<le> t" "rtc_base_rtctime (vm_vrtc v) \<le> t"
    "rtc_halted (vm_vrtc v) \<Longrightarrow> t = VRTC_BROKEN_TIME" "\<not> rtc_halted (vm_vrtc v) \<Longrightarrow> 0 \<le> t" by (rule curtime_spec [OF k c]) blast
  note en2 = rtc_enabled_cong [OF q2(1)]
  have base: "-1 \<le> rtc_base_rtctime (vm_vrtc v)" using k by (auto simp: rtc_ok_def split: if_splits)
  obtain w where w: "vrtc_time_update wall t b v2 = Some (w, 0)" "rtc_step v2 w" "rtc_ctl (vm_vrtc w) = rtc_ctl (vm_vrtc v2)"
    "rtc_base_rtctime (vm_vrtc w) = t" by (rule time_update_step [of t v2 wall b]) (use t q2(2) base en2 in auto)
  define v3 where "v3 = (if aintr_enabled (vm_vrtc v2) \<or> uintr_enabled (vm_vrtc v2) then w else v2)"
  have s3: "rtc_step v1 v3" using s2 rtc_step_trans [OF s2 w(2)] by (simp add: v3_def)
  have q3: "rtc_ctl (vm_vrtc v3) = rtc_ctl (vm_vrtc v)"
    "rtc_base_rtctime (vm_vrtc v3) = rtc_base_rtctime (vm_vrtc v) \<or> rtc_base_rtctime (vm_vrtc v3) = t"
    using w q2 by (auto simp: v3_def)
  have own: "unat (rtc_addr (vm_vrtc v3)) < 128"
    "if rtc_halted (vm_vrtc v3) then rtc_base_rtctime (vm_vrtc v3) = VRTC_BROKEN_TIME else 0 \<le> rtc_base_rtctime (vm_vrtc v3)"
    using k q3(2) t(4,5) rtc_enabled_cong [OF q3(1)] by (auto simp: rtc_ok_def split: if_splits)
  have f3: "vrtc_freq (vm_vrtc v3) = vrtc_freq (vm_vrtc v)"
    by (rule vrtc_freq_cong [OF q3(1)]) (use q3(2) t(4,5) k in \<open>auto simp: rtc_ok_def split: if_splits\<close>)
  have ok3: "callouts_ok (Some vrtc_callout) (vm_callouts v3)"
    using s3 ok by (simp add: rtc_step_def v1_def callouts_ok_deactivate)
  obtain v' where v': "vrtc_callout_reset mat (vrtc_freq (vm_vrtc v3)) v3 = Some v'" "rtc_moves (Some vrtc_callout) v3 v'"
    by (rule callout_reset_moves [OF ok3 refl own])
  have "rtc_moves (Some vrtc_callout) v1 v'" by (rule rtc_moves_step [OF s3 v'(2)])
  then have "rtc_moves (Some vrtc_callout) v v'"
    using callouts_ok_deactivate [OF ok] by (simp add: rtc_moves_def v1_def level_ok_def callout_active_deactivate)
  moreover have "vrtc_callout_handler mat wall v = Some v'"
  proof -
    have e2: "(if pintr_enabled (vm_vrtc v1) then vrtc_set_reg_c (rtc_dev (vm_vrtc v1) rtc_reg_c OR RTCIR_PERIOD) v1 else Some v1) = Some v2"
      using a(1) by (simp add: v2_def)
    have e3: "(if aintr_enabled (vm_vrtc v2) \<or> uintr_enabled (vm_vrtc v2)
        then Option.bind (vrtc_curtime (vm_timebase v2) mat (vm_vrtc v2)) (\<lambda>(rtctime, basetime).
             Option.bind (vrtc_time_update wall rtctime basetime v2) (\<lambda>(v3, error). if error \<noteq> 0 then None else Some v3))
        else Some v2) = Some v3"
      using t(1) curtime_cong [OF q2(1-3)] w(1) q2(4) by (simp add: v3_def)
    show ?thesis
      unfolding vrtc_callout_handler_def Let_def v1_def [symmetric] e2 using False freq_needs_intr [OF f] e3 v'(1) f f3 by (simp add: r1)
  qed
  ultimately show ?thesis by blast
qed

lemma addr_handler_moves: "rtc_ok v \<Longrightarrow> rtc_moves r v (fst (vrtc_addr_handler dir_in bytes val v))"
proof -
  assume k: "rtc_ok v"
  have "unat (val AND 0x7f) < 128" using word_and_le1 [of val "0x7f"] by (simp add: word_le_nat_alt)
  moreover have "vrtc_freq ((vm_vrtc v)\<lparr>rtc_addr := val AND 0x7f\<rparr>) = vrtc_freq (vm_vrtc v)" "rtc_halted ((vm_vrtc v)\<lparr>rtc_addr := val AND 0x7f\<rparr>) = rtc_halted (vm_vrtc v)"
    by (simp_all add: vrtc_freq_def pintr_enabled_def aintr_enabled_def uintr_enabled_def update_enabled_def rtc_halted_def)
  ultimately have "rtc_ok (upd_vrtc (\<lambda>r. r\<lparr>rtc_addr := val AND 0x7f\<rparr>) v)" using k by (simp add: rtc_ok_def)
  then show ?thesis using k by (simp add: vrtc_addr_handler_def rtc_step_moves)
qed

lemma set_time_moves:
  assumes k: "rtc_ok v" and t: "0 \<le> secs" and fwd: "aintr_enabled (vm_vrtc v) \<Longrightarrow> rtc_base_rtctime (vm_vrtc v) \<le> secs"
  obtains v' e where "vrtc_set_time mat wall secs v = Some (v', e)" and "rtc_moves r v v'"
    and "\<not> rtc_halted (vm_vrtc v) \<Longrightarrow> e = 0 \<and> rtc_base_rtctime (vm_vrtc v') = secs \<and> rtc_base_uptime (vm_vrtc v') = sbinuptime (vm_timebase v) mat
           \<and> rtc_ctl (vm_vrtc v') = rtc_ctl (vm_vrtc v)"
proof (cases "rtc_halted (vm_vrtc v)")
  case True
  let ?w = "upd_vrtc (\<lambda>r. r\<lparr>rtc_base_uptime := sbinuptime (vm_timebase v) mat\<rparr>) v"
  have h: "rtc_halted (vm_vrtc ?w)" using True by (simp add: rtc_halted_def)
  have b: "rtc_base_rtctime (vm_vrtc v) = VRTC_BROKEN_TIME" using True k by (simp add: rtc_ok_def)
  have "rtc_ok ?w" by (rule rtc_ok_cong [OF k]) simp_all
  then show thesis
    using that [of ?w EBUSY] True h b t by (simp add: vrtc_set_time_def vrtc_time_update_def Let_def rtc_step_moves)
next
  case False
  have base: "-1 \<le> rtc_base_rtctime (vm_vrtc v)" using k False by (simp add: rtc_ok_def)
  obtain w where w: "vrtc_time_update wall secs (sbinuptime (vm_timebase v) mat) v = Some (w, 0)" "rtc_step v w" "rtc_ctl (vm_vrtc w) = rtc_ctl (vm_vrtc v)"
    "rtc_base_rtctime (vm_vrtc w) = secs" "rtc_base_uptime (vm_vrtc w) = sbinuptime (vm_timebase v) mat"
    by (rule time_update_step [of secs v wall "sbinuptime (vm_timebase v) mat"]) (use t base fwd False in auto)
  have "rtc_ok w" by (rule rtc_ok_cong [OF k w(3)]) (use w t False in \<open>auto simp: rtc_step_def\<close>)
  then show thesis using that [of w 0] w rtc_step_moves by (simp add: vrtc_set_time_def)
qed

lemma nvram_write_moves: "rtc_ok v \<Longrightarrow> rtc_moves r v (fst (vrtc_nvram_write offset val v))"
proof -
  assume k: "rtc_ok v"
  have "rtc_ok (upd_vrtc (set_dev (nat offset) val) v)" if "\<not> (offset < 14 \<or> offset = int RTC_CENTURY \<or> offset \<ge> 128)"
  proof (rule rtc_ok_cong [OF k])
    have "nat offset \<noteq> 10" "nat offset \<noteq> 11" using that by auto
    then show "rtc_ctl (vm_vrtc (upd_vrtc (set_dev (nat offset) val) v)) = rtc_ctl (vm_vrtc v)" by simp
  qed simp_all
  then show ?thesis using k by (simp add: vrtc_nvram_write_def rtc_step_moves)
qed

lemma rtc_init_ok:
  assumes "\<not> rtc_active v"
  obtains v' where "vrtc_init mat wall v = Some v'" and "rtc_step v v'" and "rtc_ok v'"
proof -
  define r0 where "r0 = vrtc_bzero\<lparr>rtc_addr := 0x0d, rtc_base_rtctime := VRTC_BROKEN_TIME,
      rtc_dev := (rtc_dev vrtc_bzero)(rtc_reg_a := 0x20, rtc_reg_b := RTCSB_24HR, rtc_reg_c := 0, rtc_reg_d := 0x80)\<rparr>"
  let ?v1 = "upd_vrtc (\<lambda>_. r0) v"
  have r0: "reg_b r0 = RTCSB_24HR" "rtc_addr r0 = 0x0d" "rtc_base_rtctime r0 = VRTC_BROKEN_TIME" by (simp_all add: r0_def)
  have off: "\<not> rtc_halted r0" "\<not> aintr_enabled r0" "\<not> pintr_enabled r0" "\<not> uintr_enabled r0"
    by (simp_all add: rtc_halted_def aintr_enabled_def pintr_enabled_def uintr_enabled_def r0)
  obtain w where w: "vrtc_time_update wall 0 (sbinuptime (vm_timebase v) mat) ?v1 = Some (w, 0)" "rtc_step ?v1 w" "rtc_ctl (vm_vrtc w) = rtc_ctl r0"
    "rtc_base_rtctime (vm_vrtc w) = 0"
    by (rule time_update_step [of 0 ?v1 wall "sbinuptime (vm_timebase v) mat"]) (use off r0 in auto)
  obtain q where q: "secs_to_rtc wall 0 False (vm_vrtc w) = Some q" "rtc_ctl q = rtc_ctl (vm_vrtc w)" "rtc_base_rtctime q = rtc_base_rtctime (vm_vrtc w)"
    by (rule secs_to_rtc_total [of 0 wall False "vm_vrtc w"]) simp_all
  let ?v' = "upd_vrtc (\<lambda>_. q) w"
  have "vrtc_init mat wall v = Some ?v'" unfolding vrtc_init_def Let_def r0_def [symmetric] using w(1) q(1) by simp
  moreover have s: "rtc_step v ?v'" using w(2) by (blast intro: rtc_step_trans)
  moreover have c: "rtc_ctl q = rtc_ctl r0" using q(2) w(3) by simp
  then have "vrtc_freq q = 0" "rtc_addr q = 0x0d" "\<not> rtc_halted q" using rtc_enabled_cong [OF c] off r0(2) by (simp_all add: vrtc_freq_def)
  moreover have "\<not> rtc_active ?v'" using assms s by (simp add: rtc_step_def)
  ultimately show thesis using that [of ?v'] q(3) w(4) by (simp add: rtc_ok_def)
qed

lemma vrtc_init_vioapic: "vrtc_init mat wall v = Some v' \<Longrightarrow> vm_vioapic v' = vm_vioapic v"
proof -
  define r0 where "r0 = vrtc_bzero\<lparr>rtc_addr := 0x0d, rtc_base_rtctime := VRTC_BROKEN_TIME,
      rtc_dev := (rtc_dev vrtc_bzero)(rtc_reg_a := 0x20, rtc_reg_b := RTCSB_24HR, rtc_reg_c := 0, rtc_reg_d := 0x80)\<rparr>"
  have off: "\<not> rtc_halted r0" "\<not> aintr_enabled r0" "\<not> uintr_enabled r0"
    by (simp_all add: rtc_halted_def aintr_enabled_def uintr_enabled_def r0_def)
  note same = off [unfolded rtc_halted_def aintr_enabled_def uintr_enabled_def]
  let ?v1 = "upd_vrtc (\<lambda>_. r0) v"
  have b: "rtc_base_rtctime r0 = VRTC_BROKEN_TIME" by (simp add: r0_def)
  assume "vrtc_init mat wall v = Some v'"
  then show ?thesis
    unfolding vrtc_init_def Let_def r0_def [symmetric]
    by (auto simp: vrtc_time_update_def update_loop.simps visit_second_def Let_def b same
        rtc_halted_def aintr_enabled_def uintr_enabled_def split: Option.bind_splits)
qed

subsection \<open>Faults of the clock\<close>

definition moves_forward :: "int \<Rightarrow> int \<Rightarrow> vm \<Rightarrow> bool" where
  "moves_forward oldtime newtime v \<longleftrightarrow> (oldtime \<noteq> VRTC_BROKEN_TIME \<and> aintr_enabled (vm_vrtc v) \<and> -1 \<le> rtc_base_rtctime (vm_vrtc v)
     \<longrightarrow> rtc_base_rtctime (vm_vrtc v) < newtime)"

lemma update_loop_forward:
  assumes "update_loop wall oldtime newtime dev0 v = Some v'"
  shows "moves_forward oldtime newtime v"
proof (rule update_loop.raw_induct [where P = "\<lambda>wall oldtime newtime dev0 v _. moves_forward oldtime newtime v", OF _ assms])
  fix loop wall oldtime newtime dev0 v v'
  assume IH: "\<And>wall oldtime newtime dev0 v y. loop wall oldtime newtime dev0 v = Some y \<Longrightarrow> moves_forward oldtime newtime v"
    and run: "Option.bind (visit_second wall oldtime newtime dev0 v)
       (\<lambda>v1. if rtc_base_rtctime (vm_vrtc v1) \<noteq> newtime then loop wall oldtime newtime dev0 v1 else Some v1) = Some v'"
  show "moves_forward oldtime newtime v"
    unfolding moves_forward_def
  proof (intro impI, elim conjE)
    assume a: "oldtime \<noteq> VRTC_BROKEN_TIME" "aintr_enabled (vm_vrtc v)" "-1 \<le> rtc_base_rtctime (vm_vrtc v)"
    let ?t = "rtc_base_rtctime (vm_vrtc v) + 1"
    obtain w where w: "visit_second wall oldtime newtime dev0 v = Some w" "rtc_ctl (vm_vrtc w) = rtc_ctl (vm_vrtc v)"
      "rtc_base_rtctime (vm_vrtc w) = ?t"
      by (rule visit_second_step [of v oldtime newtime wall dev0]) (use a in auto)
    have "aintr_enabled (vm_vrtc w)" using rtc_enabled_cong(2) [OF w(2)] a(2) by simp
    then show "rtc_base_rtctime (vm_vrtc v) < newtime"
      using IH [of wall oldtime newtime dev0 w v'] run w a by (cases "?t = newtime") (auto simp: moves_forward_def)
  qed
qed

text \<open>
  C40. A guest can hang the hypervisor: with the alarm interrupt enabled and the clock running, a write of the century register
  that makes the date in the fields earlier than the clock's time does not return, because the update
  visits all seconds from the old time on and never meets the new one.
\<close>

theorem rtc_century_hang:
  assumes "\<not> rtc_halted (vm_vrtc v)" and "aintr_enabled (vm_vrtc v)" and "0 \<le> rtc_base_rtctime (vm_vrtc v)"
    and "rtc_to_secs (vm_vrtc v) \<noteq> VRTC_BROKEN_TIME" and "rtc_to_secs (vm_vrtc v) < rtc_base_rtctime (vm_vrtc v)"
  shows "rtc_century_written mat wall v = None"
proof (rule ccontr)
  let ?t = "rtc_to_secs (vm_vrtc v)" and ?v1 = "upd_vrtc (\<lambda>r. r\<lparr>rtc_base_uptime := sbinuptime (vm_timebase v) mat\<rparr>) v"
  have e: "rtc_halted (vm_vrtc ?v1) = rtc_halted (vm_vrtc v)" "aintr_enabled (vm_vrtc ?v1) = aintr_enabled (vm_vrtc v)"
    by (rule rtc_enabled_cong, simp)+
  assume "rtc_century_written mat wall v \<noteq> None"
  then obtain x where "update_loop wall (rtc_base_rtctime (vm_vrtc v)) ?t (rtc_dev (vm_vrtc v)) ?v1 = Some x"
    using assms e by (auto simp: rtc_century_written_def vrtc_time_update_def Let_def split: Option.bind_splits)
  from update_loop_forward [OF this] show False using assms e by (simp add: moves_forward_def)
qed

theorem rtc_century_hang_witness:
  "rtc_century_written 0 0 (upd_vrtc (\<lambda>r. r\<lparr>rtc_base_rtctime := 951782399, rtc_dev := (rtc_dev r)(rtc_reg_a := 0x20, rtc_reg_b := 0x22,
     rtc_day_of_month := 1, rtc_month := 1, rtc_year := 0x70, RTC_CENTURY := 0x19)\<rparr>) (vm_calloc \<lparr>tb_numer = 1, tb_denom = 1\<rparr>)) = None"
proof -
  let ?f = "\<lambda>r. r\<lparr>rtc_base_rtctime := 951782399, rtc_dev := (rtc_dev r)(rtc_reg_a := 0x20, rtc_reg_b := 0x22,
     rtc_day_of_month := 1, rtc_month := 1, rtc_year := 0x70, RTC_CENTURY := 0x19)\<rparr>"
  have r: "vm_vrtc (upd_vrtc ?f (vm_calloc \<lparr>tb_numer = 1, tb_denom = 1\<rparr>)) = ?f vrtc_bzero" by (simp add: vm_calloc_def)
  have "rtc_to_secs (?f vrtc_bzero) = 0" by code_simp
  moreover have "\<not> rtc_halted (?f vrtc_bzero)" "aintr_enabled (?f vrtc_bzero)" by (simp_all add: rtc_halted_def aintr_enabled_def)
  ultimately show ?thesis by (intro rtc_century_hang) (unfold r, simp_all)
qed

text \<open>
  The clock does not show the time it is set to. After the host or the guest sets it to some second, the clock
  counts from that second; but the date and time fields that the guest reads are those of the host's calendar
  clock, whatever the setting.
\<close>

theorem rtc_setting_not_shown:
  assumes "rtc_ok v" and "0 \<le> secs" and "\<not> rtc_halted (vm_vrtc v)" and "\<not> aintr_enabled (vm_vrtc v)"
  shows "\<exists>v1 v2 x. vrtc_set_time mat wall secs v = Some (v1, 0) \<and> vrtc_get_time mat v1 = Some secs
     \<and> vrtc_nvram_read mat wall 0 v1 = Some (v2, Inr x) \<and> rtc_to_secs (vm_vrtc v2) = uint wall"
proof -
  obtain v1 e where v1: "vrtc_set_time mat wall secs v = Some (v1, e)" "rtc_moves None v v1"
    "\<not> rtc_halted (vm_vrtc v) \<Longrightarrow> e = 0 \<and> rtc_base_rtctime (vm_vrtc v1) = secs \<and> rtc_base_uptime (vm_vrtc v1) = sbinuptime (vm_timebase v) mat
       \<and> rtc_ctl (vm_vrtc v1) = rtc_ctl (vm_vrtc v)"
    by (rule set_time_moves [OF assms(1,2), of mat wall None]) (use assms(4) in blast)+
  have t: "vrtc_curtime (vm_timebase v1) mat (vm_vrtc v1) = Some (secs, sbinuptime (vm_timebase v) mat)"
    using v1(2,3) assms(3) by (simp add: vrtc_curtime_def rtc_moves_def Let_def)
  have "\<not> rtc_halted (vm_vrtc v1) \<or> False" using v1(3) assms(3) rtc_enabled_cong(1) by blast
  then obtain r' where "secs_to_rtc wall secs False (vm_vrtc v1) = Some r'" "rtc_to_secs r' = uint wall"
    using rtc_fields_roundtrip_spec [OF assms(2)] by blast
  then show ?thesis using v1(1,3) assms(3) t by (simp add: vrtc_get_time_def vrtc_nvram_read_def)
qed

theorem rtc_setting_not_shown_witness:
  "\<exists>v1 v2 x. vrtc_set_time 0 951782399 7 (vm_calloc \<lparr>tb_numer = 1, tb_denom = 1\<rparr>) = Some (v1, 0) \<and> vrtc_get_time 0 v1 = Some 7
     \<and> vrtc_nvram_read 0 951782399 0 v1 = Some (v2, Inr x) \<and> rtc_to_secs (vm_vrtc v2) = 951782399"
proof -
  let ?v = "vm_calloc \<lparr>tb_numer = 1, tb_denom = 1\<rparr>"
  have r: "vm_vrtc ?v = vrtc_bzero" "\<not> rtc_active ?v" by (simp_all add: vm_calloc_def callout_sys_init_def callout_zero_def callout_active_def)
  have o: "\<not> rtc_halted vrtc_bzero" "\<not> aintr_enabled vrtc_bzero" "\<not> pintr_enabled vrtc_bzero" "\<not> uintr_enabled vrtc_bzero"
    by (simp_all add: rtc_halted_def aintr_enabled_def pintr_enabled_def uintr_enabled_def vrtc_bzero_def)
  then have "rtc_ok ?v" using r by (simp add: rtc_ok_def vrtc_freq_def) (simp add: vrtc_bzero_def)
  from rtc_setting_not_shown [OF this, of 7 0 951782399] show ?thesis using o r by simp
qed

end
