(* ===== verification/Vpmtmr.thy ===== *)
theory Vpmtmr
  imports Vatpit
begin

text \<open>The ACPI power management timer (\<open>src/vmm/io/vpmtmr.c\<close>): a free-running 32-bit counter at 3.579545 MHz.\<close>

abbreviation (input) PMTMR_FREQ :: u64 where "PMTMR_FREQ \<equiv> 3579545"

definition vpmtmr_init :: "timebase \<Rightarrow> u64 \<Rightarrow> vpmtmr" where
  "vpmtmr_init tb mat = \<lparr>pm_freq_sbt = bttosbt (FREQ2BT PMTMR_FREQ), pm_baseuptime = sbinuptime tb mat, pm_baseval = 0\<rparr>"

text \<open>\<open>Inl\<close> is the error code, \<open>Inr\<close> the value read.\<close>

definition vpmtmr_handler :: "u64 \<Rightarrow> bool \<Rightarrow> int \<Rightarrow> vm \<Rightarrow> (int + u32) option" where
  "vpmtmr_handler mat dir_in bytes v =
     (if \<not> dir_in \<or> bytes \<noteq> 4 then Some (Inl (-1))
      else let p = vm_vpmtmr v; delta = sbinuptime (vm_timebase v) mat - pm_baseuptime p
           in if sint delta < 0 \<or> pm_freq_sbt p = 0 then None
              else Some (Inr (word_of_int (uint (pm_baseval p) + sint delta sdiv sint (pm_freq_sbt p)))))"

lemma pmtmr_freq: "sint (pm_freq_sbt (vpmtmr_init tb mat)) = 1199"
proof -
  have "sint (bttosbt (FREQ2BT PMTMR_FREQ)) = 1199" by code_simp
  then show ?thesis by (simp add: vpmtmr_init_def)
qed

lemma pmtmr_freq_nonzero [simp]: "pm_freq_sbt (vpmtmr_init tb mat) \<noteq> 0"
  using pmtmr_freq [of tb mat] by auto

text \<open>The counter shows the ticks since the start of the machine, modulo 32 bits.\<close>

lemma pmtmr_counts:
  assumes "vm_vpmtmr v = vpmtmr_init (vm_timebase v) mat0"
    and "0 \<le> sint (sbinuptime (vm_timebase v) mat - sbinuptime (vm_timebase v) mat0)"
  shows "\<exists>x. vpmtmr_handler mat True 4 v = Some (Inr x)
     \<and> uint x = sint (sbinuptime (vm_timebase v) mat - sbinuptime (vm_timebase v) mat0) div 1199 mod 2 ^ 32"
proof -
  have "pm_freq_sbt (vm_vpmtmr v) \<noteq> 0" using pmtmr_freq [of "vm_timebase v" mat0] assms(1) by auto
  moreover have "pm_baseuptime (vm_vpmtmr v) = sbinuptime (vm_timebase v) mat0" "pm_baseval (vm_vpmtmr v) = 0"
    using assms(1) by (simp_all add: vpmtmr_init_def)
  moreover have "sint (pm_freq_sbt (vm_vpmtmr v)) = 1199" using pmtmr_freq assms(1) by simp
  ultimately show ?thesis
    using assms(2) by (simp add: vpmtmr_handler_def Let_def unsigned_of_int take_bit_eq_mod signed_divide_int_def sgn_if)
qed

definition pmtmr_clock :: "u64 \<Rightarrow> vm \<Rightarrow> bool" where
  "pmtmr_clock mat v \<longleftrightarrow> 0 \<le> sint (sbinuptime (vm_timebase v) mat - pm_baseuptime (vm_vpmtmr v))"

lemma pmtmr_answers:
  "pmtmr_clock mat v \<Longrightarrow> pm_freq_sbt (vm_vpmtmr v) \<noteq> 0 \<Longrightarrow> \<exists>x. vpmtmr_handler mat d b v = Some x"
  by (simp add: vpmtmr_handler_def pmtmr_clock_def Let_def)

end
