(* ===== verification/Vm_Inv.thy ===== *)
theory Vm_Inv
  imports Vlapic_Mmio Vhpet Vrtc Vpmtmr
begin

text \<open>
  The invariant of the whole interrupt complex and its preservation by the register
  interface of the local APIC, by the timers' handlers and by the ports of the legacy
  devices. Each lemma also says that the operation answers: no self-check of the sources
  fails in a state that satisfies the invariant.
\<close>

definition vm_inv :: "nat option \<Rightarrow> vm \<Rightarrow> bool" where
  "vm_inv r v \<longleftrightarrow> (\<forall>i. isr_inv (vm_lapic v i)) \<and> level_ok v \<and> vatpic_wf (vm_vatpic v)
     \<and> vatpit_wf (vm_vatpit v) \<and> callouts_ok r (vm_callouts v) \<and> hpet_ok v \<and> rtc_ok v \<and> pm_freq_sbt (vm_vpmtmr v) \<noteq> 0"

text \<open>An operation that answers and keeps the invariant.\<close>

definition keeps_inv :: "nat option \<Rightarrow> (vm \<Rightarrow> vm option) \<Rightarrow> bool" where
  "keeps_inv r f \<longleftrightarrow> (\<forall>v. vm_inv r v \<longrightarrow> (\<exists>v'. f v = Some v' \<and> vm_inv r v'))"

named_theorems keeps \<open>operations that answer and keep the invariant of the machine\<close>

lemma keeps_invI: "(\<And>v. vm_inv r v \<Longrightarrow> \<exists>v'. f v = Some v' \<and> vm_inv r v') \<Longrightarrow> keeps_inv r f"
  by (simp add: keeps_inv_def)

lemma keeps_invD: "keeps_inv r f \<Longrightarrow> vm_inv r v \<Longrightarrow> \<exists>v'. f v = Some v' \<and> vm_inv r v'"
  by (simp add: keeps_inv_def)

text \<open>The same for operations with a result.\<close>

definition answers :: "nat option \<Rightarrow> (vm \<times> 'r) option \<Rightarrow> bool" where
  "answers r x \<longleftrightarrow> (case x of None \<Rightarrow> False | Some (v', _) \<Rightarrow> vm_inv r v')"

lemma answers_simps [simp]:
  "answers r (Some (v, a)) \<longleftrightarrow> vm_inv r v" "\<not> answers r None"
  "answers r (map_option (\<lambda>v. (v, a)) x) \<longleftrightarrow> (\<exists>v. x = Some v \<and> vm_inv r v)"
  by (auto simp: answers_def split: option.splits)

lemma keeps_inv_bind: "keeps_inv r f \<Longrightarrow> keeps_inv r g \<Longrightarrow> keeps_inv r (\<lambda>v. Option.bind (f v) g)"
  unfolding keeps_inv_def by fastforce

lemma answers_if:
  "(b \<Longrightarrow> answers r x) \<Longrightarrow> (\<not> b \<Longrightarrow> answers r y) \<Longrightarrow> answers r (if b then x else y)"
  by simp

subsection \<open>From the frames of the components to the invariant\<close>

lemma vm_inv_pic: "vatpic_step_ok v v' \<Longrightarrow> vm_inv r v \<Longrightarrow> vm_inv r v'"
  unfolding vm_inv_def vatpic_step_ok_def pic_frame_def by (auto intro: isr_frame_inv simp: hpet_ok_def rtc_ok_def)

lemma vm_inv_intr: "intr_frame v v' \<Longrightarrow> (level_ok v \<Longrightarrow> level_ok v') \<Longrightarrow> vm_inv r v \<Longrightarrow> vm_inv r v'"
  unfolding vm_inv_def intr_frame_def by (auto intro: isr_frame_inv simp: hpet_ok_def rtc_ok_def)

lemma vm_inv_deliver: "deliver_frame v v' \<Longrightarrow> vm_inv r v \<Longrightarrow> vm_inv r v'"
  by (rule vm_inv_intr [OF deliver_intr_frame]) (simp_all add: level_ok_def deliver_frame_simps)

lemma vm_inv_timer: "timer_frame v v' \<Longrightarrow> vm_inv r v \<Longrightarrow> vm_inv r v'"
  by (auto simp: vm_inv_def timer_frame_def vm_lapic_def level_ok_def timers_undisturbed_def hpet_ok_def hpet_quiet_def rtc_ok_def)

lemma vm_inv_hpet: "hpet_moves r v v' \<Longrightarrow> vm_inv r v \<Longrightarrow> vm_inv r v'"
  unfolding vm_inv_def hpet_moves_def by (auto intro: isr_frame_inv simp: rtc_ok_def)

lemma vm_inv_rtc: "rtc_moves r v v' \<Longrightarrow> vm_inv r v \<Longrightarrow> vm_inv r v'"
  unfolding vm_inv_def rtc_moves_def by (auto intro: isr_frame_inv simp: hpet_ok_def hpet_quiet_def)

lemma vm_inv_upd_vlapic: "vm_inv r v \<Longrightarrow> isr_inv (f (vm_lapic v i)) \<Longrightarrow> vm_inv r (upd_vlapic i f v)"
  by (simp add: vm_inv_def level_ok_def hpet_ok_def rtc_ok_def)

lemma vm_inv_upd_frame: "vm_inv r v \<Longrightarrow> isr_frame (vm_lapic v i) (f (vm_lapic v i)) \<Longrightarrow> vm_inv r (upd_vlapic i f v)"
  by (rule vm_inv_upd_vlapic) (auto simp: vm_inv_def intro: isr_frame_inv)

lemma vm_inv_upd_vcpu:
  assumes "vm_inv r v" and "\<And>c. vc_vlapic (f c) = vc_vlapic c"
  shows "vm_inv r (upd_vcpu i f v)"
  using assms by (simp add: vm_inv_def level_ok_def hpet_ok_def rtc_ok_def)

lemma vm_inv_callouts:
  "vm_inv r v \<Longrightarrow> callouts_ok r' s \<Longrightarrow> timers_undisturbed (vm_callouts v) s \<Longrightarrow> vm_inv r' (with_callouts s v)"
  by (simp add: vm_inv_def level_ok_def timers_undisturbed_def hpet_ok_def hpet_quiet_def rtc_ok_def)

lemma keeps_ioapic: "ioapic_safe f \<Longrightarrow> keeps_inv r f"
  by (rule keeps_invI) (metis ioapic_safeE vm_inv_intr)

subsection \<open>Registers that do not touch the priority machinery\<close>

lemma isr_frame_handlers [simp]:
  "isr_frame l (vlapic_id_write_handler l)" "isr_frame l (vlapic_ldr_write_handler l)"
  "isr_frame l (vlapic_dfr_write_handler l)" "isr_frame l (vlapic_esr_write_handler l)"
  by (simp_all add: isr_frame_def vlapic_id_write_handler_def vlapic_ldr_write_handler_def
      vlapic_dfr_write_handler_def vlapic_esr_write_handler_def)

lemma lvt_write_frame:
  assumes "vlapic_lvt_write_handler l off = Some l'"
  shows "isr_frame l l'"
  using assms by (auto simp: vlapic_lvt_write_handler_def isr_frame_def Let_def split: option.splits)

text \<open>A pointer into the table exists exactly for the offsets that have an index.\<close>

lemma lvtptr_iff_idx: "vlapic_get_lvtptr off = None \<longleftrightarrow> lvt_off_to_idx off = None"
  by (simp add: vlapic_get_lvtptr_def lvt_off_to_idx_def)

lemma lvt_write_defined:
  "vlapic_get_lvtptr off \<noteq> None \<Longrightarrow> \<exists>l'. vlapic_lvt_write_handler l off = Some l'"
  using lvtptr_iff_idx [of off] by (auto simp: vlapic_lvt_write_handler_def Let_def split: option.splits)

lemma mask_lvt_ok:
  assumes "vlapic_get_lvtptr off \<noteq> None"
  obtains l' where "mask_lvt p off l = Some l'" and "isr_frame l l'"
proof -
  let ?l = "upd_page (\<lambda>q. lvt_put p (lvt_get p q OR APIC_LVT_M) q) l"
  obtain l' where "vlapic_lvt_write_handler ?l off = Some l'" using lvt_write_defined [OF assms] by blast
  moreover have "isr_frame l ?l" by (simp add: isr_frame_def)
  ultimately show thesis
    by (intro that [of l']) (auto simp: mask_lvt_def intro: isr_frame_trans lvt_write_frame)
qed

lemma mask_lvts_ok: obtains l' where "vlapic_mask_lvts l = Some l'" and "isr_frame l l'"
proof -
  have step: "\<exists>l'. Option.bind (mask_lvt p off l) g = Some l' \<and> isr_frame l l'"
    if "vlapic_get_lvtptr off \<noteq> None" and "\<And>m. \<exists>l'. g m = Some l' \<and> isr_frame m l'" for p off g l
    using mask_lvt_ok [OF that(1), of p l] that(2) by (metis bind.bind_lunit isr_frame_trans)
  have last: "\<exists>l'. mask_lvt p off l = Some l' \<and> isr_frame l l'" if "vlapic_get_lvtptr off \<noteq> None" for p off l
    using mask_lvt_ok [OF that, of p l] by metis
  have "\<exists>l'. vlapic_mask_lvts l = Some l' \<and> isr_frame l l'"
    unfolding vlapic_mask_lvts_def by (intro step last) (simp_all add: vlapic_get_lvtptr_def)
  then show thesis using that by blast
qed

text \<open>The eight values of the divide configuration register that survive the mask are all listed.\<close>

lemma timer_divisor_total: "\<exists>d. vlapic_timer_divisor dcr = Some d \<and> d \<in> {1, 2, 4, 8, 16, 32, 64, 128}"
proof -
  have "\<exists>b0 b1 b3. dcr AND 0xB = (if b0 then 1 else 0) OR (if b1 then 2 else 0) OR (if b3 then 8 else 0 :: u32)"
  proof (intro exI)
    have e: "(0xB :: u32) = BIT 0 OR BIT 1 OR BIT 3" by (simp add: BIT_def)
    have "dcr AND (BIT 0 OR BIT 1 OR BIT 3)
        = (if bit dcr 0 then BIT 0 else 0) OR (if bit dcr 1 then BIT 1 else 0) OR (if bit dcr 3 then BIT 3 else 0)"
      by (rule bit_word_eqI) (auto simp: bit_and_iff bit_or_iff intro: gr0I)
    then show "dcr AND 0xB = (if bit dcr 0 then 1 else 0) OR (if bit dcr 1 then 2 else 0) OR (if bit dcr 3 then 8 else 0)"
      unfolding e by (simp add: BIT_def)
  qed
  then show ?thesis by (auto simp: vlapic_timer_divisor_def Let_def split: if_splits)
qed

lemma dcr_write_ok: obtains l' where "vlapic_dcr_write_handler l = Some l'" and "isr_frame l l'"
  using timer_divisor_total [of "la_dcr_timer (vl_page l)"]
  by (auto simp: vlapic_dcr_write_handler_def isr_frame_def Let_def)

subsection \<open>Handlers of the local APIC\<close>

lemma process_eoi_keeps [keeps]: "keeps_inv r (vlapic_process_eoi i)"
proof (rule keeps_invI)
  fix v assume inv: "vm_inv r v"
  then have "isr_inv (vm_lapic v i)" by (simp add: vm_inv_def)
  then obtain l' vec lvl where e: "eoi_local (vm_lapic v i) = Some (l', vec, lvl)" "isr_inv l'"
    by (rule eoi_local_inv) blast
  have inv1: "vm_inv r (upd_vlapic i (\<lambda>_. l') v)" using inv e(2) by (rule vm_inv_upd_vlapic)
  show "\<exists>v'. vlapic_process_eoi i v = Some v' \<and> vm_inv r v'"
    using inv1 keeps_invD [OF keeps_ioapic [OF vioapic_process_eoi_safe] inv1]
    by (auto simp: vlapic_process_eoi_def e(1) Let_def split: option.splits)
qed

lemma set_tpr_keeps [keeps]: "keeps_inv r (lift_vlapic i (\<lambda>l. vlapic_set_tpr l val))"
proof (rule keeps_invI)
  fix v assume inv: "vm_inv r v"
  then have "isr_inv (vm_lapic v i)" by (simp add: vm_inv_def)
  then obtain l' where "vlapic_set_tpr (vm_lapic v i) val = Some l'" "isr_inv l'" by (rule set_tpr_inv) blast
  then show "\<exists>v'. lift_vlapic i (\<lambda>l. vlapic_set_tpr l val) v = Some v' \<and> vm_inv r v'"
    using vm_inv_upd_vlapic [OF inv] by (auto simp: lift_vlapic_def)
qed

lemma lift_frame_keeps:
  assumes "\<And>l. \<exists>l'. f l = Some l' \<and> isr_frame l l'"
  shows "keeps_inv r (lift_vlapic i f)"
proof (rule keeps_invI)
  fix v assume inv: "vm_inv r v"
  obtain l' where "f (vm_lapic v i) = Some l'" "isr_frame (vm_lapic v i) l'" using assms by blast
  then show "\<exists>v'. lift_vlapic i f v = Some v' \<and> vm_inv r v'"
    using vm_inv_upd_frame [OF inv, of i "\<lambda>_. l'"] by (auto simp: lift_vlapic_def)
qed

lemma dcr_write_keeps [keeps]: "keeps_inv r (lift_vlapic i vlapic_dcr_write_handler)"
  by (rule lift_frame_keeps) (metis dcr_write_ok)

lemma lvt_write_keeps:
  "vlapic_get_lvtptr off \<noteq> None \<Longrightarrow> keeps_inv r (lift_vlapic i (\<lambda>l. vlapic_lvt_write_handler l off))"
  by (rule lift_frame_keeps) (metis lvt_write_defined lvt_write_frame)

lemma arm_vlapic_keeps [keeps]: "keeps_inv r (arm_vlapic_timer mat i sbt)"
proof (rule keeps_invI)
  fix v assume inv: "vm_inv r v"
  then have "callouts_ok r (vm_callouts v)" by (simp add: vm_inv_def)
  from callouts.arm_law [OF this, of "(vm_timebase v, mat, sbt, VLAPIC_HANDLER, 0)" "vlapic_callout i"]
  show "\<exists>v'. arm_vlapic_timer mat i sbt v = Some v' \<and> vm_inv r v'"
    using vm_inv_callouts [OF inv] timers_undisturbed_ops(1) [OF \<open>callouts_ok r (vm_callouts v)\<close>]
    by (fastforce simp: arm_vlapic_timer_def callout_arm_def)
qed

lemma vm_inv_stop:
  "vm_inv r v \<Longrightarrow> vm_inv r (with_callouts (callout_stop (vlapic_callout i) (vm_callouts v)) v)"
  by (rule vm_inv_callouts) (auto simp: vm_inv_def callouts.disarm_law timers_undisturbed_ops(2))

lemma vm_inv_deactivate:
  "vm_inv (Some c) v \<Longrightarrow> \<forall>n. vhpet_callout n \<noteq> c \<Longrightarrow> vrtc_callout \<noteq> c \<Longrightarrow> vm_inv (Some c) (with_callouts (upd c callout_deactivate (vm_callouts v)) v)"
  by (rule vm_inv_callouts) (auto simp: vm_inv_def callouts_ok_deactivate timers_undisturbed_ops(3))

lemma vm_inv_vl_field [simp]:
  "isr_frame l (l\<lparr>vl_timer_period_bt := b\<rparr>)" "isr_frame l (l\<lparr>vl_timer_fire_bt := b\<rparr>)"
  "isr_frame l (l\<lparr>vl_svr_last := x\<rparr>)" "isr_frame l (l\<lparr>vl_boot_state := bs\<rparr>)"
  by (simp_all add: isr_frame_def)

lemma icrtmr_keeps [keeps]: "keeps_inv r (vlapic_icrtmr_write_handler mat i)"
proof (rule keeps_invI)
  fix v assume inv: "vm_inv r v"
  define v1 where "v1 = upd_vlapic i (\<lambda>l. l\<lparr>vl_timer_period_bt :=
      bintime_mul (vl_timer_freq_bt l) (la_icr_timer (vl_page (vm_lapic v i)))\<rparr>) v"
  have inv1: "vm_inv r v1" unfolding v1_def using inv by (rule vm_inv_upd_frame) simp
  define v2 where "v2 = upd_vlapic i (\<lambda>l. l\<lparr>vl_timer_fire_bt :=
      bintime_add (vlapic_now mat v1) (vl_timer_period_bt l)\<rparr>) v1"
  have inv2: "vm_inv r v2" unfolding v2_def using inv1 by (rule vm_inv_upd_frame) simp
  show "\<exists>v'. vlapic_icrtmr_write_handler mat i v = Some v' \<and> vm_inv r v'"
    unfolding vlapic_icrtmr_write_handler_def Let_def v1_def [symmetric] v2_def [symmetric]
    using keeps_invD [OF arm_vlapic_keeps inv2] vm_inv_stop [OF inv1] by auto
qed

lemma vlapic_callout_keeps [keeps]: "keeps_inv (Some (vlapic_callout i)) (vlapic_callout_handler mat i)"
proof (rule keeps_invI)
  fix v
  let ?r = "Some (vlapic_callout i)"
  assume inv: "vm_inv ?r v"
  define v1 where "v1 = with_callouts (upd (vlapic_callout i) callout_deactivate (vm_callouts v)) v"
  have inv1: "vm_inv ?r v1"
    unfolding v1_def using inv by (simp add: vm_inv_deactivate)
  define v2 where "v2 = vlapic_fire_timer i v1"
  have inv2: "vm_inv ?r v2" unfolding v2_def by (rule vm_inv_deliver [OF deliver_frame_timer inv1])
  have inv3: "vm_inv ?r (upd_vlapic i (\<lambda>l. l\<lparr>vl_timer_fire_bt := b\<rparr>) v2)" for b
    using inv2 by (rule vm_inv_upd_frame) simp
  show "\<exists>v'. vlapic_callout_handler mat i v = Some v' \<and> vm_inv ?r v'"
    unfolding vlapic_callout_handler_def Let_def v1_def [symmetric] v2_def [symmetric]
    using inv inv2 keeps_invD [OF arm_vlapic_keeps inv3] by auto
qed

lemma svr_write_keeps [keeps]: "keeps_inv r (vlapic_svr_write_handler mat i)"
proof (rule keeps_invI)
  fix v assume inv: "vm_inv r v"
  define v1 where "v1 = upd_vlapic i (\<lambda>l. l\<lparr>vl_svr_last := la_svr (vl_page (vm_lapic v i))\<rparr>) v"
  have inv1: "vm_inv r v1" unfolding v1_def using inv by (rule vm_inv_upd_frame) simp
  define v2 where "v2 = with_callouts (callout_stop (vlapic_callout i) (vm_callouts v1)) v1"
  have inv2: "vm_inv r v2" unfolding v2_def by (rule vm_inv_stop [OF inv1])
  obtain l' where m: "vlapic_mask_lvts (vm_lapic v2 i) = Some l'" "isr_frame (vm_lapic v2 i) l'"
    by (rule mask_lvts_ok)
  have "vm_inv r (upd_vlapic i (\<lambda>_. l') v2)" using inv2 m(2) by (rule vm_inv_upd_frame)
  then show "\<exists>v'. vlapic_svr_write_handler mat i v = Some v' \<and> vm_inv r v'"
    unfolding vlapic_svr_write_handler_def Let_def v1_def [symmetric] v2_def [symmetric]
    using m(1) inv1 keeps_invD [OF icrtmr_keeps inv1] by auto
qed

subsection \<open>Inter-processor interrupts\<close>

text \<open>
  A destination is decodable unless it is an x2APIC physical id with the sign bit set that is
  not the broadcast id.
\<close>

definition dest_ok :: "bool \<Rightarrow> u32 \<Rightarrow> bool" where
  "dest_ok x2 dest \<longleftrightarrow> (if x2 then \<not> bit dest 31 \<or> dest = 0xffffffff else unat dest < 256)"

lemma sint_nonneg: "\<not> bit (w :: u32) 31 \<Longrightarrow> 0 \<le> sint w"
  using bit_last_iff [of w] by simp

lemma calcdest_ok: "dest_ok x2 dest \<Longrightarrow> vlapic_calcdest v dest phys lowprio x2 \<noteq> None"
  using calcdest_defined [of dest v phys lowprio] sint_nonneg [of dest]
  by (auto simp: dest_ok_def vlapic_calcdest_def vm_apicid2vcpuid_def Let_def split: if_splits)

lemma icr_dmask_ok: "dest_ok (x2apic (vm_lapic v i)) dest \<Longrightarrow> \<exists>d. icr_dmask i icr_lo dest v = Some d"
  using calcdest_ok [of "x2apic (vm_lapic v i)" dest v "icr_lo AND 0x800 = 0" False]
  by (auto simp: icr_dmask_def Let_def)

lemma cpu_foreach_keeps:
  assumes "\<And>c s. deliver_frame s (f c s)" and "vm_inv r v"
  shows "vm_inv r (cpu_foreach (\<lambda>c s. (f c s, False)) d v)"
  by (rule cpu_foreach_invariant [where P = "vm_inv r"]) (use assms in \<open>auto intro: vm_inv_deliver\<close>)

lemma drop_24_less: "unat (drop_bit 24 (w :: u32)) < 256"
proof -
  have "unat w < 2 ^ 32" using unsigned_less [of w] by simp
  then show ?thesis by (simp add: unat_drop_bit_div less_mult_imp_div_less)
qed

lemma icrlo_ok:
  assumes inv: "vm_inv r v"
    and d: "x2apic (vm_lapic v i) \<Longrightarrow> dest_ok True (la_icr_hi (vl_page (vm_lapic v i)))"
  shows "answers r (vlapic_icrlo_write_handler i v)"
proof -
  define v1 where "v1 = upd_vlapic i (upd_page (\<lambda>p. p\<lparr>la_icr_lo := la_icr_lo p AND NOT 0x1000\<rparr>)) v"
  define icr_lo where "icr_lo = la_icr_lo (vl_page (vm_lapic v1 i))"
  define dest where "dest = (if x2apic (vm_lapic v1 i) then la_icr_hi (vl_page (vm_lapic v1 i))
      else drop_bit 24 (la_icr_hi (vl_page (vm_lapic v1 i))))"
  have inv1: "vm_inv r v1" unfolding v1_def using inv by (rule vm_inv_upd_frame) (simp add: isr_frame_def)
  have "dest_ok (x2apic (vm_lapic v1 i)) dest"
    using d drop_24_less by (simp add: dest_def v1_def x2apic_def dest_ok_def)
  then obtain dmask where dm: "icr_dmask i icr_lo dest v1 = Some dmask" using icr_dmask_ok by blast
  have send: "vm_inv r (cpu_foreach (\<lambda>c s. (if b then fst (lapic_intr_edge c (unat (icr_lo AND 0xff)) s)
      else fst (vm_inject_nmi c s), False)) dmask v1)" for b
    using inv1 by (intro cpu_foreach_keeps) auto
  have boot: "vm_inv r (set_boot_state k b v1)" for k b
    unfolding set_boot_state_def using inv1 by (rule vm_inv_upd_frame) simp
  have exitinfo: "vm_inv r (upd_vcpu j (\<lambda>c. c\<lparr>vc_exitinfo := x\<rparr>) (set_boot_state k b v1))" for j x k b
    using boot by (rule vm_inv_upd_vcpu) simp
  have err: "vm_inv r (vlapic_set_error i e v1)" for e
    by (rule vm_inv_deliver [OF _ inv1]) simp
  show ?thesis
    unfolding vlapic_icrlo_write_handler_def Let_def v1_def [symmetric] icr_lo_def [symmetric] dest_def [symmetric]
    using inv1 dm send boot exitinfo err by (simp split: if_split)
qed

subsection \<open>Register writes\<close>

definition write_ok :: "nat \<Rightarrow> u64 \<Rightarrow> u64 \<Rightarrow> vm \<Rightarrow> bool" where
  "write_ok i off data v \<longleftrightarrow>
     (x2apic (vm_lapic v i) \<and> off = 0x300 \<longrightarrow> dest_ok True (ucast (drop_bit 32 data)))"

lemma vm_inv_wr_page:
  assumes "vm_inv r v" and "\<And>p. la_isr (f p) = la_isr p" and "\<And>p. la_tpr (f p) = la_tpr p"
    and "\<And>p. la_ppr (f p) = la_ppr p"
  shows "vm_inv r (wr_page i f v)"
  unfolding wr_page_def using assms(1) by (rule vm_inv_upd_frame) (simp add: isr_frame_def assms(2-))

lemma lvt_offset_ptr: "is_lvt_offset off \<Longrightarrow> vlapic_get_lvtptr (ucast off) \<noteq> None"
  by (auto simp: is_lvt_offset_def vlapic_get_lvtptr_def)

lemma keeps_ret:
  assumes "keeps_inv r f" and "vm_inv r v"
  shows "answers r (map_option (\<lambda>v'. (v', a)) (f v))"
  using keeps_invD [OF assms] by auto

lemma vlapic_write_reg_ok:
  assumes inv: "vm_inv r v" and ok: "write_ok i off data v"
  shows "answers r (vlapic_write_reg mat i off data v)"
proof -
  note page = vm_inv_wr_page [OF inv]
  have upd: "answers r (Some (upd_vlapic i h (wr_page i f v), 0, False))"
    if "\<And>l. isr_frame l (h l)" "\<And>p. la_isr (f p) = la_isr p" "\<And>p. la_tpr (f p) = la_tpr p"
      "\<And>p. la_ppr (f p) = la_ppr p" for f h
    using vm_inv_upd_frame [OF page [of f i]] that by simp
  have icr: "answers r (vlapic_icrlo_write_handler i (wr_page i (\<lambda>p. if x2apic (vm_lapic v i)
      then p\<lparr>la_icr_lo := ucast data, la_icr_hi := ucast (drop_bit 32 data)\<rparr> else p\<lparr>la_icr_lo := ucast data\<rparr>) v))"
    if "off = 0x300"
    by (rule icrlo_ok [OF page]) (use ok that in \<open>auto simp: write_ok_def wr_page_def x2apic_def\<close>)
  have lvt: "answers r (case vlapic_get_lvtptr (ucast off) of None \<Rightarrow> None
      | Some lp \<Rightarrow> map_option (\<lambda>v'. (v', 0, False))
          (lift_vlapic i (\<lambda>l. vlapic_lvt_write_handler l (ucast off)) (wr_page i (lvt_put lp (ucast data)) v)))"
    if "is_lvt_offset off"
    using lvt_offset_ptr [OF that] keeps_ret [OF lvt_write_keeps page] by (auto split: option.splits)
  have ipi: "answers r (map_option (\<lambda>v'. (v', 0, False)) (vlapic_self_ipi_handler i data v))"
    if "x2apic (vm_lapic v i)"
    using that vm_inv_deliver [OF deliver_frame_edge inv] by (simp add: vlapic_self_ipi_handler_def)
  have ident: "answers r (Some (upd_vlapic i vlapic_id_write_handler (wr_page i (\<lambda>p. p\<lparr>la_id := ucast data\<rparr>) v), 0, False))"
    "answers r (Some (upd_vlapic i vlapic_ldr_write_handler (wr_page i (\<lambda>p. p\<lparr>la_ldr := ucast data\<rparr>) v), 0, False))"
    "answers r (Some (upd_vlapic i vlapic_dfr_write_handler (wr_page i (\<lambda>p. p\<lparr>la_dfr := ucast data\<rparr>) v), 0, False))"
    by (rule upd; simp)+
  have plain: "answers r (Some (wr_page i (\<lambda>p. p\<lparr>la_icr_hi := ucast data\<rparr>) v, 0, False))"
    "answers r (Some (upd_vlapic i vlapic_esr_write_handler v, 0, False))" "answers r (Some (v, 0, False))"
    using inv by (simp_all add: page vm_inv_upd_frame)
  have timer: "answers r (map_option (\<lambda>v'. (v', 0, False))
      (vlapic_svr_write_handler mat i (wr_page i (\<lambda>p. p\<lparr>la_svr := ucast data\<rparr>) v)))"
    "answers r (map_option (\<lambda>v'. (v', 0, False))
      (vlapic_icrtmr_write_handler mat i (wr_page i (\<lambda>p. p\<lparr>la_icr_timer := ucast data\<rparr>) v)))"
    "answers r (map_option (\<lambda>v'. (v', 0, False))
      (lift_vlapic i vlapic_dcr_write_handler (wr_page i (\<lambda>p. p\<lparr>la_dcr_timer := ucast data\<rparr>) v)))"
    by (rule keeps_ret [OF svr_write_keeps page], simp_all)
       (rule keeps_ret [OF icrtmr_keeps page, simplified] keeps_ret [OF dcr_write_keeps page, simplified]; simp)+
  show ?thesis
    unfolding vlapic_write_reg_def Let_def
    by (intro answers_if ident plain timer icr lvt ipi keeps_ret [OF set_tpr_keeps inv]
        keeps_ret [OF process_eoi_keeps inv])
qed

lemma vlapic_write_ok:
  assumes "vm_inv r v" and "off AND 0xf = 0" and "off < 0x1000" and "write_ok i off data v"
  shows "answers r (vlapic_write mat i mmio off data v)"
  using assms vlapic_write_reg_ok [OF assms(1,4)] by (simp add: vlapic_write_def)

subsection \<open>Properties of the register interface\<close>

lemma vm_lapic_calloc [simp]: "vm_lapic (vm_calloc tb) i = vlapic_calloc i"
  by (simp add: vm_lapic_def vm_calloc_def vcpu_bzero_def)

lemma isr_inv_calloc [simp]: "isr_inv (vlapic_calloc i)"
  by (rule isr_inv_zero) (simp_all add: vlapic_calloc_def lapic_bzero_def)

text \<open>A zeroed machine has no frequency of the HPET yet: the invariant begins with \<open>vhpet_init\<close>.\<close>

abbreviation vm_with_timers :: "timebase \<Rightarrow> vm" where
  "vm_with_timers tb \<equiv> (vm_calloc tb)\<lparr>vm_vhpet := vhpet_init, vm_vpmtmr := vpmtmr_init tb 0\<rparr>"

lemma vm_lapic_with_timers [simp]: "vm_lapic (v\<lparr>vm_vhpet := hp\<rparr>) i = vm_lapic v i" "vm_lapic (v\<lparr>vm_vpmtmr := pt\<rparr>) i = vm_lapic v i"
  by (simp_all add: vm_lapic_def)

lemma hpet_ok_init: "vm_vhpet v = vhpet_init \<Longrightarrow> vm_callouts v = callout_sys_init \<Longrightarrow> hpet_ok v"
  by (simp add: hpet_ok_def hpet_quiet_def hpet_wf_init callout_sys_init_def callout_zero_def callout_active_def)

lemma rtc_ok_bzero: "vm_vrtc v = vrtc_bzero \<Longrightarrow> vm_callouts v = callout_sys_init \<Longrightarrow> rtc_ok v"
  by (simp add: rtc_ok_def vrtc_freq_def rtc_halted_def aintr_enabled_def pintr_enabled_def uintr_enabled_def vrtc_bzero_def
      callout_sys_init_def callout_zero_def callout_active_def)

lemma vm_inv_calloc: "co_inv (callout_sys_init, r) \<Longrightarrow> vm_inv r (vm_with_timers tb)"
  unfolding vm_inv_def
  by (auto simp: hpet_ok_init rtc_ok_bzero pmtmr_freq_nonzero vm_calloc_def level_ok_def pin_served_def vatpic_wf_def atpic_wf_bzero
      vatpit_wf_def channel_wf_def channel_bzero_def callouts_ok_def vm_lapic_def vcpu_bzero_def)

lemma arm_vlapic_armed:
  assumes "vm_inv r v"
  obtains v' where "arm_vlapic_timer mat i sbt v = Some v'" and "vm_inv r v'"
    and "callout_armed (vm_callouts v') (vlapic_callout i)" and "vm_vcpu v' = vm_vcpu v"
proof -
  have "callouts_ok r (vm_callouts v)" using assms by (simp add: vm_inv_def)
  from callouts.arm_law [OF this, of "(vm_timebase v, mat, sbt, VLAPIC_HANDLER, 0)" "vlapic_callout i"]
  obtain s where "callout_reset_sbt (vm_timebase v) mat (vlapic_callout i) sbt VLAPIC_HANDLER 0 (vm_callouts v) = Some s"
    "callouts_ok r s" "callout_armed s (vlapic_callout i)" by (auto simp: callout_arm_def)
  then show thesis
    using vm_inv_callouts [OF assms] timers_undisturbed_ops(1) [OF \<open>callouts_ok r (vm_callouts v)\<close>]
    by (intro that [of "with_callouts s v"]) (fastforce simp: arm_vlapic_timer_def)+
qed

text \<open>
  A write of the initial count starts the local APIC timer or stops it: with a count other than 0 the
  callout of the vcpu is armed, and the recorded moment of expiry is exactly the present time
  plus the count times the tick; with 0 the callout is not armed.
\<close>

theorem lapic_timer_start_stop:
  fixes v :: vm and i :: nat
  assumes "vm_inv r v"
  defines "l \<equiv> vm_lapic v i"
  shows "\<exists>v'. vlapic_icrtmr_write_handler mat i v = Some v' \<and> vm_inv r v'
     \<and> (callout_armed (vm_callouts v') (vlapic_callout i) \<longleftrightarrow> la_icr_timer (vl_page l) \<noteq> 0)
     \<and> (la_icr_timer (vl_page l) \<noteq> 0 \<longrightarrow> bt_val (vl_timer_fire_bt (vm_lapic v' i)) =
          (bt_val (vlapic_now mat v) + bt_val (vl_timer_freq_bt l) * unat (la_icr_timer (vl_page l))) mod 2 ^ 128)"
proof -
  define icr where "icr = la_icr_timer (vl_page l)"
  define v1 where "v1 = upd_vlapic i (\<lambda>l. l\<lparr>vl_timer_period_bt := bintime_mul (vl_timer_freq_bt l) icr\<rparr>) v"
  have inv1: "vm_inv r v1" unfolding v1_def using assms(1) by (rule vm_inv_upd_frame) simp
  define v2 where "v2 = upd_vlapic i (\<lambda>l. l\<lparr>vl_timer_fire_bt :=
      bintime_add (vlapic_now mat v1) (vl_timer_period_bt l)\<rparr>) v1"
  have inv2: "vm_inv r v2" unfolding v2_def using inv1 by (rule vm_inv_upd_frame) simp
  have fire: "bt_val (vl_timer_fire_bt (vm_lapic v2 i)) =
      (bt_val (vlapic_now mat v) + bt_val (vl_timer_freq_bt l) * unat icr) mod 2 ^ 128"
    by (simp add: v2_def v1_def l_def vlapic_now_def bt_val_add bt_val_mul mod_add_right_eq del: power_numeral)
  have eq: "vlapic_icrtmr_write_handler mat i v = (if icr \<noteq> 0
      then arm_vlapic_timer mat i (bttosbt (vl_timer_period_bt (vm_lapic v2 i))) v2
      else Some (with_callouts (callout_stop (vlapic_callout i) (vm_callouts v1)) v1))"
    unfolding vlapic_icrtmr_write_handler_def Let_def l_def [symmetric] icr_def [symmetric] v1_def [symmetric]
      v2_def [symmetric] by simp
  show ?thesis
  proof (cases "icr = 0")
    case True
    have "callouts_ok r (vm_callouts v1)" using inv1 by (simp add: vm_inv_def)
    then have "\<not> callout_armed (callout_stop (vlapic_callout i) (vm_callouts v1)) (vlapic_callout i)"
      using callouts.disarm_law by blast
    then show ?thesis using eq True vm_inv_stop [OF inv1] by (simp add: icr_def [symmetric])
  next
    case False
    obtain v' where v': "arm_vlapic_timer mat i (bttosbt (vl_timer_period_bt (vm_lapic v2 i))) v2 = Some v'"
      "vm_inv r v'" "callout_armed (vm_callouts v') (vlapic_callout i)" "vm_vcpu v' = vm_vcpu v2"
      by (rule arm_vlapic_armed [OF inv2]) blast
    then show ?thesis using eq False fire by (simp add: icr_def [symmetric] vm_lapic_def)
  qed
qed

theorem lapic_timer_start_stop_witness:
  "\<exists>v'. vlapic_icrtmr_write_handler 9 2 (vm_with_timers \<lparr>tb_numer = 1, tb_denom = 1\<rparr>) = Some v'
     \<and> \<not> callout_armed (vm_callouts v') (vlapic_callout 2)"
  using lapic_timer_start_stop [OF vm_inv_calloc [OF co_inv_init], of 9 2 "\<lparr>tb_numer = 1, tb_denom = 1\<rparr>"]
  by (auto simp: vlapic_calloc_def lapic_bzero_def)

lemma fire_timer_effect:
  assumes "vl_lvt_last (vm_lapic v i) APIC_LVT_TIMER = lvt" and "lvt AND APIC_LVT_M = 0" and "lvt AND APIC_LVT_DM = 0"
    and "16 \<le> lvt AND APIC_LVT_VECTOR"
  shows "vm_lapic (vlapic_fire_timer i v) i = request_vec (unat (lvt AND APIC_LVT_VECTOR)) (vm_lapic v i)"
proof -
  have "\<not> lvt AND APIC_LVT_VECTOR < 16" using assms(4) by simp
  moreover have "\<not> unat (lvt AND APIC_LVT_VECTOR) < 16" using assms(4) by (simp add: word_le_nat_alt)
  ultimately show ?thesis
    using assms(1-3) by (simp add: vlapic_fire_timer_def vlapic_fire_lvt.simps vlapic_set_intr_ready.simps request_vec_def Let_def)
qed

text \<open>
  C32. When the timer's callout fires and its entry of the local vector table is unmasked with a legal vector, the
  handler requests that vector in the local APIC of the vcpu (if it is software enabled), and it
  re-arms the callout exactly when the entry selects periodic mode.
\<close>

theorem lapic_timer_fires:
  fixes v :: vm and i :: nat
  defines "l \<equiv> vm_lapic v i" and "co \<equiv> cs_store (vm_callouts v) (vlapic_callout i)"
    and "lvt \<equiv> vl_lvt_last (vm_lapic v i) APIC_LVT_TIMER"
  assumes "vm_inv (Some (vlapic_callout i)) v" and "callout_active co" and "\<not> callout_pending co"
    and "lvt AND APIC_LVT_M = 0" and "lvt AND APIC_LVT_DM = 0" and "16 \<le> lvt AND APIC_LVT_VECTOR"
  shows "\<exists>v'. vlapic_callout_handler mat i v = Some v' \<and> vm_inv (Some (vlapic_callout i)) v'
     \<and> (\<forall>x. vec_bit (la_irr (vl_page (vm_lapic v' i))) x \<longleftrightarrow> vec_bit (la_irr (vl_page l)) x
           \<or> (x = unat (lvt AND APIC_LVT_VECTOR) \<and> la_svr (vl_page l) AND APIC_SVR_ENABLE \<noteq> 0))
     \<and> (callout_armed (vm_callouts v') (vlapic_callout i) \<longleftrightarrow> vlapic_periodic_timer l)"
proof -
  let ?r = "Some (vlapic_callout i)"
  define v1 where "v1 = with_callouts (upd (vlapic_callout i) callout_deactivate (vm_callouts v)) v"
  have inv1: "vm_inv ?r v1"
    unfolding v1_def using assms(4) by (simp add: vm_inv_deactivate)
  have l1: "vm_lapic v1 i = l" by (simp add: v1_def l_def)
  define v2 where "v2 = vlapic_fire_timer i v1"
  have d2: "deliver_frame v1 v2" unfolding v2_def by (rule deliver_frame_timer)
  have inv2: "vm_inv ?r v2" by (rule vm_inv_deliver [OF d2 inv1])
  have l2: "vm_lapic v2 i = request_vec (unat (lvt AND APIC_LVT_VECTOR)) l"
    unfolding v2_def l1 [symmetric] by (rule fire_timer_effect) (use assms(7-9) in \<open>simp_all add: l1 lvt_def l_def\<close>)
  have per: "vlapic_periodic_timer (vm_lapic v2 i) = vlapic_periodic_timer l"
    by (simp add: l2 request_vec_def vlapic_periodic_timer_def)
  have off2: "\<not> callout_armed (vm_callouts v2) (vlapic_callout i)"
    using assms(6) deliver_frame_simps(5) [OF d2]
    by (simp add: v1_def callout_armed_def co_def callout_deactivate_def callout_flag_bits bit_and_iff)
  have irr: "vec_bit (la_irr (vl_page (request_vec n l))) x \<longleftrightarrow> vec_bit (la_irr (vl_page l)) x
      \<or> (x = n \<and> la_svr (vl_page l) AND APIC_SVR_ENABLE \<noteq> 0)" for n x
    by (auto simp: request_vec_def vec_bit_set)
  show ?thesis
  proof (cases "vlapic_periodic_timer l")
    case False
    have "vlapic_callout_handler mat i v = Some v2"
      unfolding vlapic_callout_handler_def Let_def v1_def [symmetric] v2_def [symmetric]
      using assms(5,6) False per by (simp add: co_def)
    then show ?thesis using inv2 off2 False irr by (simp add: l2)
  next
    case True
    define bt where "bt = bintime_sub (vlapic_now mat v2) (vl_timer_fire_bt (vm_lapic v2 i))"
    define period where "period = vl_timer_period_bt (vm_lapic v2 i)"
    define fire where "fire = (if bintime_cmp bt period (<) then vl_timer_fire_bt (vm_lapic v2 i) else vlapic_now mat v2)"
    define v3 where "v3 = upd_vlapic i (\<lambda>l. l\<lparr>vl_timer_fire_bt := bintime_add fire period\<rparr>) v2"
    have inv3: "vm_inv ?r v3" unfolding v3_def using inv2 by (rule vm_inv_upd_frame) simp
    obtain v' where v': "arm_vlapic_timer mat i (if bintime_cmp bt period (<) then bttosbt period - bttosbt bt
        else bttosbt period) v3 = Some v'" "vm_inv ?r v'" "callout_armed (vm_callouts v') (vlapic_callout i)"
      "vm_vcpu v' = vm_vcpu v3" by (rule arm_vlapic_armed [OF inv3]) blast
    have "vlapic_callout_handler mat i v = Some v'"
      unfolding vlapic_callout_handler_def Let_def v1_def [symmetric] v2_def [symmetric] bt_def [symmetric]
        period_def [symmetric] fire_def [symmetric] v3_def [symmetric]
      using assms(5,6) True per v'(1) by (simp add: co_def)
    moreover have "la_irr (vl_page (vm_lapic v' i)) = la_irr (vl_page (vm_lapic v2 i))"
      using v'(4) by (simp add: vm_lapic_def v3_def upd_vlapic_def)
    ultimately show ?thesis using v'(2,3) True irr by (simp add: l2)
  qed
qed

theorem lapic_timer_fires_witness:
  "\<exists>v'. vlapic_callout_handler 7 0 (with_callouts (upd (vlapic_callout 0) (\<lambda>x. x\<lparr>co_flags := CALLOUT_ACTIVE\<rparr>) callout_sys_init)
       (upd_vlapic 0 (\<lambda>l. (upd_page (\<lambda>p. p\<lparr>la_svr := 0x1ff\<rparr>) l)\<lparr>vl_lvt_last := (\<lambda>_. 0x31)\<rparr>)
         (vm_with_timers \<lparr>tb_numer = 1, tb_denom = 1\<rparr>))) = Some v'
     \<and> vec_bit (la_irr (vl_page (vm_lapic v' 0))) 0x31"
proof -
  let ?l = "upd_vlapic 0 (\<lambda>l. (upd_page (\<lambda>p. p\<lparr>la_svr := 0x1ff\<rparr>) l)\<lparr>vl_lvt_last := (\<lambda>_. 0x31)\<rparr>)
         (vm_with_timers \<lparr>tb_numer = 1, tb_denom = 1\<rparr>)"
  let ?v = "with_callouts (upd (vlapic_callout 0) (\<lambda>x. x\<lparr>co_flags := CALLOUT_ACTIVE\<rparr>) callout_sys_init) ?l"
  have init: "co_inv (callout_sys_init, Some 0)"
    by (rule co_invI [of _ "[]"]) (simp_all add: callout_sys_init_def queue_is_def callout_zero_def)
  have "vm_inv (Some (vlapic_callout 0)) ?l"
    using vm_inv_calloc [OF init] by (intro vm_inv_upd_frame) (simp_all add: isr_frame_def vlapic_callout_def)
  then have inv: "vm_inv (Some (vlapic_callout 0)) ?v"
  proof (rule vm_inv_callouts)
    show "callouts_ok (Some (vlapic_callout 0)) (upd (vlapic_callout 0) (\<lambda>x. x\<lparr>co_flags := CALLOUT_ACTIVE\<rparr>) callout_sys_init)"
      using init by (auto simp: callouts_ok_def vlapic_callout_def intro!: co_inv_upd)
  qed (simp add: vm_calloc_def timers_undisturbed_def)
  have act: "callout_active (cs_store (vm_callouts ?v) (vlapic_callout 0))"
    "\<not> callout_pending (cs_store (vm_callouts ?v) (vlapic_callout 0))"
    by (simp_all add: callout_active_def callout_pending_def)
  have lvt: "vl_lvt_last (vm_lapic ?v 0) APIC_LVT_TIMER = 0x31" by simp
  show ?thesis
    using lapic_timer_fires [OF inv act, unfolded lvt, of 7] by (auto simp: word_le_nat_alt)
qed

text \<open>
  The start-up of an application processor as the architecture has it: an INIT message (asserted) makes
  a fresh processor wait for its start-up message, and that message sets it running.
\<close>

definition ap_next :: "u32 \<Rightarrow> boot_state \<Rightarrow> boot_state" where
  "ap_next icr_lo b =
     (if icr_lo AND 0x700 = APIC_DELMODE_INIT \<and> icr_lo AND 0x4000 \<noteq> 0 \<and> b = BS_INIT then BS_SIPI
      else if icr_lo AND 0x700 = APIC_DELMODE_STARTUP \<and> b = BS_SIPI then BS_RUNNING
      else b)"

lemma boot_state_set_boot [simp]:
  "vl_boot_state (vm_lapic (set_boot_state d b v) j) = (if j = d then b else vl_boot_state (vm_lapic v j))"
  by (simp add: set_boot_state_def)

text \<open>
  C20. INIT and start-up messages of the boot processor drive the addressed processor through exactly the
  states of the architecture: each message moves it by \<open>ap_next\<close>, no other processor changes state, and the exit
  that makes the hypervisor start a processor, at the page named by the vector, is produced by
  exactly the start-up message that finds it waiting, hence once.
\<close>

theorem ap_startup:
  fixes v :: vm and d :: nat
  defines "l \<equiv> vm_lapic v 0" and "icr_lo \<equiv> la_icr_lo (vl_page (vm_lapic v 0))"
  assumes "0 < d" and "d < VM_MAXCPU"
    and "(if x2apic l then la_icr_hi (vl_page l) else drop_bit 24 (la_icr_hi (vl_page l))) = of_nat d"
    and "icr_lo AND 0x700 = APIC_DELMODE_INIT \<or> icr_lo AND 0x700 = APIC_DELMODE_STARTUP"
  shows "\<exists>v' retu. vlapic_icrlo_write_handler 0 v = Some (v', 0, retu)
     \<and> vl_boot_state (vm_lapic v' d) = ap_next icr_lo (vl_boot_state (vm_lapic v d))
     \<and> (\<forall>j. j \<noteq> d \<longrightarrow> vl_boot_state (vm_lapic v' j) = vl_boot_state (vm_lapic v j))
     \<and> (retu \<longleftrightarrow> icr_lo AND 0x700 = APIC_DELMODE_STARTUP \<and> vl_boot_state (vm_lapic v d) = BS_SIPI)
     \<and> (retu \<longrightarrow> vc_exitinfo (vm_vcpu v' 0) = VM_EXITCODE_SPINUP_AP (int d) (push_bit 12 (ucast (icr_lo AND 0xff))))"
proof -
  define v1 where "v1 = upd_vlapic 0 (upd_page (\<lambda>p. p\<lparr>la_icr_lo := la_icr_lo p AND NOT 0x1000\<rparr>)) v"
  have x: "x2apic (vm_lapic v1 0) = x2apic l" by (simp add: v1_def x2apic_def l_def)
  have hi: "la_icr_hi (vl_page (vm_lapic v1 0)) = la_icr_hi (vl_page l)" by (simp add: v1_def l_def)
  have lo: "la_icr_lo (vl_page (vm_lapic v1 0)) = icr_lo AND NOT 0x1000" by (simp add: v1_def icr_lo_def)
  have b1: "vl_boot_state (vm_lapic v1 j) = vl_boot_state (vm_lapic v j)" for j by (simp add: v1_def)
  have fields: "(icr_lo AND NOT 0x1000) AND 0x700 = icr_lo AND 0x700" "(icr_lo AND NOT 0x1000) AND 0xff = icr_lo AND 0xff"
    "(icr_lo AND NOT 0x1000) AND 0x4000 = icr_lo AND 0x4000" by (simp_all add: and.assoc)
  have u: "unat (of_nat d :: u32) = d" using assms(4) by (simp add: unat_of_nat)
  have d: "unat (of_nat d :: u32) = d" "(of_nat d :: u32) \<noteq> 0" "(of_nat d :: u32) < 16"
    using assms(3,4) u by (simp_all add: word_unat_eq_iff word_less_nat_alt)
  show ?thesis
    unfolding vlapic_icrlo_write_handler_def Let_def v1_def [symmetric] x hi lo fields assms(5)
    using assms(6) by (auto simp: d b1 ap_next_def)
qed

theorem ap_startup_witness:
  "\<exists>v' retu. vlapic_icrlo_write_handler 0 (upd_vlapic 0 (upd_page (\<lambda>p. p\<lparr>la_icr_lo := 0x4500, la_icr_hi := 0x3000000\<rparr>))
       (vm_calloc \<lparr>tb_numer = 1, tb_denom = 1\<rparr>)) = Some (v', 0, retu) \<and> vl_boot_state (vm_lapic v' 3) = BS_SIPI"
proof -
  let ?v = "upd_vlapic 0 (upd_page (\<lambda>p. p\<lparr>la_icr_lo := 0x4500, la_icr_hi := 0x3000000\<rparr>))
       (vm_calloc \<lparr>tb_numer = 1, tb_denom = 1\<rparr>)"
  show ?thesis
    using ap_startup [of 3 ?v] by (auto simp: x2apic_def vlapic_calloc_def ap_next_def)
qed

text \<open>
  C38. In x2APIC mode the guest chooses all 32 bits of a physical destination. The number is converted to a
  signed integer and only compared with \<open>VM_MAXCPU\<close> from above: an inter-processor interrupt to any identifier with the top
  bit set, other than the broadcast one, reaches a shift of a 64-bit word by more than 63, which C leaves undefined.
\<close>

theorem x2apic_negative_destination:
  assumes "x2apic (vm_lapic v i)" and "bit dest 31" and "dest \<noteq> 0xffffffff"
  defines "s \<equiv> wr_page i (\<lambda>p. p\<lparr>la_icr_lo := 0x31, la_icr_hi := dest\<rparr>) v"
  shows "vlapic_icrlo_write_handler i s = None"
proof -
  have "sint dest < 0" using assms(2) bit_last_iff [of dest] by simp
  then show ?thesis using assms(1,3)
    by (simp add: s_def vlapic_icrlo_write_handler_def icr_dmask_def vlapic_calcdest_def vm_apicid2vcpuid_def
        wr_page_def x2apic_def Let_def)
qed

theorem x2apic_negative_destination_witness:
  "vlapic_icrlo_write_handler 1 (wr_page 1 (\<lambda>p. p\<lparr>la_icr_lo := 0x31, la_icr_hi := 0x80000000\<rparr>)
     (upd_vlapic 1 (\<lambda>l. vlapic_set_x2apic_state l X2APIC_ENABLED) (vm_calloc \<lparr>tb_numer = 1, tb_denom = 1\<rparr>))) = None"
proof -
  have "x2apic (vm_lapic (upd_vlapic 1 (\<lambda>l. vlapic_set_x2apic_state l X2APIC_ENABLED)
      (vm_calloc \<lparr>tb_numer = 1, tb_denom = 1\<rparr>)) 1)"
    by (simp add: vlapic_set_x2apic_state_def x2apic_def vlapic_calloc_def Let_def)
  then show ?thesis using x2apic_negative_destination [of _ 1 "0x80000000"] by simp
qed

text \<open>
  \<open>lapic_msr\<close> claims the MSRs 0x800 to 0xBFF for the local APIC, but a write above 0x8FF falls on the
  assertion of \<open>vlapic_write\<close> that the offset lies within the page: the guest can end the process with one instruction.
\<close>

theorem x2apic_wrmsr_assertion_fails:
  assumes "0x900 \<le> msr" and "msr \<le> 0xBFF"
  shows "lapic_msr msr \<and> lapic_wrmsr mat cpu msr val v = None"
proof -
  have m: "0x900 \<le> unat msr" "unat msr \<le> 0xBFF" using assms by (simp_all add: word_le_nat_alt)
  have "msr \<noteq> MSR_APICBASE" using m by auto
  moreover have "lapic_msr msr" using assms by (simp add: lapic_msr_def x2apic_msr_def word_le_nat_alt)
  moreover have d: "unat (msr - 0x800) = unat msr - 0x800" using m by (subst unat_sub) (simp_all add: word_le_nat_alt)
  have "unat (push_bit 4 x) = unat x * 16" if "unat x < 0x400" for x :: u32
    using that by (simp add: push_bit_eq_mult unat_word_ariths)
  then have "unat (x2apic_msr_to_regoff msr) = (unat msr - 0x800) * 16"
    unfolding x2apic_msr_to_regoff_def using m by (simp only: d)
  then have "\<not> (ucast (x2apic_msr_to_regoff msr) :: u64) < 0x1000" using m by (simp add: word_less_nat_alt)
  ultimately show ?thesis by (simp add: lapic_wrmsr_def vlapic_write_def)
qed

theorem x2apic_wrmsr_assertion_fails_witness:
  "lapic_msr 0xA00 \<and> lapic_wrmsr 0 1 0xA00 0 (vm_calloc \<lparr>tb_numer = 1, tb_denom = 1\<rparr>) = None"
  by (rule x2apic_wrmsr_assertion_fails) (simp_all add: word_le_nat_alt)

end
