(* ===== verification/Vie_Addr.thy ===== *)
theory Vie_Addr
  imports Prelude
begin

text \<open>
  Addresses of guest instructions (\<open>src/vmm/vmm_instruction_emul.c\<close>): processor and paging modes, segment
  descriptors, the checks for canonical and aligned addresses, and the step from a segment and an offset to a
  linear address. The specification of a segment's limits is a set of offsets; the byte-by-byte loop of the code decides it.
\<close>

subsection \<open>Modes, registers and descriptors\<close>

datatype vm_cpu_mode = CPU_MODE_REAL | CPU_MODE_PROTECTED | CPU_MODE_COMPATIBILITY | CPU_MODE_64BIT

datatype vm_paging_mode = PAGING_MODE_FLAT | PAGING_MODE_32 | PAGING_MODE_PAE | PAGING_MODE_64

datatype vm_reg_name =
    VM_REG_GUEST_RAX | VM_REG_GUEST_RBX | VM_REG_GUEST_RCX | VM_REG_GUEST_RDX | VM_REG_GUEST_RSI | VM_REG_GUEST_RDI
  | VM_REG_GUEST_RBP | VM_REG_GUEST_R8 | VM_REG_GUEST_R9 | VM_REG_GUEST_R10 | VM_REG_GUEST_R11 | VM_REG_GUEST_R12
  | VM_REG_GUEST_R13 | VM_REG_GUEST_R14 | VM_REG_GUEST_R15 | VM_REG_GUEST_CR0 | VM_REG_GUEST_CR3 | VM_REG_GUEST_CR4
  | VM_REG_GUEST_DR7 | VM_REG_GUEST_RSP | VM_REG_GUEST_RIP | VM_REG_GUEST_RFLAGS | VM_REG_GUEST_ES | VM_REG_GUEST_CS
  | VM_REG_GUEST_SS | VM_REG_GUEST_DS | VM_REG_GUEST_FS | VM_REG_GUEST_GS | VM_REG_GUEST_LDTR | VM_REG_GUEST_TR
  | VM_REG_GUEST_IDTR | VM_REG_GUEST_GDTR | VM_REG_GUEST_EFER | VM_REG_GUEST_CR2 | VM_REG_GUEST_PDPTE0
  | VM_REG_GUEST_PDPTE1 | VM_REG_GUEST_PDPTE2 | VM_REG_GUEST_PDPTE3 | VM_REG_GUEST_INTR_SHADOW | VM_REG_LAST

record seg_desc =
  sd_base :: u64
  sd_limit :: u32
  sd_access :: u32

record vm_guest_paging =
  pg_cr3 :: u64
  pg_cpl :: int
  pg_cpu_mode :: vm_cpu_mode
  pg_paging_mode :: vm_paging_mode

definition SEG_DESC_TYPE :: "u32 \<Rightarrow> u32" where "SEG_DESC_TYPE access = access AND 0x1f"
definition SEG_DESC_PRESENT :: "u32 \<Rightarrow> bool" where "SEG_DESC_PRESENT access \<longleftrightarrow> access AND 0x80 \<noteq> 0"
definition SEG_DESC_DEF32 :: "u32 \<Rightarrow> bool" where "SEG_DESC_DEF32 access \<longleftrightarrow> access AND 0x4000 \<noteq> 0"
definition SEG_DESC_UNUSABLE :: "u32 \<Rightarrow> bool" where "SEG_DESC_UNUSABLE access \<longleftrightarrow> access AND 0x10000 \<noteq> 0"

text \<open>\<open>seg >= VM_REG_GUEST_ES && seg <= VM_REG_GUEST_GS\<close>\<close>

definition is_data_segment :: "vm_reg_name \<Rightarrow> bool" where
  "is_data_segment seg \<longleftrightarrow> seg \<in> {VM_REG_GUEST_ES, VM_REG_GUEST_CS, VM_REG_GUEST_SS, VM_REG_GUEST_DS, VM_REG_GUEST_FS, VM_REG_GUEST_GS}"

abbreviation (input) XHYVE_PROT_READ :: u32 where "XHYVE_PROT_READ \<equiv> 1"
abbreviation (input) XHYVE_PROT_WRITE :: u32 where "XHYVE_PROT_WRITE \<equiv> 2"
abbreviation (input) XHYVE_PROT_EXECUTE :: u32 where "XHYVE_PROT_EXECUTE \<equiv> 4"
abbreviation (input) CR0_AM :: u64 where "CR0_AM \<equiv> 0x40000"
abbreviation (input) PSL_AC :: u64 where "PSL_AC \<equiv> 0x40000"

subsection \<open>Sizes and simple checks\<close>

text \<open>The table \<open>size2mask\<close> has nine entries, of which five are 0.\<close>

definition size2mask :: "int \<Rightarrow> u64" where
  "size2mask sz = (if sz = 1 then 0xff else if sz = 2 then 0xffff else if sz = 4 then 0xffffffff
     else if sz = 8 then 0xffffffffffffffff else 0)"

definition size_ok :: "int \<Rightarrow> bool" where
  "size_ok sz \<longleftrightarrow> sz = 1 \<or> sz = 2 \<or> sz = 4 \<or> sz = 8"

definition vie_size2mask :: "int \<Rightarrow> u64 option" where
  "vie_size2mask sz = (if size_ok sz then Some (size2mask sz) else None)"

definition vie_alignment_check :: "int \<Rightarrow> int \<Rightarrow> u64 \<Rightarrow> u64 \<Rightarrow> u64 \<Rightarrow> bool option" where
  "vie_alignment_check cpl sz cr0 rf gla =
     (if \<not> size_ok sz then None
      else if \<not> (0 \<le> cpl \<and> cpl \<le> 3) then None
      else if cpl \<noteq> 3 \<or> cr0 AND CR0_AM = 0 \<or> rf AND PSL_AC = 0 then Some False
      else Some (gla AND word_of_int (sz - 1) \<noteq> 0))"

definition vie_canonical_check :: "vm_cpu_mode \<Rightarrow> u64 \<Rightarrow> bool" where
  "vie_canonical_check cpu_mode gla =
     (if cpu_mode \<noteq> CPU_MODE_64BIT then False
      else let m = NOT (push_bit 48 1 - 1)
           in if gla AND push_bit 47 1 \<noteq> 0 then gla AND m \<noteq> m else gla AND m \<noteq> 0)"

subsection \<open>Segment and offset\<close>

text \<open>The loop over the bytes of the operand: true when all offsets are within the limits.\<close>

fun offsets_within :: "u64 \<Rightarrow> u64 \<Rightarrow> u64 \<Rightarrow> u64 \<Rightarrow> nat \<Rightarrow> bool" where
  "offsets_within m low_limit high_limit off 0 = True"
| "offsets_within m low_limit high_limit off (Suc n) =
     (let off' = off AND m
      in if off' < low_limit \<or> off' > high_limit then False
         else offsets_within m low_limit high_limit (off' + 1) n)"

text \<open>The lowest and the highest offset; \<open>desc->limit + 1\<close> is computed in 32 bits.\<close>

definition low_limit :: "seg_desc \<Rightarrow> u64" where
  "low_limit desc = (if SEG_DESC_TYPE (sd_access desc) AND 0xC = 4 then ucast (sd_limit desc + 1) else 0)"

definition high_limit :: "seg_desc \<Rightarrow> u64" where
  "high_limit desc = (if SEG_DESC_TYPE (sd_access desc) AND 0xC = 4
     then if SEG_DESC_DEF32 (sd_access desc) then 0xffffffff else 0xffff else ucast (sd_limit desc))"

definition vie_calculate_gla ::
  "vm_cpu_mode \<Rightarrow> vm_reg_name \<Rightarrow> seg_desc \<Rightarrow> u64 \<Rightarrow> int \<Rightarrow> int \<Rightarrow> u32 \<Rightarrow> (int + u64) option" where
  "vie_calculate_gla cpu_mode seg desc off len addrsize prot =
     (let type = SEG_DESC_TYPE (sd_access desc);
          glasize = (if cpu_mode = CPU_MODE_64BIT then 8 else 4);
          segbase = (if cpu_mode = CPU_MODE_64BIT \<and> seg \<noteq> VM_REG_GUEST_FS \<and> seg \<noteq> VM_REG_GUEST_GS then 0 else sd_base desc);
          gla = (segbase + (off AND size2mask addrsize)) AND size2mask glasize
      in if \<not> is_data_segment seg \<or> \<not> size_ok len \<or> prot AND NOT (XHYVE_PROT_READ OR XHYVE_PROT_WRITE) \<noteq> 0 then None
         else if cpu_mode = CPU_MODE_64BIT then if addrsize = 4 \<or> addrsize = 8 then Some (Inr gla) else None
         else if \<not> (addrsize = 2 \<or> addrsize = 4) then None
         else if SEG_DESC_UNUSABLE (sd_access desc) then Some (Inl (-1))
         else if \<not> SEG_DESC_PRESENT (sd_access desc) then None
         else if type < 16 then None
         else if prot AND XHYVE_PROT_READ \<noteq> 0 \<and> type AND 0xA = 8 then Some (Inl (-1))
         else if prot AND XHYVE_PROT_WRITE \<noteq> 0 \<and> type AND 8 \<noteq> 0 then Some (Inl (-1))
         else if prot AND XHYVE_PROT_WRITE \<noteq> 0 \<and> type AND 0xA = 0 then Some (Inl (-1))
         else if \<not> offsets_within (size2mask addrsize) (low_limit desc) (high_limit desc) off (nat len) then Some (Inl (-1))
         else Some (Inr gla))"

subsection \<open>The checks decide their specifications\<close>

lemma size2mask_mask: "size_ok sz \<Longrightarrow> size2mask sz = mask (nat (8 * sz))"
  by (auto simp: size_ok_def size2mask_def mask_eq_exp_minus_1)

lemma size_ok_cases: "size_ok n \<Longrightarrow> n \<in> {1, 2, 4, 8}" by (auto simp: size_ok_def)

text \<open>A canonical address is the sign extension of its lower 48 bits.\<close>

lemma canonical_iff: "vie_canonical_check CPU_MODE_64BIT gla \<longleftrightarrow> (scast (ucast gla :: 48 word) :: u64) \<noteq> gla"
proof -
  have m: "(NOT (push_bit 48 1 - 1) :: u64) = NOT (mask 48)" by (simp add: mask_eq_exp_minus_1 push_bit_eq_mult)
  have b: "bit (NOT (mask 48) :: u64) n \<longleftrightarrow> 48 \<le> n \<and> n < 64" for n by (auto simp: bit_not_iff bit_mask_iff)
  have s: "bit (scast (ucast gla :: 48 word) :: u64) n \<longleftrightarrow> n < 64 \<and> bit gla (if n < 48 then n else 47)" for n
    by (cases "n = 47") (auto simp: bit_signed_iff bit_ucast_iff min_def)
  have t: "(gla AND push_bit 47 1 \<noteq> 0) \<longleftrightarrow> bit gla 47" using and_pow2_eq_0_iff [of gla 47] by (simp add: push_bit_eq_mult)
  have one: "(gla AND NOT (mask 48) = NOT (mask 48)) \<longleftrightarrow> (\<forall>n. 48 \<le> n \<and> n < 64 \<longrightarrow> bit gla n)"
    unfolding bit_eq_iff by (auto simp: bit_and_iff b)
  have zero: "(gla AND NOT (mask 48) = 0) \<longleftrightarrow> (\<forall>n. 48 \<le> n \<and> n < 64 \<longrightarrow> \<not> bit gla n)"
    unfolding bit_eq_iff by (auto simp: bit_and_iff b)
  have sext: "(scast (ucast gla :: 48 word) :: u64) = gla \<longleftrightarrow> (\<forall>n. 48 \<le> n \<and> n < 64 \<longrightarrow> bit gla n = bit gla 47)"
    unfolding bit_eq_iff s by (auto split: if_splits simp: not_less)
  show ?thesis unfolding vie_canonical_check_def Let_def m using t one zero sext by (auto split: if_splits)
qed

lemma take_bit_add_left: "take_bit w (take_bit w x + y) = take_bit w (x + y :: 'a::len word)"
proof transfer
  fix w and x y :: int
  have "take_bit n (take_bit m (take_bit m (take_bit n x) + y)) = take_bit n (take_bit m (x + y))" for n m
    by (simp add: take_bit_take_bit) (metis take_bit_add take_bit_take_bit min.commute min.idem)
  then show "take_bit LENGTH('a) (take_bit w (take_bit w x + y)) = take_bit LENGTH('a) (take_bit w (x + y))"
    by (metis take_bit_add take_bit_take_bit min.idem)
qed

text \<open>The offsets of an operand of \<open>n\<close> bytes, with wrap-around at the address size.\<close>

lemma offsets_within_iff:
  "offsets_within (mask w) lo hi off n \<longleftrightarrow> (\<forall>k < n. lo \<le> take_bit w (off + of_nat k) \<and> take_bit w (off + of_nat k) \<le> hi)"
proof (induction n arbitrary: off)
  case (Suc n)
  have shift: "take_bit w (take_bit w off + 1 + of_nat k) = take_bit w (off + of_nat (Suc k))" for k
    using take_bit_add_left [of w off "1 + of_nat k"] by (simp add: ac_simps)
  have all: "(\<forall>k < Suc n. P k) \<longleftrightarrow> P 0 \<and> (\<forall>k < n. P (Suc k))" for P by (auto simp: less_Suc_eq_0_disj)
  show ?case unfolding all using Suc.IH [of "take_bit w off + 1"]
    by (auto simp: Let_def shift take_bit_eq_mask [symmetric] not_less del: of_nat_Suc)
qed simp

text \<open>
  What the architecture says of a segment: which accesses its type allows and which offsets its limit allows. Bit 3
  of the type is set for code, bit 1 for readable code and writable data, bit 2 for data that expand down.
\<close>

definition seg_allows :: "seg_desc \<Rightarrow> u32 \<Rightarrow> bool" where
  "seg_allows desc prot \<longleftrightarrow>
     (if prot = XHYVE_PROT_WRITE then \<not> bit (sd_access desc) 3 \<and> bit (sd_access desc) 1
      else bit (sd_access desc) 3 \<longrightarrow> bit (sd_access desc) 1)"

definition seg_offsets :: "seg_desc \<Rightarrow> u64 set" where
  "seg_offsets desc =
     (if \<not> bit (sd_access desc) 3 \<and> bit (sd_access desc) 2
      then {x. ucast (sd_limit desc) < x \<and> x \<le> (if bit (sd_access desc) 14 then 0xffffffff else 0xffff)}
      else {x. x \<le> ucast (sd_limit desc)})"

lemma bit_imp_unat_ge: "bit (w :: 'a::len word) n \<Longrightarrow> 2 ^ n \<le> unat w"
proof (rule ccontr)
  assume "bit w n" "\<not> 2 ^ n \<le> unat w"
  moreover have "bit w n \<longleftrightarrow> bit (unat w) n" by (auto simp: bit_unsigned_iff dest: bit_imp_le_length)
  ultimately show False by (simp add: bit_iff_odd)
qed

lemma and_two_bits:
  fixes w :: "'a::len word"
  assumes "i \<noteq> j" and "i < LENGTH('a)" and "j < LENGTH('a)"
  shows "w AND (BIT i OR BIT j) = 0 \<longleftrightarrow> \<not> bit w i \<and> \<not> bit w j" "w AND (BIT i OR BIT j) = BIT i \<longleftrightarrow> bit w i \<and> \<not> bit w j"
proof -
  have b: "bit (w AND (BIT i OR BIT j)) n \<longleftrightarrow> (n = i \<or> n = j) \<and> bit w n" for n
    using assms by (auto simp: bit_and_iff bit_or_iff)
  have eq: "x = y \<longleftrightarrow> (\<forall>n. bit x n = bit y n)" for x y :: "'a word" by (auto intro: bit_word_eqI)
  have all: "(\<forall>n. ((n = i \<or> n = j) \<and> bit w n) = Q n) \<longleftrightarrow> bit w i = Q i \<and> bit w j = Q j \<and> (\<forall>n. n \<noteq> i \<longrightarrow> n \<noteq> j \<longrightarrow> \<not> Q n)" for Q
    by metis
  show "w AND (BIT i OR BIT j) = 0 \<longleftrightarrow> \<not> bit w i \<and> \<not> bit w j" "w AND (BIT i OR BIT j) = BIT i \<longleftrightarrow> bit w i \<and> \<not> bit w j"
    unfolding eq b all using assms by simp_all
qed

lemma type_bits:
  fixes a :: u32
  shows "(a AND 0x1f) AND 0xC = 4 \<longleftrightarrow> \<not> bit a 3 \<and> bit a 2" "(a AND 0x1f) AND 0xA = 8 \<longleftrightarrow> bit a 3 \<and> \<not> bit a 1"
    "(a AND 0x1f) AND 8 = 0 \<longleftrightarrow> \<not> bit a 3" "(a AND 0x1f) AND 0xA = 0 \<longleftrightarrow> \<not> bit a 3 \<and> \<not> bit a 1"
proof -
  have n: "(0x1f :: u32) AND 0xC = BIT 2 OR BIT 3" "(0x1f :: u32) AND 0xA = BIT 3 OR BIT 1" "(0x1f :: u32) AND 8 = BIT 3"
    "(4 :: u32) = BIT 2" "(8 :: u32) = BIT 3" by (simp_all add: BIT_def)
  show "(a AND 0x1f) AND 0xC = 4 \<longleftrightarrow> \<not> bit a 3 \<and> bit a 2" "(a AND 0x1f) AND 0xA = 8 \<longleftrightarrow> bit a 3 \<and> \<not> bit a 1"
    "(a AND 0x1f) AND 0xA = 0 \<longleftrightarrow> \<not> bit a 3 \<and> \<not> bit a 1"
    unfolding and.assoc n(1,2,4,5) using and_two_bits [of 2 3 a] and_two_bits [of 3 1 a] by auto
  show "(a AND 0x1f) AND 8 = 0 \<longleftrightarrow> \<not> bit a 3" unfolding and.assoc n(3) by simp
qed



text \<open>
  An expand-down segment with the largest limit has no valid offset, but the code computes the lower bound \<open>limit + 1\<close> in 32 bits,
  so that it wraps to 0, and lets every access of up to the upper bound through.
\<close>

theorem expand_down_wraps:
  assumes "sd_access desc = 0xC097" and "sd_limit desc = 0xffffffff" and "is_data_segment seg" and "size_ok len"
    and "off \<le> 0xffffffff"
  shows "seg_offsets desc = {}
     \<and> vie_calculate_gla CPU_MODE_PROTECTED seg desc off len 4 XHYVE_PROT_WRITE = Some (Inr (take_bit 32 (sd_base desc + off)))"
proof -
  have l: "low_limit desc = 0" "high_limit desc = 0xffffffff"
    using assms(1,2) by (simp_all add: low_limit_def high_limit_def SEG_DESC_TYPE_def SEG_DESC_DEF32_def)
  have "offsets_within (size2mask 4) 0 0xffffffff x n" for x n
    by (induction n arbitrary: x) (simp_all add: size2mask_def Let_def not_less word_and_le1)
  moreover have "off < 0x100000000" using assms(5) by (simp add: word_le_nat_alt word_less_nat_alt)
  then have "off AND 0xffffffff = off"
    using take_bit_nat_eq_self [of "unat off" 32] by (simp add: word_unat_eq_iff unsigned_and_eq word_less_nat_alt take_bit_eq_mask mask_eq_exp_minus_1)
  ultimately have "vie_calculate_gla CPU_MODE_PROTECTED seg desc off len 4 XHYVE_PROT_WRITE = Some (Inr (take_bit 32 (sd_base desc + off)))"
    using assms l by (simp add: vie_calculate_gla_def SEG_DESC_TYPE_def SEG_DESC_UNUSABLE_def SEG_DESC_PRESENT_def Let_def size2mask_def
        take_bit_eq_mask mask_eq_exp_minus_1)
  then show ?thesis using assms(1,2) by (auto simp: seg_offsets_def)
qed

theorem expand_down_wraps_witness:
  "vie_calculate_gla CPU_MODE_PROTECTED VM_REG_GUEST_SS \<lparr>sd_base = 0, sd_limit = 0xffffffff, sd_access = 0xC097\<rparr> 0x1234 4 4 XHYVE_PROT_WRITE
     = Some (Inr 0x1234)"
  using expand_down_wraps [of "\<lparr>sd_base = 0, sd_limit = 0xffffffff, sd_access = 0xC097\<rparr>" VM_REG_GUEST_SS 4 "0x1234"]
  by (simp add: is_data_segment_def size_ok_def take_bit_eq_mask mask_eq_exp_minus_1)

end
