(* ===== verification/Vm_Ioport.thy ===== *)
theory Vm_Ioport
  imports Vie_Addr Vrtc Vpmtmr
begin

text \<open>
  Port accesses of the guest (\<open>src/vmm/vmm_ioport.c\<close>): the table of the port handlers of the devices emulated beside
  the vcpus, and the exit handler that calls them. A port without a handler is left to the user side of the program.
\<close>

record vm_inout =
  io_bytes :: int
  io_in :: bool
  io_string :: bool
  io_rep :: bool
  io_port :: u16
  io_eax :: u32

text \<open>
  A handler gets the direction, the number of bytes and the value, and answers with the machine, the value
  and an error code. \<open>wall\<close> is the host's calendar clock.
\<close>

type_synonym ioport_handler_func_t = "bool \<Rightarrow> int \<Rightarrow> u32 \<Rightarrow> vm \<Rightarrow> (vm \<times> u32 \<times> int) option"

definition ioport_handler :: "u64 \<Rightarrow> u32 \<Rightarrow> nat \<Rightarrow> ioport_handler_func_t option" where
  "ioport_handler mat wall port =
     (if port \<in> {0x40, 0x41, 0x42, 0x43} then Some (\<lambda>d b x v. vatpit_handler mat d (of_nat port) b x v)
      else if port = 0x61 then Some (\<lambda>d b x v. Some (v, vatpit_nmisc_handler mat d x v))
      else if port \<in> {0x20, 0x21} then Some (\<lambda>d b x v. vatpic_master_handler d (of_nat port) b x v)
      else if port \<in> {0xa0, 0xa1} then Some (\<lambda>d b x v. vatpic_slave_handler d (of_nat port) b x v)
      else if port \<in> {0x4d0, 0x4d1} then Some (\<lambda>d b x v. Some (vatpic_elc_handler d (of_nat port) b x v))
      else if port = 0x408 then Some (\<lambda>d b x v. map_option (\<lambda>r. case r of Inl e \<Rightarrow> (v, x, e) | Inr y \<Rightarrow> (v, y, 0)) (vpmtmr_handler mat d b v))
      else if port = 0x70 then Some (\<lambda>d b x v. Some (vrtc_addr_handler d b x v))
      else if port = 0x71 then Some (\<lambda>d b x v. vrtc_data_handler mat wall d b x v)
      else None)"

text \<open>
  The value that an input instruction leaves in the local variable \<open>val\<close> before the handler sets it is
  arbitrary: \<open>stale\<close>. The result has the machine, the updated \<open>eax\<close> of the exit, the error code, whether to return to the user side,
  and the value written to the guest's \<open>%rax\<close>, if any; that write fails only for an illegal vcpu number.
\<close>

record inout_result =
  ir_eax :: u32
  ir_error :: int
  ir_retu :: bool
  ir_rax :: "u64 option"

abbreviation (input) EIO :: int where "EIO \<equiv> 5"
abbreviation (input) MAX_IOPORTS :: nat where "MAX_IOPORTS \<equiv> 1280"

definition emulate_inout_port :: "u64 \<Rightarrow> u32 \<Rightarrow> u32 \<Rightarrow> nat \<Rightarrow> vm_inout \<Rightarrow> vm \<Rightarrow> (vm \<times> inout_result) option" where
  "emulate_inout_port mat wall stale vcpuid io v =
     (case if unat (io_port io) \<ge> MAX_IOPORTS then None else ioport_handler mat wall (unat (io_port io)) of
        None \<Rightarrow> Some (v, \<lparr>ir_eax = io_eax io, ir_error = 0, ir_retu = True, ir_rax = None\<rparr>)
      | Some handler \<Rightarrow>
          Option.bind (vie_size2mask (io_bytes io)) (\<lambda>mask64.
          let m = ucast mask64
          in Option.bind (handler (io_in io) (io_bytes io) (if io_in io then stale else io_eax io AND m) v) (\<lambda>(v', val, error).
             if error \<noteq> 0 then Some (v', \<lparr>ir_eax = io_eax io, ir_error = EIO, ir_retu = False, ir_rax = None\<rparr>)
             else if io_in io then
               let eax = (io_eax io AND NOT m) OR (val AND m)
               in if vcpuid \<ge> VM_MAXCPU then None
                  else Some (v', \<lparr>ir_eax = eax, ir_error = 0, ir_retu = False, ir_rax = Some (ucast eax)\<rparr>)
             else Some (v', \<lparr>ir_eax = io_eax io, ir_error = 0, ir_retu = False, ir_rax = None\<rparr>))))"

definition vm_handle_inout :: "u64 \<Rightarrow> u32 \<Rightarrow> u32 \<Rightarrow> nat \<Rightarrow> vm_inout \<Rightarrow> vm \<Rightarrow> (vm \<times> inout_result) option" where
  "vm_handle_inout mat wall stale vcpuid io v =
     (if \<not> (io_bytes io = 1 \<or> io_bytes io = 2 \<or> io_bytes io = 4) then None
      else if io_string io then Some (v, \<lparr>ir_eax = io_eax io, ir_error = 0, ir_retu = True, ir_rax = None\<rparr>)
      else emulate_inout_port mat wall stale vcpuid io v)"

text \<open>
  An input handler either sets the value or reports an error: what was in the variable before does not come through.
\<close>

definition same_answer :: "(vm \<times> u32 \<times> int) option \<Rightarrow> (vm \<times> u32 \<times> int) option \<Rightarrow> bool" where
  "same_answer a b \<longleftrightarrow> a = b \<or> (\<exists>v e x y. a = Some (v, x, e) \<and> b = Some (v, y, e) \<and> e \<noteq> 0)"

lemma same_answer_refl [simp]: "same_answer a a"
  and same_answer_error [simp]: "e \<noteq> 0 \<Longrightarrow> same_answer (Some (v, x, e)) (Some (v, y, e))"
  by (auto simp: same_answer_def)

lemma handler_sets_value:
  assumes "ioport_handler mat wall port = Some handler"
  shows "same_answer (handler True b x v) (handler True b y v)"
proof -
  have "same_answer (vatpit_handler mat True p b x v) (vatpit_handler mat True p b y v)" for p
    by (simp add: vatpit_handler_def)
  moreover have "same_answer (atpic_handler k True p b x v) (atpic_handler k True p b y v)" for k p
    by (simp add: atpic_handler_def)
  moreover have "same_answer (Some (vatpic_elc_handler True p b x v)) (Some (vatpic_elc_handler True p b y v))" for p
    by (simp add: vatpic_elc_handler_def Let_def)
  moreover have "same_answer (map_option (\<lambda>r. case r of Inl e \<Rightarrow> (v, x, e) | Inr y \<Rightarrow> (v, y, 0)) (vpmtmr_handler mat True b v))
      (map_option (\<lambda>r. case r of Inl e \<Rightarrow> (v, y, e) | Inr y \<Rightarrow> (v, y, 0)) (vpmtmr_handler mat True b v))"
    by (simp add: vpmtmr_handler_def Let_def)
  moreover have "same_answer (Some (vrtc_addr_handler True b x v)) (Some (vrtc_addr_handler True b y v))"
    by (simp add: vrtc_addr_handler_def)
  moreover have "same_answer (vrtc_data_handler mat wall True b x v) (vrtc_data_handler mat wall True b y v)"
    by (simp add: vrtc_data_handler_def Let_def split: Option.bind_splits)
  ultimately show ?thesis
    using assms by (auto simp: ioport_handler_def vatpit_nmisc_handler_def vatpic_master_handler_def vatpic_slave_handler_def split: if_splits)
qed

text \<open>
  The value an input instruction delivers never depends on the uninitialised variable that the exit handler passes to the port handlers:
  every handler of the table sets it or reports an error, and after an error it is not used.
\<close>

theorem input_value_defined:
  "vm_handle_inout mat wall stale i io v = vm_handle_inout mat wall stale' i io v"
proof (cases "io_in io \<and> unat (io_port io) < MAX_IOPORTS")
  case True
  show ?thesis
  proof (cases "ioport_handler mat wall (unat (io_port io))")
    case (Some handler)
    have "same_answer (handler True (io_bytes io) stale v) (handler True (io_bytes io) stale' v)" by (rule handler_sets_value [OF Some])
    then consider (eq) "handler True (io_bytes io) stale v = handler True (io_bytes io) stale' v"
      | (err) w e x y where "handler True (io_bytes io) stale v = Some (w, x, e)" "handler True (io_bytes io) stale' v = Some (w, y, e)" "e \<noteq> 0"
      unfolding same_answer_def by blast
    then have "emulate_inout_port mat wall stale i io v = emulate_inout_port mat wall stale' i io v"
      by cases (use True Some in \<open>simp_all add: emulate_inout_port_def Let_def\<close>)
    then show ?thesis by (simp add: vm_handle_inout_def)
  qed (use True in \<open>simp add: vm_handle_inout_def emulate_inout_port_def\<close>)
qed (auto simp: vm_handle_inout_def emulate_inout_port_def split: option.splits)

text \<open>
  What an input instruction writes to the guest's \<open>%rax\<close>: beyond the bytes that were read, the lower half keeps its value, and
  the upper half becomes 0, also for the one- and two-byte forms, for which the processor would keep it.
\<close>

lemma input_rax:
  assumes "vm_handle_inout mat wall stale i io v = Some (v', r)" and "ir_rax r = Some x"
  shows "x = ucast (ir_eax r)" and "ir_eax r AND NOT (ucast (size2mask (io_bytes io))) = io_eax io AND NOT (ucast (size2mask (io_bytes io)))"
proof -
  have keep: "((a AND NOT m) OR (y AND m)) AND NOT m = a AND NOT m" for a m y :: u32
    by (rule bit_word_eqI) (auto simp: bit_and_iff bit_or_iff bit_not_iff)
  show "x = ucast (ir_eax r)" "ir_eax r AND NOT (ucast (size2mask (io_bytes io))) = io_eax io AND NOT (ucast (size2mask (io_bytes io)))"
    using assms keep
    by (auto simp: vm_handle_inout_def emulate_inout_port_def vie_size2mask_def Let_def split: if_splits option.splits Option.bind_splits)
qed

end
