(* ===== verification/Machine.thy ===== *)
theory Machine
  imports Vm_Inv Vm_Ioport
begin

text \<open>
  The machine as a whole: its creation (\<open>vm_init\<close> and \<open>vcpu_init\<close> of \<open>src/vmm/vmm.c\<close>), the
  injection of a hardware interrupt into a vcpu (\<open>vmx_inject_interrupts\<close> of
  \<open>src/vmm/intel/vmx.c\<close>), and the events that reach the interrupt complex: register and port
  accesses of the guest, interrupt lines and messages of devices, expiring timers and the
  rounds of the callout thread. A reachable state is one that any interleaving of them leads to.
\<close>

subsection \<open>Creation\<close>

definition vm_set_x2apic_state :: "nat \<Rightarrow> x2apic_state \<Rightarrow> vm \<Rightarrow> vm \<times> int" where
  "vm_set_x2apic_state vcpuid state v =
     (if vcpuid \<ge> VM_MAXCPU then (v, EINVAL)
      else (upd_vlapic vcpuid (\<lambda>l. vlapic_set_x2apic_state l state)
              (upd_vcpu vcpuid (\<lambda>c. c\<lparr>vc_x2apic_state := state\<rparr>) v), 0))"

definition vm_get_x2apic_state :: "nat \<Rightarrow> vm \<Rightarrow> x2apic_state option" where
  "vm_get_x2apic_state vcpuid v =
     (if vcpuid \<ge> VM_MAXCPU then None else Some (vc_x2apic_state (vm_vcpu v vcpuid)))"

text \<open>
  \<open>vm_init\<close> reads both clocks of the host, the uptime \<open>mat\<close> for the ACPI timer and the wall clock
  \<open>wall\<close> for the real-time clock. \<open>vcpu_init\<close> is the case \<open>create = true\<close>; \<open>VLAPIC_INIT\<close> is
  \<open>vmx_vlapic_init\<close>.
\<close>

definition vcpu_init :: "nat \<Rightarrow> vm \<Rightarrow> vm option" where
  "vcpu_init i v =
     Option.bind (vlapic_init (vlapic_calloc i)) (\<lambda>l.
       let v1 = upd_vcpu i (\<lambda>c. c\<lparr>vc_state := VCPU_IDLE, vc_vlapic := l\<rparr>) v;
           v2 = fst (vm_set_x2apic_state i X2APIC_DISABLED v1)
       in Some (upd_vcpu i (\<lambda>c. c\<lparr>vc_exitintinfo := 0, vc_nmi_pending := False, vc_extint_pending := False,
                                   vc_exception_pending := False\<rparr>) v2))"

definition vm_devices :: "timebase \<Rightarrow> u64 \<Rightarrow> vm" where
  "vm_devices tb mat = (vm_calloc tb)\<lparr>vm_vioapic := vioapic_init, vm_vhpet := vhpet_init, vm_vatpic := vatpic_init, vm_vatpit := vatpit_init,
     vm_vpmtmr := vpmtmr_init tb mat\<rparr>"

definition vm_init :: "timebase \<Rightarrow> u64 \<Rightarrow> u32 \<Rightarrow> vm option" where
  "vm_init tb mat wall =
     fold (\<lambda>i s. Option.bind s (vcpu_init i)) [0..<VM_MAXCPU]
       (map_option (\<lambda>v. v\<lparr>vm_active_cpus := CPU_ZERO, vm_suspend_how := VM_SUSPEND_NONE, vm_suspended_cpus := CPU_ZERO\<rparr>)
         (vrtc_init mat wall (vm_devices tb mat)))"

definition vm_activate_cpu :: "nat \<Rightarrow> vm \<Rightarrow> vm \<times> int" where
  "vm_activate_cpu vcpuid v =
     (if vcpuid \<ge> VM_MAXCPU then (v, EINVAL)
      else if CPU_ISSET vcpuid (vm_active_cpus v) then (v, EBUSY)
      else (v\<lparr>vm_active_cpus := CPU_SET vcpuid (vm_active_cpus v)\<rparr>, 0))"

subsection \<open>Injection of hardware interrupts\<close>

text \<open>
  The part of \<open>vmx_inject_interrupts\<close> that chooses and accepts a vector. \<open>can_inject\<close> is the
  conjunction of its tests on the VMCS of the vcpu (\<open>RFLAGS.IF\<close>, interruptibility, no event
  already being injected). The answer carries the vector written to the VMCS, if any.
\<close>

definition inject_hwintr :: "bool \<Rightarrow> nat \<Rightarrow> vm \<Rightarrow> (vm \<times> int option) option" where
  "inject_hwintr can_inject i v =
     Option.bind (vm_extint_pending v i) (\<lambda>extint.
       if \<not> extint then
         (case vlapic_pending_intr (vm_lapic v i) of
            None \<Rightarrow> Some (v, None)
          | Some vector \<Rightarrow>
              if \<not> (vector \<ge> 16 \<and> vector \<le> 255) then None
              else if \<not> can_inject then Some (v, None)
              else map_option (\<lambda>v'. (v', Some (int vector))) (lift_vlapic i (vlapic_intr_accepted vector) v))
       else
         let vector = vatpic_pending_intr v
         in if \<not> (vector \<ge> 0 \<and> vector \<le> 255) then None
            else if \<not> can_inject then Some (v, None)
            else Option.bind (vm_extint_clear i v) (\<lambda>v1.
                 map_option (\<lambda>v'. (v', Some vector)) (vatpic_intr_accepted vector v1)))"

subsection \<open>Events\<close>

datatype vm_event =
    LapicMmioWrite nat u64 u64 int
  | LapicMsrWrite nat u32 u64
  | IoapicMmioWrite u64 u64 int
  | IoapicIrq int irqstate
  | PicIrq int irqstate
  | PicTrigger int vm_intr_trigger
  | Inout u32 u32 nat vm_inout
  | Msi u64 u64
  | LocalIntr int int
  | InjectNmi nat
  | InjectHwintr nat bool
  | VlapicTimer nat
  | PitTimer nat
  | HpetMmioWrite u64 u64 int
  | HpetTimer nat
  | RtcSetTime u32 int
  | RtcNvramWrite int u8
  | RtcTimer u32
  | CalloutRound
  | CalloutWake bool
  | CalloutDone
  | ActivateCpu nat

text \<open>Events that run to completion on the machine.\<close>

fun dev_exec :: "u64 \<Rightarrow> vm_event \<Rightarrow> vm \<Rightarrow> vm option" where
  "dev_exec mat (LapicMmioWrite i gpa val sz) v = map_option fst (lapic_mmio_write mat i gpa val sz v)"
| "dev_exec mat (LapicMsrWrite i msr val) v = map_option fst (lapic_wrmsr mat i msr val v)"
| "dev_exec mat (IoapicMmioWrite gpa val sz) v = map_option fst (vioapic_mmio_write gpa val sz v)"
| "dev_exec mat (IoapicIrq irq st) v = map_option fst (vioapic_set_irqstate irq st v)"
| "dev_exec mat (PicIrq irq st) v = map_option fst (vatpic_set_irqstate irq st v)"
| "dev_exec mat (PicTrigger irq t) v = Some (fst (vatpic_set_irq_trigger irq t v))"
| "dev_exec mat (Inout wall stale i io) v = map_option fst (vm_handle_inout mat wall stale i io v)"
| "dev_exec mat (Msi addr msg) v = map_option fst (lapic_intr_msi addr msg v)"
| "dev_exec mat (LocalIntr cpu vec) v = Some (fst (lapic_set_local_intr cpu vec v))"
| "dev_exec mat (InjectNmi i) v = Some (fst (vm_inject_nmi i v))"
| "dev_exec mat (InjectHwintr i can) v = map_option fst (inject_hwintr can i v)"
| "dev_exec mat (VlapicTimer i) v = vlapic_callout_handler mat i v"
| "dev_exec mat (PitTimer k) v = vatpit_callout_handler mat k v"
| "dev_exec mat (HpetMmioWrite gpa val sz) v = vhpet_mmio_write mat gpa val sz v"
| "dev_exec mat (HpetTimer n) v = vhpet_handler mat n v"
| "dev_exec mat (RtcSetTime wall secs) v = map_option fst (vrtc_set_time mat wall secs v)"
| "dev_exec mat (RtcNvramWrite off val) v = Some (fst (vrtc_nvram_write off val v))"
| "dev_exec mat (RtcTimer wall) v = vrtc_callout_handler mat wall v"
| "dev_exec mat (ActivateCpu i) v = Some (fst (vm_activate_cpu i v))"
| "dev_exec mat _ v = Some v"

text \<open>
  A state is the machine and the place of the callout thread. A pass of that thread from the top of its
  loop or from a sleep dispatches a callout or not; \<open>CalloutDone\<close> is the return of the handler.
\<close>

type_synonym machine = "vm \<times> callout_pc"

fun vm_exec :: "u64 \<Rightarrow> vm_event \<Rightarrow> machine \<Rightarrow> machine option" where
  "vm_exec mat e (v, pc) = (case e of
     CalloutRound \<Rightarrow> (case pc of
         AtTop \<Rightarrow> map_option (\<lambda>(s, d). (with_callouts s v, d)) (callout_thread_round mat (vm_callouts v))
       | _ \<Rightarrow> Some (v, pc))
   | CalloutWake timed_out \<Rightarrow> (case pc of
         Asleep c _ \<Rightarrow> (case callout_wake timed_out mat c (vm_callouts v) of (s, d) \<Rightarrow> Some (with_callouts s v, d))
       | _ \<Rightarrow> Some (v, pc))
   | CalloutDone \<Rightarrow> (case pc of
         Running c \<Rightarrow> Some (with_callouts (dispatch_end c (vm_callouts v)) v, AtTop)
       | _ \<Rightarrow> Some (v, pc))
   | _ \<Rightarrow> map_option (\<lambda>v'. (v', pc)) (dev_exec mat e v))"

fun thread_event :: "vm_event \<Rightarrow> bool" where
  "thread_event CalloutRound = True"
| "thread_event (CalloutWake _) = True"
| "thread_event CalloutDone = True"
| "thread_event _ = False"

text \<open>
  What the callers of these entry points guarantee: the address of an MMIO access lies in the
  page of the local APIC, a port access has one, two or four bytes, there are
  sixteen vcpus, a handler runs only when its callout is dispatched, and the
  host's clock does not run back behind the moment at which the counter of the HPET or of the ACPI timer was started or the real-time clock
  was last updated; and a write to the real-time clock leaves it with a date (see \<open>rtc_write_ok\<close>).
  For MSR writes the range is narrower than what \<open>lapic_msr\<close> lets through.
\<close>

definition inout_ok :: "u64 \<Rightarrow> u32 \<Rightarrow> vm_inout \<Rightarrow> vm \<Rightarrow> bool" where
  "inout_ok mat wall io v \<longleftrightarrow> io_bytes io \<in> {1, 2, 4}
     \<and> (io_port io = 0x71 \<longrightarrow> rtc_clock mat v \<and> (\<not> io_in io \<longrightarrow> rtc_write_ok mat wall (io_eax io AND ucast (size2mask (io_bytes io))) v))
     \<and> (io_port io = 0x408 \<longrightarrow> pmtmr_clock mat v)"

fun admissible :: "u64 \<Rightarrow> vm_event \<Rightarrow> machine \<Rightarrow> bool" where
  "admissible mat e (v, pc) = (case e of
     LapicMmioWrite i gpa val sz \<Rightarrow> gpa - DEFAULT_APIC_BASE < 0x1000
       \<and> write_ok i (gpa - DEFAULT_APIC_BASE) val v
   | LapicMsrWrite i msr val \<Rightarrow> msr = MSR_APICBASE \<or>
       (0x800 \<le> msr \<and> msr < 0x900 \<and> write_ok i (ucast (x2apic_msr_to_regoff msr)) val v)
   | Inout wall stale i io \<Rightarrow> i < VM_MAXCPU \<and> inout_ok mat wall io v
   | InjectHwintr i can \<Rightarrow> i < VM_MAXCPU
   | VlapicTimer i \<Rightarrow> pc = Running (vlapic_callout i)
   | PitTimer k \<Rightarrow> pc = Running (vatpit_callout k)
   | HpetMmioWrite gpa val sz \<Rightarrow> hpet_clock mat v
   | HpetTimer n \<Rightarrow> n < VHPET_NUM_TIMERS \<and> pc = Running (vhpet_callout n) \<and> hpet_clock mat v
   | RtcSetTime wall secs \<Rightarrow> 0 \<le> secs \<and> (aintr_enabled (vm_vrtc v) \<longrightarrow> rtc_base_rtctime (vm_vrtc v) \<le> secs)
   | RtcTimer wall \<Rightarrow> pc = Running vrtc_callout \<and> rtc_clock mat v
   | _ \<Rightarrow> True)"

inductive vm_reachable :: "timebase \<Rightarrow> machine \<Rightarrow> bool" for tb where
  vm_start: "vm_init tb mat wall = Some v \<Longrightarrow> vm_reachable tb (v, AtTop)"
| vm_step: "vm_reachable tb m \<Longrightarrow> admissible mat e m \<Longrightarrow> vm_exec mat e m = Some m' \<Longrightarrow> vm_reachable tb m'"

subsection \<open>Creation establishes the invariant\<close>

lemma set_x2apic_frame [simp]: "isr_frame l (vlapic_set_x2apic_state l st)"
  by (simp add: isr_frame_def vlapic_set_x2apic_state_def Let_def)

lemma vlapic_init_ok:
  obtains l where "vlapic_init (vlapic_calloc i) = Some l" and "isr_inv l"
proof -
  let ?v = "(vlapic_calloc i)\<lparr>vl_msr_apicbase := (if i = 0 then DEFAULT_APIC_BASE OR APICBASE_ENABLED OR APICBASE_BSP
      else DEFAULT_APIC_BASE OR APICBASE_ENABLED)\<rparr>"
  let ?p = "upd_page (\<lambda>_. lapic_bzero\<lparr>la_id := vlapic_get_id ?v,
          la_version := VLAPIC_VERSION OR push_bit 16 (of_nat VLAPIC_MAXLVT_INDEX),
          la_dfr := 0xffffffff, la_svr := APIC_SVR_VECTOR\<rparr>) ?v"
  have p: "isr_inv ?p" by (rule isr_inv_zero) (simp_all add: vlapic_calloc_def lapic_bzero_def)
  obtain m where m: "vlapic_mask_lvts ?p = Some m" "isr_frame ?p m" by (rule mask_lvts_ok)
  let ?m = "upd_page (\<lambda>p. p\<lparr>la_dcr_timer := 0\<rparr>) (vlapic_reset_tmr m)"
  obtain d where d: "vlapic_dcr_write_handler ?m = Some d" "isr_frame ?m d" by (rule dcr_write_ok)
  let ?l = "d\<lparr>vl_boot_state := (if vl_vcpuid d = 0 then BS_RUNNING else BS_INIT), vl_svr_last := la_svr (vl_page d)\<rparr>"
  have "vlapic_init (vlapic_calloc i) = Some ?l"
    using m(1) d(1) by (simp add: vlapic_init_def vlapic_reset_def vlapic_calloc_def)
  moreover have "isr_frame m ?m"
    by (rule isr_frame_trans [OF reset_tmr_frame]) (simp add: isr_frame_def)
  then have "isr_frame ?p ?l"
    using m(2) d(2) by (auto simp: isr_frame_def)
  then have "isr_inv ?l" using p by (rule isr_frame_inv)
  ultimately show thesis by (rule that)
qed

lemma vcpu_init_keeps: "keeps_inv r (vcpu_init i)"
proof (rule keeps_invI)
  fix v assume inv: "vm_inv r v"
  obtain l where l: "vlapic_init (vlapic_calloc i) = Some l" "isr_inv l" by (rule vlapic_init_ok)
  let ?v1 = "upd_vcpu i (\<lambda>c. c\<lparr>vc_state := VCPU_IDLE, vc_vlapic := l\<rparr>) v"
  have inv1: "vm_inv r ?v1" using inv l(2) by (simp add: vm_inv_def level_ok_def vm_lapic_def hpet_ok_def rtc_ok_def)
  have inv2: "vm_inv r (fst (vm_set_x2apic_state i X2APIC_DISABLED ?v1))"
    using inv1 by (auto simp: vm_set_x2apic_state_def intro!: vm_inv_upd_frame vm_inv_upd_vcpu)
  have "vm_inv r (upd_vcpu i (\<lambda>c. c\<lparr>vc_exitintinfo := 0, vc_nmi_pending := False, vc_extint_pending := False,
      vc_exception_pending := False\<rparr>) (fst (vm_set_x2apic_state i X2APIC_DISABLED ?v1)))"
    by (rule vm_inv_upd_vcpu [OF inv2]) simp
  then show "\<exists>v'. vcpu_init i v = Some v' \<and> vm_inv r v'" by (simp add: vcpu_init_def l(1) Let_def)
qed

lemma keeps_fold:
  assumes "\<And>x. keeps_inv r (f x)" and "vm_inv r v"
  shows "\<exists>v'. fold (\<lambda>x s. Option.bind s (f x)) xs (Some v) = Some v' \<and> vm_inv r v'"
  using assms(2)
proof (induction xs arbitrary: v)
  case (Cons x xs)
  then obtain v1 where "f x v = Some v1" "vm_inv r v1" using keeps_invD [OF assms(1)] by blast
  then show ?case using Cons.IH [of v1] by simp
qed simp

lemma fold_bind_None: "fold (\<lambda>x s. Option.bind s (f x)) xs None = None"
  by (induction xs) simp_all

lemma vm_init_ok: "\<exists>v. vm_init tb mat wall = Some v \<and> vm_inv None v"
proof -
  let ?d = "vm_devices tb mat"
  have co: "vm_callouts ?d = callout_sys_init" "vm_vhpet ?d = vhpet_init" by (simp_all add: vm_devices_def vm_calloc_def)
  have "\<not> rtc_active ?d" unfolding co by (simp add: callout_sys_init_def callout_zero_def callout_active_def)
  then obtain v0 where v0: "vrtc_init mat wall ?d = Some v0" "rtc_step ?d v0" "rtc_ok v0" by (rule rtc_init_ok)
  have "isr_inv (vm_lapic ?d i)" for i
    by (simp add: vm_devices_def vm_calloc_def vm_lapic_def vcpu_bzero_def)
  moreover have "level_ok ?d" "vatpic_wf (vm_vatpic ?d)" "vatpit_wf (vm_vatpit ?d)"
    by (simp_all add: vm_devices_def vioapic_init_served vatpic_wf_init vatpit_wf_init)
  moreover have "pm_freq_sbt (vm_vpmtmr ?d) \<noteq> 0" by (simp add: vm_devices_def)
  moreover have "hpet_ok v0" using hpet_ok_init [of v0] v0(2) co by (simp add: rtc_step_def)
  ultimately have "vm_inv None v0"
    using v0(2,3) co co_inv_init by (auto simp: vm_inv_def rtc_step_def callouts_ok_def intro: isr_frame_inv)
  then have "vm_inv None (v0\<lparr>vm_active_cpus := CPU_ZERO, vm_suspend_how := VM_SUSPEND_NONE, vm_suspended_cpus := CPU_ZERO\<rparr>)"
    by (simp add: vm_inv_def vm_lapic_def level_ok_def hpet_ok_def rtc_ok_def)
  from keeps_fold [OF vcpu_init_keeps this] show ?thesis by (simp add: vm_init_def v0(1))
qed

lemma vcpu_init_vioapic: "vcpu_init i v = Some v' \<Longrightarrow> vm_vioapic v' = vm_vioapic v"
  by (auto simp: vcpu_init_def vm_set_x2apic_state_def Let_def split: Option.bind_splits)

lemma vm_init_vioapic:
  assumes "vm_init tb mat wall = Some v"
  shows "vm_vioapic v = vioapic_init"
proof -
  obtain v0 where v0: "vrtc_init mat wall (vm_devices tb mat) = Some v0" 
    using assms by (cases "vrtc_init mat wall (vm_devices tb mat)") (simp_all add: vm_init_def fold_bind_None)
  have key: "vm_vioapic w = vm_vioapic u"
    if "fold (\<lambda>i s. Option.bind s (vcpu_init i)) xs (Some u) = Some w" for xs u w
    using that
  proof (induction xs arbitrary: u)
    case (Cons i xs)
    from Cons.prems obtain u1 where u1: "vcpu_init i u = Some u1"
      and "fold (\<lambda>i s. Option.bind s (vcpu_init i)) xs (Some u1) = Some w"
      by (cases "vcpu_init i u") (simp_all add: fold_bind_None)
    then have "vm_vioapic w = vm_vioapic u1" by (intro Cons.IH)
    then show ?case using vcpu_init_vioapic [OF u1] by (rule trans)
  qed simp
  have "vm_vioapic v0 = vioapic_init" using vrtc_init_vioapic [OF v0] by (simp add: vm_devices_def)
  then show ?thesis using key [of "[0..<VM_MAXCPU]" "v0\<lparr>vm_active_cpus := CPU_ZERO, vm_suspend_how := VM_SUSPEND_NONE, vm_suspended_cpus := CPU_ZERO\<rparr>" v]
    assms v0 by (simp add: vm_init_def)
qed

subsection \<open>Every event keeps it\<close>

lemma answers_fst: "answers r x \<Longrightarrow> \<exists>v'. map_option fst x = Some v' \<and> vm_inv r v'"
  by (cases x) (auto simp: answers_def)

lemma answers_Some: "answers r (Some x) \<longleftrightarrow> vm_inv r (fst x)"
  by (cases x) (simp add: answers_def)

lemma lapic_mmio_write_ok:
  assumes "vm_inv r v" and "gpa - DEFAULT_APIC_BASE < 0x1000" and "write_ok i (gpa - DEFAULT_APIC_BASE) val v"
  shows "answers r (lapic_mmio_write mat i gpa val sz v)"
  using assms vlapic_write_ok [OF assms(1) _ assms(2,3), of mat True] by (simp add: lapic_mmio_write_def Let_def)

lemma x2apic_off:
  assumes "0x800 \<le> msr" and "msr < 0x900"
  shows "(ucast (x2apic_msr_to_regoff msr) :: u64) AND 0xf = 0" "(ucast (x2apic_msr_to_regoff msr) :: u64) < 0x1000"
proof -
  let ?o = "x2apic_msr_to_regoff msr"
  have m: "unat (msr - 0x800) < 0x100"
    using assms by (simp add: word_less_nat_alt word_le_nat_alt unat_sub)
  have shift: "unat (push_bit 4 d) = unat d * 16" if "unat d < 0x100" for d :: u32
    using that by (simp add: push_bit_eq_mult unat_word_ariths)
  have "unat ?o = unat (msr - 0x800) * 16" unfolding x2apic_msr_to_regoff_def by (rule shift [OF m])
  then show "(ucast ?o :: u64) < 0x1000" using m by (simp add: word_less_nat_alt)
  have "(0xf :: u64) = mask 4" by (simp add: mask_eq_exp_minus_1)
  then have "(ucast ?o :: u64) AND 0xf = take_bit 4 (ucast ?o)" by (simp only: take_bit_eq_mask)
  also have "\<dots> = 0"
    by (rule bit_word_eqI) (auto simp: x2apic_msr_to_regoff_def bit_take_bit_iff bit_ucast_iff bit_push_bit_iff)
  finally show "(ucast ?o :: u64) AND 0xf = 0" .
qed

lemma lapic_wrmsr_ok:
  assumes "vm_inv r v" and "msr = MSR_APICBASE \<or>
       (0x800 \<le> msr \<and> msr < 0x900 \<and> write_ok i (ucast (x2apic_msr_to_regoff msr)) val v)"
  shows "answers r (lapic_wrmsr mat i msr val v)"
  using assms vlapic_write_ok [OF assms(1), of "ucast (x2apic_msr_to_regoff msr)" i val mat False] x2apic_off [of msr]
  by (auto simp: lapic_wrmsr_def)

lemma vioapic_mmio_write_ok:
  assumes "vm_inv r v"
  shows "answers r (vioapic_mmio_write gpa val sz v)"
proof -
  obtain v' where "vioapic_write (io_ioregsel (vm_vioapic v)) (ucast val) v = Some v'" "vm_inv r v'"
    using keeps_invD [OF keeps_ioapic [OF vioapic_write_safe] assms] by blast
  moreover have "vm_inv r (upd_vioapic (\<lambda>io. io\<lparr>io_ioregsel := x\<rparr>) v)" for x
    using assms by (simp add: vm_inv_def level_ok_def hpet_ok_def rtc_ok_def)
  ultimately show ?thesis
    using assms by (auto simp: vioapic_mmio_write_def vioapic_mmio_rw_def Let_def)
qed

lemma irq_ok:
  assumes "vm_inv r v"
  shows "answers r (vioapic_set_irqstate irq st v)" "answers r (vatpic_set_irqstate irq st v)"
proof -
  obtain a e where "vioapic_set_irqstate irq st v = Some (a, e)" "intr_frame v a" "level_ok v \<Longrightarrow> level_ok a"
    by (rule vioapic_set_irqstate_safe) blast
  then show "answers r (vioapic_set_irqstate irq st v)" using vm_inv_intr assms by auto
  obtain b e where "vatpic_set_irqstate irq st v = Some (b, e)" "vatpic_step_ok v b"
    by (rule vatpic_set_irqstate_ok) blast
  then show "answers r (vatpic_set_irqstate irq st v)" using vm_inv_pic assms by auto
qed

lemma vatpic_wf_set_elc:
  assumes "vatpic_wf (vm_vatpic v)" and "k = 0 \<Longrightarrow> \<forall>n\<in>{0, 1, 2}. \<not> bit x n" and "k = 1 \<Longrightarrow> \<forall>n\<in>{0, 5}. \<not> bit x n"
  shows "vatpic_wf (vm_vatpic (set_elc k x v))"
  using assms by (auto simp: vatpic_wf_def set_elc_def)

lemma elc_masks:
  "n \<in> {0, 1, 2} \<Longrightarrow> \<not> bit (ucast (eax AND 0xf8 :: u32) :: u8) n"
  "n \<in> {0, 5} \<Longrightarrow> \<not> bit (ucast (eax AND 0xde :: u32) :: u8) n"
  by (auto simp: bit_ucast_iff bit_and_iff)

lemma elc_handler_ok: "vatpic_step_ok v (fst (vatpic_elc_handler d port b eax v))"
proof -
  have "vatpic_wf (vm_vatpic (set_elc 0 (ucast (eax AND 0xf8)) v))" if "vatpic_wf (vm_vatpic v)"
    by (rule vatpic_wf_set_elc [OF that]) (use elc_masks(1) in blast, simp)
  moreover have "vatpic_wf (vm_vatpic (set_elc 1 (ucast (eax AND 0xde)) v))" if "vatpic_wf (vm_vatpic v)"
    by (rule vatpic_wf_set_elc [OF that]) (simp, use elc_masks(2) in blast)
  ultimately show ?thesis by (simp add: vatpic_elc_handler_def Let_def vatpic_step_ok_def)
qed

lemma irq_trigger_ok: "vatpic_step_ok v (fst (vatpic_set_irq_trigger irq t v))"
proof (cases "irq < 0 \<or> irq > 15 \<or> (t = LEVEL_TRIGGER \<and> irq \<in> {0, 1, 2, 8, 13})")
  case True
  then show ?thesis by (auto simp: vatpic_set_irq_trigger_def)
next
  case False
  let ?k = "nat irq div 8" and ?n = "nat irq mod 8"
  let ?x = "if t = LEVEL_TRIGGER then vp_elc (vm_vatpic v) ?k OR BIT ?n else vp_elc (vm_vatpic v) ?k AND NOT (BIT ?n)"
  have "nat irq = 8 * ?k + ?n" by simp
  then have irq: "irq = 8 * int ?k + int ?n" using False by linarith
  have "vatpic_wf (vm_vatpic (set_elc ?k ?x v))" if wf: "vatpic_wf (vm_vatpic v)"
  proof (rule vatpic_wf_set_elc [OF wf])
    show "\<forall>n\<in>{0, 1, 2}. \<not> bit ?x n" if "?k = 0"
      using wf False irq that by (auto simp: vatpic_wf_def bit_or_BIT bit_clear_BIT)
    show "\<forall>n\<in>{0, 5}. \<not> bit ?x n" if "?k = 1"
      using wf False irq that by (auto simp: vatpic_wf_def bit_or_BIT bit_clear_BIT)
  qed
  then show ?thesis using False by (auto simp: vatpic_set_irq_trigger_def Let_def vatpic_step_ok_def)
qed

lemma atpic_handler_ok:
  assumes "vm_inv r v" and "k < 2"
  shows "answers r (atpic_handler k d port b eax v)"
proof -
  obtain w e where w: "vatpic_write k port eax v = Some (w, e)" "vatpic_step_ok v w"
    by (rule vatpic_write_ok [OF assms(2)]) blast
  have "vm_inv r w" "vm_inv r (fst (vatpic_read k port v))"
    using vm_inv_pic [OF w(2) assms(1)] vm_inv_pic [OF vatpic_read_ok [OF assms(2)] assms(1)] by auto
  then show ?thesis using assms(1) w(1) by (auto simp: atpic_handler_def split: prod.splits)
qed

lemma pit_handler_ok:
  assumes inv: "vm_inv r v" and port: "0x40 \<le> port" "port \<le> 0x43"
  shows "answers r (vatpit_handler mat d port b eax v)"
proof -
  have chan: "vm_inv r w" if "chan_frame v w" for w using vm_inv_timer [OF timer_frame_chan [OF that] inv] .
  have wr: "\<exists>w. pit_write_channel mat k val v = Some w \<and> vm_inv r w" for k val
  proof -
    have ok: "callouts_ok r (vm_callouts v)" and wf: "vatpit_wf (vm_vatpit v)" using inv by (auto simp: vm_inv_def)
    obtain w where "pit_write_channel mat k val v = Some w" "timer_frame v w"
      by (rule write_channel_spec [OF ok wf, of mat k val]) blast
    then show ?thesis using vm_inv_timer inv by blast
  qed
  have p: "port = 0x43 \<or> (0x40 \<le> port \<and> port \<le> 0x42)"
  proof -
    have "unat port = 0x43 \<or> unat port \<le> 0x42" using port(2) by (auto simp: word_le_nat_alt)
    then show ?thesis using port(1) by (auto simp: word_le_nat_alt word_unat_eq_iff)
  qed
  show ?thesis
    using p inv chan [OF update_mode_frame] chan [OF read_channel_frame] wr
    by (auto simp: vatpit_handler_def Let_def split: prod.splits) (metis fst_conv)+
qed

lemma pit_callout_keeps: "keeps_inv (Some (vatpit_callout k)) (vatpit_callout_handler mat k)"
proof (rule keeps_invI)
  fix v
  let ?r = "Some (vatpit_callout k)"
  assume inv: "vm_inv ?r v"
  define v1 where "v1 = with_callouts (upd (vatpit_callout k) callout_deactivate (vm_callouts v)) v"
  have inv1: "vm_inv ?r v1"
    unfolding v1_def using inv by (simp add: vm_inv_deactivate)
  then have ok1: "callouts_ok ?r (vm_callouts v1)" by (simp add: vm_inv_def)
  obtain s where s: "pit_timer_start_cntr0 mat v1 = Some s" "timer_frame v1 s"
    by (rule start_cntr0_spec [OF ok1, of mat]) blast
  have "\<exists>v2. (if ch_mode (vm_channel v1 k) = TIMER_RATEGEN then pit_timer_start_cntr0 mat v1 else Some v1)
      = Some v2 \<and> vm_inv ?r v2"
    using s inv1 vm_inv_timer [OF s(2) inv1] by auto
  then obtain v2 where v2: "(if ch_mode (vm_channel v1 k) = TIMER_RATEGEN then pit_timer_start_cntr0 mat v1
      else Some v1) = Some v2" "vm_inv ?r v2" by blast
  obtain v3 e where v3: "vatpic_pulse_irq 0 v2 = Some (v3, e)" "vm_inv ?r v3"
    using irq_ok(2) [OF v2(2), of 0 IRQSTATE_PULSE] by (auto simp: answers_def vatpic_pulse_irq_def split: option.splits)
  obtain v4 e' where v4: "vioapic_pulse_irq 2 v3 = Some (v4, e')" "vm_inv ?r v4"
    using irq_ok(1) [OF v3(2), of 2 IRQSTATE_PULSE] by (auto simp: answers_def vioapic_pulse_irq_def split: option.splits)
  show "\<exists>v'. vatpit_callout_handler mat k v = Some v' \<and> vm_inv ?r v'"
    unfolding vatpit_callout_handler_def Let_def v1_def [symmetric] using inv v2(1) v3(1) v4 by simp
qed

lemma msi_ok: "vm_inv r v \<Longrightarrow> answers r (lapic_intr_msi addr msg v)"
  by (rule msi_defined [of addr msg v]) (auto intro: vm_inv_deliver)

lemma hpet_event_ok:
  assumes "vm_inv r v" and "hpet_clock mat v"
  shows "\<exists>v'. vhpet_mmio_write mat gpa val sz v = Some v' \<and> vm_inv r v'"
    and "r = Some (vhpet_callout n) \<Longrightarrow> n < VHPET_NUM_TIMERS \<Longrightarrow> \<exists>v'. vhpet_handler mat n v = Some v' \<and> vm_inv r v'"
  using mmio_write_moves [of r v mat gpa val sz] handler_moves [of n v mat] vm_inv_hpet assms
  by (auto simp: vm_inv_def)

lemma rtc_event_ok:
  assumes "vm_inv r v"
  shows "vm_inv r (fst (vrtc_addr_handler d b val v))" "vm_inv r (fst (vrtc_nvram_write off x v))"
    and "rtc_clock mat v \<Longrightarrow> (\<not> d \<Longrightarrow> rtc_write_ok mat wall val v) \<Longrightarrow> answers r (vrtc_data_handler mat wall d b val v)"
    and "0 \<le> secs \<Longrightarrow> (aintr_enabled (vm_vrtc v) \<Longrightarrow> rtc_base_rtctime (vm_vrtc v) \<le> secs) \<Longrightarrow> answers r (vrtc_set_time mat wall secs v)"
    and "r = Some vrtc_callout \<Longrightarrow> rtc_clock mat v \<Longrightarrow> \<exists>v'. vrtc_callout_handler mat wall v = Some v' \<and> vm_inv r v'"
proof -
  have k: "rtc_ok v" "callouts_ok r (vm_callouts v)" using assms by (simp_all add: vm_inv_def)
  note up = vm_inv_rtc [OF _ assms]
  show "vm_inv r (fst (vrtc_addr_handler d b val v))" by (rule up [OF addr_handler_moves [OF k(1)]])
  show "vm_inv r (fst (vrtc_nvram_write off x v))" by (rule up [OF nvram_write_moves [OF k(1)]])
  show "answers r (vrtc_data_handler mat wall d b val v)" if "rtc_clock mat v" "\<not> d \<Longrightarrow> rtc_write_ok mat wall val v"
    using data_handler_moves [OF k(2,1) that(1), of d wall val b] that(2) up by (auto simp: answers_def split: option.splits)
  show "answers r (vrtc_set_time mat wall secs v)" if "0 \<le> secs" "aintr_enabled (vm_vrtc v) \<Longrightarrow> rtc_base_rtctime (vm_vrtc v) \<le> secs"
    by (rule set_time_moves [OF k(1) that, of mat wall r]) (use up in auto)
  show "\<exists>v'. vrtc_callout_handler mat wall v = Some v' \<and> vm_inv r v'" if "r = Some vrtc_callout" "rtc_clock mat v"
    using rtc_handler_moves [of v mat wall] that k up by auto
qed

text \<open>Every handler of the table answers, so a port access does.\<close>

lemma ioport_handler_ok:
  assumes inv: "vm_inv r v" and h: "ioport_handler mat wall port = Some handler" and "port = 0x71 \<Longrightarrow> rtc_clock mat v"
    and "port = 0x71 \<Longrightarrow> \<not> d \<Longrightarrow> rtc_write_ok mat wall x v" and "port = 0x408 \<Longrightarrow> pmtmr_clock mat v"
  shows "answers r (handler d b x v)"
proof -
  consider (pit) "port \<in> {0x40, 0x41, 0x42, 0x43}" | (nmisc) "port = 0x61" | (master) "port \<in> {0x20, 0x21}" | (slave) "port \<in> {0xa0, 0xa1}"
    | (elc) "port \<in> {0x4d0, 0x4d1}" | (pm) "port = 0x408" | (addr) "port = 0x70" | (data) "port = 0x71"
    using h by (auto simp: ioport_handler_def split: if_splits)
  then show ?thesis
  proof cases
    case pit
    then show ?thesis using h pit_handler_ok [OF inv, of "of_nat port"] by (auto simp: ioport_handler_def)
  next
    case elc
    then show ?thesis using h vm_inv_pic [OF elc_handler_ok inv] by (auto simp: ioport_handler_def answers_Some)
  next
    case pm
    then show ?thesis using h inv pmtmr_answers [of mat v d b] assms(5) by (auto simp: ioport_handler_def answers_def vm_inv_def split: sum.splits)
  next
    case addr
    then show ?thesis using h rtc_event_ok(1) [OF inv] by (auto simp: ioport_handler_def answers_Some)
  next
    case data
    then show ?thesis using h rtc_event_ok(3) [OF inv] assms(3,4) by (auto simp: ioport_handler_def)
  qed (use h inv atpic_handler_ok [OF inv] in \<open>auto simp: ioport_handler_def answers_def vatpic_master_handler_def vatpic_slave_handler_def\<close>)
qed

lemma inout_event_ok:
  assumes "vm_inv r v" and "i < VM_MAXCPU" and "inout_ok mat wall io v"
  shows "answers r (vm_handle_inout mat wall stale i io v)"
proof (cases "if unat (io_port io) \<ge> MAX_IOPORTS then None else ioport_handler mat wall (unat (io_port io))")
  case None
  then show ?thesis using assms by (auto simp: vm_handle_inout_def emulate_inout_port_def inout_ok_def)
next
  case (Some handler)
  let ?m = "ucast (size2mask (io_bytes io)) :: u32"
  have h: "ioport_handler mat wall (unat (io_port io)) = Some handler" using Some by (simp split: if_splits)
  have port: "unat (io_port io) = 0x71 \<longleftrightarrow> io_port io = 0x71" "unat (io_port io) = 0x408 \<longleftrightarrow> io_port io = 0x408"
    by (simp_all add: word_unat_eq_iff)
  have "answers r (handler (io_in io) (io_bytes io) (if io_in io then stale else io_eax io AND ?m) v)"
    by (rule ioport_handler_ok [OF assms(1) h]) (use assms(3) port in \<open>auto simp: inout_ok_def\<close>)
  then obtain v' x e where r: "handler (io_in io) (io_bytes io) (if io_in io then stale else io_eax io AND ?m) v = Some (v', x, e)" "vm_inv r v'"
    by (auto simp: answers_def split: option.splits)
  have "vie_size2mask (io_bytes io) = Some (size2mask (io_bytes io))"
    using assms(3) by (auto simp: inout_ok_def vie_size2mask_def size_ok_def)
  then show ?thesis
    using assms Some r by (auto simp: vm_handle_inout_def emulate_inout_port_def inout_ok_def Let_def answers_def)
qed

lemma pic_vector_range:
  assumes "vatpic_wf (vm_vatpic v)"
  shows "0 \<le> vatpic_pending_intr v" "vatpic_pending_intr v \<le> 255"
proof -
  have wf: "atpic_wf (vm_atpic v 0)" "atpic_wf (vm_atpic v 1)" using assms by (auto simp: vatpic_wf_def)
  have pin: "(case vatpic_get_highest_irrpin a of None \<Rightarrow> 7 | Some n \<Rightarrow> int n) \<in> {0..7}" for a
    using irrpin_lt [of a] by (auto split: option.splits)
  show "0 \<le> vatpic_pending_intr v" "vatpic_pending_intr v \<le> 255"
    using wf pin [of "vm_atpic v 0"] pin [of "vm_atpic v 1"]
    by (auto simp: vatpic_pending_intr_def Let_def atpic_wf_def)
qed

lemma inject_hwintr_ok:
  assumes inv: "vm_inv r v" and "i < VM_MAXCPU"
  shows "answers r (inject_hwintr can i v)"
proof (cases "vc_extint_pending (vm_vcpu v i)")
  case False
  show ?thesis
  proof (cases "vlapic_pending_intr (vm_lapic v i)")
    case None
    then show ?thesis using False assms by (simp add: inject_hwintr_def vm_extint_pending_def)
  next
    case (Some vec)
    have isr: "isr_inv (vm_lapic v i)" using inv by (simp add: vm_inv_def)
    note P = pending_above_in_service [OF isr Some]
    obtain l' where l': "vlapic_intr_accepted vec (vm_lapic v i) = Some l'" "isr_inv l'"
      by (rule intr_accepted_inv [OF isr Some]) blast
    have "vm_inv r (upd_vlapic i (\<lambda>_. l') v)" using inv l'(2) by (rule vm_inv_upd_vlapic)
    then show ?thesis
      using False assms Some P l'(1) by (simp add: inject_hwintr_def vm_extint_pending_def lift_vlapic_def)
  qed
next
  case True
  have rng: "0 \<le> vatpic_pending_intr v" "vatpic_pending_intr v \<le> 255"
    using pic_vector_range inv by (auto simp: vm_inv_def)
  let ?v1 = "upd_vcpu i (\<lambda>c. c\<lparr>vc_extint_pending := False\<rparr>) v"
  have inv1: "vm_inv r ?v1" using inv by (rule vm_inv_upd_vcpu) simp
  obtain w where "vatpic_intr_accepted (vatpic_pending_intr v) ?v1 = Some w" "vatpic_step_ok ?v1 w"
    by (rule vatpic_intr_accepted_ok) blast
  then show ?thesis
    using True assms rng vm_inv_pic [OF _ inv1]
    by (simp add: inject_hwintr_def vm_extint_pending_def vm_extint_clear_def Let_def)
qed

lemma activate_ok: "vm_inv r v \<Longrightarrow> vm_inv r (fst (vm_activate_cpu i v))"
  by (simp add: vm_activate_cpu_def vm_inv_def level_ok_def vm_lapic_def hpet_ok_def rtc_ok_def)

lemma dev_exec_ok:
  assumes "vm_inv (running pc) v" and "admissible mat e (v, pc)"
    and "\<not> thread_event e"
  shows "\<exists>v'. dev_exec mat e v = Some v' \<and> vm_inv (running pc) v'"
  using assms
proof (cases e)
  case (LapicMmioWrite i gpa val sz)
  then show ?thesis using assms by (simp add: answers_fst lapic_mmio_write_ok del: map_option_eq_Some)
next
  case (LapicMsrWrite i msr val)
  then show ?thesis using assms by (simp add: answers_fst lapic_wrmsr_ok del: map_option_eq_Some)
next
  case (PicTrigger irq t)
  then show ?thesis using assms vm_inv_pic [OF irq_trigger_ok] by simp
next
  case (Inout wall stale i io)
  then show ?thesis using assms by (simp add: answers_fst inout_event_ok del: map_option_eq_Some)
next
  case (LocalIntr cpu vec)
  then show ?thesis using assms vm_inv_deliver [OF deliver_frame_local_intr] by simp
next
  case (InjectNmi i)
  then show ?thesis using assms vm_inv_deliver [OF deliver_frame_nmi] by simp
next
  case (VlapicTimer i)
  then show ?thesis using assms keeps_invD [OF vlapic_callout_keeps] by simp
next
  case (PitTimer k)
  then show ?thesis using assms keeps_invD [OF pit_callout_keeps] by simp
next
  case (HpetMmioWrite gpa val sz)
  then show ?thesis using assms hpet_event_ok(1) by simp
next
  case (HpetTimer n)
  then show ?thesis using assms hpet_event_ok(2) by simp
next
  case (RtcSetTime wall secs)
  then show ?thesis using assms by (simp add: answers_fst rtc_event_ok(4) del: map_option_eq_Some)
next
  case (RtcTimer wall)
  then show ?thesis using assms rtc_event_ok(5) by simp
qed (use assms in \<open>simp_all add: answers_fst vioapic_mmio_write_ok irq_ok
  msi_ok inject_hwintr_ok activate_ok rtc_event_ok(2) del: map_option_eq_Some\<close>)

lemma vm_exec_ok:
  assumes "vm_inv (running pc) v" and "admissible mat e (v, pc)"
  shows "\<exists>v' pc'. vm_exec mat e (v, pc) = Some (v', pc') \<and> vm_inv (running pc') v'"
proof -
  have co: "co_inv (vm_callouts v, running pc)" using assms(1) by (simp add: vm_inv_def callouts_ok_def)
  have upd: "vm_inv r' (with_callouts s v)" if "co_inv (s, r')" "timers_undisturbed (vm_callouts v) s" for r' s
    using vm_inv_callouts [OF assms(1) _ that(2)] that(1) by (simp add: callouts_ok_def)
  consider (round) "e = CalloutRound" | (wake) t where "e = CalloutWake t" | (finish) "e = CalloutDone"
    | (dev) "\<not> thread_event e" by (cases e) auto
  then show ?thesis
  proof cases
    case round
    show ?thesis
    proof (cases pc)
      case AtTop
      then obtain s d where sd: "callout_thread_round mat (vm_callouts v) = Some (s, d)"
        using callout_round_no_abort [of "vm_callouts v" mat] co by fastforce
      then show ?thesis using round AtTop upd co_inv_round [OF _ sd] timers_undisturbed_ops(4) [OF sd] co by simp
    qed (use round assms(1) in simp_all)
  next
    case wake
    show ?thesis
    proof (cases pc)
      case (Asleep c d)
      then show ?thesis using wake upd co co_inv_wake [of "vm_callouts v" t mat c] timers_undisturbed_ops(5)
        by (auto split: prod.splits)
    qed (use wake assms(1) in simp_all)
  next
    case finish
    then show ?thesis using upd co co_inv_finish timers_undisturbed_ops(6) assms(1) by (cases pc) auto
  next
    case dev
    obtain v' where "dev_exec mat e v = Some v'" "vm_inv (running pc) v'" using dev_exec_ok [OF assms dev] by blast
    then show ?thesis using dev by (cases e) (simp_all del: map_option_eq_Some)
  qed
qed

lemma vm_reachable_inv: "vm_reachable tb (v, pc) \<Longrightarrow> vm_inv (running pc) v"
proof (induction "(v, pc)" arbitrary: v pc rule: vm_reachable.induct)
  case (vm_start mat wall v)
  then show ?case using vm_init_ok [of tb mat wall] by auto
next
  case (vm_step m mat e)
  then show ?case using vm_exec_ok [of "snd m" "fst m" mat e] by (cases m) auto
qed

end
