(* ===== verification/Vm_Events.thy ===== *)
theory Vm_Events
  imports Machine
begin

text \<open>
  Events on their way into a vcpu: the exception a vcpu has pending and the event that a VM exit
  interrupted (\<open>src/vmm/vmm.c\<close>, \<open>vm_exit_intinfo\<close> to \<open>vm_inject_pf\<close>), and the routine that runs before each guest entry
  and chooses what is injected (\<open>vmx_inject_interrupts\<close> of \<open>src/vmm/intel/vmx.c\<close>). The VMCS belongs to the host's
  hypervisor framework: its accessors are the arguments \<open>rd\<close> and \<open>wr\<close> of the definitions, acting on a host
  state \<open>h\<close>, and \<open>vmcs_laws\<close> says what is relied on.
\<close>

subsection \<open>Event words\<close>

abbreviation (input) VM_INTINFO_DEL_ERRCODE :: u64 where "VM_INTINFO_DEL_ERRCODE \<equiv> 0x800"
abbreviation (input) VM_INTINFO_RSVD :: u64 where "VM_INTINFO_RSVD \<equiv> 0x7ffff000"
abbreviation (input) VM_INTINFO_VALID :: u64 where "VM_INTINFO_VALID \<equiv> 0x80000000"
abbreviation (input) VM_INTINFO_TYPE :: u64 where "VM_INTINFO_TYPE \<equiv> 0x700"
abbreviation (input) VM_INTINFO_HWINTR :: u64 where "VM_INTINFO_HWINTR \<equiv> 0"
abbreviation (input) VM_INTINFO_NMI :: u64 where "VM_INTINFO_NMI \<equiv> 0x200"
abbreviation (input) VM_INTINFO_HWEXCEPTION :: u64 where "VM_INTINFO_HWEXCEPTION \<equiv> 0x300"
abbreviation (input) VM_INTINFO_SWINTR :: u64 where "VM_INTINFO_SWINTR \<equiv> 0x400"

abbreviation (input) EALREADY :: int where "EALREADY \<equiv> 37"

definition vm_exit_intinfo :: "int \<Rightarrow> u64 \<Rightarrow> vm \<Rightarrow> vm \<times> int" where
  "vm_exit_intinfo vcpuid info v =
     (if vcpuid < 0 \<or> vcpuid \<ge> int VM_MAXCPU then (v, EINVAL)
      else let type = info AND VM_INTINFO_TYPE; vector = info AND 0xff
           in if info AND VM_INTINFO_VALID \<noteq> 0 then
                if type = VM_INTINFO_NMI \<and> vector \<noteq> 2 then (v, EINVAL)
                else if type = VM_INTINFO_HWEXCEPTION \<and> vector \<ge> 32 then (v, EINVAL)
                else if info AND VM_INTINFO_RSVD \<noteq> 0 then (v, EINVAL)
                else (upd_vcpu (nat vcpuid) (\<lambda>c. c\<lparr>vc_exitintinfo := info\<rparr>) v, 0)
              else (upd_vcpu (nat vcpuid) (\<lambda>c. c\<lparr>vc_exitintinfo := 0\<rparr>) v, 0))"

datatype exc_class = EXC_BENIGN | EXC_CONTRIBUTORY | EXC_PAGEFAULT

definition exception_class :: "u64 \<Rightarrow> exc_class option" where
  "exception_class info =
     (if info AND VM_INTINFO_VALID = 0 then None
      else let type = info AND VM_INTINFO_TYPE; vector = info AND 0xff
           in if type = VM_INTINFO_HWINTR \<or> type = VM_INTINFO_SWINTR \<or> type = VM_INTINFO_NMI then Some EXC_BENIGN
              else if vector = 14 \<or> vector = 20 then Some EXC_PAGEFAULT
              else if vector = 0 \<or> vector = 10 \<or> vector = 11 \<or> vector = 12 \<or> vector = 13 then Some EXC_CONTRIBUTORY
              else Some EXC_BENIGN)"

definition vm_suspend :: "vm_suspend_how \<Rightarrow> vm \<Rightarrow> vm \<times> int" where
  "vm_suspend how v =
     (if how = VM_SUSPEND_NONE \<or> how = VM_SUSPEND_LAST then (v, EINVAL)
      else if vm_suspend_how v \<noteq> VM_SUSPEND_NONE then (v, EALREADY)
      else (fold (\<lambda>i s. if CPU_ISSET i (vm_active_cpus s) then vcpu_notify_event i s else s) [0..<VM_MAXCPU]
              (v\<lparr>vm_suspend_how := how\<rparr>), 0))"

text \<open>\<open>nested_fault\<close> returns the machine, \<open>*retinfo\<close> and whether there is an event to inject.\<close>

definition nested_fault :: "u64 \<Rightarrow> u64 \<Rightarrow> vm \<Rightarrow> (vm \<times> u64 \<times> bool) option" where
  "nested_fault info1 info2 v =
     (if info1 AND VM_INTINFO_VALID = 0 \<or> info2 AND VM_INTINFO_VALID = 0 then None
      else if info1 AND VM_INTINFO_TYPE = VM_INTINFO_HWEXCEPTION \<and> info1 AND 0xff = 8
      then Some (fst (vm_suspend VM_SUSPEND_TRIPLEFAULT v), 0, False)
      else Option.bind (exception_class info1) (\<lambda>exc1. Option.bind (exception_class info2) (\<lambda>exc2.
        if (exc1 = EXC_CONTRIBUTORY \<and> exc2 = EXC_CONTRIBUTORY) \<or> (exc1 = EXC_PAGEFAULT \<and> exc2 \<noteq> EXC_BENIGN)
        then Some (v, 8 OR (VM_INTINFO_VALID OR VM_INTINFO_HWEXCEPTION) OR VM_INTINFO_DEL_ERRCODE, True)
        else Some (v, info2, True))))"

definition vcpu_exception_intinfo :: "vcpu \<Rightarrow> u64" where
  "vcpu_exception_intinfo c =
     (if vc_exception_pending c then
        let info = (word_of_int (vc_exc_vector c) AND 0xff) OR (VM_INTINFO_VALID OR VM_INTINFO_HWEXCEPTION)
        in if vc_exc_errcode_valid c then info OR VM_INTINFO_DEL_ERRCODE OR push_bit 32 (ucast (vc_exc_errcode c)) else info
      else 0)"

text \<open>The word is meaningful only when the returned flag \<open>valid\<close> is set; it is 0 here where C leaves \<open>*retinfo\<close> alone.\<close>

definition vm_entry_intinfo :: "nat \<Rightarrow> vm \<Rightarrow> (vm \<times> u64 \<times> bool) option" where
  "vm_entry_intinfo i v =
     (if i \<ge> VM_MAXCPU then None
      else let info1 = vc_exitintinfo (vm_vcpu v i);
               info2 = vcpu_exception_intinfo (vm_vcpu v i);
               v1 = upd_vcpu i (\<lambda>c. c\<lparr>vc_exitintinfo := 0, vc_exception_pending := False\<rparr>) v
           in if info1 AND VM_INTINFO_VALID \<noteq> 0 \<and> info2 AND VM_INTINFO_VALID \<noteq> 0 then nested_fault info1 info2 v1
              else if info1 AND VM_INTINFO_VALID \<noteq> 0 then Some (v1, info1, True)
              else if info2 AND VM_INTINFO_VALID \<noteq> 0 then Some (v1, info2, True)
              else Some (v1, 0, False))"

definition vm_get_intinfo :: "int \<Rightarrow> vm \<Rightarrow> (u64 \<times> u64) option" where
  "vm_get_intinfo vcpuid v =
     (if vcpuid < 0 \<or> vcpuid \<ge> int VM_MAXCPU then None
      else Some (vc_exitintinfo (vm_vcpu v (nat vcpuid)), vcpu_exception_intinfo (vm_vcpu v (nat vcpuid))))"

subsection \<open>The VMCS\<close>

type_synonym 'h vmcs_rd = "nat \<Rightarrow> u32 \<Rightarrow> 'h \<Rightarrow> u64"
type_synonym 'h vmcs_wr = "nat \<Rightarrow> u32 \<Rightarrow> u64 \<Rightarrow> 'h \<Rightarrow> 'h"

abbreviation (input) VMCS_PRI_PROC_BASED_CTLS :: u32 where "VMCS_PRI_PROC_BASED_CTLS \<equiv> 0x4002"
abbreviation (input) VMCS_ENTRY_INTR_INFO :: u32 where "VMCS_ENTRY_INTR_INFO \<equiv> 0x4016"
abbreviation (input) VMCS_ENTRY_EXCEPTION_ERROR :: u32 where "VMCS_ENTRY_EXCEPTION_ERROR \<equiv> 0x4018"
abbreviation (input) VMCS_GUEST_INTERRUPTIBILITY :: u32 where "VMCS_GUEST_INTERRUPTIBILITY \<equiv> 0x4824"
abbreviation (input) VMCS_GUEST_RIP :: u32 where "VMCS_GUEST_RIP \<equiv> 0x681E"
abbreviation (input) VMCS_GUEST_RFLAGS :: u32 where "VMCS_GUEST_RFLAGS \<equiv> 0x6820"

text \<open>
  Relied on: a field that has been written with a 32-bit value reads back as written, and the other fields and the
  fields of other vcpus stay.
\<close>

definition vmcs_laws :: "'h vmcs_rd \<Rightarrow> 'h vmcs_wr \<Rightarrow> bool" where
  "vmcs_laws rd wr \<longleftrightarrow>
     (\<forall>i f x h. x < 0x100000000 \<longrightarrow> rd i f (wr i f x h) = x)
   \<and> (\<forall>i f x h j g. (j \<noteq> i \<or> g \<noteq> f) \<longrightarrow> rd j g (wr i f x h) = rd j g h)"

text \<open>\<open>vmcs_write\<close> with its sanity check on the processor controls.\<close>

definition vmcs_write :: "'h vmcs_wr \<Rightarrow> nat \<Rightarrow> u32 \<Rightarrow> u64 \<Rightarrow> 'h \<Rightarrow> 'h option" where
  "vmcs_write wr i encoding val h =
     (if encoding = 0x4002 \<and> val = 4 then None else Some (wr i encoding val h))"

abbreviation (input) HWINTR_BLOCKING :: u64 where "HWINTR_BLOCKING \<equiv> 3"
abbreviation (input) NMI_BLOCKING :: u64 where "NMI_BLOCKING \<equiv> 0xA"
abbreviation (input) VMCS_INTR_VALID :: u32 where "VMCS_INTR_VALID \<equiv> 0x80000000"

text \<open>\<open>vmx_modify_intr_shadow\<close>, the branch of \<open>vm_set_register\<close> for \<open>VM_REG_GUEST_INTR_SHADOW\<close>.\<close>

definition vmx_modify_intr_shadow :: "'h vmcs_rd \<Rightarrow> 'h vmcs_wr \<Rightarrow> nat \<Rightarrow> u64 \<Rightarrow> 'h \<Rightarrow> ('h \<times> int) option" where
  "vmx_modify_intr_shadow rd wr i val h =
     (if val \<noteq> 0 then Some (h, EINVAL)
      else map_option (\<lambda>h'. (h', 0))
             (vmcs_write wr i VMCS_GUEST_INTERRUPTIBILITY (rd i VMCS_GUEST_INTERRUPTIBILITY h AND 0xfffffffc) h))"

subsection \<open>Making an exception pending\<close>

definition vm_restart_instruction :: "'h vmcs_rd \<Rightarrow> nat \<Rightarrow> vm \<Rightarrow> 'h \<Rightarrow> (vm \<times> int) option" where
  "vm_restart_instruction rd i v h =
     (if i \<ge> VM_MAXCPU then Some (v, EINVAL)
      else case vc_state (vm_vcpu v i) of
          VCPU_RUNNING \<Rightarrow> Some (upd_vcpu i (\<lambda>c. c\<lparr>vc_exit_inst_length := 0\<rparr>) v, 0)
        | VCPU_FROZEN \<Rightarrow> Some (upd_vcpu i (\<lambda>c. c\<lparr>vc_nextrip := rd i VMCS_GUEST_RIP h\<rparr>) v, 0)
        | _ \<Rightarrow> None)"

definition vm_inject_exception ::
  "'h vmcs_rd \<Rightarrow> 'h vmcs_wr \<Rightarrow> int \<Rightarrow> int \<Rightarrow> bool \<Rightarrow> u32 \<Rightarrow> bool \<Rightarrow> vm \<Rightarrow> 'h \<Rightarrow> (vm \<times> 'h \<times> int) option" where
  "vm_inject_exception rd wr vcpuid vector errcode_valid errcode restart v h =
     (if vcpuid < 0 \<or> vcpuid \<ge> int VM_MAXCPU then Some (v, h, EINVAL)
      else if vector < 0 \<or> vector \<ge> 32 then Some (v, h, EINVAL)
      else if vector = 8 then Some (v, h, EINVAL)
      else if vc_exception_pending (vm_vcpu v (nat vcpuid)) then Some (v, h, EBUSY)
      else Option.bind (vmx_modify_intr_shadow rd wr (nat vcpuid) 0 h) (\<lambda>(h1, error).
             if error \<noteq> 0 then None
             else Option.bind (if restart then map_option fst (vm_restart_instruction rd (nat vcpuid) v h1) else Some v) (\<lambda>v1.
               Some (upd_vcpu (nat vcpuid) (\<lambda>c. c\<lparr>vc_exception_pending := True, vc_exc_vector := vector,
                       vc_exc_errcode := errcode, vc_exc_errcode_valid := errcode_valid\<rparr>) v1, h1, 0))))"

definition vm_inject_fault ::
  "'h vmcs_rd \<Rightarrow> 'h vmcs_wr \<Rightarrow> int \<Rightarrow> int \<Rightarrow> bool \<Rightarrow> u32 \<Rightarrow> vm \<Rightarrow> 'h \<Rightarrow> (vm \<times> 'h) option" where
  "vm_inject_fault rd wr vcpuid vector errcode_valid errcode v h =
     Option.bind (vm_inject_exception rd wr vcpuid vector errcode_valid errcode True v h) (\<lambda>(v1, h1, error).
       if error \<noteq> 0 then None else Some (v1, h1))"

text \<open>\<open>wr_cr2\<close> is the framework's \<open>hv_vcpu_write_register\<close> on \<open>HV_X86_CR2\<close>.\<close>

definition vm_inject_pf ::
  "'h vmcs_rd \<Rightarrow> 'h vmcs_wr \<Rightarrow> (nat \<Rightarrow> u64 \<Rightarrow> 'h \<Rightarrow> 'h) \<Rightarrow> int \<Rightarrow> u32 \<Rightarrow> u64 \<Rightarrow> vm \<Rightarrow> 'h \<Rightarrow> (vm \<times> 'h) option" where
  "vm_inject_pf rd wr wr_cr2 vcpuid error_code cr2 v h =
     (if vcpuid < 0 \<or> vcpuid \<ge> int VM_MAXCPU then None
      else vm_inject_fault rd wr vcpuid 14 True error_code v (wr_cr2 (nat vcpuid) cr2 h))"

definition vlapic_set_cr8 :: "'h vmcs_rd \<Rightarrow> 'h vmcs_wr \<Rightarrow> nat \<Rightarrow> u64 \<Rightarrow> vm \<Rightarrow> 'h \<Rightarrow> (vm \<times> 'h) option" where
  "vlapic_set_cr8 rd wr i val v h =
     (if val AND NOT 0xf \<noteq> 0 then vm_inject_fault rd wr (int i) 13 True 0 v h
      else map_option (\<lambda>v'. (v', h)) (lift_vlapic i (\<lambda>l. vlapic_set_tpr l (ucast (push_bit 4 val))) v))"

subsection \<open>Choosing what to inject\<close>

record vmx =
  vx_proc_ctls :: "nat \<Rightarrow> u32"
  vx_nextrip :: "nat \<Rightarrow> u64"

text \<open>\<open>vmx_set_int_window_exiting\<close> and \<open>vmx_set_nmi_window_exiting\<close>, for the bit of the processor controls.\<close>

definition set_window_exiting :: "u32 \<Rightarrow> 'h vmcs_wr \<Rightarrow> nat \<Rightarrow> vmx \<times> 'h \<Rightarrow> (vmx \<times> 'h) option" where
  "set_window_exiting ctl wr i = (\<lambda>(x, h).
     if vx_proc_ctls x i AND ctl = 0 then
       let ctls = vx_proc_ctls x i OR ctl
       in map_option (\<lambda>h'. (x\<lparr>vx_proc_ctls := (vx_proc_ctls x)(i := ctls)\<rparr>, h'))
            (vmcs_write wr i VMCS_PRI_PROC_BASED_CTLS (ucast ctls) h)
     else Some (x, h))"

abbreviation (input) PROCBASED_INT_WINDOW_EXITING :: u32 where "PROCBASED_INT_WINDOW_EXITING \<equiv> 0x4"
abbreviation (input) PROCBASED_NMI_WINDOW_EXITING :: u32 where "PROCBASED_NMI_WINDOW_EXITING \<equiv> 0x400000"

definition vmx_set_int_window_exiting :: "'h vmcs_wr \<Rightarrow> nat \<Rightarrow> vmx \<times> 'h \<Rightarrow> (vmx \<times> 'h) option" where
  "vmx_set_int_window_exiting = set_window_exiting PROCBASED_INT_WINDOW_EXITING"

definition vmx_set_nmi_window_exiting :: "'h vmcs_wr \<Rightarrow> nat \<Rightarrow> vmx \<times> 'h \<Rightarrow> (vmx \<times> 'h) option" where
  "vmx_set_nmi_window_exiting = set_window_exiting PROCBASED_NMI_WINDOW_EXITING"

definition entry_info :: "'h vmcs_rd \<Rightarrow> nat \<Rightarrow> 'h \<Rightarrow> u32" where
  "entry_info rd i h = ucast (rd i VMCS_ENTRY_INTR_INFO h)"

definition guest_intr :: "'h vmcs_rd \<Rightarrow> nat \<Rightarrow> 'h \<Rightarrow> u32" where
  "guest_intr rd i h = ucast (rd i VMCS_GUEST_INTERRUPTIBILITY h)"

definition vmx_inject_nmi :: "'h vmcs_rd \<Rightarrow> 'h vmcs_wr \<Rightarrow> nat \<Rightarrow> vm \<times> 'h \<Rightarrow> (vm \<times> 'h) option" where
  "vmx_inject_nmi rd wr i = (\<lambda>(v, h).
     if guest_intr rd i h AND 0xA \<noteq> 0 then None
     else if entry_info rd i h AND VMCS_INTR_VALID \<noteq> 0 then None
     else Option.bind (vmcs_write wr i VMCS_ENTRY_INTR_INFO 0x80000202 h) (\<lambda>h1.
            map_option (\<lambda>v1. (v1, h1)) (vm_nmi_clear i v)))"

text \<open>The four parts of \<open>vmx_inject_interrupts\<close>: the interrupt shadow, the pending event, the NMI, the interrupt.\<close>

definition inject_shadow :: "'h vmcs_rd \<Rightarrow> 'h vmcs_wr \<Rightarrow> nat \<Rightarrow> u64 \<Rightarrow> vmx \<Rightarrow> 'h \<Rightarrow> 'h option" where
  "inject_shadow rd wr i guestrip x h =
     (if vx_nextrip x i \<noteq> guestrip \<and> guest_intr rd i h AND 3 \<noteq> 0
      then vmcs_write wr i VMCS_GUEST_INTERRUPTIBILITY (ucast (guest_intr rd i h AND NOT 3)) h else Some h)"

definition inject_event :: "'h vmcs_rd \<Rightarrow> 'h vmcs_wr \<Rightarrow> nat \<Rightarrow> vm \<Rightarrow> 'h \<Rightarrow> (vm \<times> 'h) option" where
  "inject_event rd wr i v h =
     Option.bind (vm_entry_intinfo i v) (\<lambda>(v1, entryinfo, valid).
       if \<not> valid then Some (v1, h)
       else if entryinfo AND VM_INTINFO_VALID = 0 then None
       else if entry_info rd i h AND VMCS_INTR_VALID \<noteq> 0 then None
       else let info = ucast entryinfo :: u32; vector = info AND 0xff;
                info' = (if vector = 3 \<or> vector = 4 then (info AND NOT 0x700) OR 0x600 else info)
            in Option.bind (if info' AND 0x800 \<noteq> 0
                            then vmcs_write wr i VMCS_ENTRY_EXCEPTION_ERROR (drop_bit 32 entryinfo) h else Some h) (\<lambda>h1.
               map_option (\<lambda>h2. (v1, h2)) (vmcs_write wr i VMCS_ENTRY_INTR_INFO (ucast info') h1)))"

definition inject_nmi :: "'h vmcs_rd \<Rightarrow> 'h vmcs_wr \<Rightarrow> nat \<Rightarrow> vm \<times> vmx \<times> 'h \<Rightarrow> (vm \<times> vmx \<times> 'h) option" where
  "inject_nmi rd wr i = (\<lambda>(v, x, h).
     Option.bind (vm_nmi_pending v i) (\<lambda>nmi.
       if \<not> nmi then Some (v, x, h)
       else if guest_intr rd i h AND (3 OR 0xA) = 0 \<and> entry_info rd i h AND VMCS_INTR_VALID = 0
       then map_option (\<lambda>(v1, h1). (v1, x, h1)) (vmx_inject_nmi rd wr i (v, h))
       else map_option (\<lambda>(x1, h1). (v, x1, h1)) (vmx_set_nmi_window_exiting wr i (x, h))))"

definition inject_interrupt :: "'h vmcs_rd \<Rightarrow> 'h vmcs_wr \<Rightarrow> nat \<Rightarrow> vm \<times> vmx \<times> 'h \<Rightarrow> (vm \<times> vmx \<times> 'h) option" where
  "inject_interrupt rd wr i = (\<lambda>(v, x, h).
     Option.bind (vm_extint_pending v i) (\<lambda>extint_pending.
       if vx_proc_ctls x i AND PROCBASED_INT_WINDOW_EXITING \<noteq> 0 then Some (v, x, h)
       else if \<not> extint_pending \<and> vlapic_pending_intr (vm_lapic v i) = None then Some (v, x, h)
       else let vector = (if extint_pending then vatpic_pending_intr v else int (the (vlapic_pending_intr (vm_lapic v i))))
            in if vector < (if extint_pending then 0 else 16) \<or> vector > 255 then None
               else if rd i VMCS_GUEST_RFLAGS h AND 0x200 = 0 \<or> guest_intr rd i h AND 3 \<noteq> 0
                     \<or> entry_info rd i h AND VMCS_INTR_VALID \<noteq> 0
               then map_option (\<lambda>(x1, h1). (v, x1, h1)) (vmx_set_int_window_exiting wr i (x, h))
               else Option.bind (vmcs_write wr i VMCS_ENTRY_INTR_INFO (ucast (VMCS_INTR_VALID OR word_of_int vector :: u32)) h) (\<lambda>h1.
                 if \<not> extint_pending
                 then map_option (\<lambda>v1. (v1, x, h1)) (lift_vlapic i (vlapic_intr_accepted (nat vector)) v)
                 else Option.bind (vm_extint_clear i v) (\<lambda>v1.
                      Option.bind (vatpic_intr_accepted vector v1) (\<lambda>v2.
                      map_option (\<lambda>(x1, h2). (v2, x1, h2)) (vmx_set_int_window_exiting wr i (x, h1)))))))"

definition vmx_inject_interrupts ::
  "'h vmcs_rd \<Rightarrow> 'h vmcs_wr \<Rightarrow> nat \<Rightarrow> u64 \<Rightarrow> vm \<times> vmx \<times> 'h \<Rightarrow> (vm \<times> vmx \<times> 'h) option" where
  "vmx_inject_interrupts rd wr i guestrip = (\<lambda>(v, x, h).
     Option.bind (inject_shadow rd wr i guestrip x h) (\<lambda>h1.
     Option.bind (inject_event rd wr i v h1) (\<lambda>(v1, h2).
     Option.bind (inject_nmi rd wr i (v1, x, h2)) (inject_interrupt rd wr i))))"

subsection \<open>Events of the architecture\<close>

text \<open>
  What the words stand for, and the outcome the architecture prescribes for an event that is being delivered
  when another one occurs (Tables 6-4 and 6-5 of the processor manual): serial delivery, a double
  fault, or shutdown when the first event is already a double fault.
\<close>

datatype event_kind = Interrupt | Nmi | Exception | SoftInterrupt | OtherException

datatype event = Event (ev_kind: event_kind) (ev_vector: nat) (ev_errcode: "u32 option")

definition decode_info :: "u64 \<Rightarrow> event option" where
  "decode_info w =
     (if bit w 31
      then Some (Event (if w AND 0x700 = 0 then Interrupt else if w AND 0x700 = 0x200 then Nmi
                        else if w AND 0x700 = 0x300 then Exception
                        else if w AND 0x700 = 0x400 then SoftInterrupt else OtherException)
                  (unat (w AND 0xff)) (if bit w 11 then Some (ucast (drop_bit 32 w)) else None))
      else None)"

definition contributory :: "event \<Rightarrow> bool" where
  "contributory e \<longleftrightarrow> ev_kind e \<in> {Exception, OtherException} \<and> ev_vector e \<in> {0, 10, 11, 12, 13}"

definition page_fault :: "event \<Rightarrow> bool" where
  "page_fault e \<longleftrightarrow> ev_kind e \<in> {Exception, OtherException} \<and> ev_vector e \<in> {14, 20}"

datatype outcome = Nothing | Inject event | Shutdown

fun sdm_outcome :: "event option \<Rightarrow> event option \<Rightarrow> outcome" where
  "sdm_outcome None None = Nothing"
| "sdm_outcome (Some e) None = Inject e"
| "sdm_outcome None (Some e) = Inject e"
| "sdm_outcome (Some e1) (Some e2) =
     (if ev_kind e1 = Exception \<and> ev_vector e1 = 8 then Shutdown
      else if contributory e1 \<and> contributory e2 \<or> page_fault e1 \<and> (contributory e2 \<or> page_fault e2)
      then Inject (Event Exception 8 (Some 0)) else Inject e2)"

definition pending_exception :: "vcpu \<Rightarrow> event option" where
  "pending_exception c =
     (if vc_exception_pending c
      then Some (Event Exception (nat (vc_exc_vector c)) (if vc_exc_errcode_valid c then Some (vc_exc_errcode c) else None))
      else None)"

lemma and_valid_iff [simp]: "(w :: u64) AND 0x80000000 = 0 \<longleftrightarrow> \<not> bit w 31"
  using and_pow2_eq_0_iff [of w 31] by simp

lemma unat_low_byte: "n < 256 \<Longrightarrow> unat (w AND 0xff :: u64) = n \<longleftrightarrow> w AND 0xff = of_nat n"
  by (auto simp: unat_of_nat)

lemma decode_info_None_iff [simp]: "decode_info w = None \<longleftrightarrow> \<not> bit w 31"
  by (simp add: decode_info_def)

lemma decode_kind:
  assumes "decode_info w = Some e"
  shows "ev_kind e \<in> {Exception, OtherException} \<longleftrightarrow> w AND 0x700 \<noteq> 0 \<and> w AND 0x700 \<noteq> 0x200 \<and> w AND 0x700 \<noteq> 0x400"
    and "ev_kind e = Exception \<longleftrightarrow> w AND 0x700 = 0x300"
  using assms by (auto simp: decode_info_def split: if_splits)

lemma decode_vector:
  assumes "decode_info w = Some e"
  shows "ev_vector e = unat (w AND 0xff)" and "bit w 31"
  using assms by (auto simp: decode_info_def split: if_splits)

lemma decode_class:
  assumes "decode_info w = Some e"
  shows "exception_class w = Some (if page_fault e then EXC_PAGEFAULT else if contributory e then EXC_CONTRIBUTORY else EXC_BENIGN)"
    and "w AND VM_INTINFO_TYPE = VM_INTINFO_HWEXCEPTION \<longleftrightarrow> ev_kind e = Exception"
    and "w AND 0xff = 8 \<longleftrightarrow> ev_vector e = 8"
proof -
  have v: "page_fault e \<longleftrightarrow> ev_kind e \<in> {Exception, OtherException} \<and> (w AND 0xff = 14 \<or> w AND 0xff = 20)"
    unfolding page_fault_def by (simp add: decode_vector [OF assms] unat_low_byte)
  have c: "contributory e \<longleftrightarrow> ev_kind e \<in> {Exception, OtherException}
      \<and> (w AND 0xff = 0 \<or> w AND 0xff = 10 \<or> w AND 0xff = 11 \<or> w AND 0xff = 12 \<or> w AND 0xff = 13)"
    unfolding contributory_def by (simp add: decode_vector [OF assms] unat_low_byte)
  show "exception_class w = Some (if page_fault e then EXC_PAGEFAULT else if contributory e then EXC_CONTRIBUTORY else EXC_BENIGN)"
    unfolding exception_class_def Let_def v c decode_kind(1) [OF assms] using decode_vector(2) [OF assms] by simp
  show "w AND VM_INTINFO_TYPE = VM_INTINFO_HWEXCEPTION \<longleftrightarrow> ev_kind e = Exception" by (simp add: decode_kind(2) [OF assms])
  show "w AND 0xff = 8 \<longleftrightarrow> ev_vector e = 8" by (simp add: decode_vector [OF assms] unat_low_byte)
qed

lemma decode_double_fault: "decode_info 0x80000B08 = Some (Event Exception 8 (Some 0))"
  by code_simp

lemma push_32_and: "take_bit 32 m = m \<Longrightarrow> push_bit 32 (x :: u64) AND m = 0"
proof -
  assume "take_bit 32 m = m"
  then have "push_bit 32 x AND m = push_bit 32 x AND take_bit 32 m" by simp
  also have "\<dots> = 0" by (rule bit_eqI) (auto simp: bit_and_iff bit_push_bit_iff bit_take_bit_iff)
  finally show ?thesis .
qed

lemma ucast_u32_u64 [simp]: "ucast (ucast x :: u64) = (x :: u32)"
  by (rule bit_eqI) (auto simp: bit_unsigned_iff dest: bit_imp_le_length)

lemma decode_exception:
  fixes errcode :: u32
  assumes "0 \<le> vector" and "vector < 32"
  shows "decode_info ((word_of_int vector AND 0xff) OR 0x80000300) = Some (Event Exception (nat vector) None)"
    and "decode_info (((word_of_int vector AND 0xff) OR 0x80000300) OR (0x800 OR push_bit 32 (ucast errcode)))
      = Some (Event Exception (nat vector) (Some errcode))"
proof -
  let ?b = "(word_of_int vector :: u64) AND 0xff"
  let ?e = "push_bit 32 (ucast errcode) :: u64"
  have "?b = take_bit 8 (word_of_int vector)" by (simp add: take_bit_eq_mask mask_eq_exp_minus_1)
  then have "uint ?b = take_bit 8 (take_bit 64 vector)" by (simp only: unsigned_take_bit_eq uint_word_of_int_eq) simp
  then have u: "unat ?b = nat vector" using assms by (simp add: unat_eq_nat_uint take_bit_eq_mod)
  have m: "?b AND 0x700 = 0" "?b AND 0xff = ?b" "\<not> bit ?b 31" "\<not> bit ?b 11"
    by (simp_all add: and.assoc bit_and_iff bit_numeral_rec)
  have e: "?e AND 0x700 = 0" "?e AND 0xff = 0" "drop_bit 32 ?e = ucast errcode"
    by (simp_all add: push_32_and)
       (rule bit_eqI, auto simp: bit_drop_bit_eq bit_push_bit_iff bit_unsigned_iff dest: bit_imp_le_length)
  show "decode_info (?b OR 0x80000300) = Some (Event Exception (nat vector) None)"
    using m u by (simp add: decode_info_def bit.conj_disj_distrib2 bit_or_iff bit_numeral_rec)
  have d: "drop_bit 32 ((?b OR 0x80000300) OR (0x800 OR ?e)) = drop_bit 32 ?b OR ucast errcode"
    by (simp add: drop_bit_or e)
  show "decode_info ((?b OR 0x80000300) OR (0x800 OR ?e)) = Some (Event Exception (nat vector) (Some errcode))"
    using m u e by (simp add: decode_info_def bit.conj_disj_distrib2 bit_or_iff bit_numeral_rec d)
qed

lemma decode_pending:
  assumes "0 \<le> vc_exc_vector c" and "vc_exc_vector c < 32"
  shows "decode_info (vcpu_exception_intinfo c) = pending_exception c"
  using decode_exception [OF assms] by (simp add: vcpu_exception_intinfo_def pending_exception_def Let_def)

subsection \<open>The entry event\<close>

lemma vm_suspend_effect:
  assumes "how \<noteq> VM_SUSPEND_NONE" and "how \<noteq> VM_SUSPEND_LAST"
  obtains calls where "fst (vm_suspend how v) = v\<lparr>vm_suspend_how := (if vm_suspend_how v = VM_SUSPEND_NONE then how
    else vm_suspend_how v), vm_host_calls := calls\<rparr>"
proof -
  let ?f = "\<lambda>i s. if CPU_ISSET i (vm_active_cpus s) then vcpu_notify_event i s else s"
  have same: "\<exists>calls. w = w\<lparr>vm_host_calls := calls\<rparr>" for w :: vm by (rule exI [of _ "vm_host_calls w"]) simp
  have step: "\<exists>calls. ?f i w = w\<lparr>vm_host_calls := calls\<rparr>" for i w
    using same [of w] by (cases "vc_state (vm_vcpu w i)") (simp_all add: vcpu_notify_event_def add_host_call_def, blast+)
  have "\<exists>calls. fold ?f is w = w\<lparr>vm_host_calls := calls\<rparr>" for "is" w
  proof (induction "is" arbitrary: w)
    case (Cons i "is")
    obtain c where "?f i w = w\<lparr>vm_host_calls := c\<rparr>" using step by blast
    then show ?case using Cons [of "w\<lparr>vm_host_calls := c\<rparr>"] by auto
  qed (use same in simp)
  then obtain calls where "fold ?f [0..<VM_MAXCPU] (v\<lparr>vm_suspend_how := how\<rparr>) = v\<lparr>vm_suspend_how := how, vm_host_calls := calls\<rparr>"
    by blast
  then show thesis
    using assms that [of "if vm_suspend_how v = VM_SUSPEND_NONE then calls else vm_host_calls v"] by (simp add: vm_suspend_def)
qed

text \<open>An entry takes the pending event and changes nothing that the devices see.\<close>

definition entry_frame :: "nat \<Rightarrow> vm \<Rightarrow> vm \<Rightarrow> bool" where
  "entry_frame i v v' \<longleftrightarrow> (\<exists>calls how. v' = (upd_vcpu i (\<lambda>c. c\<lparr>vc_exitintinfo := 0, vc_exception_pending := False\<rparr>) v)
     \<lparr>vm_suspend_how := how, vm_host_calls := calls\<rparr>)"

lemma entry_frame_simps:
  assumes "entry_frame i v v'"
  shows "vm_lapic v' = vm_lapic v" "vm_vatpic v' = vm_vatpic v" "vc_nmi_pending (vm_vcpu v' j) = vc_nmi_pending (vm_vcpu v j)"
    "vc_extint_pending (vm_vcpu v' j) = vc_extint_pending (vm_vcpu v j)" "vm_inv r v' = vm_inv r v"
proof -
  obtain calls how where v': "v' = (upd_vcpu i (\<lambda>c. c\<lparr>vc_exitintinfo := 0, vc_exception_pending := False\<rparr>) v)
     \<lparr>vm_suspend_how := how, vm_host_calls := calls\<rparr>" using assms unfolding entry_frame_def by blast
  then show "vm_vatpic v' = vm_vatpic v" "vc_nmi_pending (vm_vcpu v' j) = vc_nmi_pending (vm_vcpu v j)"
    "vc_extint_pending (vm_vcpu v' j) = vc_extint_pending (vm_vcpu v j)" by (simp_all add: upd_vcpu_def)
  show l: "vm_lapic v' = vm_lapic v" unfolding v' by (rule ext) (simp add: vm_lapic_def upd_vcpu_def)
  show "vm_inv r v' = vm_inv r v" using l v' by (simp add: vm_inv_def level_ok_def hpet_ok_def rtc_ok_def)
qed

lemma vm_entry_intinfo_spec:
  assumes "i < VM_MAXCPU" and "vc_exception_pending (vm_vcpu v i) \<longrightarrow> 0 \<le> vc_exc_vector (vm_vcpu v i) \<and> vc_exc_vector (vm_vcpu v i) < 32"
  obtains v' info valid where "vm_entry_intinfo i v = Some (v', info, valid)" and "entry_frame i v v'"
    and "case sdm_outcome (decode_info (vc_exitintinfo (vm_vcpu v i))) (pending_exception (vm_vcpu v i)) of
           Nothing \<Rightarrow> \<not> valid | Inject e \<Rightarrow> valid \<and> decode_info info = Some e
         | Shutdown \<Rightarrow> \<not> valid \<and> vm_suspend_how v' \<noteq> VM_SUSPEND_NONE"
proof -
  let ?c = "vm_vcpu v i"
  let ?i1 = "vc_exitintinfo ?c" and ?i2 = "vcpu_exception_intinfo ?c"
  let ?v1 = "upd_vcpu i (\<lambda>c. c\<lparr>vc_exitintinfo := 0, vc_exception_pending := False\<rparr>) v"
  have d2: "decode_info ?i2 = pending_exception ?c"
    using assms(2) decode_pending [of ?c] by (cases "vc_exception_pending ?c")
      (auto simp: vcpu_exception_intinfo_def pending_exception_def)
  have f1: "entry_frame i v ?v1" unfolding entry_frame_def by (intro exI [of _ "vm_host_calls ?v1"] exI [of _ "vm_suspend_how ?v1"]) simp
  show thesis
  proof (cases "bit ?i1 31 \<and> bit ?i2 31")
    case False
    show thesis
    proof (cases "bit ?i1 31")
      case True
      then have n: "pending_exception ?c = None" using False d2 by (metis decode_info_None_iff)
      obtain e where "decode_info ?i1 = Some e" using True by (metis decode_info_None_iff not_None_eq)
      moreover have "vm_entry_intinfo i v = Some (?v1, ?i1, True)"
        using True False assms(1) by (simp add: vm_entry_intinfo_def Let_def)
      ultimately show thesis using that [OF _ f1] n by simp
    next
      case f: False
      then have n: "decode_info ?i1 = None" by simp
      have "vm_entry_intinfo i v = Some (?v1, if bit ?i2 31 then ?i2 else 0, bit ?i2 31)"
        using f assms(1) by (simp add: vm_entry_intinfo_def Let_def)
      then show thesis using f1 by (rule that) (use n d2 in \<open>cases "decode_info ?i2"; auto simp: decode_info_def split: if_splits\<close>)
    qed
  next
    case True
    then obtain e1 e2 where e: "decode_info ?i1 = Some e1" "decode_info ?i2 = Some e2"
      by (metis decode_info_None_iff not_None_eq)
    have pe: "pending_exception ?c = Some e2" using d2 e(2) by simp
    note C1 = decode_class [OF e(1)] and C2 = decode_class [OF e(2)]
    obtain calls where S: "fst (vm_suspend VM_SUSPEND_TRIPLEFAULT ?v1) = ?v1\<lparr>vm_suspend_how :=
        (if vm_suspend_how ?v1 = VM_SUSPEND_NONE then VM_SUSPEND_TRIPLEFAULT else vm_suspend_how ?v1), vm_host_calls := calls\<rparr>"
      by (rule vm_suspend_effect [of VM_SUSPEND_TRIPLEFAULT ?v1]) simp_all
    have E: "vm_entry_intinfo i v = nested_fault ?i1 ?i2 ?v1"
      using True assms(1) by (simp add: vm_entry_intinfo_def Let_def)
    show thesis
    proof (cases "ev_kind e1 = Exception \<and> ev_vector e1 = 8")
      case t: True
      then have "vm_entry_intinfo i v = Some (fst (vm_suspend VM_SUSPEND_TRIPLEFAULT ?v1), 0, False)"
        using True C1 unfolding E nested_fault_def by simp
      moreover have "entry_frame i v (fst (vm_suspend VM_SUSPEND_TRIPLEFAULT ?v1))"
        unfolding S entry_frame_def by blast
      ultimately show thesis by (rule that) (use t pe e S in simp)
    next
      case f: False
      let ?df = "contributory e1 \<and> contributory e2 \<or> page_fault e1 \<and> (contributory e2 \<or> page_fault e2)"
      have "\<not> (contributory e1 \<and> page_fault e1)" "\<not> (contributory e2 \<and> page_fault e2)"
        by (auto simp: contributory_def page_fault_def)
      then have "vm_entry_intinfo i v = Some (?v1, if ?df then 0x80000B08 else ?i2, True)"
        using True f C1 C2 unfolding E nested_fault_def by auto
      then show thesis using f1 by (rule that) (use f pe e decode_double_fault in auto)
    qed
  qed
qed

lemma restart_keeps:
  "vm_restart_instruction rd i v h = Some (v', e) \<Longrightarrow> vc_exitintinfo (vm_vcpu v' j) = vc_exitintinfo (vm_vcpu v j)"
  by (auto simp: vm_restart_instruction_def upd_vcpu_def split: if_splits vcpu_state.splits)

lemma inject_exception_effect:
  assumes "vm_inject_exception rd wr vcpuid vector errcode_valid errcode restart v h = Some (v1, h1, 0)"
  obtains w where "v1 = upd_vcpu (nat vcpuid) (\<lambda>c. c\<lparr>vc_exception_pending := True, vc_exc_vector := vector,
      vc_exc_errcode := errcode, vc_exc_errcode_valid := errcode_valid\<rparr>) w"
    and "vc_exitintinfo (vm_vcpu w (nat vcpuid)) = vc_exitintinfo (vm_vcpu v (nat vcpuid))"
proof -
  from assms have "\<exists>w. (if restart then map_option fst (vm_restart_instruction rd (nat vcpuid) v h1) else Some v) = Some w
      \<and> v1 = upd_vcpu (nat vcpuid) (\<lambda>c. c\<lparr>vc_exception_pending := True, vc_exc_vector := vector,
          vc_exc_errcode := errcode, vc_exc_errcode_valid := errcode_valid\<rparr>) w"
    unfolding vm_inject_exception_def by (auto simp: Option.bind_eq_Some_conv simp del: map_option_eq_Some split: if_split_asm)
  then show thesis using that by (auto split: if_splits dest: restart_keeps)
qed

text \<open>
  C15. An exception that the hypervisor injects reaches the guest as the architecture prescribes, also when the VM exit
  had interrupted the delivery of another event: the next entry delivers it, or a double fault
  with error code 0, or suspends the machine with a triple fault; and it takes everything that was pending.
\<close>

theorem exception_reaches_guest:
  assumes "vm_inject_exception rd wr vcpuid vector errcode_valid errcode restart v h = Some (v1, h1, 0)"
  shows "\<exists>v2 info valid. vm_entry_intinfo (nat vcpuid) v1 = Some (v2, info, valid) \<and> vm_get_intinfo vcpuid v2 = Some (0, 0)
     \<and> (case sdm_outcome (decode_info (vc_exitintinfo (vm_vcpu v (nat vcpuid))))
              (Some (Event Exception (nat vector) (if errcode_valid then Some errcode else None))) of
          Nothing \<Rightarrow> False | Inject e \<Rightarrow> valid \<and> decode_info info = Some e
        | Shutdown \<Rightarrow> \<not> valid \<and> vm_suspend_how v2 \<noteq> VM_SUSPEND_NONE)"
proof -
  let ?i = "nat vcpuid"
  have rng: "0 \<le> vcpuid" "vcpuid < int VM_MAXCPU" "0 \<le> vector" "vector < 32"
    using assms by (auto simp: vm_inject_exception_def split: if_splits)
  obtain w where w: "v1 = upd_vcpu ?i (\<lambda>c. c\<lparr>vc_exception_pending := True, vc_exc_vector := vector,
      vc_exc_errcode := errcode, vc_exc_errcode_valid := errcode_valid\<rparr>) w"
    "vc_exitintinfo (vm_vcpu w ?i) = vc_exitintinfo (vm_vcpu v ?i)" by (rule inject_exception_effect [OF assms])
  have c: "vc_exception_pending (vm_vcpu v1 ?i)" "vc_exc_vector (vm_vcpu v1 ?i) = vector"
    "vc_exc_errcode (vm_vcpu v1 ?i) = errcode" "vc_exc_errcode_valid (vm_vcpu v1 ?i) = errcode_valid"
    "vc_exitintinfo (vm_vcpu v1 ?i) = vc_exitintinfo (vm_vcpu v ?i)"
    unfolding w(1) using w(2) by simp_all
  obtain v2 info valid where E: "vm_entry_intinfo ?i v1 = Some (v2, info, valid)" "entry_frame ?i v1 v2"
    "case sdm_outcome (decode_info (vc_exitintinfo (vm_vcpu v1 ?i))) (pending_exception (vm_vcpu v1 ?i)) of
       Nothing \<Rightarrow> \<not> valid | Inject e \<Rightarrow> valid \<and> decode_info info = Some e
     | Shutdown \<Rightarrow> \<not> valid \<and> vm_suspend_how v2 \<noteq> VM_SUSPEND_NONE"
    using vm_entry_intinfo_spec [of ?i v1] rng c(2) by (metis nat_less_iff of_nat_numeral)
  have got: "vm_get_intinfo vcpuid v2 = Some (0, 0)"
    using E(2) rng by (auto simp: entry_frame_def vm_get_intinfo_def vcpu_exception_intinfo_def upd_vcpu_def)
  have pe: "pending_exception (vm_vcpu v1 ?i) = Some (Event Exception (nat vector) (if errcode_valid then Some errcode else None))"
    using c by (simp only: pending_exception_def if_True)
  note O = E(3) [unfolded c(5) pe]
  have ne: "sdm_outcome e (Some e') \<noteq> Nothing" for e e' by (cases e) simp_all
  have tr: "case w of Nothing \<Rightarrow> False | Inject e \<Rightarrow> A e | Shutdown \<Rightarrow> B"
    if "w \<noteq> Nothing" "case w of Nothing \<Rightarrow> C | Inject e \<Rightarrow> A e | Shutdown \<Rightarrow> B" for w A B C using that by (cases w) simp_all
  have "case sdm_outcome (decode_info (vc_exitintinfo (vm_vcpu v ?i)))
        (Some (Event Exception (nat vector) (if errcode_valid then Some errcode else None))) of
      Nothing \<Rightarrow> False | Inject e \<Rightarrow> valid \<and> decode_info info = Some e
    | Shutdown \<Rightarrow> \<not> valid \<and> vm_suspend_how v2 \<noteq> VM_SUSPEND_NONE" by (rule tr [OF ne O])
  with got E(1) show ?thesis by blast
qed

text \<open>A VMCS that is a table of its fields; a general protection fault raised while a page fault is being delivered.\<close>

definition tab_rd :: "(nat \<Rightarrow> u32 \<Rightarrow> u64) vmcs_rd" where "tab_rd i f h = h i f"
definition tab_wr :: "(nat \<Rightarrow> u32 \<Rightarrow> u64) vmcs_wr" where "tab_wr i f x h = h(i := (h i)(f := x))"

lemma tab_laws: "vmcs_laws tab_rd tab_wr"
  by (simp add: vmcs_laws_def tab_rd_def tab_wr_def)

theorem exception_reaches_guest_witness:
  "\<exists>v1 h1 v2 info. vm_inject_exception tab_rd tab_wr 0 13 True 0 False
      (upd_vcpu 0 (\<lambda>c. c\<lparr>vc_exitintinfo := 0x80000B0E\<rparr>) (vm_calloc \<lparr>tb_numer = 1, tb_denom = 1\<rparr>)) (\<lambda>_ _. 0) = Some (v1, h1, 0)
   \<and> vm_entry_intinfo 0 v1 = Some (v2, info, True) \<and> decode_info info = Some (Event Exception 8 (Some 0))"
proof -
  let ?v = "upd_vcpu 0 (\<lambda>c. c\<lparr>vc_exitintinfo := 0x80000B0E\<rparr>) (vm_calloc \<lparr>tb_numer = 1, tb_denom = 1\<rparr>)"
  obtain v1 h1 where x: "vm_inject_exception tab_rd tab_wr 0 13 True 0 False ?v (\<lambda>_ _. 0) = Some (v1, h1, 0)"
    by (simp add: vm_inject_exception_def vmx_modify_intr_shadow_def vmcs_write_def vm_calloc_def vcpu_bzero_def upd_vcpu_def)
  have "decode_info (vc_exitintinfo (vm_vcpu ?v (nat 0))) = Some (Event Exception 14 (Some 0))"
    by (simp add: decode_info_def)
  then show ?thesis using exception_reaches_guest [OF x] x by (auto simp: page_fault_def contributory_def)
qed

subsection \<open>Injection\<close>

text \<open>The interrupt a vcpu is offered: from the 8259 pair when an ExtINT is pending, otherwise from its local APIC.\<close>

definition offered :: "vm \<Rightarrow> nat \<Rightarrow> int option" where
  "offered v i = (if vc_extint_pending (vm_vcpu v i) then Some (vatpic_pending_intr v)
     else map_option int (vlapic_pending_intr (vm_lapic v i)))"

lemma offered_cong:
  assumes "vm_vatpic v' = vm_vatpic v" and "vm_lapic v' i = vm_lapic v i"
    and "vc_extint_pending (vm_vcpu v' i) = vc_extint_pending (vm_vcpu v i)"
  shows "offered v' i = offered v i"
  using assms by (simp add: offered_def vatpic_pending_intr_def Let_def)

lemma vmcs_write_other [simp]: "f \<noteq> 0x4002 \<Longrightarrow> vmcs_write wr i f x h = Some (wr i f x h)"
  by (simp add: vmcs_write_def)

lemma rd_wr:
  assumes "vmcs_laws rd wr"
  shows "x < 0x100000000 \<Longrightarrow> rd i f (wr i f x h) = x" and "g \<noteq> f \<Longrightarrow> rd i g (wr i f x h) = rd i g h"
  using assms by (simp_all add: vmcs_laws_def)

lemma u32_small: "(ucast (w :: u32) :: u64) < 0x100000000"
  using unsigned_less [of w] by (simp add: word_less_nat_alt)

lemma and_u32_valid_iff [simp]: "(w :: u32) AND 0x80000000 = 0 \<longleftrightarrow> \<not> bit w 31"
  using and_pow2_eq_0_iff [of w 31] by simp

lemma entry_info_valid [simp]: "bit (entry_info rd i h) 31 \<longleftrightarrow> bit (rd i VMCS_ENTRY_INTR_INFO h) 31"
  by (simp add: entry_info_def bit_unsigned_iff)

lemma inject_shadow_ok:
  assumes "vmcs_laws rd wr"
  obtains h' where "inject_shadow rd wr i guestrip x h = Some h'"
    and "rd i VMCS_ENTRY_INTR_INFO h' = rd i VMCS_ENTRY_INTR_INFO h"
  using rd_wr(2) [OF assms] that by (cases "inject_shadow rd wr i guestrip x h") (auto simp: inject_shadow_def split: if_splits)

lemma vm_entry_intinfo_valid:
  assumes "i < VM_MAXCPU"
  obtains v' info valid where "vm_entry_intinfo i v = Some (v', info, valid)" and "entry_frame i v v'" and "valid \<Longrightarrow> bit info 31"
proof -
  let ?c = "vm_vcpu v i"
  let ?v1 = "upd_vcpu i (\<lambda>c. c\<lparr>vc_exitintinfo := 0, vc_exception_pending := False\<rparr>) v"
  have f1: "entry_frame i v ?v1" unfolding entry_frame_def by (intro exI [of _ "vm_host_calls ?v1"] exI [of _ "vm_suspend_how ?v1"]) simp
  have "vm_entry_intinfo i v = nested_fault (vc_exitintinfo ?c) (vcpu_exception_intinfo ?c) ?v1
      \<and> bit (vc_exitintinfo ?c) 31 \<and> bit (vcpu_exception_intinfo ?c) 31
    \<or> (\<exists>info valid. vm_entry_intinfo i v = Some (?v1, info, valid) \<and> (valid \<longrightarrow> bit info 31))"
    using assms by (simp add: vm_entry_intinfo_def Let_def) blast
  then consider (nested) "vm_entry_intinfo i v = nested_fault (vc_exitintinfo ?c) (vcpu_exception_intinfo ?c) ?v1"
      "bit (vc_exitintinfo ?c) 31" "bit (vcpu_exception_intinfo ?c) 31"
    | (other) info valid where "vm_entry_intinfo i v = Some (?v1, info, valid)" "valid \<longrightarrow> bit info 31" by blast
  then show thesis
  proof cases
    case nested
    then obtain e1 e2 where e: "decode_info (vc_exitintinfo ?c) = Some e1" "decode_info (vcpu_exception_intinfo ?c) = Some e2"
      by (metis decode_info_None_iff not_None_eq)
    obtain calls where S: "fst (vm_suspend VM_SUSPEND_TRIPLEFAULT ?v1) = ?v1\<lparr>vm_suspend_how :=
        (if vm_suspend_how ?v1 = VM_SUSPEND_NONE then VM_SUSPEND_TRIPLEFAULT else vm_suspend_how ?v1), vm_host_calls := calls\<rparr>"
      by (rule vm_suspend_effect [of VM_SUSPEND_TRIPLEFAULT ?v1]) simp_all
    have f2: "entry_frame i v (fst (vm_suspend VM_SUSPEND_TRIPLEFAULT ?v1))" unfolding S entry_frame_def by blast
    show thesis
      using nested that [OF _ f1] that [OF _ f2] decode_class(1) [OF e(1)] decode_class(1) [OF e(2)]
      by (auto simp: nested_fault_def split: if_splits)
  next
    case other
    then show thesis using that [OF _ f1] by blast
  qed
qed

lemma low_byte: "(w :: 'a::len word) AND 0xff = take_bit 8 w"
  by (simp add: take_bit_eq_mask mask_eq_exp_minus_1)

lemma inject_event_ok:
  assumes laws: "vmcs_laws rd wr" and "i < VM_MAXCPU" and free: "\<not> bit (rd i VMCS_ENTRY_INTR_INFO h) 31"
  obtains v' info valid h' where "vm_entry_intinfo i v = Some (v', info, valid)" and "entry_frame i v v'"
    and "inject_event rd wr i v h = Some (v', h')" and "bit (rd i VMCS_ENTRY_INTR_INFO h') 31 \<longleftrightarrow> valid"
    and "valid \<Longrightarrow> rd i VMCS_ENTRY_INTR_INFO h' AND 0xff = info AND 0xff"
proof -
  obtain v' info valid where E: "vm_entry_intinfo i v = Some (v', info, valid)" "entry_frame i v v'" "valid \<Longrightarrow> bit info 31"
    by (rule vm_entry_intinfo_valid [OF assms(2), of v]) blast
  let ?w = "ucast info :: u32"
  let ?w' = "if ?w AND 0xff = 3 \<or> ?w AND 0xff = 4 then (?w AND NOT 0x700) OR 0x600 else ?w"
  let ?h1 = "if ?w' AND 0x800 \<noteq> 0 then wr i VMCS_ENTRY_EXCEPTION_ERROR (drop_bit 32 info) h else h"
  let ?h2 = "if valid then wr i VMCS_ENTRY_INTR_INFO (ucast ?w') ?h1 else h"
  have ev: "inject_event rd wr i v h = Some (v', ?h2)"
    using E(1,3) free unfolding inject_event_def by (simp add: Let_def)
  have b: "bit ?w' 31 = bit info 31"
    by (simp add: bit_simps bit_numeral_rec)
  have low: "(ucast ?w' :: u64) AND 0xff = info AND 0xff"
  proof -
    have "?w' AND 0xff = ?w AND 0xff" by (simp add: bit.conj_disj_distrib2 and.assoc)
    then have "take_bit 8 ?w' = take_bit 8 ?w" by (simp only: low_byte)
    then have "bit ?w' n = bit ?w n" if "n < 8" for n using that by (metis bit_take_bit_iff)
    then show ?thesis unfolding low_byte by (intro bit_eqI) (auto simp: bit_take_bit_iff bit_unsigned_iff)
  qed
  have r: "valid \<Longrightarrow> rd i VMCS_ENTRY_INTR_INFO ?h2 = ucast ?w'"
    using rd_wr(1) [OF laws u32_small] by simp
  show thesis
  proof (rule that [OF E(1,2) ev])
    show "bit (rd i VMCS_ENTRY_INTR_INFO ?h2) 31 \<longleftrightarrow> valid"
      using r b E(3) free by (cases valid) (simp_all add: bit_unsigned_iff)
    show "rd i VMCS_ENTRY_INTR_INFO ?h2 AND 0xff = info AND 0xff" if valid using r [OF that] low by simp
  qed
qed

lemma set_window_ok:
  assumes laws: "vmcs_laws rd wr" and "vx_proc_ctls x i OR BIT n \<noteq> 4" and "n < 32"
  obtains x' h' where "set_window_exiting (BIT n) wr i (x, h) = Some (x', h')"
    and "vx_proc_ctls x' i = vx_proc_ctls x i OR BIT n" and "rd i VMCS_ENTRY_INTR_INFO h' = rd i VMCS_ENTRY_INTR_INFO h"
proof (cases "bit (vx_proc_ctls x i) n")
  case True
  then have "vx_proc_ctls x i OR BIT n = vx_proc_ctls x i" by (intro bit_eqI) (auto simp: bit_or_BIT)
  then show thesis using True that [of x h] by (simp add: set_window_exiting_def)
next
  case False
  let ?c = "vx_proc_ctls x i OR BIT n"
  have "(ucast ?c :: u64) \<noteq> 4"
  proof
    assume "(ucast ?c :: u64) = 4"
    then have "?c = ucast (4 :: u64)" using ucast_u32_u64 [of ?c] by (simp only:)
    then show False using assms(2) by simp
  qed
  then show thesis
    using False that [of "x\<lparr>vx_proc_ctls := (vx_proc_ctls x)(i := ?c)\<rparr>" "wr i 0x4002 (ucast ?c) h"] rd_wr(2) [OF laws]
    by (simp add: set_window_exiting_def vmcs_write_def Let_def)
qed

lemma inject_nmi_ok:
  assumes laws: "vmcs_laws rd wr" and "i < VM_MAXCPU"
  obtains (none) "\<not> vc_nmi_pending (vm_vcpu v i)" "inject_nmi rd wr i (v, x, h) = Some (v, x, h)"
    | (injected) h' where "\<not> bit (rd i VMCS_ENTRY_INTR_INFO h) 31" "rd i VMCS_ENTRY_INTR_INFO h' = 0x80000202"
        "inject_nmi rd wr i (v, x, h) = Some (upd_vcpu i (\<lambda>c. c\<lparr>vc_nmi_pending := False\<rparr>) v, x, h')"
    | (window) x' h' where "inject_nmi rd wr i (v, x, h) = Some (v, x', h')" "vx_proc_ctls x' i = vx_proc_ctls x i OR BIT 22"
        "rd i VMCS_ENTRY_INTR_INFO h' = rd i VMCS_ENTRY_INTR_INFO h"
proof (cases "vc_nmi_pending (vm_vcpu v i)")
  case False
  then show thesis using none assms(2) by (simp add: inject_nmi_def vm_nmi_pending_def)
next
  case nmi: True
  show thesis
  proof (cases "guest_intr rd i h AND (3 OR 0xA) = 0 \<and> \<not> bit (rd i VMCS_ENTRY_INTR_INFO h) 31")
    case True
    then have "(guest_intr rd i h AND (3 OR 0xA)) AND 0xA = 0" by simp
    then have "guest_intr rd i h AND 0xA = 0" by (simp only: and.assoc) simp
    then show thesis
      using True nmi assms(2) injected [of "wr i VMCS_ENTRY_INTR_INFO 0x80000202 h"] rd_wr(1) [OF laws]
      by (simp add: inject_nmi_def vm_nmi_pending_def vmx_inject_nmi_def vm_nmi_clear_def)
  next
    case False
    have b22: "BIT 22 = (0x400000 :: u32)" by (simp add: BIT_eq_pow2)
    have "vx_proc_ctls x i OR BIT 22 \<noteq> 4"
    proof
      assume "vx_proc_ctls x i OR BIT 22 = 4"
      then have "bit (4 :: u32) 22 = bit (vx_proc_ctls x i OR BIT 22) 22" by simp
      then show False by (simp add: bit_or_BIT bit_numeral_rec)
    qed
    then obtain x' h' where w: "set_window_exiting (BIT 22) wr i (x, h) = Some (x', h')"
      "vx_proc_ctls x' i = vx_proc_ctls x i OR BIT 22" "rd i VMCS_ENTRY_INTR_INFO h' = rd i VMCS_ENTRY_INTR_INFO h"
      by (rule set_window_ok [OF laws]) simp
    then show thesis
      using False nmi assms(2) window [OF _ w(2,3)]
      by (auto simp: inject_nmi_def vm_nmi_pending_def vmx_set_nmi_window_exiting_def b22)
  qed
qed

lemma inject_interrupt_ok:
  assumes laws: "vmcs_laws rd wr" and inv: "vm_inv r v" and i: "i < VM_MAXCPU" and ctls: "vx_proc_ctls x i AND NOT (BIT 2) \<noteq> 0"
  obtains (kept) x' h' where "inject_interrupt rd wr i (v, x, h) = Some (v, x', h')"
      "rd i VMCS_ENTRY_INTR_INFO h' = rd i VMCS_ENTRY_INTR_INFO h" "offered v i \<noteq> None \<Longrightarrow> bit (vx_proc_ctls x' i) 2"
      "bit (vx_proc_ctls x i) 22 \<Longrightarrow> bit (vx_proc_ctls x' i) 22"
    | (taken) v' x' h' n where "inject_interrupt rd wr i (v, x, h) = Some (v', x', h')" "vm_inv r v'" "offered v i = Some n"
      "\<not> bit (rd i VMCS_ENTRY_INTR_INFO h) 31" "rd i VMCS_ENTRY_INTR_INFO h' = ucast (0x80000000 OR word_of_int n :: u32)"
      "bit (vx_proc_ctls x i) 22 \<Longrightarrow> bit (vx_proc_ctls x' i) 22"
      "vc_nmi_pending (vm_vcpu v i) \<Longrightarrow> vc_nmi_pending (vm_vcpu v' i)"
proof -
  have b2: "BIT 2 = (4 :: u32)" by (simp add: BIT_eq_pow2)
  have ne: "vx_proc_ctls x i OR BIT 2 \<noteq> 4"
  proof
    assume "vx_proc_ctls x i OR BIT 2 = 4"
    then have "(vx_proc_ctls x i OR BIT 2) AND NOT (BIT 2) = 0" by (simp add: b2)
    then show False using ctls by (simp add: bit.conj_disj_distrib2)
  qed
  have win: "\<exists>x' h'. vmx_set_int_window_exiting wr i (x, g) = Some (x', h') \<and> vx_proc_ctls x' i = vx_proc_ctls x i OR BIT 2
      \<and> rd i VMCS_ENTRY_INTR_INFO h' = rd i VMCS_ENTRY_INTR_INFO g" for g
    by (rule set_window_ok [OF laws ne, of g]) (auto simp: vmx_set_int_window_exiting_def b2)
  show thesis
  proof (cases "bit (vx_proc_ctls x i) 2 \<or> offered v i = None")
    case True
    then show thesis
      using i kept [of x h] by (auto simp: inject_interrupt_def vm_extint_pending_def offered_def b2 [symmetric] split: if_splits)
  next
    case False
    then obtain n where n: "offered v i = Some n" and nb: "\<not> bit (vx_proc_ctls x i) 2" by auto
    let ?ext = "vc_extint_pending (vm_vcpu v i)"
    have rng: "\<not> (n < (if ?ext then 0 else 16) \<or> 255 < n)" and vec: "\<not> ?ext \<Longrightarrow> vlapic_pending_intr (vm_lapic v i) = Some (nat n)"
      using n inv pic_vector_range [of v] pending_above_in_service [of "vm_lapic v i"]
      by (auto simp: offered_def vm_inv_def split: if_splits)
    let ?blocked = "rd i VMCS_GUEST_RFLAGS h AND 0x200 = 0 \<or> guest_intr rd i h AND 3 \<noteq> 0 \<or> entry_info rd i h AND VMCS_INTR_VALID \<noteq> 0"
    let ?h1 = "wr i VMCS_ENTRY_INTR_INFO (ucast (0x80000000 OR word_of_int n :: u32)) h"
    have I: "inject_interrupt rd wr i (v, x, h) = (if ?blocked
        then map_option (\<lambda>(x1, h1). (v, x1, h1)) (vmx_set_int_window_exiting wr i (x, h))
        else if \<not> ?ext then map_option (\<lambda>v1. (v1, x, ?h1)) (lift_vlapic i (vlapic_intr_accepted (nat n)) v)
        else Option.bind (vatpic_intr_accepted n (upd_vcpu i (\<lambda>c. c\<lparr>vc_extint_pending := False\<rparr>) v)) (\<lambda>v2.
               map_option (\<lambda>(x1, h2). (v2, x1, h2)) (vmx_set_int_window_exiting wr i (x, ?h1))))"
      using i n nb rng vec
      by (auto simp: inject_interrupt_def vm_extint_pending_def vm_extint_clear_def offered_def b2 [symmetric] Let_def)
    have e1: "rd i VMCS_ENTRY_INTR_INFO ?h1 = ucast (0x80000000 OR word_of_int n :: u32)" by (rule rd_wr(1) [OF laws u32_small])
    consider (blocked) ?blocked | (apic) "\<not> ?blocked" "\<not> ?ext" | (pic) "\<not> ?blocked" ?ext by blast
    then show thesis
    proof cases
      case blocked
      obtain x' h' where w: "vmx_set_int_window_exiting wr i (x, h) = Some (x', h')" "vx_proc_ctls x' i = vx_proc_ctls x i OR BIT 2"
        "rd i VMCS_ENTRY_INTR_INFO h' = rd i VMCS_ENTRY_INTR_INFO h" using win by blast
      show thesis by (rule kept [of x' h', OF _ w(3)]) (use blocked I w(1,2) in \<open>simp_all add: bit_or_BIT\<close>)
    next
      case apic
      have isr: "isr_inv (vm_lapic v i)" using inv by (simp add: vm_inv_def)
      obtain l' where l': "vlapic_intr_accepted (nat n) (vm_lapic v i) = Some l'" "isr_inv l'"
        by (rule intr_accepted_inv [OF isr vec [OF apic(2)]]) blast
      have "inject_interrupt rd wr i (v, x, h) = Some (upd_vlapic i (\<lambda>_. l') v, x, ?h1)"
        using I apic l'(1) by (simp add: lift_vlapic_def)
      then show thesis using vm_inv_upd_vlapic [OF inv l'(2)] n _ e1
        by (rule taken) (use apic in \<open>simp_all add: upd_vlapic_def\<close>)
    next
      case pic
      let ?v1 = "upd_vcpu i (\<lambda>c. c\<lparr>vc_extint_pending := False\<rparr>) v"
      have inv1: "vm_inv r ?v1" using inv by (rule vm_inv_upd_vcpu) simp
      obtain v2 where v2: "vatpic_intr_accepted n ?v1 = Some v2" "vatpic_step_ok ?v1 v2"
        by (rule vatpic_intr_accepted_ok) blast
      obtain x' h' where w: "vmx_set_int_window_exiting wr i (x, ?h1) = Some (x', h')" "vx_proc_ctls x' i = vx_proc_ctls x i OR BIT 2"
        "rd i VMCS_ENTRY_INTR_INFO h' = rd i VMCS_ENTRY_INTR_INFO ?h1" using win by blast
      have "inject_interrupt rd wr i (v, x, h) = Some (v2, x', h')" using I pic v2(1) w(1) by simp
      then show thesis using vm_inv_pic [OF v2(2) inv1] n _ w(3) [unfolded e1]
        by (rule taken) (use pic w(2) v2(2) in \<open>simp_all add: bit_or_BIT vatpic_step_ok_def pic_frame_def\<close>)
    qed
  qed
qed

lemma nmi_phase:
  assumes laws: "vmcs_laws rd wr" and i: "i < VM_MAXCPU" and inv: "vm_inv r v" and fr: "entry_frame i v v1"
    and "vx_proc_ctls x i AND NOT (BIT 2) \<noteq> 0"
  obtains v2 x2 h3 where "inject_nmi rd wr i (v1, x, h2) = Some (v2, x2, h3)" and "vm_inv r v2" and "offered v2 i = offered v i"
    and "vx_proc_ctls x2 i AND NOT (BIT 2) \<noteq> 0"
    and "bit (rd i VMCS_ENTRY_INTR_INFO h2) 31 \<Longrightarrow> rd i VMCS_ENTRY_INTR_INFO h3 = rd i VMCS_ENTRY_INTR_INFO h2"
    and "vc_nmi_pending (vm_vcpu v i) \<Longrightarrow> rd i VMCS_ENTRY_INTR_INFO h3 = 0x80000202
      \<or> vc_nmi_pending (vm_vcpu v2 i) \<and> bit (vx_proc_ctls x2 i) 22"
proof -
  note S = entry_frame_simps [OF fr]
  have inv1: "vm_inv r v1" using inv S by simp
  have off1: "offered v1 i = offered v i" using S by (intro offered_cong) simp_all
  show thesis
  proof (rule inject_nmi_ok [OF laws i, of v1 x h2], goal_cases none injected window)
    case none
    then show thesis using that [of v1 x h2] inv1 off1 S assms(5) by simp
  next
    case (injected h')
    let ?v2 = "upd_vcpu i (\<lambda>c. c\<lparr>vc_nmi_pending := False\<rparr>) v1"
    have "vm_inv r ?v2" using inv1 by (rule vm_inv_upd_vcpu) simp
    moreover have "offered ?v2 i = offered v i" unfolding off1 [symmetric] by (rule offered_cong) simp_all
    ultimately show thesis using that [OF injected(3)] injected assms(5) by simp
  next
    case (window x' h')
    have "bit (vx_proc_ctls x' i AND NOT (BIT 2)) 22" using window(2) by (simp add: bit_clear_BIT bit_or_BIT)
    then have "vx_proc_ctls x' i AND NOT (BIT 2) \<noteq> 0" by (metis bit_0_eq bot_apply bot_bool_def)
    then show thesis using that [OF window(1) inv1 off1] window S by (simp add: bit_or_BIT)
  qed
qed



end
