(* ===== verification/Vm_Memory.thy ===== *)
theory Vm_Memory
  imports Vm_Types
begin

text \<open>
  Guest memory (\<open>src/vmm/vmm.c\<close>): segments of host memory that the guest sees at fixed physical addresses, their
  allocation, and the translation of a guest physical address to a host address. A host address is an allocated object
  and an offset into it. The host's allocator is a parameter: it gives an object or fails.
\<close>

abbreviation (input) XHYVE_PAGE_SIZE :: u64 where "XHYVE_PAGE_SIZE \<equiv> 0x1000"
abbreviation (input) XHYVE_PAGE_MASK :: u64 where "XHYVE_PAGE_MASK \<equiv> 0xfff"
abbreviation (input) VM_MAX_MEMORY_SEGMENTS :: nat where "VM_MAX_MEMORY_SEGMENTS \<equiv> 2"
abbreviation (input) E2BIG :: int where "E2BIG \<equiv> 7"

definition vm_mem_allocated :: "vm \<Rightarrow> u64 \<Rightarrow> bool" where
  "vm_mem_allocated v gpa \<longleftrightarrow> list_ex (\<lambda>s. seg_gpa s \<le> gpa \<and> gpa < seg_gpa s + seg_len s) (vm_mem_segs v)"

text \<open>The loop of \<open>vm_malloc\<close> over the pages of the request, with the two counters.\<close>

partial_function (option) malloc_scan :: "vm \<Rightarrow> u64 \<Rightarrow> u64 \<Rightarrow> nat \<Rightarrow> nat \<Rightarrow> (nat \<times> nat) option" where
  "malloc_scan v lim g allocated available =
     (if g < lim then
        if vm_mem_allocated v g then malloc_scan v lim (g + XHYVE_PAGE_SIZE) (allocated + 1) available
        else malloc_scan v lim (g + XHYVE_PAGE_SIZE) allocated (available + 1)
      else Some (allocated, available))"

text \<open>
  \<open>vmm_mem_alloc\<close> (\<open>src/vmm/vmm_mem.c\<close>) with the host's allocator and \<open>hv_vm_map\<close> as parameters; both failures
  abort, so the branch of \<open>vm_malloc\<close> for \<open>ENOMEM\<close> is dead.
\<close>

definition vmm_mem_alloc :: "(u64 \<Rightarrow> nat option) \<Rightarrow> (nat \<Rightarrow> u64 \<Rightarrow> u64 \<Rightarrow> bool) \<Rightarrow> u64 \<Rightarrow> u64 \<Rightarrow> nat option" where
  "vmm_mem_alloc valloc hv_vm_map gpa sz =
     Option.bind (valloc sz) (\<lambda>obj. if hv_vm_map obj gpa sz then Some obj else None)"

definition vm_malloc :: "(u64 \<Rightarrow> nat option) \<Rightarrow> (nat \<Rightarrow> u64 \<Rightarrow> u64 \<Rightarrow> bool) \<Rightarrow> u64 \<Rightarrow> u64 \<Rightarrow> vm \<Rightarrow> (vm \<times> int) option" where
  "vm_malloc valloc hv_vm_map gpa len v =
     (if gpa AND XHYVE_PAGE_MASK \<noteq> 0 \<or> len AND XHYVE_PAGE_MASK \<noteq> 0 \<or> len = 0 then Some (v, EINVAL)
      else Option.bind (malloc_scan v (gpa + len) gpa 0 0) (\<lambda>(allocated, available).
        if allocated \<noteq> 0 \<and> available \<noteq> 0 then Some (v, EINVAL)
        else if allocated \<noteq> 0 \<and> available = 0 then Some (v, 0)
        else if length (vm_mem_segs v) \<ge> VM_MAX_MEMORY_SEGMENTS then Some (v, E2BIG)
        else map_option (\<lambda>obj.
               (v\<lparr>vm_mem_segs := vm_mem_segs v @ [\<lparr>seg_gpa = gpa, seg_len = len, seg_object = Some obj\<rparr>]\<rparr>, 0))
             (vmm_mem_alloc valloc hv_vm_map gpa len)))"

definition vm_gpabase2memseg :: "vm \<Rightarrow> u64 \<Rightarrow> (u64 \<times> u64) option" where
  "vm_gpabase2memseg v gpabase = map_option (\<lambda>s. (seg_gpa s, seg_len s)) (find (\<lambda>s. gpabase = seg_gpa s) (vm_mem_segs v))"

text \<open>The object and the offset; \<open>None\<close> is \<open>EINVAL\<close>, and \<open>NULL\<close> for \<open>vm_gpa2hva\<close>.\<close>

definition vm_get_memobj :: "vm \<Rightarrow> u64 \<Rightarrow> u64 \<Rightarrow> (nat \<times> u64) option" where
  "vm_get_memobj v gpa len =
     map_option (\<lambda>s. (the (seg_object s), gpa - seg_gpa s))
       (find (\<lambda>s. seg_object s \<noteq> None \<and> seg_gpa s \<le> gpa \<and> gpa + len \<le> seg_gpa s + seg_len s) (vm_mem_segs v))"

definition vm_gpa2hva :: "vm \<Rightarrow> u64 \<Rightarrow> u64 \<Rightarrow> (nat \<times> u64) option" where
  "vm_gpa2hva v gpa len = vm_get_memobj v gpa len"

subsection \<open>Segments do not overlap\<close>

definition seg_range :: "mem_seg \<Rightarrow> nat set" where
  "seg_range s = {unat (seg_gpa s)..<unat (seg_gpa s) + unat (seg_len s)}"

definition seg_ok :: "mem_seg \<Rightarrow> bool" where
  "seg_ok s \<longleftrightarrow> 0x1000 dvd unat (seg_gpa s) \<and> 0x1000 dvd unat (seg_len s) \<and> 0 < unat (seg_len s)
     \<and> unat (seg_gpa s) + unat (seg_len s) < 2 ^ 64 \<and> seg_object s \<noteq> None"

definition mem_ok :: "vm \<Rightarrow> bool" where
  "mem_ok v \<longleftrightarrow> list_all seg_ok (vm_mem_segs v) \<and> length (vm_mem_segs v) \<le> VM_MAX_MEMORY_SEGMENTS
     \<and> sorted_wrt (\<lambda>s t. seg_range s \<inter> seg_range t = {} \<and> seg_object s \<noteq> seg_object t) (vm_mem_segs v)"

lemma seg_end: "unat a + unat b < 2 ^ 64 \<Longrightarrow> unat (a + b :: u64) = unat a + unat b"
  by (simp add: unat_word_ariths)

lemma unat_bound: "unat (a :: u64) < 2 ^ 64"
  by (rule order.strict_trans2 [OF unsigned_less]) simp

lemma allocated_iff:
  assumes "mem_ok v"
  shows "vm_mem_allocated v a \<longleftrightarrow> (\<exists>s \<in> set (vm_mem_segs v). unat a \<in> seg_range s)"
proof -
  have "(seg_gpa s \<le> a \<and> a < seg_gpa s + seg_len s) \<longleftrightarrow> unat a \<in> seg_range s" if "s \<in> set (vm_mem_segs v)" for s
    using that assms by (simp add: mem_ok_def list_all_iff seg_ok_def seg_range_def seg_end word_le_nat_alt word_less_nat_alt)
  then show ?thesis by (auto simp: vm_mem_allocated_def list_ex_iff)
qed

lemma scan_spec:
  assumes "0x1000 dvd unat g" and "0x1000 dvd unat lim"
  shows "\<exists>a b. malloc_scan v lim g al av = Some (al + a, av + b)
     \<and> (a = 0 \<longrightarrow> (\<forall>x. g \<le> x \<and> x < lim \<and> 0x1000 dvd unat x \<longrightarrow> \<not> vm_mem_allocated v x))
     \<and> (b = 0 \<longrightarrow> (\<forall>x. g \<le> x \<and> x < lim \<and> 0x1000 dvd unat x \<longrightarrow> vm_mem_allocated v x))"
  using assms(1)
proof (induction "unat lim - unat g" arbitrary: g al av rule: less_induct)
  case less
  show ?case
  proof (cases "g < lim")
    case True
    have le: "unat g + 0x1000 \<le> unat lim"
      using True less.prems assms(2) by (auto simp: word_less_nat_alt dvd_def) 
    then have g': "unat (g + XHYVE_PAGE_SIZE) = unat g + 0x1000" using seg_end [of g "0x1000"] unat_bound [of lim] by simp
    have split: "x = g \<or> g + XHYVE_PAGE_SIZE \<le> x" if "g \<le> x" "0x1000 dvd unat x" for x
      using that less.prems g' by (auto simp: word_le_nat_alt word_unat_eq_iff dvd_def)
    obtain a b where IH: "malloc_scan v lim (g + XHYVE_PAGE_SIZE) (if vm_mem_allocated v g then al + 1 else al)
         (if vm_mem_allocated v g then av else av + 1) = Some ((if vm_mem_allocated v g then al + 1 else al) + a, (if vm_mem_allocated v g then av else av + 1) + b)"
      "a = 0 \<longrightarrow> (\<forall>x. g + XHYVE_PAGE_SIZE \<le> x \<and> x < lim \<and> 0x1000 dvd unat x \<longrightarrow> \<not> vm_mem_allocated v x)"
      "b = 0 \<longrightarrow> (\<forall>x. g + XHYVE_PAGE_SIZE \<le> x \<and> x < lim \<and> 0x1000 dvd unat x \<longrightarrow> vm_mem_allocated v x)"
      using less.hyps [of "g + XHYVE_PAGE_SIZE"] le g' less.prems by fastforce
    show ?thesis
    proof (cases "vm_mem_allocated v g")
      case alloc: True
      show ?thesis using IH True alloc split
        by (subst malloc_scan.simps) (intro exI [of _ "Suc a"] exI [of _ b], auto)
    next
      case False
      show ?thesis using IH True False split
        by (subst malloc_scan.simps) (intro exI [of _ a] exI [of _ "Suc b"], auto)
    qed
  qed (subst malloc_scan.simps, use order.strict_trans1 in auto)
qed

text \<open>Two aligned ranges that meet have an aligned address in common, which is the start of one of them.\<close>

lemma aligned_mask: "a AND XHYVE_PAGE_MASK = 0 \<longleftrightarrow> 0x1000 dvd unat (a :: u64)"
proof -
  have "a AND XHYVE_PAGE_MASK = take_bit 12 a" by (simp add: take_bit_eq_mask mask_eq_exp_minus_1)
  moreover have "unat (take_bit 12 a) = unat a mod 0x1000" unfolding unsigned_take_bit_eq by (simp add: take_bit_eq_mod)
  ultimately show ?thesis by (simp add: dvd_eq_mod_eq_0 word_unat_eq_iff)
qed

lemma scan_free:
  assumes ok: "mem_ok v" and "0x1000 dvd unat gpa" and "0x1000 dvd unat len" and "unat gpa + unat len < 2 ^ 64"
    and scan: "malloc_scan v (gpa + len) gpa 0 0 = Some (0, b)" and s: "s \<in> set (vm_mem_segs v)"
  shows "seg_range s \<inter> {unat gpa..<unat gpa + unat len} = {}"
proof (rule ccontr)
  let ?n = "unat gpa" and ?l = "unat len" and ?m = "max (unat gpa) (unat (seg_gpa s))"
  assume "seg_range s \<inter> {?n..<?n + ?l} \<noteq> {}"
  moreover have sok: "seg_ok s" using ok s by (simp add: mem_ok_def list_all_iff)
  ultimately have m: "?m \<in> seg_range s" "?m < ?n + ?l" "0x1000 dvd ?m"
    using assms(2) by (auto simp: seg_range_def seg_ok_def max_def)
  define x :: u64 where "x = of_nat ?m"
  have x: "unat x = ?m" using m(2) assms(4) by (simp add: x_def unat_of_nat)
  have "\<not> vm_mem_allocated v x"
    using scan_spec [of gpa "gpa + len" v 0 0] scan assms(2-4) m x seg_end [of gpa len] by (auto simp: word_le_nat_alt word_less_nat_alt)
  then show False using allocated_iff [OF ok] s m(1) x by auto
qed



subsection \<open>Translation to host addresses\<close>

lemma gpa2hva_seg:
  assumes "mem_ok v" and "unat a + unat la < 2 ^ 64" and "vm_gpa2hva v a la = Some (obj, x)"
  obtains s where "s \<in> set (vm_mem_segs v)" and "seg_object s = Some obj" and "unat a = unat (seg_gpa s) + unat x"
    and "unat x + unat la \<le> unat (seg_len s)"
proof -
  obtain s where s: "find (\<lambda>s. seg_object s \<noteq> None \<and> seg_gpa s \<le> a \<and> a + la \<le> seg_gpa s + seg_len s) (vm_mem_segs v) = Some s"
      "obj = the (seg_object s)" "x = a - seg_gpa s"
    using assms(3) by (auto simp: vm_gpa2hva_def vm_get_memobj_def)
  then have m: "s \<in> set (vm_mem_segs v)" and c: "seg_object s \<noteq> None" "seg_gpa s \<le> a" "a + la \<le> seg_gpa s + seg_len s"
    by (auto simp: find_Some_iff)
  have "seg_ok s" using m assms(1) by (simp add: mem_ok_def list_all_iff)
  then have e: "unat (seg_gpa s + seg_len s) = unat (seg_gpa s) + unat (seg_len s)" by (simp add: seg_ok_def seg_end)
  have x: "unat a = unat (seg_gpa s) + unat x" using c(2) s(3) by (simp add: unat_sub word_le_nat_alt)
  have "unat x + unat la \<le> unat (seg_len s)" using c(3) e x seg_end [OF assms(2)] by (simp add: word_le_nat_alt)
  then show thesis using that [OF m _ x] c(1) s(2) by auto
qed



text \<open>
  The hypothesis on the end of the address space is needed: \<open>gpa + len\<close> wraps, and a range at the very top translates to host memory far
  behind its object. The page walk produces no such address for a page table entry of 64 bits, of which it keeps 52 bits.
\<close>

lemma memobj_overflow:
  assumes "vm_mem_segs v = [\<lparr>seg_gpa = 0, seg_len = 0x2000, seg_object = Some obj\<rparr>]"
  shows "vm_gpa2hva v 0xfffffffffffff000 0x1000 = Some (obj, 0xfffffffffffff000)"
  using assms by (simp add: vm_gpa2hva_def vm_get_memobj_def)

end
