(* ===== verification/Vie_Decode.thy ===== *)
theory Vie_Decode
  imports Vie_Addr
begin

text \<open>
  The instruction decoder (\<open>src/vmm/vmm_instruction_emul.c\<close>) for the instructions with which a guest reaches
  memory-mapped devices: prefixes, opcode tables, ModRM and SIB bytes, displacement and immediate operand, and the
  check of the decoded address against the one the processor reports. The result of a step is the updated
  structure, an inner \<open>None\<close> for the error \<open>-1\<close>, or an outer \<open>None\<close> for a failed assertion or an abort. What the code leaves in
  the structure after an error is not used by its caller.
\<close>

subsection \<open>Data\<close>

datatype vie_op_type =
    VIE_OP_TYPE_NONE | VIE_OP_TYPE_MOV | VIE_OP_TYPE_MOVSX | VIE_OP_TYPE_MOVZX | VIE_OP_TYPE_AND | VIE_OP_TYPE_OR | VIE_OP_TYPE_SUB
  | VIE_OP_TYPE_TWO_BYTE | VIE_OP_TYPE_PUSH | VIE_OP_TYPE_CMP | VIE_OP_TYPE_POP | VIE_OP_TYPE_MOVS | VIE_OP_TYPE_GROUP1
  | VIE_OP_TYPE_STOS | VIE_OP_TYPE_BITTEST

abbreviation (input) VIE_OP_F_IMM :: u16 where "VIE_OP_F_IMM \<equiv> 1"
abbreviation (input) VIE_OP_F_IMM8 :: u16 where "VIE_OP_F_IMM8 \<equiv> 2"
abbreviation (input) VIE_OP_F_MOFFSET :: u16 where "VIE_OP_F_MOFFSET \<equiv> 4"
abbreviation (input) VIE_OP_F_NO_MODRM :: u16 where "VIE_OP_F_NO_MODRM \<equiv> 8"
abbreviation (input) VIE_OP_F_NO_GLA_VERIFICATION :: u16 where "VIE_OP_F_NO_GLA_VERIFICATION \<equiv> 16"
abbreviation (input) VIE_INST_SIZE :: nat where "VIE_INST_SIZE \<equiv> 15"
abbreviation (input) VIE_INVALID_GLA :: u64 where "VIE_INVALID_GLA \<equiv> 0x8000000000000000"

record vie_op =
  op_byte :: u8
  op_type :: vie_op_type
  op_flags :: u16

text \<open>
  The counters never pass 15, so they are natural numbers; \<open>displacement\<close> and \<open>immediate\<close> are the bit patterns of
  the signed 64-bit fields.
\<close>

record vie =
  vie_inst :: "u8 list"
  vie_num_valid :: nat
  vie_num_processed :: nat
  vie_addrsize :: int
  vie_opsize :: int
  vie_rex_w :: bool
  vie_rex_r :: bool
  vie_rex_x :: bool
  vie_rex_b :: bool
  vie_rex_present :: bool
  vie_repz_present :: bool
  vie_repnz_present :: bool
  vie_opsize_override :: bool
  vie_addrsize_override :: bool
  vie_segment_override :: bool
  vie_mod :: u8
  vie_reg :: u8
  vie_rm :: u8
  vie_ss :: u8
  vie_index :: u8
  vie_base :: u8
  vie_disp_bytes :: nat
  vie_imm_bytes :: nat
  vie_scale :: u8
  vie_base_register :: vm_reg_name
  vie_index_register :: vm_reg_name
  vie_segment_register :: vm_reg_name
  vie_displacement :: u64
  vie_immediate :: u64
  vie_decoded :: bool
  vie_the_op :: vie_op

definition two_byte_opcodes :: "u8 \<Rightarrow> vie_op" where
  "two_byte_opcodes x = \<lparr>op_byte = (if x \<in> {0xB6, 0xB7, 0xBA, 0xBE} then x else 0),
     op_type = (if x = 0xB6 \<or> x = 0xB7 then VIE_OP_TYPE_MOVZX else if x = 0xBA then VIE_OP_TYPE_BITTEST
                else if x = 0xBE then VIE_OP_TYPE_MOVSX else VIE_OP_TYPE_NONE),
     op_flags = (if x = 0xBA then VIE_OP_F_IMM8 else 0)\<rparr>"

definition one_byte_opcodes :: "u8 \<Rightarrow> vie_op" where
  "one_byte_opcodes x = \<lparr>op_byte =
       (if x \<in> {0x0F, 0x2B, 0x3B, 0x88, 0x89, 0x8A, 0x8B, 0xA1, 0xA3, 0xA4, 0xA5, 0xAA, 0xAB, 0xC6, 0xC7, 0x23, 0x80, 0x81, 0x83, 0x8F, 0xFF}
        then x else 0),
     op_type =
       (if x = 0x0F then VIE_OP_TYPE_TWO_BYTE else if x = 0x2B then VIE_OP_TYPE_SUB else if x = 0x3B then VIE_OP_TYPE_CMP
        else if x \<in> {0x88, 0x89, 0x8A, 0x8B, 0xA1, 0xA3, 0xC6, 0xC7} then VIE_OP_TYPE_MOV
        else if x \<in> {0xA4, 0xA5} then VIE_OP_TYPE_MOVS else if x \<in> {0xAA, 0xAB} then VIE_OP_TYPE_STOS
        else if x = 0x23 then VIE_OP_TYPE_AND else if x \<in> {0x80, 0x81, 0x83} then VIE_OP_TYPE_GROUP1
        else if x = 0x8F then VIE_OP_TYPE_POP else if x = 0xFF then VIE_OP_TYPE_PUSH else VIE_OP_TYPE_NONE),
     op_flags =
       (if x \<in> {0xA1, 0xA3} then VIE_OP_F_MOFFSET OR VIE_OP_F_NO_MODRM
        else if x \<in> {0xA4, 0xA5, 0xAA, 0xAB} then VIE_OP_F_NO_MODRM OR VIE_OP_F_NO_GLA_VERIFICATION
        else if x \<in> {0xC6, 0x80, 0x83} then VIE_OP_F_IMM8 else if x \<in> {0xC7, 0x81} then VIE_OP_F_IMM else 0)\<rparr>"

definition gpr_map :: "vm_reg_name list" where
  "gpr_map = [VM_REG_GUEST_RAX, VM_REG_GUEST_RCX, VM_REG_GUEST_RDX, VM_REG_GUEST_RBX, VM_REG_GUEST_RSP, VM_REG_GUEST_RBP,
     VM_REG_GUEST_RSI, VM_REG_GUEST_RDI, VM_REG_GUEST_R8, VM_REG_GUEST_R9, VM_REG_GUEST_R10, VM_REG_GUEST_R11,
     VM_REG_GUEST_R12, VM_REG_GUEST_R13, VM_REG_GUEST_R14, VM_REG_GUEST_R15]"

definition vie_bzero :: vie where
  "vie_bzero = \<lparr>vie_inst = replicate VIE_INST_SIZE 0, vie_num_valid = 0, vie_num_processed = 0, vie_addrsize = 0, vie_opsize = 0,
     vie_rex_w = False, vie_rex_r = False, vie_rex_x = False, vie_rex_b = False, vie_rex_present = False, vie_repz_present = False,
     vie_repnz_present = False, vie_opsize_override = False, vie_addrsize_override = False, vie_segment_override = False,
     vie_mod = 0, vie_reg = 0, vie_rm = 0, vie_ss = 0, vie_index = 0, vie_base = 0, vie_disp_bytes = 0, vie_imm_bytes = 0, vie_scale = 0,
     vie_base_register = VM_REG_GUEST_RAX, vie_index_register = VM_REG_GUEST_RAX, vie_segment_register = VM_REG_GUEST_RAX,
     vie_displacement = 0, vie_immediate = 0, vie_decoded = False,
     vie_the_op = \<lparr>op_byte = 0, op_type = VIE_OP_TYPE_NONE, op_flags = 0\<rparr>\<rparr>"

definition vie_init :: "u8 list \<Rightarrow> vie option" where
  "vie_init inst_bytes =
     (if length inst_bytes > VIE_INST_SIZE then None
      else Some (vie_bzero\<lparr>vie_base_register := VM_REG_LAST, vie_index_register := VM_REG_LAST, vie_segment_register := VM_REG_LAST,
             vie_inst := inst_bytes @ replicate (VIE_INST_SIZE - length inst_bytes) 0, vie_num_valid := length inst_bytes\<rparr>))"

subsection \<open>Steps\<close>

definition vie_peek :: "vie \<Rightarrow> u8 option" where
  "vie_peek v = (if vie_num_processed v < vie_num_valid v then Some (vie_inst v ! vie_num_processed v) else None)"

definition vie_advance :: "vie \<Rightarrow> vie" where
  "vie_advance v = v\<lparr>vie_num_processed := vie_num_processed v + 1\<rparr>"

definition segment_override :: "u8 \<Rightarrow> vm_reg_name option" where
  "segment_override x =
     (if x = 0x2E then Some VM_REG_GUEST_CS else if x = 0x36 then Some VM_REG_GUEST_SS else if x = 0x3E then Some VM_REG_GUEST_DS
      else if x = 0x26 then Some VM_REG_GUEST_ES else if x = 0x64 then Some VM_REG_GUEST_FS else if x = 0x65 then Some VM_REG_GUEST_GS
      else None)"

text \<open>One turn of the prefix loop: the structure with the prefix noted, or \<open>None\<close> when the byte is not a prefix.\<close>

definition note_prefix :: "u8 \<Rightarrow> vie \<Rightarrow> vie option" where
  "note_prefix x v =
     (if x = 0x66 then Some (v\<lparr>vie_opsize_override := True\<rparr>)
      else if x = 0x67 then Some (v\<lparr>vie_addrsize_override := True\<rparr>)
      else if x = 0xF3 then Some (v\<lparr>vie_repz_present := True\<rparr>)
      else if x = 0xF2 then Some (v\<lparr>vie_repnz_present := True\<rparr>)
      else map_option (\<lambda>seg. v\<lparr>vie_segment_register := seg, vie_segment_override := True\<rparr>) (segment_override x))"

lemma note_prefix_counters:
  "note_prefix x v = Some v' \<Longrightarrow> vie_num_processed v' = vie_num_processed v \<and> vie_num_valid v' = vie_num_valid v"
  by (auto simp: note_prefix_def split: if_splits)

function prefix_loop :: "vie \<Rightarrow> (u8 \<times> vie) option" where
  "prefix_loop v =
     (case vie_peek v of
        None \<Rightarrow> None
      | Some x \<Rightarrow> (case note_prefix x v of None \<Rightarrow> Some (x, v) | Some v' \<Rightarrow> prefix_loop (vie_advance v')))"
  by pat_completeness auto
termination
  by (relation "measure (\<lambda>v. vie_num_valid v - vie_num_processed v)")
    (auto simp: vie_peek_def vie_advance_def dest!: note_prefix_counters split: if_splits)

declare prefix_loop.simps [simp del]

definition note_rex :: "vm_cpu_mode \<Rightarrow> u8 \<Rightarrow> vie \<Rightarrow> vie" where
  "note_rex cpu_mode x v =
     (if cpu_mode = CPU_MODE_64BIT \<and> 0x40 \<le> x \<and> x \<le> 0x4F
      then vie_advance (v\<lparr>vie_rex_present := True, vie_rex_w := (x AND 8 \<noteq> 0), vie_rex_r := (x AND 4 \<noteq> 0),
             vie_rex_x := (x AND 2 \<noteq> 0), vie_rex_b := (x AND 1 \<noteq> 0)\<rparr>)
      else v)"

definition note_sizes :: "vm_cpu_mode \<Rightarrow> bool \<Rightarrow> vie \<Rightarrow> vie" where
  "note_sizes cpu_mode cs_d v =
     (if cpu_mode = CPU_MODE_64BIT
      then v\<lparr>vie_addrsize := (if vie_addrsize_override v then 4 else 8),
             vie_opsize := (if vie_rex_w v then 8 else if vie_opsize_override v then 2 else 4)\<rparr>
      else if cs_d
      then v\<lparr>vie_addrsize := (if vie_addrsize_override v then 2 else 4), vie_opsize := (if vie_opsize_override v then 2 else 4)\<rparr>
      else v\<lparr>vie_addrsize := (if vie_addrsize_override v then 4 else 2), vie_opsize := (if vie_opsize_override v then 4 else 2)\<rparr>)"

definition decode_prefixes :: "vm_cpu_mode \<Rightarrow> bool \<Rightarrow> vie \<Rightarrow> vie option" where
  "decode_prefixes cpu_mode cs_d v =
     map_option (\<lambda>(x, v'). note_sizes cpu_mode cs_d (note_rex cpu_mode x v')) (prefix_loop v)"

definition decode_two_byte_opcode :: "vie \<Rightarrow> vie option" where
  "decode_two_byte_opcode v =
     Option.bind (vie_peek v) (\<lambda>x.
       if op_type (two_byte_opcodes x) = VIE_OP_TYPE_NONE then None
       else Some (vie_advance (v\<lparr>vie_the_op := two_byte_opcodes x\<rparr>)))"

definition decode_opcode :: "vie \<Rightarrow> vie option" where
  "decode_opcode v =
     Option.bind (vie_peek v) (\<lambda>x.
       if op_type (one_byte_opcodes x) = VIE_OP_TYPE_NONE then None
       else let v' = vie_advance (v\<lparr>vie_the_op := one_byte_opcodes x\<rparr>)
            in if op_type (one_byte_opcodes x) = VIE_OP_TYPE_TWO_BYTE then decode_two_byte_opcode v' else Some v')"

definition rex_bit :: "bool \<Rightarrow> u8" where
  "rex_bit b = (if b then 8 else 0)"

text \<open>Where ModRM gives the base register and the size of the displacement (there is no SIB byte).\<close>

definition modrm_address :: "vm_cpu_mode \<Rightarrow> vie \<Rightarrow> vie" where
  "modrm_address cpu_mode v =
     (let v1 = v\<lparr>vie_base_register := gpr_map ! unat (vie_rm v)\<rparr>
      in if vie_mod v = 1 then v1\<lparr>vie_disp_bytes := 1\<rparr>
         else if vie_mod v = 2 then v1\<lparr>vie_disp_bytes := 4\<rparr>
         else if vie_mod v = 0 \<and> vie_rm v = 5
         then v1\<lparr>vie_disp_bytes := 4, vie_base_register := (if cpu_mode = CPU_MODE_64BIT then VM_REG_GUEST_RIP else VM_REG_LAST)\<rparr>
         else v1)"

definition decode_modrm :: "vm_cpu_mode \<Rightarrow> vie \<Rightarrow> vie option" where
  "decode_modrm cpu_mode v =
     (if op_flags (vie_the_op v) AND VIE_OP_F_NO_MODRM \<noteq> 0 then Some v
      else if cpu_mode = CPU_MODE_REAL then None
      else Option.bind (vie_peek v) (\<lambda>x.
        let m = drop_bit 6 x AND 3; rm = x AND 7; reg = drop_bit 3 x AND 7
        in if m = 3 then None
           else let v1 = v\<lparr>vie_mod := m,
                       vie_rm := (if (m = 0 \<and> rm = 5) \<or> rm = 4 then rm else rm OR rex_bit (vie_rex_b v)),
                       vie_reg := reg OR rex_bit (vie_rex_r v)\<rparr>
                in Some (vie_advance (if vie_rm v1 = 4 then v1 else modrm_address cpu_mode v1))))"

text \<open>The parts of the SIB byte, the displacement that \<open>mod\<close> asks for, the base register, and the index register with its scale.\<close>

definition sib_fields :: "u8 \<Rightarrow> vie \<Rightarrow> vie" where
  "sib_fields x v = v\<lparr>vie_ss := drop_bit 6 x AND 3, vie_index := (drop_bit 3 x AND 7) OR rex_bit (vie_rex_x v),
     vie_base := (x AND 7) OR rex_bit (vie_rex_b v)\<rparr>"

definition sib_disp :: "vie \<Rightarrow> vie" where
  "sib_disp v = (if vie_mod v = 1 then v\<lparr>vie_disp_bytes := 1\<rparr> else if vie_mod v = 2 then v\<lparr>vie_disp_bytes := 4\<rparr> else v)"

definition sib_base :: "vie \<Rightarrow> vie" where
  "sib_base v = (if vie_mod v = 0 \<and> (vie_base v = 5 \<or> vie_base v = 13) then v\<lparr>vie_disp_bytes := 4\<rparr>
     else v\<lparr>vie_base_register := gpr_map ! unat (vie_base v)\<rparr>)"

definition sib_index :: "vie \<Rightarrow> vie" where
  "sib_index v =
     (let v1 = (if vie_index v \<noteq> 4 then v\<lparr>vie_index_register := gpr_map ! unat (vie_index v)\<rparr> else v)
      in if vie_index_register v1 \<noteq> VM_REG_LAST then v1\<lparr>vie_scale := push_bit (unat (vie_ss v)) 1\<rparr> else v1)"

definition decode_sib :: "vie \<Rightarrow> vie option" where
  "decode_sib v =
     (if vie_mod v = 3 \<or> vie_rm v \<noteq> 4 then Some v
      else map_option (\<lambda>x. vie_advance (sib_index (sib_base (sib_disp (sib_fields x v))))) (vie_peek v))"

text \<open>The loops that copy bytes into a union, and the union read as a little-endian number.\<close>

fun fetch_bytes :: "nat \<Rightarrow> vie \<Rightarrow> (u8 list \<times> vie) option" where
  "fetch_bytes 0 v = Some ([], v)"
| "fetch_bytes (Suc n) v =
     Option.bind (vie_peek v) (\<lambda>x. map_option (\<lambda>(xs, v'). (x # xs, v')) (fetch_bytes n (vie_advance v)))"

fun le_bytes :: "u8 list \<Rightarrow> u64" where
  "le_bytes [] = 0"
| "le_bytes (x # xs) = ucast x OR push_bit 8 (le_bytes xs)"

definition sign_extend :: "nat \<Rightarrow> u64 \<Rightarrow> u64" where
  "sign_extend n w = (if n = 1 then scast (ucast w :: 8 word) else if n = 2 then scast (ucast w :: 16 word) else scast (ucast w :: 32 word))"

definition decode_displacement :: "vie \<Rightarrow> vie option option" where
  "decode_displacement v =
     (let n = vie_disp_bytes v
      in if n = 0 then Some (Some v)
         else if n \<noteq> 1 \<and> n \<noteq> 4 then None
         else Some (map_option (\<lambda>(xs, v'). v'\<lparr>vie_displacement := sign_extend n (le_bytes xs)\<rparr>) (fetch_bytes n v)))"

definition decode_immediate :: "vie \<Rightarrow> vie option option" where
  "decode_immediate v =
     (let flags = op_flags (vie_the_op v);
          v1 = (if flags AND VIE_OP_F_IMM \<noteq> 0 then v\<lparr>vie_imm_bytes := (if vie_opsize v = 4 \<or> vie_opsize v = 8 then 4 else 2)\<rparr>
                else if flags AND VIE_OP_F_IMM8 \<noteq> 0 then v\<lparr>vie_imm_bytes := 1\<rparr> else v);
          n = vie_imm_bytes v1
      in if n = 0 then Some (Some v1)
         else if \<not> (n = 1 \<or> n = 2 \<or> n = 4) then None
         else Some (map_option (\<lambda>(xs, v'). v'\<lparr>vie_immediate := sign_extend n (le_bytes xs)\<rparr>) (fetch_bytes n v1)))"

definition decode_moffset :: "vie \<Rightarrow> vie option option" where
  "decode_moffset v =
     (if op_flags (vie_the_op v) AND VIE_OP_F_MOFFSET = 0 then Some (Some v)
      else if \<not> (vie_addrsize v = 2 \<or> vie_addrsize v = 4 \<or> vie_addrsize v = 8) then None
      else Some (map_option (\<lambda>(xs, v'). v'\<lparr>vie_displacement := le_bytes xs\<rparr>) (fetch_bytes (nat (vie_addrsize v)) v)))"

definition verify_inst_length :: "vie \<Rightarrow> bool" where
  "verify_inst_length v \<longleftrightarrow> vie_num_processed v \<noteq> 0"

text \<open>
  Registers of the vcpu are read through \<open>getreg\<close>, which is \<open>vm_get_register\<close> for that vcpu; \<open>Inl\<close> is its error.
\<close>

type_synonym getreg = "vm_reg_name \<Rightarrow> int + u64"

definition verify_gla :: "getreg \<Rightarrow> u64 \<Rightarrow> vie \<Rightarrow> bool" where
  "verify_gla getreg gla v =
     (if gla = VIE_INVALID_GLA then True
      else case (if vie_base_register v = VM_REG_LAST then Inr 0 else getreg (vie_base_register v)) of
          Inl _ \<Rightarrow> False
        | Inr base0 \<Rightarrow>
            (case (if vie_index_register v = VM_REG_LAST then Inr 0 else getreg (vie_index_register v)) of
               Inl _ \<Rightarrow> False
             | Inr idx \<Rightarrow>
                 let base = (if vie_base_register v = VM_REG_GUEST_RIP then base0 + of_nat (vie_num_valid v) else base0);
                     gla2 = (base + ucast (vie_scale v) * idx + vie_displacement v) AND size2mask (vie_addrsize v)
                 in gla = gla2))"

text \<open>Sequencing: go on with the structure, or stop with the error or the abort.\<close>

definition andthen :: "vie option option \<Rightarrow> (vie \<Rightarrow> vie option option) \<Rightarrow> vie option option" where
  "andthen r f = (case r of None \<Rightarrow> None | Some None \<Rightarrow> Some None | Some (Some v) \<Rightarrow> f v)"

definition vmm_decode_instruction :: "getreg \<Rightarrow> u64 \<Rightarrow> vm_cpu_mode \<Rightarrow> bool \<Rightarrow> vie \<Rightarrow> vie option option" where
  "vmm_decode_instruction getreg gla cpu_mode cs_d v =
     andthen (Some (decode_prefixes cpu_mode cs_d v)) (\<lambda>v.
     andthen (Some (decode_opcode v)) (\<lambda>v.
     andthen (Some (decode_modrm cpu_mode v)) (\<lambda>v.
     andthen (Some (decode_sib v)) (\<lambda>v.
     andthen (decode_displacement v) (\<lambda>v.
     andthen (decode_immediate v) (\<lambda>v.
     andthen (decode_moffset v) (\<lambda>v.
       if \<not> verify_inst_length v then Some None
       else if op_flags (vie_the_op v) AND VIE_OP_F_NO_GLA_VERIFICATION = 0 \<and> \<not> verify_gla getreg gla v then Some None
       else Some (Some (v\<lparr>vie_decoded := True\<rparr>)))))))))"

subsection \<open>Decoded instructions are well-typed\<close>

definition gprs :: "vm_reg_name set" where
  "gprs = set gpr_map"

definition index_ok :: "vm_reg_name \<Rightarrow> u8 \<Rightarrow> bool" where
  "index_ok r c \<longleftrightarrow> (r = VM_REG_LAST \<and> c = 0) \<or> (r \<in> gprs \<and> c \<in> {1, 2, 4, 8})"

text \<open>What holds of the structure before and after every step.\<close>

definition vie_core :: "vie \<Rightarrow> bool" where
  "vie_core v \<longleftrightarrow> vie_num_processed v \<le> vie_num_valid v \<and> vie_num_valid v \<le> VIE_INST_SIZE \<and> length (vie_inst v) = VIE_INST_SIZE
     \<and> (vie_segment_override v \<longrightarrow> is_data_segment (vie_segment_register v))
     \<and> vie_disp_bytes v \<in> {0, 1, 4} \<and> vie_imm_bytes v \<in> {0, 1, 2, 4} \<and> unat (vie_reg v) < 16
     \<and> vie_base_register v \<in> gprs \<union> {VM_REG_GUEST_RIP, VM_REG_LAST} \<and> index_ok (vie_index_register v) (vie_scale v)"

definition sizes_ok :: "vm_cpu_mode \<Rightarrow> vie \<Rightarrow> bool" where
  "sizes_ok cpu_mode v \<longleftrightarrow> vie_opsize v \<in> {2, 4, 8} \<and> vie_addrsize v \<in> (if cpu_mode = CPU_MODE_64BIT then {4, 8} else {2, 4})"

definition op_ok :: "vie \<Rightarrow> bool" where
  "op_ok v \<longleftrightarrow> op_type (vie_the_op v) \<notin> {VIE_OP_TYPE_NONE, VIE_OP_TYPE_TWO_BYTE}"

text \<open>A step that keeps the core and neither sizes nor opcode.\<close>

definition core_step :: "vie \<Rightarrow> vie \<Rightarrow> bool" where
  "core_step v v' \<longleftrightarrow> (vie_core v \<longrightarrow> vie_core v') \<and> vie_opsize v' = vie_opsize v \<and> vie_addrsize v' = vie_addrsize v \<and> vie_the_op v' = vie_the_op v"

lemma core_step_trans: "core_step a b \<Longrightarrow> core_step b c \<Longrightarrow> core_step a c"
  by (simp add: core_step_def)

lemma core_step_keeps: "core_step v v' \<Longrightarrow> vie_core v \<Longrightarrow> vie_core v'" "core_step v v' \<Longrightarrow> sizes_ok m v' = sizes_ok m v" "core_step v v' \<Longrightarrow> op_ok v' = op_ok v"
  by (simp_all add: core_step_def sizes_ok_def op_ok_def)

lemma core_advance: "vie_core v \<Longrightarrow> vie_peek v = Some x \<Longrightarrow> vie_core (vie_advance v)"
  by (auto simp: vie_core_def vie_advance_def vie_peek_def split: if_splits)

lemma advance_same [simp]: "vie_opsize (vie_advance v) = vie_opsize v" "vie_addrsize (vie_advance v) = vie_addrsize v"
  "vie_the_op (vie_advance v) = vie_the_op v" "vie_disp_bytes (vie_advance v) = vie_disp_bytes v" "vie_imm_bytes (vie_advance v) = vie_imm_bytes v"
  by (simp_all add: vie_advance_def)

lemma core_init: "vie_init bytes = Some v \<Longrightarrow> vie_core v"
  by (auto simp: vie_init_def vie_core_def vie_bzero_def index_ok_def split: if_splits)

text \<open>Fields that the core does not look at, and the updates that keep it.\<close>

lemma core_update [simp]:
  "vie_core (v\<lparr>vie_opsize_override := b\<rparr>) = vie_core v" "vie_core (v\<lparr>vie_addrsize_override := b\<rparr>) = vie_core v"
  "vie_core (v\<lparr>vie_repz_present := b\<rparr>) = vie_core v" "vie_core (v\<lparr>vie_repnz_present := b\<rparr>) = vie_core v"
  "vie_core (v\<lparr>vie_rex_present := b\<rparr>) = vie_core v" "vie_core (v\<lparr>vie_rex_w := b\<rparr>) = vie_core v" "vie_core (v\<lparr>vie_rex_r := b\<rparr>) = vie_core v"
  "vie_core (v\<lparr>vie_rex_x := b\<rparr>) = vie_core v" "vie_core (v\<lparr>vie_rex_b := b\<rparr>) = vie_core v" "vie_core (v\<lparr>vie_opsize := n\<rparr>) = vie_core v"
  "vie_core (v\<lparr>vie_addrsize := n\<rparr>) = vie_core v" "vie_core (v\<lparr>vie_the_op := p\<rparr>) = vie_core v" "vie_core (v\<lparr>vie_mod := w\<rparr>) = vie_core v"
  "vie_core (v\<lparr>vie_rm := w\<rparr>) = vie_core v" "vie_core (v\<lparr>vie_ss := w\<rparr>) = vie_core v" "vie_core (v\<lparr>vie_index := w\<rparr>) = vie_core v"
  "vie_core (v\<lparr>vie_base := w\<rparr>) = vie_core v" "vie_core (v\<lparr>vie_displacement := q\<rparr>) = vie_core v" "vie_core (v\<lparr>vie_immediate := q\<rparr>) = vie_core v"
  "vie_core (v\<lparr>vie_decoded := b\<rparr>) = vie_core v"
  by (simp_all add: vie_core_def)

lemma core_set:
  "vie_core v \<Longrightarrow> is_data_segment seg \<Longrightarrow> vie_core (v\<lparr>vie_segment_register := seg, vie_segment_override := True\<rparr>)"
  "vie_core v \<Longrightarrow> d \<in> {0, 1, 4} \<Longrightarrow> vie_core (v\<lparr>vie_disp_bytes := d\<rparr>)"
  "vie_core v \<Longrightarrow> m \<in> {0, 1, 2, 4} \<Longrightarrow> vie_core (v\<lparr>vie_imm_bytes := m\<rparr>)"
  "vie_core v \<Longrightarrow> unat w < 16 \<Longrightarrow> vie_core (v\<lparr>vie_reg := w\<rparr>)"
  "vie_core v \<Longrightarrow> r \<in> gprs \<union> {VM_REG_GUEST_RIP, VM_REG_LAST} \<Longrightarrow> vie_core (v\<lparr>vie_base_register := r\<rparr>)"
  "vie_core v \<Longrightarrow> r \<in> gprs \<Longrightarrow> c \<in> {1, 2, 4, 8} \<Longrightarrow> vie_core (v\<lparr>vie_index_register := r, vie_scale := c\<rparr>)"
  subgoal by (simp add: vie_core_def)
  subgoal by (simp add: vie_core_def)
  subgoal by (simp add: vie_core_def)
  subgoal by (simp add: vie_core_def)
  subgoal by (simp add: vie_core_def)
  subgoal by (simp add: vie_core_def index_ok_def)
  done

lemma peek_update [simp]:
  "vie_peek (v\<lparr>vie_opsize_override := b\<rparr>) = vie_peek v" "vie_peek (v\<lparr>vie_addrsize_override := b\<rparr>) = vie_peek v"
  "vie_peek (v\<lparr>vie_repz_present := b\<rparr>) = vie_peek v" "vie_peek (v\<lparr>vie_repnz_present := b\<rparr>) = vie_peek v"
  "vie_peek (v\<lparr>vie_rex_present := b\<rparr>) = vie_peek v" "vie_peek (v\<lparr>vie_rex_w := b\<rparr>) = vie_peek v" "vie_peek (v\<lparr>vie_rex_r := b\<rparr>) = vie_peek v"
  "vie_peek (v\<lparr>vie_rex_x := b\<rparr>) = vie_peek v" "vie_peek (v\<lparr>vie_rex_b := b\<rparr>) = vie_peek v" "vie_peek (v\<lparr>vie_opsize := n\<rparr>) = vie_peek v"
  "vie_peek (v\<lparr>vie_addrsize := n\<rparr>) = vie_peek v" "vie_peek (v\<lparr>vie_the_op := p\<rparr>) = vie_peek v" "vie_peek (v\<lparr>vie_mod := w\<rparr>) = vie_peek v"
  "vie_peek (v\<lparr>vie_reg := w\<rparr>) = vie_peek v" "vie_peek (v\<lparr>vie_rm := w\<rparr>) = vie_peek v" "vie_peek (v\<lparr>vie_ss := w\<rparr>) = vie_peek v"
  "vie_peek (v\<lparr>vie_index := w\<rparr>) = vie_peek v" "vie_peek (v\<lparr>vie_base := w\<rparr>) = vie_peek v" "vie_peek (v\<lparr>vie_disp_bytes := d\<rparr>) = vie_peek v"
  "vie_peek (v\<lparr>vie_imm_bytes := d\<rparr>) = vie_peek v" "vie_peek (v\<lparr>vie_scale := w\<rparr>) = vie_peek v" "vie_peek (v\<lparr>vie_base_register := r\<rparr>) = vie_peek v"
  "vie_peek (v\<lparr>vie_index_register := r\<rparr>) = vie_peek v" "vie_peek (v\<lparr>vie_segment_register := r\<rparr>) = vie_peek v"
  "vie_peek (v\<lparr>vie_segment_override := b\<rparr>) = vie_peek v"
  by (simp_all add: vie_peek_def)

lemma core_note_prefix: "vie_core v \<Longrightarrow> note_prefix x v = Some v' \<Longrightarrow> vie_core v'"
  by (auto simp: note_prefix_def segment_override_def is_data_segment_def intro!: core_set(1) split: if_splits)

lemma peek_note_prefix: "note_prefix x v = Some v' \<Longrightarrow> vie_peek v' = vie_peek v"
  by (auto simp: note_prefix_def split: if_splits)

lemma core_prefix_loop: "vie_core v \<Longrightarrow> prefix_loop v = Some (x, v') \<Longrightarrow> vie_core v' \<and> vie_peek v' = Some x"
proof (induction v rule: prefix_loop.induct)
  case (1 v)
  from 1(3) obtain y where y: "vie_peek v = Some y" by (subst (asm) prefix_loop.simps) (auto split: option.splits)
  show ?case
  proof (cases "note_prefix y v")
    case None
    then show ?thesis using 1(2,3) y by (subst (asm) prefix_loop.simps) simp
  next
    case (Some w)
    then have "vie_core (vie_advance w)" using core_advance [OF core_note_prefix [OF 1(2) Some]] peek_note_prefix [OF Some] y by simp
    moreover have "prefix_loop (vie_advance w) = Some (x, v')" using 1(3) y Some by (subst (asm) prefix_loop.simps) simp
    ultimately show ?thesis using 1(1) [OF y Some] by blast
  qed
qed

lemma core_prefixes:
  assumes "vie_core v" and "decode_prefixes cpu_mode cs_d v = Some v'"
  shows "vie_core v'" and "sizes_ok cpu_mode v'"
proof -
  obtain x w where w: "prefix_loop v = Some (x, w)" "v' = note_sizes cpu_mode cs_d (note_rex cpu_mode x w)"
    using assms(2) by (auto simp: decode_prefixes_def)
  have c: "vie_core w" "vie_peek w = Some x" using core_prefix_loop [OF assms(1) w(1)] by auto
  then have "vie_core (note_rex cpu_mode x w)"
    by (auto simp: note_rex_def intro!: core_advance [of _ x])
  then show "vie_core v'" unfolding w(2) by (auto simp: note_sizes_def)
  show "sizes_ok cpu_mode v'" unfolding w(2) by (simp add: sizes_ok_def note_sizes_def)
qed

lemma core_opcode:
  assumes "vie_core v" and "decode_opcode v = Some v'"
  shows "vie_core v'" and "op_ok v'" and "vie_opsize v' = vie_opsize v" "vie_addrsize v' = vie_addrsize v"
proof -
  have two: "op_type (two_byte_opcodes x) \<noteq> VIE_OP_TYPE_TWO_BYTE" for x by (simp add: two_byte_opcodes_def)
  have adv: "vie_core (vie_advance (w\<lparr>vie_the_op := p\<rparr>))" if "vie_core w" "vie_peek w = Some x" for w p x
    using that by (intro core_advance [of _ x]) simp_all
  show "vie_core v'" "op_ok v'" "vie_opsize v' = vie_opsize v" "vie_addrsize v' = vie_addrsize v"
    using assms adv two
    by (auto simp: decode_opcode_def decode_two_byte_opcode_def op_ok_def Let_def split: Option.bind_splits if_splits)
qed

lemma reg_number: "unat ((x AND 7) OR rex_bit b) < 16" "unat (x AND 7 :: u8) < 16" "unat (x AND 3 :: u8) < 4"
proof -
  have "unat (x AND 7) \<le> 7" using word_and_le1 [of x 7] by (simp add: word_le_nat_alt)
  then have "unat (x AND 7) \<in> {0, 1, 2, 3, 4, 5, 6, 7}" by auto
  then have "x AND 7 \<in> {0, 1, 2, 3, 4, 5, 6, 7}" by (auto simp: word_unat_eq_iff)
  then show "unat ((x AND 7) OR rex_bit b) < 16" by (auto simp: rex_bit_def)
  show "unat (x AND 7) < 16" "unat (x AND 3) < 4"
    using word_and_le1 [of x 7] word_and_le1 [of x 3] by (simp_all add: word_le_nat_alt)
qed

lemma gpr_map_gprs: "n < 16 \<Longrightarrow> gpr_map ! n \<in> gprs"
  unfolding gprs_def by (rule nth_mem) (simp add: gpr_map_def)

lemma gprs_not [simp]: "VM_REG_LAST \<notin> gprs" "VM_REG_GUEST_RIP \<notin> gprs"
  by (simp_all add: gprs_def gpr_map_def)

lemma core_modrm: "decode_modrm cpu_mode v = Some v' \<Longrightarrow> core_step v v'"
proof -
  assume d: "decode_modrm cpu_mode v = Some v'"
  have addr: "vie_core (modrm_address m w)" if "vie_core w" "unat (vie_rm w) < 16" for m w
    using that by (auto simp: modrm_address_def Let_def gpr_map_gprs intro!: core_set(2,5))
  have same: "vie_opsize (modrm_address m w) = vie_opsize w" "vie_addrsize (modrm_address m w) = vie_addrsize w"
    "vie_the_op (modrm_address m w) = vie_the_op w" "vie_peek (modrm_address m w) = vie_peek w" for m w
    by (auto simp: modrm_address_def Let_def)
  show ?thesis
  proof (cases "op_flags (vie_the_op v) AND VIE_OP_F_NO_MODRM \<noteq> 0")
    case True
    then show ?thesis using d by (simp add: decode_modrm_def core_step_def)
  next
    case False
    obtain x w where x: "vie_peek v = Some x" "v' = vie_advance (if vie_rm w = 4 then w else modrm_address cpu_mode w)"
      "w = v\<lparr>vie_mod := drop_bit 6 x AND 3,
                       vie_rm := (if (drop_bit 6 x AND 3 = 0 \<and> x AND 7 = 5) \<or> x AND 7 = 4 then x AND 7 else (x AND 7) OR rex_bit (vie_rex_b v)),
                       vie_reg := (drop_bit 3 x AND 7) OR rex_bit (vie_rex_r v)\<rparr>"
      using d False by (auto simp: decode_modrm_def Let_def split: Option.bind_splits if_splits)
    have "vie_core w" if "vie_core v" unfolding x(3) using that reg_number(1) by (intro core_set(4)) simp_all
    moreover have "unat (vie_rm w) < 16" "vie_peek w = Some x" using reg_number x(1,3) by simp_all
    ultimately have "vie_core v'" if "vie_core v" unfolding x(2) using that addr same(4) by (intro core_advance [of _ x]) auto
    moreover have "vie_opsize w = vie_opsize v" "vie_addrsize w = vie_addrsize v" "vie_the_op w = vie_the_op v" by (simp_all add: x(3))
    ultimately show ?thesis using x(2) same by (simp add: core_step_def)
  qed
qed

lemma core_scale: "vie_core v \<Longrightarrow> vie_index_register v \<noteq> VM_REG_LAST \<Longrightarrow> c \<in> {1, 2, 4, 8} \<Longrightarrow> vie_core (v\<lparr>vie_scale := c\<rparr>)"
  by (simp add: vie_core_def index_ok_def)

lemma push_scale: "push_bit (unat (x AND 3 :: u8)) (1 :: u8) \<in> {1, 2, 4, 8}"
proof -
  have "unat (x AND 3) \<in> {0, 1, 2, 3}" using reg_number(3) [of x] by auto
  then show ?thesis by (auto simp: push_bit_eq_mult)
qed

lemma sib_same [simp]:
  "vie_opsize (sib_fields x v) = vie_opsize v" "vie_addrsize (sib_fields x v) = vie_addrsize v" "vie_the_op (sib_fields x v) = vie_the_op v"
  "vie_opsize (sib_disp v) = vie_opsize v" "vie_addrsize (sib_disp v) = vie_addrsize v" "vie_the_op (sib_disp v) = vie_the_op v"
  "vie_opsize (sib_base v) = vie_opsize v" "vie_addrsize (sib_base v) = vie_addrsize v" "vie_the_op (sib_base v) = vie_the_op v"
  "vie_opsize (sib_index v) = vie_opsize v" "vie_addrsize (sib_index v) = vie_addrsize v" "vie_the_op (sib_index v) = vie_the_op v"
  "vie_peek (sib_fields x v) = vie_peek v" "vie_peek (sib_disp v) = vie_peek v" "vie_peek (sib_base v) = vie_peek v" "vie_peek (sib_index v) = vie_peek v"
  by (simp_all add: sib_fields_def sib_disp_def sib_base_def sib_index_def Let_def)

lemma sib_base_same [simp]: "vie_index (sib_base v) = vie_index v" "vie_ss (sib_base v) = vie_ss v"
  by (simp_all add: sib_base_def)

lemma core_sib_base: "vie_core v \<Longrightarrow> unat (vie_base v) < 16 \<Longrightarrow> vie_core (sib_base v)"
  by (auto simp: sib_base_def gpr_map_gprs intro!: core_set(2,5))

lemma core_sib_index:
  assumes "vie_core v" and "unat (vie_index v) < 16" and "\<exists>y. vie_ss v = y AND 3"
  shows "vie_core (sib_index v)"
proof (cases "vie_index v = 4")
  case True
  then show ?thesis using assms push_scale core_scale [OF assms(1)] by (auto simp: sib_index_def simp del: insert_iff)
next
  case False
  have "gpr_map ! unat (vie_index v) \<in> gprs" using assms(2) by (rule gpr_map_gprs)
  moreover from this have "gpr_map ! unat (vie_index v) \<noteq> VM_REG_LAST" by auto
  ultimately show ?thesis using False assms push_scale core_set(6) [OF assms(1)] by (auto simp: sib_index_def simp del: insert_iff)
qed

lemma core_sib: "decode_sib v = Some v' \<Longrightarrow> core_step v v'"
proof -
  assume d: "decode_sib v = Some v'"
  show ?thesis
  proof (cases "vie_mod v = 3 \<or> vie_rm v \<noteq> 4")
    case True
    then show ?thesis using d by (simp add: decode_sib_def core_step_def)
  next
    case False
    then obtain x where x: "vie_peek v = Some x" using d by (auto simp: decode_sib_def split: Option.bind_splits)
    let ?w = "sib_disp (sib_fields x v)"
    have w: "unat (vie_index ?w) < 16" "unat (vie_base ?w) < 16" "\<exists>y. vie_ss ?w = y AND 3"
      using reg_number(1) by (auto simp: sib_disp_def sib_fields_def)
    have c: "vie_core ?w" if "vie_core v" using that by (auto simp: sib_disp_def sib_fields_def intro!: core_set(2))
    have "vie_core (sib_index (sib_base ?w))" if "vie_core v"
      using that c w core_sib_base core_sib_index sib_base_same by metis
    moreover have "vie_peek (sib_index (sib_base ?w)) = Some x" using x by simp
    moreover have "v' = vie_advance (sib_index (sib_base ?w))" using d False x by (simp add: decode_sib_def)
    ultimately show ?thesis by (simp add: core_step_def core_advance)
  qed
qed

lemma core_fetch: "fetch_bytes n v = Some (xs, v') \<Longrightarrow> core_step v v' \<and> length xs = n"
proof (induction n arbitrary: v xs)
  case (Suc n)
  then obtain x ys where "vie_peek v = Some x" "fetch_bytes n (vie_advance v) = Some (ys, v')" "xs = x # ys"
    by (auto split: Option.bind_splits)
  moreover from this have "core_step v (vie_advance v)" by (simp add: core_step_def core_advance)
  ultimately show ?case using Suc.IH core_step_trans by fastforce
qed (simp add: core_step_def)

lemma core_displacement:
  "vie_core v \<Longrightarrow> \<exists>r. decode_displacement v = Some r" "decode_displacement v = Some (Some v') \<Longrightarrow> core_step v v'"
  by (auto simp: decode_displacement_def vie_core_def Let_def)
    (auto simp: decode_displacement_def Let_def core_step_def dest!: core_fetch split: if_splits)

lemma core_immediate:
  assumes "vie_core v"
  shows "\<exists>r. decode_immediate v = Some r" and "decode_immediate v = Some (Some v') \<Longrightarrow> core_step v v'"
proof -
  define v1 where "v1 = (let flags = op_flags (vie_the_op v) in
     if flags AND VIE_OP_F_IMM \<noteq> 0 then v\<lparr>vie_imm_bytes := (if vie_opsize v = 4 \<or> vie_opsize v = 8 then 4 else 2)\<rparr>
     else if flags AND VIE_OP_F_IMM8 \<noteq> 0 then v\<lparr>vie_imm_bytes := 1\<rparr> else v)"
  have c: "vie_core v1" using assms by (auto simp: v1_def Let_def intro!: core_set(3))
  then have n: "vie_imm_bytes v1 \<in> {0, 1, 2, 4}" by (simp add: vie_core_def)
  have s: "core_step v v1" using c by (simp add: core_step_def v1_def Let_def)
  have d: "decode_immediate v = (if vie_imm_bytes v1 = 0 then Some (Some v1)
      else Some (map_option (\<lambda>(xs, v'). v'\<lparr>vie_immediate := sign_extend (vie_imm_bytes v1) (le_bytes xs)\<rparr>) (fetch_bytes (vie_imm_bytes v1) v1)))"
    using n unfolding decode_immediate_def v1_def [unfolded Let_def, symmetric] Let_def by auto
  show "\<exists>r. decode_immediate v = Some r" by (simp add: d)
  have up: "core_step w (w\<lparr>vie_immediate := x\<rparr>)" for w x by (simp add: core_step_def)
  show "core_step v v'" if "decode_immediate v = Some (Some v')"
    using that s unfolding d by (auto split: if_splits dest!: core_fetch intro: core_step_trans [OF core_step_trans [OF s] up])
qed

lemma core_moffset:
  "sizes_ok m v \<Longrightarrow> \<exists>r. decode_moffset v = Some r" "decode_moffset v = Some (Some v') \<Longrightarrow> core_step v v'"
  by (auto simp: decode_moffset_def sizes_ok_def split: if_splits)
    (auto simp: decode_moffset_def core_step_def dest!: core_fetch split: if_splits)

lemma decode_typed:
  assumes "vie_init bytes = Some v"
  shows "\<exists>r. vmm_decode_instruction getreg gla cpu_mode cs_d v = Some r
     \<and> (\<forall>v'. r = Some v' \<longrightarrow> vie_decoded v' \<and> vie_core v' \<and> sizes_ok cpu_mode v' \<and> op_ok v')"
proof -
  note keep = core_step_keeps
  define last where "last = (\<lambda>v. if \<not> verify_inst_length v then Some None
       else if op_flags (vie_the_op v) AND VIE_OP_F_NO_GLA_VERIFICATION = 0 \<and> \<not> verify_gla getreg gla v then Some None
       else Some (Some (v\<lparr>vie_decoded := True\<rparr>)))"
  let ?good = "\<lambda>v. vie_core v \<and> sizes_ok cpu_mode v \<and> op_ok v"
  let ?done = "\<lambda>x. \<exists>r. x = Some r \<and> (\<forall>v'. r = Some v' \<longrightarrow> vie_decoded v' \<and> ?good v')"
  have l: "?done (last v)" if "?good v" for v using that by (auto simp: last_def sizes_ok_def op_ok_def)
  have step: "?done (andthen (f v) g)" if good: "?good v" and total: "\<exists>r. f v = Some r"
    and stp: "\<And>v'. f v = Some (Some v') \<Longrightarrow> core_step v v'" and rest: "\<And>w. ?good w \<Longrightarrow> ?done (g w)" for v f g
  proof -
    obtain r where r: "f v = Some r" using total by blast
    show ?thesis
    proof (cases r)
      case (Some w)
      then have "?good w" using good stp [of w] keep [of v w] r by simp
      then show ?thesis using rest [of w] r Some by (simp add: andthen_def)
    qed (simp add: r andthen_def)
  qed
  have m: "?done (andthen (decode_moffset v) last)" if "?good v" for v
    by (rule step [OF that]) (use that l core_moffset in blast)+
  have i: "?done (andthen (decode_immediate v) (\<lambda>v. andthen (decode_moffset v) last))" if "?good v" for v
    by (rule step [OF that]) (use that m core_immediate in blast)+
  have d: "?done (andthen (decode_displacement v) (\<lambda>v. andthen (decode_immediate v) (\<lambda>v. andthen (decode_moffset v) last)))" if "?good v" for v
    by (rule step [OF that]) (use that i core_displacement in blast)+
  have sb: "?done (andthen (Some (decode_sib v)) (\<lambda>v. andthen (decode_displacement v) (\<lambda>v. andthen (decode_immediate v) (\<lambda>v. andthen (decode_moffset v) last))))"
    if "?good v" for v
    by (rule step [OF that]) (use that d core_sib in \<open>blast, auto\<close>)
  have mr: "?done (andthen (Some (decode_modrm cpu_mode v)) (\<lambda>v. andthen (Some (decode_sib v)) (\<lambda>v. andthen (decode_displacement v) (\<lambda>v. andthen (decode_immediate v)
      (\<lambda>v. andthen (decode_moffset v) last)))))" if "?good v" for v
    by (rule step [OF that]) (use that sb core_modrm in \<open>blast, auto\<close>)
  have c: "vie_core v" using core_init [OF assms] .
  show ?thesis
  proof (cases "decode_prefixes cpu_mode cs_d v")
    case None
    then show ?thesis by (simp add: vmm_decode_instruction_def andthen_def)
  next
    case (Some w)
    note w = core_prefixes [OF c Some]
    show ?thesis
    proof (cases "decode_opcode w")
      case None
      then show ?thesis using Some by (simp add: vmm_decode_instruction_def andthen_def)
    next
      case (Some u)
      note u = core_opcode [OF w(1) Some]
      have "?good u" using u w(2) by (simp add: sizes_ok_def)
      from mr [OF this] show ?thesis
        using Some \<open>decode_prefixes cpu_mode cs_d v = Some w\<close> unfolding vmm_decode_instruction_def last_def by (simp add: andthen_def)
    qed
  qed
qed



end
