(* ===== verification/Vie_Asm.thy ===== *)
theory Vie_Asm
  imports Vie_Decode
begin

text \<open>
  An assembler for the memory operands of 64-bit mode, written from the encoding rules of the architecture, as the reference for the decoder:
  an instruction is a list of legacy prefixes, an optional REX prefix, an opcode, a register, a memory operand and an
  immediate operand. Decoding what the assembler produces gives the instruction back, and the address that the decoder checks is the
  effective address of the operand.
\<close>

datatype disp = NoDisp | Disp8 u8 | Disp32 u32

datatype memop =
    RipRel u32
  | Mem nat disp
  | Sib "nat option" "nat option" nat disp

record insn =
  in_prefixes :: "u8 list"
  in_w :: bool
  in_rex :: bool
  in_opcode :: "u8 list"
  in_reg :: nat
  in_mem :: memop
  in_imm :: "u8 list"

definition le32 :: "u32 \<Rightarrow> u8 list" where
  "le32 w = [ucast w, ucast (drop_bit 8 w), ucast (drop_bit 16 w), ucast (drop_bit 24 w)]"

fun disp_field :: "disp \<Rightarrow> u8 list" where
  "disp_field NoDisp = []"
| "disp_field (Disp8 b) = [b]"
| "disp_field (Disp32 w) = le32 w"

fun mod_field :: "disp \<Rightarrow> nat" where
  "mod_field NoDisp = 0"
| "mod_field (Disp8 b) = 1"
| "mod_field (Disp32 w) = 2"

definition pack :: "nat \<Rightarrow> nat \<Rightarrow> nat \<Rightarrow> u8" where
  "pack a b c = of_nat (64 * a + 8 * b + c)"

text \<open>ModRM, SIB and displacement.\<close>

fun mem_field :: "nat \<Rightarrow> memop \<Rightarrow> u8 list" where
  "mem_field r (RipRel w) = pack 0 r 5 # le32 w"
| "mem_field r (Mem b d) = pack (mod_field d) r (b mod 8) # disp_field d"
| "mem_field r (Sib None i s d) = [pack 0 r 4, pack s (case i of None \<Rightarrow> 4 | Some n \<Rightarrow> n mod 8) 5] @ disp_field d"
| "mem_field r (Sib (Some b) i s d) = [pack (mod_field d) r 4, pack s (case i of None \<Rightarrow> 4 | Some n \<Rightarrow> n mod 8) (b mod 8)] @ disp_field d"

text \<open>Forms that exist: a base of 4 modulo 8 needs a SIB byte, a base of 5 modulo 8 needs a displacement, register 4 is no index.\<close>

fun mem_valid :: "memop \<Rightarrow> bool" where
  "mem_valid (RipRel w) = True"
| "mem_valid (Mem b d) = (b < 16 \<and> b mod 8 \<noteq> 4 \<and> (d = NoDisp \<longrightarrow> b mod 8 \<noteq> 5))"
| "mem_valid (Sib None i s d) = (pred_option (\<lambda>n. n < 16 \<and> n \<noteq> 4) i \<and> s < 4 \<and> (\<exists>w. d = Disp32 w))"
| "mem_valid (Sib (Some b) i s d) = (pred_option (\<lambda>n. n < 16 \<and> n \<noteq> 4) i \<and> s < 4 \<and> b < 16 \<and> (d = NoDisp \<longrightarrow> b mod 8 \<noteq> 5))"

fun mem_base :: "memop \<Rightarrow> vm_reg_name" where
  "mem_base (RipRel w) = VM_REG_GUEST_RIP"
| "mem_base (Mem b d) = gpr_map ! b"
| "mem_base (Sib None i s d) = VM_REG_LAST"
| "mem_base (Sib (Some b) i s d) = gpr_map ! b"

fun mem_index :: "memop \<Rightarrow> vm_reg_name" where
  "mem_index (Sib b (Some n) s d) = gpr_map ! n"
| "mem_index _ = VM_REG_LAST"

fun mem_scale :: "memop \<Rightarrow> u8" where
  "mem_scale (Sib b (Some n) s d) = 2 ^ s"
| "mem_scale _ = 0"

fun disp_value :: "disp \<Rightarrow> u64" where
  "disp_value NoDisp = 0"
| "disp_value (Disp8 b) = scast b"
| "disp_value (Disp32 w) = scast w"

fun mem_disp :: "memop \<Rightarrow> u64" where
  "mem_disp (RipRel w) = scast w"
| "mem_disp (Mem b d) = disp_value d"
| "mem_disp (Sib b i s d) = disp_value d"

text \<open>The bits of a REX prefix that the operand needs.\<close>

fun rex_x :: "memop \<Rightarrow> bool" where
  "rex_x (Sib b (Some n) s d) = (n \<ge> 8)"
| "rex_x _ = False"

fun rex_b :: "memop \<Rightarrow> bool" where
  "rex_b (Mem b d) = (b \<ge> 8)"
| "rex_b (Sib (Some b) i s d) = (b \<ge> 8)"
| "rex_b _ = False"

definition rex_byte :: "bool \<Rightarrow> bool \<Rightarrow> bool \<Rightarrow> bool \<Rightarrow> u8" where
  "rex_byte w r x b = 0x40 OR (if w then 8 else 0) OR (if r then 4 else 0) OR (if x then 2 else 0) OR (if b then 1 else 0)"

definition legacy_prefix :: "u8 \<Rightarrow> bool" where
  "legacy_prefix p \<longleftrightarrow> p \<in> {0x66, 0x67, 0xF2, 0xF3, 0x2E, 0x36, 0x3E, 0x26, 0x64, 0x65}"

text \<open>The entry of the opcode tables, and what follows from it for the rest of the instruction.\<close>

definition insn_op :: "insn \<Rightarrow> vie_op" where
  "insn_op i = (case in_opcode i of [x] \<Rightarrow> one_byte_opcodes x | [y, x] \<Rightarrow> two_byte_opcodes x | _ \<Rightarrow> \<lparr>op_byte = 0, op_type = VIE_OP_TYPE_NONE, op_flags = 0\<rparr>)"

definition insn_opsize :: "insn \<Rightarrow> int" where
  "insn_opsize i = (if in_w i then 8 else if 0x66 \<in> set (in_prefixes i) then 2 else 4)"

definition imm_length :: "insn \<Rightarrow> nat" where
  "imm_length i = (if op_flags (insn_op i) AND VIE_OP_F_IMM \<noteq> 0 then if insn_opsize i = 2 then 2 else 4
     else if op_flags (insn_op i) AND VIE_OP_F_IMM8 \<noteq> 0 then 1 else 0)"

definition insn_valid :: "insn \<Rightarrow> bool" where
  "insn_valid i \<longleftrightarrow> list_all legacy_prefix (in_prefixes i) \<and> in_reg i < 16 \<and> mem_valid (in_mem i)
     \<and> (in_w i \<or> in_reg i \<ge> 8 \<or> rex_x (in_mem i) \<or> rex_b (in_mem i) \<longrightarrow> in_rex i)
     \<and> ((\<exists>x. in_opcode i = [x] \<and> x \<noteq> 0x0F) \<or> (\<exists>x. in_opcode i = [0x0F, x])) \<and> op_type (insn_op i) \<noteq> VIE_OP_TYPE_NONE
     \<and> op_flags (insn_op i) AND VIE_OP_F_NO_MODRM = 0 \<and> length (in_imm i) = imm_length i"

definition assemble :: "insn \<Rightarrow> u8 list" where
  "assemble i = in_prefixes i @ (if in_rex i then [rex_byte (in_w i) (in_reg i \<ge> 8) (rex_x (in_mem i)) (rex_b (in_mem i))] else [])
     @ in_opcode i @ mem_field (in_reg i mod 8) (in_mem i) @ in_imm i"

text \<open>The effective address, for registers \<open>regs\<close>; \<open>next\<close> is the address of the next instruction.\<close>

definition effective_address :: "(vm_reg_name \<Rightarrow> u64) \<Rightarrow> u64 \<Rightarrow> memop \<Rightarrow> u64" where
  "effective_address regs next mo =
     (case mo of RipRel w \<Rightarrow> next + scast w
      | _ \<Rightarrow> (if mem_base mo = VM_REG_LAST then 0 else regs (mem_base mo))
             + (if mem_index mo = VM_REG_LAST then 0 else ucast (mem_scale mo) * regs (mem_index mo)) + mem_disp mo)"

subsection \<open>Reading the bytes one by one\<close>

text \<open>The bytes \<open>xs\<close> are what is left to decode.\<close>

definition ready :: "vie \<Rightarrow> u8 list \<Rightarrow> bool" where
  "ready v xs \<longleftrightarrow> xs = drop (vie_num_processed v) (take (vie_num_valid v) (vie_inst v)) \<and> length (vie_inst v) = VIE_INST_SIZE
     \<and> vie_num_valid v \<le> VIE_INST_SIZE \<and> vie_num_processed v \<le> vie_num_valid v"

lemma ready_update [simp]:
  "ready (v\<lparr>vie_opsize_override := b\<rparr>) xs = ready v xs" "ready (v\<lparr>vie_addrsize_override := b\<rparr>) xs = ready v xs"
  "ready (v\<lparr>vie_repz_present := b\<rparr>) xs = ready v xs" "ready (v\<lparr>vie_repnz_present := b\<rparr>) xs = ready v xs"
  "ready (v\<lparr>vie_rex_present := b\<rparr>) xs = ready v xs" "ready (v\<lparr>vie_rex_w := b\<rparr>) xs = ready v xs"
  "ready (v\<lparr>vie_rex_r := b\<rparr>) xs = ready v xs" "ready (v\<lparr>vie_rex_x := b\<rparr>) xs = ready v xs"
  "ready (v\<lparr>vie_rex_b := b\<rparr>) xs = ready v xs" "ready (v\<lparr>vie_opsize := n\<rparr>) xs = ready v xs"
  "ready (v\<lparr>vie_addrsize := n\<rparr>) xs = ready v xs" "ready (v\<lparr>vie_the_op := p\<rparr>) xs = ready v xs"
  "ready (v\<lparr>vie_mod := w\<rparr>) xs = ready v xs" "ready (v\<lparr>vie_reg := w\<rparr>) xs = ready v xs"
  "ready (v\<lparr>vie_rm := w\<rparr>) xs = ready v xs" "ready (v\<lparr>vie_ss := w\<rparr>) xs = ready v xs"
  "ready (v\<lparr>vie_index := w\<rparr>) xs = ready v xs" "ready (v\<lparr>vie_base := w\<rparr>) xs = ready v xs"
  "ready (v\<lparr>vie_disp_bytes := d\<rparr>) xs = ready v xs" "ready (v\<lparr>vie_imm_bytes := d\<rparr>) xs = ready v xs"
  "ready (v\<lparr>vie_scale := w\<rparr>) xs = ready v xs" "ready (v\<lparr>vie_base_register := r\<rparr>) xs = ready v xs"
  "ready (v\<lparr>vie_index_register := r\<rparr>) xs = ready v xs" "ready (v\<lparr>vie_segment_register := r\<rparr>) xs = ready v xs"
  "ready (v\<lparr>vie_segment_override := b\<rparr>) xs = ready v xs" "ready (v\<lparr>vie_displacement := q\<rparr>) xs = ready v xs"
  "ready (v\<lparr>vie_immediate := q\<rparr>) xs = ready v xs"
  by (simp_all add: ready_def)

lemma ready_peek:
  assumes "ready v (x # xs)"
  shows "vie_peek v = Some x" and "ready (vie_advance v) xs"
proof -
  let ?l = "take (vie_num_valid v) (vie_inst v)"
  have l: "x # xs = drop (vie_num_processed v) ?l" "length ?l = vie_num_valid v" using assms by (simp_all add: ready_def)
  then have lt: "vie_num_processed v < vie_num_valid v" by (metis drop_all list.distinct(1) not_le)
  then have "drop (vie_num_processed v) ?l = ?l ! vie_num_processed v # drop (Suc (vie_num_processed v)) ?l" using l(2) Cons_nth_drop_Suc by metis
  then have "x = ?l ! vie_num_processed v" "xs = drop (Suc (vie_num_processed v)) ?l" using l(1) by simp_all
  then show "vie_peek v = Some x" "ready (vie_advance v) xs" using lt assms by (simp_all add: vie_peek_def ready_def vie_advance_def)
qed

lemma ready_init: "vie_init bytes = Some v \<Longrightarrow> ready v bytes"
  by (auto simp: vie_init_def ready_def vie_bzero_def split: if_splits)

lemma ready_fetch: "ready v (xs @ ys) \<Longrightarrow> \<exists>v'. fetch_bytes (length xs) v = Some (xs, v') \<and> ready v' ys \<and> v' = v\<lparr>vie_num_processed := vie_num_processed v'\<rparr>"
proof (induction xs arbitrary: v)
  case (Cons x xs)
  have p: "vie_peek v = Some x" "ready (vie_advance v) (xs @ ys)" using ready_peek [of v x "xs @ ys"] Cons.prems by simp_all
  then obtain v' where "fetch_bytes (length xs) (vie_advance v) = Some (xs, v')" "ready v' ys" "v' = (vie_advance v)\<lparr>vie_num_processed := vie_num_processed v'\<rparr>"
    using Cons.IH by blast
  then show ?case using p(1) by (auto simp: vie_advance_def)
qed simp

subsection \<open>The memory operand\<close>

text \<open>What decoding the operand leaves alone.\<close>

definition kept :: "vie \<Rightarrow> int \<times> int \<times> vie_op \<times> nat \<times> nat \<times> u64 \<times> bool \<times> bool \<times> bool \<times> vm_reg_name" where
  "kept v = (vie_opsize v, vie_addrsize v, vie_the_op v, vie_imm_bytes v, vie_num_valid v, vie_immediate v, vie_repz_present v, vie_repnz_present v, vie_segment_override v, vie_segment_register v)"

lemma kept_update [simp]:
  "kept (v\<lparr>vie_mod := w\<rparr>) = kept v" "kept (v\<lparr>vie_reg := w\<rparr>) = kept v" "kept (v\<lparr>vie_rm := w\<rparr>) = kept v"
  "kept (v\<lparr>vie_ss := w\<rparr>) = kept v" "kept (v\<lparr>vie_index := w\<rparr>) = kept v" "kept (v\<lparr>vie_base := w\<rparr>) = kept v"
  "kept (v\<lparr>vie_disp_bytes := d\<rparr>) = kept v" "kept (v\<lparr>vie_scale := w\<rparr>) = kept v" "kept (v\<lparr>vie_base_register := r\<rparr>) = kept v"
  "kept (v\<lparr>vie_index_register := r\<rparr>) = kept v" "kept (v\<lparr>vie_displacement := q\<rparr>) = kept v"
  "kept (vie_advance v) = kept v" "kept (v\<lparr>vie_num_processed := m\<rparr>) = kept v"
  by (simp_all add: kept_def vie_advance_def)

lemma unat_pack: "a < 4 \<Longrightarrow> b < 8 \<Longrightarrow> c < 8 \<Longrightarrow> unat (pack a b c) = 64 * a + 8 * b + c"
  unfolding pack_def unat_of_nat by simp

lemma pack_fields:
  assumes "a < 4" and "b < 8" and "c < 8"
  shows "drop_bit 6 (pack a b c) AND 3 = of_nat a" "drop_bit 3 (pack a b c) AND 7 = of_nat b" "pack a b c AND 7 = of_nat c"
proof -
  have m: "(w :: u8) AND 3 = take_bit 2 w" "w AND 7 = take_bit 3 w" for w by (simp_all add: take_bit_eq_mask mask_eq_exp_minus_1)
  have u: "unat (take_bit n w) = unat w mod 2 ^ n" for n and w :: u8 unfolding unsigned_take_bit_eq by (rule take_bit_eq_mod)
  have d: "(64 * a + 8 * b + c) div 64 mod 4 = a" "(64 * a + 8 * b + c) div 8 mod 8 = b" "(64 * a + 8 * b + c) mod 8 = c"
  proof -
    have e: "64 * a + 8 * b + c = 8 * (8 * a + b) + c" by simp
    have q: "(8 * (8 * a + b) + c) div 8 = 8 * a + b" using assms(3) by simp
    have "(8 * a + b) div 8 = a" using assms(2) by simp
    then have "(8 * (8 * a + b) + c) div 64 = a" using q div_mult2_eq [of "8 * (8 * a + b) + c" 8 8] by simp
    then show "(64 * a + 8 * b + c) div 64 mod 4 = a" unfolding e using assms(1) by (simp only: mod_less)
    show "(64 * a + 8 * b + c) div 8 mod 8 = b" unfolding e q using assms(2) by simp
    show "(64 * a + 8 * b + c) mod 8 = c" unfolding e using assms(3) by (simp only: mod_mult_self4 mod_less)
  qed
  show "drop_bit 6 (pack a b c) AND 3 = of_nat a" "drop_bit 3 (pack a b c) AND 7 = of_nat b" "pack a b c AND 7 = of_nat c"
    unfolding m word_unat_eq_iff u unat_drop_bit_div unat_pack [OF assms] using assms d by (simp_all add: unat_of_nat)
qed

text \<open>A register number of four bits from three bits of a byte and one of the REX prefix.\<close>

lemma rex_reg: "b < 16 \<Longrightarrow> (of_nat (b mod 8) :: u8) OR rex_bit (b \<ge> 8) = of_nat b"
proof -
  assume "b < 16"
  moreover have "list_all (\<lambda>b. (of_nat (b mod 8) :: u8) OR rex_bit (b \<ge> 8) = of_nat b) [0..<16]" by code_simp
  ultimately show ?thesis by (simp add: list_all_iff)
qed

lemma le32_value: "sign_extend 4 (le_bytes (le32 w)) = scast w"
proof -
  have "(ucast (le_bytes (le32 w)) :: u32) = w"
  proof (rule bit_word_eqI)
    fix n assume "n < LENGTH(32)"
    then show "bit (ucast (le_bytes (le32 w)) :: u32) n = bit w n"
      by (cases "n < 16"; cases "n < 24") (auto simp: le32_def bit_ucast_iff bit_or_iff bit_push_bit_iff bit_drop_bit_eq)
  qed
  then show ?thesis by (simp add: sign_extend_def)
qed

lemma le8_value: "sign_extend 1 (le_bytes [b]) = scast b"
proof -
  have "(ucast (ucast b :: u64) :: u8) = b" by (rule bit_word_eqI) (simp add: bit_ucast_iff)
  then show ?thesis by (simp add: sign_extend_def)
qed

lemma le32_length [simp]: "length (le32 w) = 4"
  by (simp add: le32_def)

text \<open>Reading a displacement.\<close>

lemma decode_disp:
  assumes "ready v (disp_field d @ ys)" and "vie_disp_bytes v = length (disp_field d)" and "vie_displacement v = 0"
  shows "\<exists>n. decode_displacement v = Some (Some (v\<lparr>vie_num_processed := n, vie_displacement := disp_value d\<rparr>)) \<and> ready (v\<lparr>vie_num_processed := n\<rparr>) ys"
proof (cases d)
  case NoDisp
  have "v\<lparr>vie_num_processed := vie_num_processed v, vie_displacement := 0\<rparr> = v" using assms(3) by simp
  then show ?thesis using assms NoDisp by (intro exI [of _ "vie_num_processed v"]) (simp add: decode_displacement_def)
next
  case (Disp8 b)
  obtain v' where v': "fetch_bytes (length [b]) v = Some ([b], v')" "ready v' ys" "v' = v\<lparr>vie_num_processed := vie_num_processed v'\<rparr>"
    using ready_fetch [of v "[b]" ys] assms(1) Disp8 by auto
  then have "decode_displacement v = Some (Some (v'\<lparr>vie_displacement := scast b\<rparr>))"
    using assms(2) Disp8 le8_value [of b] by (simp add: decode_displacement_def)
  then show ?thesis using v'(2,3) Disp8 by (intro exI [of _ "vie_num_processed v'"]) (metis disp_value.simps(2))
next
  case (Disp32 w)
  obtain v' where v': "fetch_bytes (length (le32 w)) v = Some (le32 w, v')" "ready v' ys" "v' = v\<lparr>vie_num_processed := vie_num_processed v'\<rparr>"
    using ready_fetch [of v "le32 w" ys] assms(1) Disp32 by auto
  then have "decode_displacement v = Some (Some (v'\<lparr>vie_displacement := scast w\<rparr>))"
    using assms(2) Disp32 le32_value [of w] by (simp add: decode_displacement_def)
  then show ?thesis using v'(2,3) Disp32 by (intro exI [of _ "vie_num_processed v'"]) (metis disp_value.simps(3))
qed

lemma small_eq [simp]: "k < 256 \<Longrightarrow> (of_nat k :: u8) = numeral n \<longleftrightarrow> k = unat (numeral n :: u8)" "k < 256 \<Longrightarrow> (of_nat k :: u8) = 0 \<longleftrightarrow> k = 0"
  "k < 256 \<Longrightarrow> (of_nat k :: u8) = 1 \<longleftrightarrow> k = 1" "k < 256 \<Longrightarrow> unat (of_nat k :: u8) = k"
  by (simp_all add: word_unat_eq_iff unat_of_nat)

text \<open>After the ModRM byte, before the base register is known.\<close>

definition modrm_regs :: "nat \<Rightarrow> nat \<Rightarrow> nat \<Rightarrow> vie \<Rightarrow> vie" where
  "modrm_regs m r k v = v\<lparr>vie_mod := of_nat m,
     vie_rm := (if (m = 0 \<and> k = 5) \<or> k = 4 then of_nat k else of_nat k OR rex_bit (vie_rex_b v)), vie_reg := of_nat r\<rparr>"

lemma rex_bit_cases: "k < 8 \<Longrightarrow> (of_nat k :: u8) OR rex_bit b = of_nat (k + (if b then 8 else 0))"
  using rex_reg [of "k + (if b then 8 else 0)"] by (cases b) auto

lemma modrm_step:
  assumes "ready v (pack m (r mod 8) k # zs)" and "m < 3" and "k < 8" and "r < 16"
    and "op_flags (vie_the_op v) AND VIE_OP_F_NO_MODRM = 0" and "vie_rex_r v = (r \<ge> 8)"
  shows "decode_modrm CPU_MODE_64BIT v =
     Some (vie_advance (if k = 4 then modrm_regs m r k v else modrm_address CPU_MODE_64BIT (modrm_regs m r k v)))"
proof -
  have p: "vie_peek v = Some (pack m (r mod 8) k)" using ready_peek(1) [OF assms(1)] .
  have f: "drop_bit 6 (pack m (r mod 8) k) AND 3 = of_nat m" "drop_bit 3 (pack m (r mod 8) k) AND 7 = of_nat (r mod 8)"
    "pack m (r mod 8) k AND 7 = of_nat k" using pack_fields [of m "r mod 8" k] assms(2,3) by auto
  have rm: "(if (m = 0 \<and> k = 5) \<or> k = 4 then (of_nat k :: u8) else of_nat k OR rex_bit (vie_rex_b v)) = 4 \<longleftrightarrow> k = 4"
    using assms(3) by (auto simp: rex_bit_cases simp del: of_nat_add)
  have w: "v\<lparr>vie_mod := of_nat m, vie_rm := (if (of_nat m = (0 :: u8) \<and> of_nat k = (5 :: u8)) \<or> of_nat k = (4 :: u8) then of_nat k else of_nat k OR rex_bit (vie_rex_b v)),
      vie_reg := of_nat (r mod 8) OR rex_bit (vie_rex_r v)\<rparr> = modrm_regs m r k v"
    using assms(2-4,6) by (simp add: modrm_regs_def rex_reg)
  have "vie_rm (modrm_regs m r k v) = 4 \<longleftrightarrow> k = 4" using rm by (simp add: modrm_regs_def)
  then show ?thesis
    unfolding decode_modrm_def p Option.bind.simps(2) f Let_def w using assms(2,5) by simp
qed

lemma sib_step:
  assumes "ready v (pack s i b # zs)" and "s < 4" and "i < 8" and "b < 8" and "vie_mod v = of_nat m" and "m < 3" and "vie_rm v = 4"
  shows "decode_sib v = Some (vie_advance (sib_index (sib_base (sib_disp (v\<lparr>vie_ss := of_nat s,
     vie_index := of_nat (i + (if vie_rex_x v then 8 else 0)), vie_base := of_nat (b + (if vie_rex_b v then 8 else 0))\<rparr>)))))"
proof -
  have p: "vie_peek v = Some (pack s i b)" using ready_peek(1) [OF assms(1)] .
  show ?thesis
    using p assms(5-7) pack_fields [OF assms(2-4)] assms(3,4) by (simp add: decode_sib_def sib_fields_def rex_bit_cases)
qed

text \<open>The operand is decoded to its base, index, scale and displacement.\<close>

definition operand_of :: "vie \<Rightarrow> vm_reg_name \<times> vm_reg_name \<times> u8 \<times> u64" where
  "operand_of v = (vie_base_register v, vie_index_register v, vie_scale v, vie_displacement v)"

definition fresh :: "vie \<Rightarrow> bool" where
  "fresh v \<longleftrightarrow> vie_base_register v = VM_REG_LAST \<and> vie_index_register v = VM_REG_LAST \<and> vie_scale v = 0 \<and> vie_disp_bytes v = 0 \<and> vie_displacement v = 0"

definition decode_operand :: "vie \<Rightarrow> vie option option" where
  "decode_operand v = andthen (Some (decode_modrm CPU_MODE_64BIT v)) (\<lambda>v. andthen (Some (decode_sib v)) decode_displacement)"

lemma operand_disp:
  assumes "ready w (disp_field d @ ys)" and "vie_disp_bytes w = length (disp_field d)" and "vie_displacement w = 0"
  shows "\<exists>v'. decode_displacement w = Some (Some v') \<and> ready v' ys \<and> kept v' = kept w \<and> vie_reg v' = vie_reg w
     \<and> operand_of v' = (vie_base_register w, vie_index_register w, vie_scale w, disp_value d)"
  using decode_disp [OF assms] by (auto simp: operand_of_def)

lemma decode_mem_plain:
  assumes r: "ready v (pack (mod_field d) (r mod 8) (b mod 8) # disp_field d @ ys)" and b: "b < 16" "b mod 8 \<noteq> 4" "d = NoDisp \<Longrightarrow> b mod 8 \<noteq> 5"
    and op: "r < 16" "op_flags (vie_the_op v) AND VIE_OP_F_NO_MODRM = 0" and rex: "vie_rex_r v = (r \<ge> 8)" "vie_rex_b v = (b \<ge> 8)" and fr: "fresh v"
  shows "\<exists>v'. decode_operand v = Some (Some v') \<and> ready v' ys \<and> kept v' = kept v \<and> vie_reg v' = of_nat r
     \<and> operand_of v' = (gpr_map ! b, VM_REG_LAST, 0, disp_value d)"
proof -
  have md: "mod_field d < 3" "mod_field d = 0 \<longleftrightarrow> d = NoDisp" by (cases d; simp)+
  let ?w = "modrm_regs (mod_field d) r (b mod 8) v"
  let ?u = "vie_advance (modrm_address CPU_MODE_64BIT ?w)"
  have rm: "vie_rm ?w = of_nat b" using b md(2) rex(2) rex_reg [OF b(1)] by (auto simp: modrm_regs_def)
  have n: "vie_rm ?w \<noteq> 4" "\<not> (vie_mod ?w = 0 \<and> vie_rm ?w = 5)" "unat (vie_rm ?w) = b" unfolding rm using b md by (auto simp: modrm_regs_def)
  have s1: "decode_modrm CPU_MODE_64BIT v = Some ?u" using modrm_step [OF r md(1) _ op rex(1)] b(2) by simp
  have ru: "ready ?u (disp_field d @ ys)"
  proof -
    have "ready (modrm_address CPU_MODE_64BIT ?w) (pack (mod_field d) (r mod 8) (b mod 8) # disp_field d @ ys)"
      using r by (auto simp: modrm_address_def modrm_regs_def Let_def)
    then show ?thesis by (rule ready_peek(2))
  qed
  have u: "vie_mod ?u = vie_mod ?w" "vie_rm ?u = vie_rm ?w" "vie_base_register ?u = gpr_map ! b" "vie_index_register ?u = VM_REG_LAST" "vie_scale ?u = 0"
      "vie_displacement ?u = 0" "vie_reg ?u = of_nat r" "kept ?u = kept v" "vie_disp_bytes ?u = length (disp_field d)"
    using n fr by (cases d; auto simp: modrm_address_def modrm_regs_def fresh_def Let_def vie_advance_def kept_def)+
  have s2: "decode_sib ?u = Some ?u" using n(1) u(2) by (simp add: decode_sib_def)
  obtain v' where v': "decode_displacement ?u = Some (Some v')" "ready v' ys" "kept v' = kept ?u" "vie_reg v' = vie_reg ?u"
      "operand_of v' = (vie_base_register ?u, vie_index_register ?u, vie_scale ?u, disp_value d)"
    using operand_disp [OF ru u(9,6)] by blast
  show ?thesis using s1 s2 v' u by (simp add: decode_operand_def andthen_def)
qed

lemma decode_mem_rip:
  assumes r: "ready v (pack 0 (r mod 8) 5 # le32 w @ ys)" and op: "r < 16" "op_flags (vie_the_op v) AND VIE_OP_F_NO_MODRM = 0"
    and rex: "vie_rex_r v = (r \<ge> 8)" and fr: "fresh v"
  shows "\<exists>v'. decode_operand v = Some (Some v') \<and> ready v' ys \<and> kept v' = kept v \<and> vie_reg v' = of_nat r
     \<and> operand_of v' = (VM_REG_GUEST_RIP, VM_REG_LAST, 0, scast w)"
proof -
  let ?w = "modrm_regs 0 r 5 v"
  let ?u = "vie_advance (modrm_address CPU_MODE_64BIT ?w)"
  have w: "vie_rm ?w = 5" "vie_mod ?w = 0" by (simp_all add: modrm_regs_def)
  have s1: "decode_modrm CPU_MODE_64BIT v = Some ?u" using modrm_step [OF r _ _ op rex] by simp
  have "ready (modrm_address CPU_MODE_64BIT ?w) (pack 0 (r mod 8) 5 # le32 w @ ys)"
    using r by (auto simp: modrm_address_def modrm_regs_def Let_def)
  then have ru: "ready ?u (disp_field (Disp32 w) @ ys)" using ready_peek(2) by simp
  have u: "vie_rm ?u = 5" "vie_base_register ?u = VM_REG_GUEST_RIP" "vie_index_register ?u = VM_REG_LAST" "vie_scale ?u = 0"
      "vie_displacement ?u = 0" "vie_reg ?u = of_nat r" "kept ?u = kept v" "vie_disp_bytes ?u = length (disp_field (Disp32 w))"
    using w fr by (simp_all add: modrm_address_def modrm_regs_def fresh_def Let_def vie_advance_def kept_def)
  have s2: "decode_sib ?u = Some ?u" using u(1) by (simp add: decode_sib_def)
  show ?thesis using s1 s2 operand_disp [OF ru u(8,5)] u by (auto simp: decode_operand_def andthen_def)
qed

lemma sib_result:
  assumes "vie_mod x = of_nat m" and "vie_base x = of_nat b" and "vie_index x = of_nat i" and "vie_ss x = of_nat s" and "vie_base_register x = VM_REG_LAST"
    and "vie_index_register x = VM_REG_LAST" and "vie_scale x = 0" and "vie_disp_bytes x = 0" and "m < 3" "b < 16" "i < 16" "s < 4"
  defines "u \<equiv> sib_index (sib_base (sib_disp x))"
  shows "vie_base_register u = (if m = 0 \<and> (b = 5 \<or> b = 13) then VM_REG_LAST else gpr_map ! b)"
    "vie_index_register u = (if i = 4 then VM_REG_LAST else gpr_map ! i)" "vie_scale u = (if i = 4 then 0 else 2 ^ s)"
    "vie_disp_bytes u = (if m = 0 \<and> (b = 5 \<or> b = 13) then 4 else if m = 1 then 1 else if m = 2 then 4 else 0)"
    "vie_displacement u = vie_displacement x" "vie_reg u = vie_reg x" "kept u = kept x"
proof -
  let ?d = "sib_disp x" and ?b = "sib_base (sib_disp x)"
  have m: "(of_nat m = (0 :: u8)) = (m = 0)" "(of_nat m = (1 :: u8)) = (m = 1)" "(of_nat m = (2 :: u8)) = (m = 2)" using assms(9) by auto
  have n: "(of_nat b = (5 :: u8)) = (b = 5)" "(of_nat b = (13 :: u8)) = (b = 13)" "unat (of_nat b :: u8) = b" "unat (of_nat i :: u8) = i"
    "(of_nat i = (4 :: u8)) = (i = 4)" "unat (of_nat s :: u8) = s" using assms(10-12) by auto
  have g: "gpr_map ! i \<noteq> VM_REG_LAST" using gpr_map_gprs [OF assms(11)] by auto
  have d: "vie_mod ?d = of_nat m" "vie_base ?d = of_nat b" "vie_index ?d = of_nat i" "vie_ss ?d = of_nat s" "vie_base_register ?d = VM_REG_LAST"
    "vie_index_register ?d = VM_REG_LAST" "vie_scale ?d = 0" "vie_disp_bytes ?d = (if m = 1 then 1 else if m = 2 then 4 else 0)"
    "vie_displacement ?d = vie_displacement x" "vie_reg ?d = vie_reg x" "kept ?d = kept x"
    using assms m by (simp_all add: sib_disp_def)
  have b: "vie_base_register ?b = (if m = 0 \<and> (b = 5 \<or> b = 13) then VM_REG_LAST else gpr_map ! b)" "vie_index ?b = of_nat i" "vie_ss ?b = of_nat s"
    "vie_index_register ?b = VM_REG_LAST" "vie_scale ?b = 0" "vie_disp_bytes ?b = (if m = 0 \<and> (b = 5 \<or> b = 13) then 4 else if m = 1 then 1 else if m = 2 then 4 else 0)"
    "vie_displacement ?b = vie_displacement x" "vie_reg ?b = vie_reg x" "kept ?b = kept x"
    unfolding sib_base_def d m n using d by simp_all
  show "vie_base_register u = (if m = 0 \<and> (b = 5 \<or> b = 13) then VM_REG_LAST else gpr_map ! b)"
    "vie_index_register u = (if i = 4 then VM_REG_LAST else gpr_map ! i)" "vie_scale u = (if i = 4 then 0 else 2 ^ s)"
    "vie_disp_bytes u = (if m = 0 \<and> (b = 5 \<or> b = 13) then 4 else if m = 1 then 1 else if m = 2 then 4 else 0)"
    "vie_displacement u = vie_displacement x" "vie_reg u = vie_reg x" "kept u = kept x"
    unfolding u_def sib_index_def b n Let_def using b g by (simp_all add: push_bit_eq_mult)
qed

lemma decode_mem_sib:
  fixes ib bb :: nat
  assumes r: "ready v (pack m (r mod 8) 4 # pack s ib bb # disp_field d @ ys)" and op: "r < 16" "op_flags (vie_the_op v) AND VIE_OP_F_NO_MODRM = 0"
    and rex: "vie_rex_r v = (r \<ge> 8)" and fr: "fresh v" and rng: "m < 3" "s < 4" "ib < 8" "bb < 8"
    and i_def: "i = ib + (if vie_rex_x v then 8 else 0)" and b_def: "b = bb + (if vie_rex_b v then 8 else 0)"
    and disp: "length (disp_field d) = (if m = 0 \<and> (b = 5 \<or> b = 13) then 4 else if m = 1 then 1 else if m = 2 then 4 else 0)"
  shows "\<exists>v'. decode_operand v = Some (Some v') \<and> ready v' ys \<and> kept v' = kept v \<and> vie_reg v' = of_nat r
     \<and> operand_of v' = (if m = 0 \<and> (b = 5 \<or> b = 13) then VM_REG_LAST else gpr_map ! b, if i = 4 then VM_REG_LAST else gpr_map ! i,
          if i = 4 then 0 else 2 ^ s, disp_value d)"
proof -
  let ?w = "vie_advance (modrm_regs m r 4 v)"
  have s1: "decode_modrm CPU_MODE_64BIT v = Some ?w" using modrm_step [OF r rng(1) _ op rex] by simp
  have rw: "ready ?w (pack s ib bb # disp_field d @ ys)" using r by (intro ready_peek(2)) (simp add: modrm_regs_def)
  have w: "vie_mod ?w = of_nat m" "vie_rm ?w = 4" "vie_rex_x ?w = vie_rex_x v" "vie_rex_b ?w = vie_rex_b v" by (simp_all add: modrm_regs_def vie_advance_def)
  let ?x = "?w\<lparr>vie_ss := of_nat s, vie_index := of_nat i, vie_base := of_nat b\<rparr>"
  let ?u = "vie_advance (sib_index (sib_base (sib_disp ?x)))"
  have s2: "decode_sib ?w = Some ?u" using sib_step [OF rw rng(2-4) w(1) rng(1) w(2)] by (simp only: w(3,4) i_def b_def)
  have ru: "ready ?u (disp_field d @ ys)" using rw by (intro ready_peek(2)) (auto simp: sib_index_def sib_base_def sib_disp_def Let_def)
  have b: "b < 16" "i < 16" using rng by (simp_all add: b_def i_def)
  have x: "vie_mod ?x = of_nat m" "vie_base ?x = of_nat b" "vie_index ?x = of_nat i" "vie_ss ?x = of_nat s" "vie_base_register ?x = VM_REG_LAST"
      "vie_index_register ?x = VM_REG_LAST" "vie_scale ?x = 0" "vie_disp_bytes ?x = 0" "vie_displacement ?x = 0" "vie_reg ?x = of_nat r" "kept ?x = kept v"
    using fr by (simp_all add: modrm_regs_def vie_advance_def fresh_def kept_def)
  note res = sib_result [OF x(1-8) rng(1) b rng(2)]
  have u: "vie_disp_bytes ?u = length (disp_field d)" "vie_displacement ?u = 0" unfolding disp using res(4,5) x(9) by (simp_all add: vie_advance_def)
  obtain v' where v': "decode_displacement ?u = Some (Some v')" "ready v' ys" "kept v' = kept ?u" "vie_reg v' = vie_reg ?u"
      "operand_of v' = (vie_base_register ?u, vie_index_register ?u, vie_scale ?u, disp_value d)"
    using operand_disp [OF ru u] by blast
  have "vie_base_register ?u = vie_base_register (sib_index (sib_base (sib_disp ?x)))" "vie_index_register ?u = vie_index_register (sib_index (sib_base (sib_disp ?x)))"
    "vie_scale ?u = vie_scale (sib_index (sib_base (sib_disp ?x)))" "vie_reg ?u = vie_reg (sib_index (sib_base (sib_disp ?x)))" "kept ?u = kept (sib_index (sib_base (sib_disp ?x)))"
    by (simp_all add: vie_advance_def kept_def)
  then have "operand_of v' = (if m = 0 \<and> (b = 5 \<or> b = 13) then VM_REG_LAST else gpr_map ! b, if i = 4 then VM_REG_LAST else gpr_map ! i,
          if i = 4 then 0 else 2 ^ s, disp_value d)" "vie_reg v' = of_nat r" "kept v' = kept v"
    using v'(3-5) res x(10,11) by (simp_all only:)
  then show ?thesis using s1 s2 v'(1,2) by (simp add: decode_operand_def andthen_def)
qed

text \<open>The number that the index field and its REX bit give; 4 means none.\<close>

definition index_number :: "nat option \<Rightarrow> nat" where
  "index_number i = (case i of None \<Rightarrow> 4 | Some n \<Rightarrow> n)"

lemma index_number_simps [simp]: "index_number None = 4" "index_number (Some n) = n"
  by (simp_all add: index_number_def)

lemma mod8: "n < 16 \<Longrightarrow> n mod 8 + (if 8 \<le> n then 8 else 0) = (n :: nat)"
  by presburger

lemma index_code:
  assumes "pred_option (\<lambda>n. n < 16 \<and> n \<noteq> 4) i" and "x = (case i of None \<Rightarrow> False | Some n \<Rightarrow> n \<ge> 8)"
  shows "(case i of None \<Rightarrow> 4 | Some n \<Rightarrow> n mod 8) < 8" and "index_number i = (case i of None \<Rightarrow> 4 | Some n \<Rightarrow> n mod 8) + (if x then 8 else 0)"
  using assms by (cases i; simp add: mod8)+

lemma rex_x_sib: "rex_x (Sib b i s d) = (case i of None \<Rightarrow> False | Some n \<Rightarrow> n \<ge> 8)"
  by (cases i) simp_all

lemma decode_mem:
  assumes r: "ready v (mem_field (r mod 8) mo @ ys)" and mo: "mem_valid mo" and op: "r < 16" "op_flags (vie_the_op v) AND VIE_OP_F_NO_MODRM = 0"
    and rex: "vie_rex_r v = (r \<ge> 8)" "vie_rex_x v = rex_x mo" "vie_rex_b v = rex_b mo" and fr: "fresh v"
  shows "\<exists>v'. decode_operand v = Some (Some v') \<and> ready v' ys \<and> kept v' = kept v \<and> vie_reg v' = of_nat r
     \<and> operand_of v' = (mem_base mo, mem_index mo, mem_scale mo, mem_disp mo)"
proof (cases mo rule: mem_valid.cases)
  case (1 w)
  then show ?thesis using decode_mem_rip [of v r w ys] r op rex(1) fr by simp
next
  case (2 b d)
  then show ?thesis using decode_mem_plain [of v d r b ys] r mo op rex fr by simp
next
  case (3 i s d)
  obtain w where w: "d = Disp32 w" using mo 3 by auto
  have "pred_option (\<lambda>n. n < 16 \<and> n \<noteq> 4) i" "vie_rex_x v = (case i of None \<Rightarrow> False | Some n \<Rightarrow> n \<ge> 8)" using mo 3 rex(2) rex_x_sib by simp_all
  note i = index_code [OF this]
  have "\<exists>v'. decode_operand v = Some (Some v') \<and> ready v' ys \<and> kept v' = kept v \<and> vie_reg v' = of_nat r
     \<and> operand_of v' = (if (0 :: nat) = 0 \<and> ((5 :: nat) = 5 \<or> (5 :: nat) = 13) then VM_REG_LAST else gpr_map ! 5,
          if index_number i = 4 then VM_REG_LAST else gpr_map ! index_number i, if index_number i = 4 then 0 else 2 ^ s, disp_value d)"
    by (rule decode_mem_sib [where ib = "case i of None \<Rightarrow> 4 | Some n \<Rightarrow> n mod 8" and bb = 5]) (use r mo op rex fr 3 w i in simp_all)
  then show ?thesis using 3 mo by (cases i) auto
next
  case (4 b i s d)
  have "pred_option (\<lambda>n. n < 16 \<and> n \<noteq> 4) i" "vie_rex_x v = (case i of None \<Rightarrow> False | Some n \<Rightarrow> n \<ge> 8)" using mo 4 rex(2) rex_x_sib by simp_all
  note i = index_code [OF this]
  have b: "b mod 8 + (if vie_rex_b v then 8 else 0) = b" using mo 4 rex(3) mod8 [of b] by simp
  have m: "mod_field d < 3" "\<not> (mod_field d = 0 \<and> (b = 5 \<or> b = 13))" using mo 4 by (cases d; auto)+
  have l: "length (disp_field d) = (if mod_field d = 1 then 1 else if mod_field d = 2 then 4 else 0)" by (cases d) simp_all
  have "\<exists>v'. decode_operand v = Some (Some v') \<and> ready v' ys \<and> kept v' = kept v \<and> vie_reg v' = of_nat r
     \<and> operand_of v' = (if mod_field d = 0 \<and> (b = 5 \<or> b = 13) then VM_REG_LAST else gpr_map ! b,
          if index_number i = 4 then VM_REG_LAST else gpr_map ! index_number i, if index_number i = 4 then 0 else 2 ^ s, disp_value d)"
    by (rule decode_mem_sib [where ib = "case i of None \<Rightarrow> 4 | Some n \<Rightarrow> n mod 8" and bb = "b mod 8"]) (use r mo op rex fr 4 i b m l in simp_all)
  then show ?thesis using 4 mo m(2) by (cases i) auto
qed

subsection \<open>Prefixes and opcode\<close>

definition pre_kept :: "vie \<Rightarrow> vm_reg_name \<times> vm_reg_name \<times> u8 \<times> nat \<times> u64 \<times> nat \<times> u64 \<times> nat \<times> bool \<times> bool \<times> bool \<times> bool" where
  "pre_kept v = (vie_base_register v, vie_index_register v, vie_scale v, vie_disp_bytes v, vie_displacement v, vie_imm_bytes v, vie_immediate v,
     vie_num_valid v, vie_rex_w v, vie_rex_r v, vie_rex_x v, vie_rex_b v)"

lemma note_prefix_legacy:
  assumes "legacy_prefix q"
  shows "\<exists>w. note_prefix q v = Some w \<and> pre_kept w = pre_kept v \<and> ready w = ready v
     \<and> vie_opsize_override w = (vie_opsize_override v \<or> q = 0x66) \<and> vie_addrsize_override w = (vie_addrsize_override v \<or> q = 0x67)"
proof -
  have seg: "\<exists>w. note_prefix q v = Some w \<and> pre_kept w = pre_kept v \<and> ready w = ready v
     \<and> vie_opsize_override w = (vie_opsize_override v \<or> q = 0x66) \<and> vie_addrsize_override w = (vie_addrsize_override v \<or> q = 0x67)"
    if "segment_override q = Some sr" "q \<notin> {0x66, 0x67, 0xF2, 0xF3}" for sr
    using that by (simp add: note_prefix_def pre_kept_def fun_eq_iff)
  have "q \<in> {0x66, 0x67, 0xF2, 0xF3} \<or> (segment_override q \<noteq> None \<and> q \<notin> {0x66, 0x67, 0xF2, 0xF3})"
    using assms unfolding legacy_prefix_def segment_override_def by (elim insertE) simp_all
  then show ?thesis
  proof
    assume "q \<in> {0x66, 0x67, 0xF2, 0xF3}"
    then show ?thesis by (elim insertE) (simp_all add: note_prefix_def pre_kept_def fun_eq_iff)
  qed (use seg in auto)
qed

lemma prefix_run:
  assumes "list_all legacy_prefix ps" and "\<not> legacy_prefix x" and "ready v (ps @ x # ys)"
  shows "\<exists>v'. prefix_loop v = Some (x, v') \<and> ready v' (x # ys) \<and> pre_kept v' = pre_kept v
     \<and> vie_opsize_override v' = (vie_opsize_override v \<or> 0x66 \<in> set ps) \<and> vie_addrsize_override v' = (vie_addrsize_override v \<or> 0x67 \<in> set ps)"
  using assms(1,3)
proof (induction ps arbitrary: v)
  case Nil
  then have p: "vie_peek v = Some x" using ready_peek(1) by simp
  have "note_prefix x v = None" using assms(2) by (auto simp: note_prefix_def segment_override_def legacy_prefix_def)
  then show ?case using p Nil by (subst prefix_loop.simps) simp
next
  case (Cons q ps)
  have p: "vie_peek v = Some q" using ready_peek(1) [of v q] Cons.prems by simp
  obtain w where w: "note_prefix q v = Some w" "pre_kept w = pre_kept v" "ready w = ready v" "vie_opsize_override w = (vie_opsize_override v \<or> q = 0x66)"
      "vie_addrsize_override w = (vie_addrsize_override v \<or> q = 0x67)"
    using note_prefix_legacy [of q v] Cons.prems(1) by auto
  have rw: "ready w (q # ps @ x # ys)" using w(3) Cons.prems(2) by simp
  have "ready (vie_advance w) (ps @ x # ys)" using ready_peek(2) [OF rw] .
  from Cons.IH [OF _ this] Cons.prems(1) obtain v' where "prefix_loop (vie_advance w) = Some (x, v')" "ready v' (x # ys)" "pre_kept v' = pre_kept (vie_advance w)"
     "vie_opsize_override v' = (vie_opsize_override (vie_advance w) \<or> 0x66 \<in> set ps)" "vie_addrsize_override v' = (vie_addrsize_override (vie_advance w) \<or> 0x67 \<in> set ps)"
    by auto
  moreover have "pre_kept (vie_advance w) = pre_kept w" "vie_opsize_override (vie_advance w) = vie_opsize_override w" "vie_addrsize_override (vie_advance w) = vie_addrsize_override w"
    by (simp_all add: vie_advance_def pre_kept_def)
  ultimately show ?case using p w by (subst prefix_loop.simps) auto
qed

lemma rex_byte_fields:
  "\<not> legacy_prefix (rex_byte w r x b)" "0x40 \<le> rex_byte w r x b" "rex_byte w r x b \<le> 0x4F" "rex_byte w r x b AND 8 \<noteq> 0 \<longleftrightarrow> w"
  "rex_byte w r x b AND 4 \<noteq> 0 \<longleftrightarrow> r" "rex_byte w r x b AND 2 \<noteq> 0 \<longleftrightarrow> x" "rex_byte w r x b AND 1 \<noteq> 0 \<longleftrightarrow> b"
  by (cases w; cases r; cases x; cases b; simp add: rex_byte_def legacy_prefix_def)+

lemma opcode_not_prefix:
  assumes "op_type (one_byte_opcodes x) \<noteq> VIE_OP_TYPE_NONE"
  shows "\<not> legacy_prefix x" and "\<not> (0x40 \<le> x \<and> x \<le> 0x4F)"
proof -
  have "x \<in> {0x0F, 0x2B, 0x3B, 0x88, 0x89, 0x8A, 0x8B, 0xA1, 0xA3, 0xC6, 0xC7, 0xA4, 0xA5, 0xAA, 0xAB, 0x23, 0x80, 0x81, 0x83, 0x8F, 0xFF}"
    (is "_ \<in> ?S")
  proof (rule ccontr)
    assume "x \<notin> ?S"
    then show False using assms by (simp add: one_byte_opcodes_def)
  qed
  then show "\<not> legacy_prefix x" "\<not> (0x40 \<le> x \<and> x \<le> 0x4F)" by (elim insertE; simp add: legacy_prefix_def)+
qed

lemma two_byte_escape: "one_byte_opcodes 0x0F = \<lparr>op_byte = 0x0F, op_type = VIE_OP_TYPE_TWO_BYTE, op_flags = 0\<rparr>"
  by (simp add: one_byte_opcodes_def)

text \<open>The structure as \<open>vie_init\<close> leaves it, apart from the bytes and counters.\<close>

definition start_of :: "vie \<Rightarrow> bool" where
  "start_of v \<longleftrightarrow> fresh v \<and> vie_imm_bytes v = 0 \<and> vie_immediate v = 0 \<and> \<not> vie_rex_w v \<and> \<not> vie_rex_r v \<and> \<not> vie_rex_x v \<and> \<not> vie_rex_b v"

definition insn_addrsize :: "insn \<Rightarrow> int" where
  "insn_addrsize i = (if 0x67 \<in> set (in_prefixes i) then 4 else 8)"

text \<open>What prefixes and opcode leave for the rest of the instruction.\<close>

definition header_of :: "insn \<Rightarrow> nat \<Rightarrow> vie \<Rightarrow> bool" where
  "header_of i n v \<longleftrightarrow> fresh v \<and> vie_imm_bytes v = 0 \<and> vie_immediate v = 0 \<and> vie_num_valid v = n \<and> vie_rex_r v = (in_reg i \<ge> 8)
     \<and> vie_rex_x v = rex_x (in_mem i) \<and> vie_rex_b v = rex_b (in_mem i) \<and> vie_opsize v = insn_opsize i \<and> vie_addrsize v = insn_addrsize i"

lemma header_update [simp]: "header_of i n (v\<lparr>vie_the_op := p\<rparr>) = header_of i n v" "header_of i n (vie_advance v) = header_of i n v"
  by (simp_all add: header_of_def fresh_def vie_advance_def)

lemma prefixes_step:
  assumes val: "insn_valid i" and st: "start_of v" "\<not> vie_opsize_override v" "\<not> vie_addrsize_override v"
    and r: "ready v (in_prefixes i @ (if in_rex i then [rex_byte (in_w i) (in_reg i \<ge> 8) (rex_x (in_mem i)) (rex_b (in_mem i))] else []) @ in_opcode i @ zs)"
  shows "\<exists>v'. decode_prefixes CPU_MODE_64BIT cs_d v = Some v' \<and> ready v' (in_opcode i @ zs) \<and> header_of i (vie_num_valid v) v'"
proof -
  let ?rex = "rex_byte (in_w i) (in_reg i \<ge> 8) (rex_x (in_mem i)) (rex_b (in_mem i))"
  obtain o1 os where o1: "in_opcode i = o1 # os" "op_type (one_byte_opcodes o1) \<noteq> VIE_OP_TYPE_NONE"
    using val two_byte_escape by (auto simp: insn_valid_def insn_op_def)
  note np = opcode_not_prefix [OF o1(2)]
  let ?x = "if in_rex i then ?rex else o1" and ?ys = "if in_rex i then in_opcode i @ zs else os @ zs"
  have "ready v (in_prefixes i @ ?x # ?ys)" using r o1(1) by (simp split: if_splits)
  moreover have "\<not> legacy_prefix ?x" using np rex_byte_fields(1) by simp
  ultimately obtain w where w: "prefix_loop v = Some (?x, w)" "ready w (?x # ?ys)" "pre_kept w = pre_kept v"
      "vie_opsize_override w = (0x66 \<in> set (in_prefixes i))" "vie_addrsize_override w = (0x67 \<in> set (in_prefixes i))"
    using prefix_run [of "in_prefixes i" ?x v ?ys] val st(2,3) by (auto simp: insn_valid_def)
  have sw: "start_of w" "vie_num_valid w = vie_num_valid v" using st(1) w(3) by (simp_all add: start_of_def fresh_def pre_kept_def)
  let ?v = "note_rex CPU_MODE_64BIT ?x w"
  have d: "decode_prefixes CPU_MODE_64BIT cs_d v = Some (note_sizes CPU_MODE_64BIT cs_d ?v)" using w(1) by (simp add: decode_prefixes_def)
  show ?thesis
  proof (cases "in_rex i")
    case True
    let ?w = "w\<lparr>vie_rex_present := True, vie_rex_w := in_w i, vie_rex_r := (in_reg i \<ge> 8), vie_rex_x := rex_x (in_mem i), vie_rex_b := rex_b (in_mem i)\<rparr>"
    have v: "?v = vie_advance ?w" using True rex_byte_fields [of "in_w i" "in_reg i \<ge> 8" "rex_x (in_mem i)" "rex_b (in_mem i)"] by (simp add: note_rex_def)
    have "ready (vie_advance ?w) (in_opcode i @ zs)" using w(2) True by (intro ready_peek(2)) simp
    then show ?thesis unfolding d v using sw w(4,5)
      by (simp add: header_of_def note_sizes_def start_of_def fresh_def vie_advance_def insn_opsize_def insn_addrsize_def)
  next
    case False
    then have v: "?v = w" using np(2) by (auto simp: note_rex_def)
    have "\<not> in_w i" "\<not> in_reg i \<ge> 8" "\<not> rex_x (in_mem i)" "\<not> rex_b (in_mem i)" using val False by (simp_all add: insn_valid_def)
    then show ?thesis unfolding d v using sw w(2,4,5) False o1(1)
      by (simp add: header_of_def note_sizes_def start_of_def fresh_def insn_opsize_def insn_addrsize_def)
  qed
qed

lemma opcode_step:
  assumes val: "insn_valid i" and r: "ready v (in_opcode i @ zs)" and h: "header_of i n v"
  shows "\<exists>v'. decode_opcode v = Some v' \<and> ready v' zs \<and> header_of i n v' \<and> vie_the_op v' = insn_op i"
proof -
  consider x where "in_opcode i = [x]" "x \<noteq> 0x0F" | x where "in_opcode i = [0x0F, x]" using val by (auto simp: insn_valid_def)
  then show ?thesis
  proof cases
    case 1
    have p: "vie_peek v = Some x" using ready_peek(1) [of v x zs] r 1 by simp
    have o: "insn_op i = one_byte_opcodes x" "op_type (one_byte_opcodes x) \<noteq> VIE_OP_TYPE_NONE" using val 1 by (simp_all add: insn_op_def insn_valid_def)
    have t: "op_type (one_byte_opcodes x) \<noteq> VIE_OP_TYPE_TWO_BYTE" using 1(2) by (simp add: one_byte_opcodes_def)
    have "ready (vie_advance (v\<lparr>vie_the_op := one_byte_opcodes x\<rparr>)) zs" using r 1 by (intro ready_peek(2)) simp
    then show ?thesis using p o t h by (simp add: decode_opcode_def)
  next
    case 2
    let ?v = "vie_advance (v\<lparr>vie_the_op := one_byte_opcodes 0x0F\<rparr>)"
    have p: "vie_peek v = Some 0x0F" using ready_peek(1) [of v "0x0F" "x # zs"] r 2 by simp
    have rv: "ready ?v (x # zs)" using r 2 by (intro ready_peek(2)) simp
    have q: "vie_peek ?v = Some x" using ready_peek(1) [OF rv] .
    have o: "insn_op i = two_byte_opcodes x" "op_type (two_byte_opcodes x) \<noteq> VIE_OP_TYPE_NONE" using val 2 by (simp_all add: insn_op_def insn_valid_def)
    have "ready (vie_advance (?v\<lparr>vie_the_op := two_byte_opcodes x\<rparr>)) zs" using rv by (intro ready_peek(2)) simp
    moreover have "decode_opcode v = Some (vie_advance (?v\<lparr>vie_the_op := two_byte_opcodes x\<rparr>))"
      using p q o(2) two_byte_escape by (simp add: decode_opcode_def decode_two_byte_opcode_def)
    ultimately show ?thesis using o h by simp
  qed
qed

subsection \<open>The whole instruction\<close>

lemma flags_of_op:
  assumes "insn_valid i"
  shows "op_flags (insn_op i) AND VIE_OP_F_MOFFSET = 0" and "op_flags (insn_op i) AND VIE_OP_F_NO_GLA_VERIFICATION = 0"
proof -
  have "op_flags (insn_op i) \<in> {0, 1, 2}"
  proof -
    consider x where "in_opcode i = [x]" | x where "in_opcode i = [0x0F, x]" using assms by (auto simp: insn_valid_def)
    then show ?thesis
    proof cases
      case 1
      then show ?thesis using assms by (auto simp: insn_valid_def insn_op_def one_byte_opcodes_def split: if_splits)
    qed (simp add: insn_op_def two_byte_opcodes_def)
  qed
  then show "op_flags (insn_op i) AND VIE_OP_F_MOFFSET = 0" "op_flags (insn_op i) AND VIE_OP_F_NO_GLA_VERIFICATION = 0" by auto
qed

definition imm_value :: "insn \<Rightarrow> u64" where
  "imm_value i = (if imm_length i = 0 then 0 else sign_extend (imm_length i) (le_bytes (in_imm i)))"

lemma immediate_step:
  assumes val: "insn_valid i" and r: "ready v (in_imm i @ ys)" and v: "vie_the_op v = insn_op i" "vie_opsize v = insn_opsize i" "vie_imm_bytes v = 0" "vie_immediate v = 0"
  shows "\<exists>n. decode_immediate v = Some (Some (v\<lparr>vie_imm_bytes := imm_length i, vie_num_processed := n, vie_immediate := imm_value i\<rparr>))
     \<and> ready (v\<lparr>vie_num_processed := n\<rparr>) ys"
proof -
  let ?v1 = "v\<lparr>vie_imm_bytes := imm_length i\<rparr>"
  have s: "insn_opsize i = 2 \<or> insn_opsize i = 4 \<or> insn_opsize i = 8" by (simp add: insn_opsize_def)
  have n: "imm_length i = 0 \<or> imm_length i = 1 \<or> imm_length i = 2 \<or> imm_length i = 4" by (simp add: imm_length_def)
  have same: "v\<lparr>vie_imm_bytes := 0\<rparr> = v" using v(3) by simp
  have v1: "(if op_flags (vie_the_op v) AND VIE_OP_F_IMM \<noteq> 0 then v\<lparr>vie_imm_bytes := (if vie_opsize v = 4 \<or> vie_opsize v = 8 then 4 else 2)\<rparr>
        else if op_flags (vie_the_op v) AND VIE_OP_F_IMM8 \<noteq> 0 then v\<lparr>vie_imm_bytes := 1\<rparr> else v) = ?v1"
    unfolding v(1,2) imm_length_def using s same by auto
  have l: "length (in_imm i) = imm_length i" using val by (simp add: insn_valid_def)
  have "ready ?v1 (in_imm i @ ys)" using r by simp
  from ready_fetch [OF this] obtain v' where v': "fetch_bytes (imm_length i) ?v1 = Some (in_imm i, v')" "ready v' ys" "v' = ?v1\<lparr>vie_num_processed := vie_num_processed v'\<rparr>"
    unfolding l by blast
  show ?thesis
  proof (cases "imm_length i = 0")
    case True
    have d: "decode_immediate v = Some (Some ?v1)" unfolding decode_immediate_def Let_def v1 using True by simp
    have "?v1 = v\<lparr>vie_imm_bytes := imm_length i, vie_num_processed := vie_num_processed v, vie_immediate := imm_value i\<rparr>"
      using v(4) True by (simp add: imm_value_def)
    then show ?thesis using d r l True by (intro exI [of _ "vie_num_processed v"]) simp
  next
    case False
    have "decode_immediate v = Some (Some (v'\<lparr>vie_immediate := imm_value i\<rparr>))"
      unfolding decode_immediate_def Let_def v1 using False n v'(1) by (auto simp: imm_value_def)
    moreover have "ready (v\<lparr>vie_num_processed := vie_num_processed v'\<rparr>) ys"
      using v'(2) by (subst (asm) v'(3)) (simp add: ready_def)
    ultimately show ?thesis using v'(3) by (intro exI [of _ "vie_num_processed v'"]) (metis (no_types))
  qed
qed

lemma andthen_Some [simp]: "andthen (Some (Some v)) f = f v"
  by (simp add: andthen_def)

lemma andthen_assoc: "andthen (andthen r f) g = andthen r (\<lambda>v. andthen (f v) g)"
  by (simp add: andthen_def split: option.splits)

lemma gla_effective:
  assumes "mem_valid mo" and "operand_of v = (mem_base mo, mem_index mo, mem_scale mo, mem_disp mo)" and "vie_num_valid v = n"
    and "gla = VIE_INVALID_GLA \<or> gla = effective_address regs (regs VM_REG_GUEST_RIP + of_nat n) mo AND size2mask (vie_addrsize v)"
  shows "verify_gla (\<lambda>r. Inr (regs r)) gla v"
proof -
  have g: "k < 16 \<Longrightarrow> gpr_map ! k \<noteq> VM_REG_LAST \<and> gpr_map ! k \<noteq> VM_REG_GUEST_RIP" for k using gpr_map_gprs [of k] gprs_not by auto
  have e: "effective_address regs (regs VM_REG_GUEST_RIP + of_nat n) mo =
      (if mem_base mo = VM_REG_LAST then 0 else if mem_base mo = VM_REG_GUEST_RIP then regs VM_REG_GUEST_RIP + of_nat n else regs (mem_base mo))
      + ucast (mem_scale mo) * (if mem_index mo = VM_REG_LAST then 0 else regs (mem_index mo)) + mem_disp mo"
    using assms(1) g by (cases mo rule: mem_valid.cases) (auto simp: effective_address_def)
  show ?thesis using assms(2-4) unfolding e by (auto simp: verify_gla_def operand_of_def Let_def)
qed

text \<open>
  C6. Decoding is the inverse of assembling: the bytes of every valid instruction with a memory operand, of up to fifteen bytes, decode
  in 64-bit mode to that instruction (operation, sizes, register, base, index, scale, displacement and sign-extended immediate operand) with all
  bytes consumed, when the address the processor reports is the effective address of the operand, or is not given.
\<close>

theorem decode_assembled:
  assumes "insn_valid i" and "length (assemble i) \<le> 15"
    and "gla = VIE_INVALID_GLA \<or>
      gla = effective_address regs (regs VM_REG_GUEST_RIP + of_nat (length (assemble i))) (in_mem i) AND size2mask (insn_addrsize i)"
  shows "\<exists>v v'. vie_init (assemble i) = Some v \<and> vmm_decode_instruction (\<lambda>r. Inr (regs r)) gla CPU_MODE_64BIT cs_d v = Some (Some v')
     \<and> vie_num_processed v' = length (assemble i) \<and> vie_the_op v' = insn_op i \<and> vie_opsize v' = insn_opsize i \<and> vie_addrsize v' = insn_addrsize i
     \<and> vie_reg v' = of_nat (in_reg i)
     \<and> operand_of v' = (mem_base (in_mem i), mem_index (in_mem i), mem_scale (in_mem i), mem_disp (in_mem i)) \<and> vie_immediate v' = imm_value i"
proof -
  let ?n = "length (assemble i)"
  obtain v0 where v0: "vie_init (assemble i) = Some v0" "ready v0 (assemble i)" "start_of v0" "\<not> vie_opsize_override v0" "\<not> vie_addrsize_override v0"
      "vie_num_valid v0 = ?n"
    using assms(2) by (simp add: vie_init_def ready_def start_of_def fresh_def vie_bzero_def)
  obtain v1 where v1: "decode_prefixes CPU_MODE_64BIT cs_d v0 = Some v1" "ready v1 (in_opcode i @ mem_field (in_reg i mod 8) (in_mem i) @ in_imm i)" "header_of i ?n v1"
    using prefixes_step [OF assms(1) v0(3-5), of _ cs_d] v0(2,6) unfolding assemble_def by metis
  obtain v2 where v2: "decode_opcode v1 = Some v2" "ready v2 (mem_field (in_reg i mod 8) (in_mem i) @ in_imm i)" "header_of i ?n v2" "vie_the_op v2 = insn_op i"
    using opcode_step [OF assms(1) v1(2,3)] by blast
  have val: "mem_valid (in_mem i)" "in_reg i < 16" "op_flags (insn_op i) AND VIE_OP_F_NO_MODRM = 0" using assms(1) by (simp_all add: insn_valid_def)
  have h2: "fresh v2" "vie_rex_r v2 = (in_reg i \<ge> 8)" "vie_rex_x v2 = rex_x (in_mem i)" "vie_rex_b v2 = rex_b (in_mem i)" using v2(3) by (simp_all add: header_of_def)
  obtain v3 where v3: "decode_operand v2 = Some (Some v3)" "ready v3 (in_imm i)" "kept v3 = kept v2" "vie_reg v3 = of_nat (in_reg i)"
      "operand_of v3 = (mem_base (in_mem i), mem_index (in_mem i), mem_scale (in_mem i), mem_disp (in_mem i))"
    using decode_mem [OF v2(2) val(1,2) _ h2(2-4) h2(1)] val(3) v2(4) by auto
  have h3: "vie_the_op v3 = insn_op i" "vie_opsize v3 = insn_opsize i" "vie_imm_bytes v3 = 0" "vie_immediate v3 = 0" "vie_addrsize v3 = insn_addrsize i" "vie_num_valid v3 = ?n"
    using v2(3,4) v3(3) by (simp_all add: kept_def header_of_def)
  obtain n where n: "decode_immediate v3 = Some (Some (v3\<lparr>vie_imm_bytes := imm_length i, vie_num_processed := n, vie_immediate := imm_value i\<rparr>))"
      "ready (v3\<lparr>vie_num_processed := n\<rparr>) []"
    using immediate_step [OF assms(1), of v3 "[]"] v3(2) h3(1-4) by auto
  let ?v4 = "v3\<lparr>vie_imm_bytes := imm_length i, vie_num_processed := n, vie_immediate := imm_value i\<rparr>"
  have len: "n = ?n" using n(2) h3(6) by (auto simp: ready_def)
  have pos: "?n \<noteq> 0" using assms(1) by (auto simp: assemble_def insn_valid_def)
  have mo: "decode_moffset ?v4 = Some (Some ?v4)" using flags_of_op(1) [OF assms(1)] h3(1) by (simp add: decode_moffset_def)
  have gla: "verify_gla (\<lambda>r. Inr (regs r)) gla ?v4"
    by (rule gla_effective [OF val(1), of _ ?n]) (use v3(5) h3 assms(3) in \<open>simp_all add: operand_of_def\<close>)
  have "vmm_decode_instruction (\<lambda>r. Inr (regs r)) gla CPU_MODE_64BIT cs_d v0 =
      andthen (decode_operand v2) (\<lambda>v. andthen (decode_immediate v) (\<lambda>v. andthen (decode_moffset v) (\<lambda>v.
       if \<not> verify_inst_length v then Some None
       else if op_flags (vie_the_op v) AND VIE_OP_F_NO_GLA_VERIFICATION = 0 \<and> \<not> verify_gla (\<lambda>r. Inr (regs r)) gla v then Some None
       else Some (Some (v\<lparr>vie_decoded := True\<rparr>)))))"
    unfolding vmm_decode_instruction_def v1(1) andthen_Some v2(1) decode_operand_def andthen_assoc ..
  also have "\<dots> = Some (Some (?v4\<lparr>vie_decoded := True\<rparr>))"
    unfolding v3(1) andthen_Some n(1) mo using len pos gla by (simp add: verify_inst_length_def)
  finally show ?thesis using v0(1) v3(4,5) h3 len by (intro exI [of _ v0] exI [of _ "?v4\<lparr>vie_decoded := True\<rparr>"]) (simp add: operand_of_def)
qed

text \<open>\<open>mov dword ptr [r11 + rcx * 8 + 0x10], 0x12345678\<close>\<close>

theorem decode_assembled_witness:
  "\<exists>i v v'. assemble i = [0x41, 0xC7, 0x44, 0xCB, 0x10, 0x78, 0x56, 0x34, 0x12] \<and> vie_init (assemble i) = Some v
     \<and> vmm_decode_instruction (\<lambda>r. Inr 0x100) 0x910 CPU_MODE_64BIT False v = Some (Some v')
     \<and> operand_of v' = (VM_REG_GUEST_R11, VM_REG_GUEST_RCX, 8, 0x10) \<and> vie_immediate v' = 0x12345678"
proof -
  let ?i = "\<lparr>in_prefixes = [], in_w = False, in_rex = True, in_opcode = [0xC7], in_reg = 0, in_mem = Sib (Some 11) (Some 1) 3 (Disp8 0x10),
     in_imm = [0x78, 0x56, 0x34, 0x12]\<rparr>"
  have a: "assemble ?i = [0x41, 0xC7, 0x44, 0xCB, 0x10, 0x78, 0x56, 0x34, 0x12]" by code_simp
  have val: "insn_valid ?i" by (simp add: insn_valid_def legacy_prefix_def insn_op_def one_byte_opcodes_def imm_length_def insn_opsize_def)
  have e: "0x910 = effective_address (\<lambda>_. 0x100) (0x100 + of_nat (length (assemble ?i))) (in_mem ?i) AND size2mask (insn_addrsize ?i)" by code_simp
  have m: "(mem_base (in_mem ?i), mem_index (in_mem ?i), mem_scale (in_mem ?i), mem_disp (in_mem ?i)) = (VM_REG_GUEST_R11, VM_REG_GUEST_RCX, 8, 0x10)"
    "imm_value ?i = 0x12345678" by code_simp+
  have "length (assemble ?i) \<le> 15" using a by simp
  from decode_assembled [OF val this, where gla = "0x910" and regs = "\<lambda>_. 0x100" and cs_d = False] e m a show ?thesis by metis
qed

end
