(* ===== verification/Vm_Walk.thy ===== *)
theory Vm_Walk
  imports Vm_Memory Vie_Decode
begin

text \<open>
  The walk of the guest's page tables (\<open>vm_gla2gpa\<close> of \<open>src/vmm/vmm_instruction_emul.c\<close>) over the contents of host memory:
  two-level, PAE and four-level tables, permission checks, accessed and dirty bits with their atomic updates and the restart when an update fails.
  The loop that restarts is a \<open>partial_function\<close>. The walk is compared with the translation that the architecture describes,
  as a pure function on the tables.
\<close>

subsection \<open>Contents of host memory\<close>

text \<open>Bytes by object and offset; words are little-endian, as on the host.\<close>

type_synonym hmem = "nat \<Rightarrow> u64 \<Rightarrow> u8"

definition peek_bytes :: "hmem \<Rightarrow> nat \<Rightarrow> u64 \<Rightarrow> nat \<Rightarrow> u8 list" where
  "peek_bytes m obj x n = map (\<lambda>k. m obj (x + of_nat k)) [0..<n]"

fun poke_bytes :: "nat \<Rightarrow> u64 \<Rightarrow> u8 list \<Rightarrow> hmem \<Rightarrow> hmem" where
  "poke_bytes obj x [] m = m"
| "poke_bytes obj x (b # bs) m = poke_bytes obj (x + 1) bs (m(obj := (m obj)(x := b)))"

definition word_bytes :: "nat \<Rightarrow> u64 \<Rightarrow> u8 list" where
  "word_bytes n w = map (\<lambda>k. ucast (drop_bit (8 * k) w)) [0..<n]"

definition load :: "nat \<Rightarrow> hmem \<Rightarrow> nat \<Rightarrow> u64 \<Rightarrow> u64" where
  "load n m obj x = le_bytes (peek_bytes m obj x n)"

definition store :: "nat \<Rightarrow> nat \<Rightarrow> u64 \<Rightarrow> u64 \<Rightarrow> hmem \<Rightarrow> hmem" where
  "store n obj x w m = poke_bytes obj x (word_bytes n w) m"

text \<open>\<open>atomic_cmpset_32\<close> and \<open>atomic_cmpset_64\<close> (\<open>include/xhyve/support/atomic.h\<close>), by the size of the word.\<close>

definition atomic_cmpset :: "nat \<Rightarrow> nat \<Rightarrow> u64 \<Rightarrow> u64 \<Rightarrow> u64 \<Rightarrow> hmem \<Rightarrow> bool \<times> hmem" where
  "atomic_cmpset n obj x expect src m = (if load n m obj x = expect then (True, store n obj x src m) else (False, m))"

subsection \<open>The walk\<close>

abbreviation (input) PG_V :: u64 where "PG_V \<equiv> 0x001"
abbreviation (input) PG_RW :: u64 where "PG_RW \<equiv> 0x002"
abbreviation (input) PG_U :: u64 where "PG_U \<equiv> 0x004"
abbreviation (input) PG_A :: u64 where "PG_A \<equiv> 0x020"
abbreviation (input) PG_M :: u64 where "PG_M \<equiv> 0x040"
abbreviation (input) PG_PS :: u64 where "PG_PS \<equiv> 0x080"

definition pf_error_code :: "bool \<Rightarrow> u32 \<Rightarrow> bool \<Rightarrow> u64 \<Rightarrow> u32" where
  "pf_error_code usermode prot rsvd pte =
     (if pte AND PG_V \<noteq> 0 then 1 else 0) OR (if prot AND XHYVE_PROT_WRITE \<noteq> 0 then 2 else 0) OR (if usermode then 4 else 0)
     OR (if rsvd then 8 else 0) OR (if prot AND XHYVE_PROT_EXECUTE \<noteq> 0 then 0x10 else 0)"

text \<open>
  How a pass ends: an address, the labels \<open>error\<close> and \<open>restart\<close>, and \<open>fault\<close> with the exception that is injected there.
\<close>

datatype walk = Gpa u64 | Efault | Restart | Gp | Pf u32

text \<open>
  The loops for 4-byte and for 8-byte entries have the same body up to the size of an entry, the number of index bits, and the masks for
  the next table and for the page. A 32-bit entry is held in 64 bits with a zero upper half. The test for pages above 1 GB
  is in the second loop only; the pages of the first have at most 4 MB.
\<close>

record pt_format =
  pt_size :: nat
  pt_bits :: nat
  pt_table :: "u64 \<Rightarrow> u64"
  pt_frame :: "nat \<Rightarrow> u64 \<Rightarrow> u64"

definition fmt32 :: pt_format where
  "fmt32 = \<lparr>pt_size = 4, pt_bits = 10, pt_table = (\<lambda>p. p AND NOT 0xfff), pt_frame = (\<lambda>s e. push_bit s (drop_bit s e))\<rparr>"

definition fmt64 :: pt_format where
  "fmt64 = \<lparr>pt_size = 8, pt_bits = 9, pt_table = (\<lambda>p. drop_bit 12 (push_bit 24 (drop_bit 12 p))),
     pt_frame = (\<lambda>s e. drop_bit 12 (push_bit (s + 12) (drop_bit s e)))\<rparr>"

definition pte_allows :: "bool \<Rightarrow> u32 \<Rightarrow> u64 \<Rightarrow> bool" where
  "pte_allows usermode prot pte \<longleftrightarrow>
     \<not> (pte AND PG_V = 0 \<or> (usermode \<and> pte AND PG_U = 0) \<or> (prot AND XHYVE_PROT_WRITE \<noteq> 0 \<and> pte AND PG_RW = 0))"

text \<open>After the loop: the dirty bit of the last entry, and the address.\<close>

definition walk_leaf :: "pt_format \<Rightarrow> u32 \<Rightarrow> u64 \<Rightarrow> nat \<Rightarrow> nat \<Rightarrow> u64 \<Rightarrow> u64 \<Rightarrow> hmem \<Rightarrow> walk \<times> hmem" where
  "walk_leaf f prot gla ptpshift obj x pte m =
     (let (ok, m') = (if prot AND XHYVE_PROT_WRITE \<noteq> 0 \<and> pte AND PG_M = 0
                      then atomic_cmpset (pt_size f) obj x pte (pte OR PG_M) m else (True, m))
      in (if ok then Gpa (pt_frame f ptpshift pte OR (gla AND (2 ^ ptpshift - 1))) else Restart, m'))"

fun walk_loop :: "vm \<Rightarrow> pt_format \<Rightarrow> bool \<Rightarrow> u32 \<Rightarrow> u64 \<Rightarrow> nat \<Rightarrow> u64 \<Rightarrow> hmem \<Rightarrow> walk \<times> hmem" where
  "walk_loop v f usermode prot gla nlevels ptpphys m =
     (case vm_gpa2hva v (pt_table f ptpphys) XHYVE_PAGE_SIZE of
        None \<Rightarrow> (Efault, m)
      | Some (obj, ptpbase) \<Rightarrow>
          let ptpshift = 12 + nlevels * pt_bits f;
              ptpindex = drop_bit ptpshift gla AND (2 ^ pt_bits f - 1);
              x = ptpbase + of_nat (pt_size f) * ptpindex;
              pte = load (pt_size f) m obj x
          in if \<not> pte_allows usermode prot pte then (Pf (pf_error_code usermode prot False pte), m)
             else let (ok, m1) = (if pte AND PG_A = 0 then atomic_cmpset (pt_size f) obj x pte (pte OR PG_A) m else (True, m))
                  in if \<not> ok then (Restart, m1)
                     else if nlevels > 0 \<and> pte AND PG_PS \<noteq> 0 then
                       if ptpshift > 30 then (Pf (pf_error_code usermode prot True pte), m1)
                       else walk_leaf f prot gla ptpshift obj x pte m1
                     else if nlevels = 0 then walk_leaf f prot gla ptpshift obj x pte m1
                     else walk_loop v f usermode prot gla (nlevels - 1) pte m1)"

declare walk_loop.simps [simp del]

definition walk_pass :: "vm \<Rightarrow> vm_guest_paging \<Rightarrow> u64 \<Rightarrow> u32 \<Rightarrow> hmem \<Rightarrow> walk \<times> hmem" where
  "walk_pass v paging gla prot m =
     (let usermode = (pg_cpl paging = 3)
      in if vie_canonical_check (pg_cpu_mode paging) gla then (Gp, m)
         else case pg_paging_mode paging of
             PAGING_MODE_FLAT \<Rightarrow> (Gpa gla, m)
           | PAGING_MODE_32 \<Rightarrow> walk_loop v fmt32 usermode prot gla 1 (pg_cr3 paging) m
           | PAGING_MODE_PAE \<Rightarrow>
               (case vm_gpa2hva v (pg_cr3 paging AND 0xffffffe0) 32 of
                  None \<Rightarrow> (Efault, m)
                | Some (obj, ptpbase) \<Rightarrow>
                    let pte = load 8 m obj (ptpbase + 8 * (drop_bit 30 gla AND 3))
                    in if pte AND PG_V = 0 then (Pf (pf_error_code usermode prot False pte), m)
                       else walk_loop v fmt64 usermode prot gla 1 pte m)
           | PAGING_MODE_64 \<Rightarrow> walk_loop v fmt64 usermode prot gla 3 (pg_cr3 paging) m)"

partial_function (option) walk_restart :: "vm \<Rightarrow> vm_guest_paging \<Rightarrow> u64 \<Rightarrow> u32 \<Rightarrow> hmem \<Rightarrow> (walk \<times> hmem) option" where
  "walk_restart v paging gla prot m =
     (case walk_pass v paging gla prot m of
        (r, m') \<Rightarrow> if r = Restart then walk_restart v paging gla prot m' else Some (r, m'))"

subsection \<open>Translation as the architecture describes it\<close>

text \<open>Guest physical memory: where a byte lives, bytes, and little-endian words, as numbers.\<close>

definition home :: "vm \<Rightarrow> nat \<Rightarrow> (nat \<times> u64) option" where
  "home v a = map_option (\<lambda>s. (the (seg_object s), of_nat (a - unat (seg_gpa s))))
     (find (\<lambda>s. unat (seg_gpa s) \<le> a \<and> a < unat (seg_gpa s) + unat (seg_len s)) (vm_mem_segs v))"

definition phys_byte :: "vm \<Rightarrow> hmem \<Rightarrow> nat \<Rightarrow> u8 option" where
  "phys_byte v m a = map_option (\<lambda>(obj, x). m obj x) (home v a)"

definition number :: "u8 list \<Rightarrow> nat" where
  "number bs = foldr (\<lambda>b n. unat b + 256 * n) bs 0"

definition phys_word :: "vm \<Rightarrow> hmem \<Rightarrow> nat \<Rightarrow> nat \<Rightarrow> nat option" where
  "phys_word v m w a = map_option number (those (map (phys_byte v m) [a..<a + w]))"

datatype translation = Mapped nat | Denied u32 | NotCanonical | NoMemory

text \<open>The error code of a page fault: present, write, user, reserved bit, instruction fetch.\<close>

definition fault_code :: "bool \<Rightarrow> u32 \<Rightarrow> bool \<Rightarrow> bool \<Rightarrow> u32" where
  "fault_code user prot rsvd present =
     of_bool present + 2 * of_bool (bit prot 1) + 4 * of_bool user + 8 * of_bool rsvd + 16 * of_bool (bit prot 2)"

definition permits :: "bool \<Rightarrow> u32 \<Rightarrow> nat \<Rightarrow> bool" where
  "permits user prot e \<longleftrightarrow> bit e 0 \<and> (user \<longrightarrow> bit e 2) \<and> (bit prot 1 \<longrightarrow> bit e 1)"

text \<open>
  One table after the other from level \<open>n\<close> down, with entries of \<open>w\<close> bytes and \<open>b\<close> index bits; an entry with bit 7 set above level 0 maps
  a large page, of at most 1 GB. The second component is the list of the entries that were looked at.
\<close>

fun translate :: "(nat \<Rightarrow> nat option) \<Rightarrow> nat \<Rightarrow> nat \<Rightarrow> bool \<Rightarrow> u32 \<Rightarrow> nat \<Rightarrow> nat \<Rightarrow> nat \<Rightarrow> translation \<times> nat list" where
  "translate rdw w b user prot a n table =
     (let s = 12 + n * b; at = table + w * (a div 2 ^ s mod 2 ^ b)
      in case rdw at of
           None \<Rightarrow> (NoMemory, [])
         | Some e \<Rightarrow>
             if \<not> permits user prot e then (Denied (fault_code user prot False (bit e 0)), [])
             else if n = 0 \<or> bit e 7 then
               if s > 30 then (Denied (fault_code user prot True True), [at])
               else (Mapped (e div 2 ^ s * 2 ^ s mod 2 ^ 52 + a mod 2 ^ s), [at])
             else apsnd ((#) at) (translate rdw w b user prot a (n - 1) (e div 2 ^ 12 * 2 ^ 12 mod 2 ^ 52)))"

declare translate.simps [simp del]

text \<open>A canonical address is the sign extension of its lower 48 bits.\<close>

definition canonical :: "u64 \<Rightarrow> bool" where
  "canonical a \<longleftrightarrow> scast (ucast a :: 48 word) = a"

definition guest_translate :: "(nat \<Rightarrow> nat \<Rightarrow> nat option) \<Rightarrow> vm_guest_paging \<Rightarrow> u64 \<Rightarrow> u32 \<Rightarrow> translation \<times> nat list" where
  "guest_translate rdw paging gla prot =
     (let user = (pg_cpl paging = 3); cr3 = unat (pg_cr3 paging); a = unat gla
      in if pg_cpu_mode paging = CPU_MODE_64BIT \<and> \<not> canonical gla then (NotCanonical, [])
         else case pg_paging_mode paging of
             PAGING_MODE_FLAT \<Rightarrow> (Mapped a, [])
           | PAGING_MODE_32 \<Rightarrow> translate (rdw 4) 4 10 user prot a 1 (cr3 div 2 ^ 12 * 2 ^ 12)
           | PAGING_MODE_PAE \<Rightarrow>
               (case rdw 8 (cr3 mod 2 ^ 32 div 32 * 32 + 8 * (a div 2 ^ 30 mod 4)) of
                  None \<Rightarrow> (NoMemory, [])
                | Some e \<Rightarrow>
                    if \<not> bit e 0 then (Denied (fault_code user prot False False), [])
                    else translate (rdw 8) 8 9 user prot a 1 (e div 2 ^ 12 * 2 ^ 12 mod 2 ^ 52))
           | PAGING_MODE_64 \<Rightarrow> translate (rdw 8) 8 9 user prot a 3 (cr3 div 2 ^ 12 * 2 ^ 12 mod 2 ^ 52))"

subsection \<open>Words in memory\<close>

lemma bit_le_bytes:
  assumes "length bs \<le> 8"
  shows "bit (le_bytes bs) k \<longleftrightarrow> k < 8 * length bs \<and> bit (bs ! (k div 8)) (k mod 8)"
  using assms
proof (induction bs arbitrary: k)
  case (Cons b bs)
  show ?case
  proof (cases "k < 8")
    case True
    then show ?thesis by (simp add: bit_or_iff bit_ucast_iff bit_push_bit_iff)
  next
    case False
    then obtain j where k: "k = 8 + j" using le_Suc_ex not_less by blast
    have "\<not> bit b k" using False bit_imp_le_length [of b k] by auto
    then have "bit (le_bytes (b # bs)) k \<longleftrightarrow> k < 64 \<and> bit (le_bytes bs) j"
      using k by (simp add: bit_or_iff bit_ucast_iff bit_push_bit_iff)
    moreover have "bit (le_bytes bs) j \<longleftrightarrow> j < 8 * length bs \<and> bit (bs ! (j div 8)) (j mod 8)" using Cons by simp
    moreover have "k div 8 = Suc (j div 8)" "k mod 8 = j mod 8" using k by simp_all
    ultimately show ?thesis using Cons.prems k by auto
  qed
qed simp

lemma le_bytes_number:
  assumes "length bs \<le> 8"
  shows "unat (le_bytes bs) = number bs" and "number bs < 256 ^ length bs"
proof -
  have lt: "number bs < 256 ^ length bs" for bs :: "u8 list"
  proof (induction bs)
    case (Cons b bs)
    have "unat b < 256" using unsigned_less [of b] by simp
    then show ?case using Cons by (simp add: number_def)
  qed (simp add: number_def)
  show "number bs < 256 ^ length bs" by (rule lt)
  show "unat (le_bytes bs) = number bs" using assms
  proof (induction bs)
    case (Cons b bs)
    have "ucast b AND push_bit 8 (le_bytes bs) = (0 :: u64)"
      by (rule bit_word_eqI) (auto simp: bit_and_iff bit_ucast_iff bit_push_bit_iff dest: bit_imp_le_length)
    then have e: "le_bytes (b # bs) = ucast b + 256 * le_bytes bs" by (simp add: disjunctive_add_eq_or [symmetric] push_bit_eq_mult mult.commute)
    have "number bs < 256 ^ 7" using lt [of bs] power_increasing [of "length bs" 7 "256 :: nat"] Cons.prems by simp
    then have r: "unat (le_bytes bs) = number bs" "number bs < 72057594037927936" using Cons by simp_all
    then have m: "unat (256 * le_bytes bs) = 256 * number bs" by (simp add: unat_word_ariths)
    have "unat b < 256" using unsigned_less [of b] by simp
    then show ?case unfolding e using m r by (simp add: number_def unat_word_ariths)
  qed (simp add: number_def)
qed

lemma peek_length [simp]: "length (peek_bytes m obj x n) = n"
  by (simp add: peek_bytes_def)

lemma peek_nth [simp]: "k < n \<Longrightarrow> peek_bytes m obj x n ! k = m obj (x + of_nat k)"
  by (simp add: peek_bytes_def)

lemma peek_Suc: "peek_bytes m obj x (Suc n) = m obj x # peek_bytes m obj (x + 1) n"
proof -
  have "[0..<Suc n] = 0 # map Suc [0..<n]" by (simp add: upt_conv_Cons map_Suc_upt del: upt_Suc)
  then show ?thesis by (simp add: peek_bytes_def ac_simps del: upt_Suc)
qed

lemma bit_load: "n \<le> 8 \<Longrightarrow> bit (load n m obj x) k \<longleftrightarrow> k < 8 * n \<and> bit (m obj (x + of_nat (k div 8))) (k mod 8)"
  by (auto simp: load_def bit_le_bytes less_mult_imp_div_less mult.commute)

lemma word_bytes_length [simp]: "length (word_bytes n w) = n"
  by (simp add: word_bytes_def)

text \<open>Setting bits of the lowest byte of a word changes that byte only.\<close>

lemma poke_peek: "n < 2 ^ 64 \<Longrightarrow> poke_bytes obj x (peek_bytes m obj x n) m = m"
proof (induction n arbitrary: x)
  case (Suc n)
  have "m(obj := (m obj)(x := m obj x)) = m" by simp
  then show ?case using Suc by (simp add: peek_Suc)
qed (simp add: peek_bytes_def)

lemma store_or:
  assumes "0 < n" and "n \<le> 8"
  shows "store n obj x (load n m obj x OR ucast (c :: u8)) m = m(obj := (m obj)(x := m obj x OR c))"
proof -
  obtain k where n: "n = Suc k" using assms(1) gr0_implies_Suc by blast
  let ?m = "m(obj := (m obj)(x := m obj x OR c))"
  have b: "word_bytes n (load n m obj x OR ucast c) = (m obj x OR c) # peek_bytes m obj (x + 1) k"
  proof (rule nth_equalityI)
    fix i assume "i < length (word_bytes n (load n m obj x OR ucast c))"
    then have i: "i < n" by simp
    show "word_bytes n (load n m obj x OR ucast c) ! i = ((m obj x OR c) # peek_bytes m obj (x + 1) k) ! i"
    proof (rule bit_word_eqI)
      fix j assume j: "j < LENGTH(8)"
      then have d: "(8 * i + j) div 8 = i" "(8 * i + j) mod 8 = j" "8 * i + j < 8 * n" using i by auto
      have c: "bit c (8 * i + j) \<longleftrightarrow> i = 0 \<and> bit c j" using bit_imp_le_length [of c "8 * i + j"] by (cases i) auto
      have "word_bytes n (load n m obj x OR ucast c) ! i = ucast (drop_bit (8 * i) (load n m obj x OR ucast c))"
        using i by (simp add: word_bytes_def)
      then have "bit (word_bytes n (load n m obj x OR ucast c) ! i) j \<longleftrightarrow> bit (m obj (x + of_nat i)) j \<or> i = 0 \<and> bit c j"
        using j d assms i c by (auto simp: bit_ucast_iff bit_drop_bit_eq bit_or_iff bit_load)
      then show "bit (word_bytes n (load n m obj x OR ucast c) ! i) j \<longleftrightarrow> bit (((m obj x OR c) # peek_bytes m obj (x + 1) k) ! i) j"
        using i n by (cases i) (auto simp: bit_or_iff add.assoc)
    qed
  qed (simp add: n)
  have "peek_bytes m obj (x + 1) k = peek_bytes ?m obj (x + 1) k"
  proof (rule nth_equalityI)
    fix i assume "i < length (peek_bytes m obj (x + 1) k)"
    then have i: "i < k" by simp
    have "x + 1 + of_nat i \<noteq> x"
    proof
      assume "x + 1 + of_nat i = x"
      then have "of_nat (Suc i) = (0 :: u64)" by (simp add: algebra_simps)
      then have "unat (of_nat (Suc i) :: u64) = 0" by (simp only: unsigned_0)
      then show False using i n assms(2) by (simp add: unat_of_nat del: of_nat_Suc)
    qed
    then show "peek_bytes m obj (x + 1) k ! i = peek_bytes ?m obj (x + 1) k ! i" using i by simp
  qed simp
  then show ?thesis unfolding store_def b using poke_peek [of k obj "x + 1" ?m] n assms(2) by simp
qed

subsection \<open>Homes of guest physical bytes\<close>

lemma find_in_set: "find P xs = Some x \<Longrightarrow> x \<in> set xs \<and> P x"
  by (metis find_Some_iff nth_mem)

lemma seg_unique:
  assumes "mem_ok v" and "s \<in> set (vm_mem_segs v)" and "t \<in> set (vm_mem_segs v)" and "a \<in> seg_range s" and "a \<in> seg_range t"
  shows "s = t"
proof (rule ccontr)
  assume ne: "s \<noteq> t"
  have ord: "seg_range (vm_mem_segs v ! i) \<inter> seg_range (vm_mem_segs v ! j) = {}" if "i < j" "j < length (vm_mem_segs v)" for i j
    using assms(1) that by (simp add: mem_ok_def sorted_wrt_iff_nth_less)
  obtain i j where "s = vm_mem_segs v ! i" "t = vm_mem_segs v ! j" "i < length (vm_mem_segs v)" "j < length (vm_mem_segs v)"
    using assms(2,3) by (metis in_set_conv_nth)
  then show False using ne ord [of i j] ord [of j i] assms(4,5) by (cases i j rule: linorder_cases) auto
qed

lemma home_in_seg:
  assumes "mem_ok v" and "s \<in> set (vm_mem_segs v)" and "a \<in> seg_range s"
  shows "home v a = Some (the (seg_object s), of_nat (a - unat (seg_gpa s)))"
proof -
  let ?P = "\<lambda>s. unat (seg_gpa s) \<le> a \<and> a < unat (seg_gpa s) + unat (seg_len s)"
  have "?P s" using assms(3) by (simp add: seg_range_def)
  then have "find ?P (vm_mem_segs v) \<noteq> None" using assms(2) unfolding find_None_iff by blast
  then obtain t where t: "find ?P (vm_mem_segs v) = Some t" by blast
  have "t \<in> set (vm_mem_segs v)" "a \<in> seg_range t" using find_in_set [OF t] by (simp_all add: seg_range_def)
  then have "t = s" using seg_unique [OF assms(1) _ assms(2) _ assms(3)] by blast
  then show ?thesis using t by (simp add: home_def)
qed

lemma home_of_hva:
  assumes "mem_ok v" and "unat g + unat len < 2 ^ 64" and "vm_gpa2hva v g len = Some (obj, x)" and "k < unat len"
  shows "home v (unat g + k) = Some (obj, x + of_nat k)"
proof -
  obtain s where s: "s \<in> set (vm_mem_segs v)" "seg_object s = Some obj" "unat g = unat (seg_gpa s) + unat x" "unat x + unat len \<le> unat (seg_len s)"
    by (rule gpa2hva_seg [OF assms(1-3)])
  have "unat g + k \<in> seg_range s" using s assms(4) by (simp add: seg_range_def)
  from home_in_seg [OF assms(1) s(1) this] show ?thesis using s(2,3) by simp
qed

text \<open>Segments consist of whole pages, so a range within a page is in memory entirely or not at all.\<close>

lemma no_home_of_hva:
  assumes ok: "mem_ok v" and pg: "unat g mod 4096 + unat len \<le> 4096" and none: "vm_gpa2hva v g len = None" and k: "k < unat len"
    and fit: "unat g + unat len < 2 ^ 64"
  shows "home v (unat g + k) = None"
proof (rule ccontr)
  assume "home v (unat g + k) \<noteq> None"
  then obtain s where s: "s \<in> set (vm_mem_segs v)" "unat (seg_gpa s) \<le> unat g + k" "unat g + k < unat (seg_gpa s) + unat (seg_len s)"
    by (auto simp: home_def dest: find_in_set)
  have so: "seg_ok s" using ok s(1) by (simp add: mem_ok_def list_all_iff)
  then obtain p q where pq: "unat (seg_gpa s) = 4096 * p" "unat (seg_len s) = 4096 * q" by (auto simp: seg_ok_def dvd_def)
  define r where "r = unat g div 4096"
  have g: "unat g = 4096 * r + unat g mod 4096" by (simp add: r_def)
  have "unat g + k < 4096 * (r + 1)" using g pg k by simp
  then have "p \<le> r" using s(2) pq by simp
  moreover have "r < p + q" using s(3) pq g by simp
  ultimately have "unat (seg_gpa s) \<le> unat g" "unat g + unat len \<le> unat (seg_gpa s) + unat (seg_len s)" using pq g pg by auto
  then have "seg_gpa s \<le> g" "g + len \<le> seg_gpa s + seg_len s" "seg_object s \<noteq> None"
    using so fit by (simp_all add: word_le_nat_alt seg_ok_def seg_end)
  then show False using none s(1) by (auto simp: vm_gpa2hva_def vm_get_memobj_def find_None_iff)
qed

lemma those_map_Some: "(\<And>x. x \<in> set xs \<Longrightarrow> f x = Some (g x)) \<Longrightarrow> those (map f xs) = Some (map g xs)"
  by (induction xs) simp_all

lemma those_None: "None \<in> set xs \<Longrightarrow> those xs = None"
  by (induction xs) (auto split: option.splits)

lemma phys_word_Some:
  assumes "mem_ok v" and "unat g + unat len < 2 ^ 64" and "vm_gpa2hva v g len = Some (obj, x)" and "off + w \<le> unat len" and "w \<le> 8"
  shows "phys_word v m w (unat g + off) = Some (unat (load w m obj (x + of_nat off)))"
proof -
  have b: "phys_byte v m (unat g + (off + k)) = Some (m obj (x + of_nat off + of_nat k))" if "k < w" for k
    using home_of_hva [OF assms(1-3), of "off + k"] that assms(4) by (simp add: phys_byte_def add.assoc)
  have "[unat g + off..<unat g + off + w] = map (\<lambda>k. unat g + (off + k)) [0..<w]"
    by (rule nth_equalityI) simp_all
  then have "those (map (phys_byte v m) [unat g + off..<unat g + off + w]) = Some (peek_bytes m obj (x + of_nat off) w)"
    using those_map_Some [of "[0..<w]" "\<lambda>k. phys_byte v m (unat g + (off + k))" "\<lambda>k. m obj (x + of_nat off + of_nat k)"] b
    by (simp add: peek_bytes_def o_def)
  then show ?thesis using assms(5) by (simp add: phys_word_def load_def le_bytes_number)
qed

lemma phys_word_None:
  assumes "mem_ok v" and "unat g mod 4096 + unat len \<le> 4096" and "vm_gpa2hva v g len = None" and "off + w \<le> unat len" and "0 < w"
    and "unat g + unat len < 2 ^ 64"
  shows "phys_word v m w (unat g + off) = None"
proof -
  have "home v (unat g + off) = None" using no_home_of_hva [OF assms(1-3), of off] assms(4-6) by simp
  then have "None \<in> set (map (phys_byte v m) [unat g + off..<unat g + off + w])" using assms(5) by (auto simp: phys_byte_def image_iff)
  then show ?thesis by (simp add: phys_word_def those_None)
qed

subsection \<open>Memory up to accessed and dirty bits\<close>

definition ad :: "(nat \<times> u64) set \<Rightarrow> hmem \<Rightarrow> hmem \<Rightarrow> bool" where
  "ad S m m' \<longleftrightarrow> (\<forall>obj x. m' obj x = m obj x \<or> (obj, x) \<in> S \<and> (\<exists>c \<in> {0x20, 0x40, 0x60}. m' obj x = m obj x OR c))"

lemma ad_refl [simp]: "ad S m m"
  by (simp add: ad_def)

lemma ad_trans:
  assumes "ad S m m1" and "ad T m1 m2"
  shows "ad (S \<union> T) m m2"
proof -
  have or: "\<exists>e \<in> {0x20, 0x40, 0x60}. (b OR c) OR d = b OR e" if "c \<in> {0x20, 0x40, 0x60}" "d \<in> {0x20, 0x40, 0x60}" for b c d :: u8
    using that by (auto simp: or.assoc)
  show ?thesis unfolding ad_def
  proof (intro allI)
    fix obj x
    show "m2 obj x = m obj x \<or> (obj, x) \<in> S \<union> T \<and> (\<exists>c \<in> {0x20, 0x40, 0x60}. m2 obj x = m obj x OR c)"
    proof (cases "m1 obj x = m obj x \<or> m2 obj x = m1 obj x")
      case True
      then show ?thesis using assms unfolding ad_def by (metis Un_iff)
    next
      case False
      then obtain c d where "c \<in> {0x20, 0x40, 0x60}" "m1 obj x = m obj x OR c" "(obj, x) \<in> S" "d \<in> {0x20, 0x40, 0x60}" "m2 obj x = m1 obj x OR d"
        using assms unfolding ad_def by metis
      then show ?thesis using or [of c d "m obj x"] by auto
    qed
  qed
qed

lemma ad_mono: "ad S m m' \<Longrightarrow> S \<subseteq> T \<Longrightarrow> ad T m m'"
  unfolding ad_def by blast

lemma ad_bit: "ad S m m' \<Longrightarrow> bit (m obj x) k \<Longrightarrow> bit (m' obj x) k"
  unfolding ad_def by (metis bit_or_iff)

lemma ad_set: "c \<in> {0x20, 0x40, 0x60} \<Longrightarrow> ad {(obj, x)} m (m(obj := (m obj)(x := m obj x OR c)))"
  by (auto simp: ad_def)

lemma aligned_next:
  assumes "w dvd unat x" and "w = 4 \<or> w = 8" and "0 < k" and "k < w"
  shows "\<not> w dvd unat (x + of_nat k :: u64)"
proof -
  have "w dvd 2 ^ 64" using assms(2) by auto
  then have "unat (x + of_nat k) mod w = (unat x + k) mod w" by (simp add: unat_word_ariths unat_of_nat mod_mod_cancel mod_add_right_eq)
  moreover obtain q where "unat x = w * q" using assms(1) by (elim dvdE)
  ultimately show ?thesis using assms(3,4) by (simp add: dvd_eq_mod_eq_0)
qed

lemma load_ad:
  assumes "ad S m m'" and "\<And>obj x. (obj, x) \<in> S \<Longrightarrow> w dvd unat x" and "w dvd unat x" and "w = 4 \<or> w = 8"
  shows "\<exists>c \<in> {0, 0x20, 0x40, 0x60}. load w m' obj x = load w m obj x OR ucast (c :: u8)"
proof -
  obtain c where c: "c \<in> {0, 0x20, 0x40, 0x60}" "m' obj x = m obj x OR c"
    using assms(1) unfolding ad_def by (metis insert_iff or.right_neutral)
  have same: "m' obj (x + of_nat k) = m obj (x + of_nat k)" if "0 < k" "k < w" for k
    using aligned_next [OF assms(3,4) that] assms(1,2) unfolding ad_def by blast
  have "load w m' obj x = load w m obj x OR ucast c"
  proof (rule bit_word_eqI)
    fix j assume "j < LENGTH(64)"
    have w: "w \<le> 8" using assms(4) by auto
    show "bit (load w m' obj x) j \<longleftrightarrow> bit (load w m obj x OR ucast c) j"
    proof (cases "j < 8")
      case True
      then show ?thesis using c(2) assms(4) w by (auto simp: bit_load bit_or_iff bit_ucast_iff)
    next
      case False
      then have "\<not> bit c j" "0 < j div 8" using bit_imp_le_length [of c j] by (auto simp: div_greater_zero_iff)
      moreover have "j < 8 * w \<Longrightarrow> j div 8 < w" by (simp add: less_mult_imp_div_less mult.commute)
      ultimately show ?thesis using same [of "j div 8"] w by (auto simp: bit_load bit_or_iff bit_ucast_iff)
    qed
  qed
  then show ?thesis using c(1) by blast
qed

lemma load_set:
  assumes "0 < n" and "n \<le> 8"
  shows "load n (m(obj := (m obj)(x := m obj x OR c))) obj x = load n m obj x OR ucast (c :: u8)"
proof (rule bit_word_eqI)
  fix j assume "j < LENGTH(64)"
  show "bit (load n (m(obj := (m obj)(x := m obj x OR c))) obj x) j \<longleftrightarrow> bit (load n m obj x OR ucast c) j"
  proof (cases "j < 8")
    case True
    then show ?thesis using assms by (auto simp: bit_load bit_or_iff bit_ucast_iff)
  next
    case False
    have "of_nat (j div 8) \<noteq> (0 :: u64)" if "j < 8 * n"
    proof -
      have "j div 8 < 8" "j div 8 \<noteq> 0" using that assms(2) False by (auto simp: div_eq_0_iff less_mult_imp_div_less)
      then have "unat (of_nat (j div 8) :: u64) \<noteq> 0" by (simp add: unat_of_nat)
      then show ?thesis by (metis unsigned_0)
    qed
    moreover have "\<not> bit c j" using False bit_imp_le_length [of c j] by auto
    ultimately show ?thesis using assms(2) by (auto simp: bit_load bit_or_iff bit_ucast_iff)
  qed
qed

subsection \<open>Entries\<close>

lemma bit_unat [simp]: "bit (unat (w :: 'a::len word)) k = bit w k"
  by (simp add: bit_unsigned_iff)

lemma pte_masks [simp]:
  "(e :: u64) AND 1 = 0 \<longleftrightarrow> \<not> bit e 0" "e AND 2 = 0 \<longleftrightarrow> \<not> bit e 1" "e AND 4 = 0 \<longleftrightarrow> \<not> bit e 2"
  "e AND 0x20 = 0 \<longleftrightarrow> \<not> bit e 5" "e AND 0x40 = 0 \<longleftrightarrow> \<not> bit e 6" "e AND 0x80 = 0 \<longleftrightarrow> \<not> bit e 7"
  using and_pow2_eq_0_iff [of e 0] and_pow2_eq_0_iff [of e 1] and_pow2_eq_0_iff [of e 2] and_pow2_eq_0_iff [of e 5]
    and_pow2_eq_0_iff [of e 6] and_pow2_eq_0_iff [of e 7] by simp_all

lemma prot_masks [simp]: "(p :: u32) AND 2 = 0 \<longleftrightarrow> \<not> bit p 1" "p AND 4 = 0 \<longleftrightarrow> \<not> bit p 2"
  using and_pow2_eq_0_iff [of p 1] and_pow2_eq_0_iff [of p 2] by simp_all

lemma permits_iff: "permits user prot (unat e) = pte_allows user prot e"
  by (auto simp: permits_def pte_allows_def)

lemma fault_code_eq: "pf_error_code user prot rsvd e = fault_code user prot rsvd (bit e 0)"
  by (cases "bit e 0"; cases "bit prot 1"; cases user; cases rsvd; cases "bit prot 2") (simp_all add: pf_error_code_def fault_code_def)

lemma or_accessed: "(e :: u64) OR 0x20 = e \<longleftrightarrow> bit e 5"
proof -
  have "bit (e OR BIT 5) 5" by (simp add: bit_or_BIT)
  moreover have "bit e 5 \<Longrightarrow> e OR BIT 5 = e" by (rule bit_word_eqI) (auto simp: bit_or_BIT)
  ultimately have "e OR BIT 5 = e \<longleftrightarrow> bit e 5" by metis
  then show ?thesis by (simp add: BIT_eq_pow2)
qed

text \<open>Accessed and dirty bits do not matter for the translation.\<close>

lemma or_ad:
  assumes "c \<in> {0, 0x20, 0x40, 0x60 :: u8}" and "e' = (e :: u64) OR ucast c"
  shows "pte_allows user prot e' = pte_allows user prot e" "bit e' 0 = bit e 0" "bit e' 7 = bit e 7" "12 \<le> s \<Longrightarrow> unat e' div 2 ^ s = unat e div 2 ^ s"
proof -
  have b: "bit (ucast c :: u64) k \<Longrightarrow> k = 5 \<or> k = 6" for k
  proof -
    assume "bit (ucast c :: u64) k"
    then have "bit c k" "k < 8" using bit_imp_le_length [of c k] by (auto simp: bit_ucast_iff)
    then show "k = 5 \<or> k = 6" using assms(1) by (auto simp: numeral_eq_Suc less_Suc_eq)
  qed
  have e: "bit e' k = bit e k" if "k \<noteq> 5" "k \<noteq> 6" for k using b [of k] that assms(2) by (auto simp: bit_or_iff)
  show "pte_allows user prot e' = pte_allows user prot e" "bit e' 0 = bit e 0" "bit e' 7 = bit e 7" by (simp_all add: pte_allows_def e)
  assume s: "12 \<le> s"
  have "drop_bit s e' = drop_bit s e" by (rule bit_word_eqI) (use s e in \<open>auto simp: bit_drop_bit_eq\<close>)
  then show "unat e' div 2 ^ s = unat e div 2 ^ s" by (metis unat_drop_bit_div)
qed

locale page_format =
  fixes f :: pt_format
  assumes size: "pt_size f = 4 \<or> pt_size f = 8"
    and page: "pt_size f * 2 ^ pt_bits f = 4096"
    and table: "unat e < 2 ^ (8 * pt_size f) \<Longrightarrow> unat (pt_table f e) = unat e div 2 ^ 12 * 2 ^ 12 mod 2 ^ 52"
    and frame: "unat e < 2 ^ (8 * pt_size f) \<Longrightarrow> 12 \<le> s \<Longrightarrow> s \<le> 30 \<Longrightarrow> unat (pt_frame f s e) = unat e div 2 ^ s * 2 ^ s mod 2 ^ 52"

lemma unat_mask52: "unat (drop_bit 12 (push_bit 12 (w :: u64))) = unat w mod 2 ^ 52"
proof -
  have "drop_bit 12 (push_bit 12 w) = take_bit 52 w"
    by (rule bit_word_eqI) (auto simp: bit_drop_bit_eq bit_push_bit_iff bit_take_bit_iff)
  then show ?thesis unfolding take_bit_eq_mod [symmetric] by (simp only: unsigned_take_bit_eq)
qed

lemma unat_shift_back: "unat (push_bit s (drop_bit s (w :: u64))) = unat w div 2 ^ s * 2 ^ s"
proof -
  have "unat w div 2 ^ s * 2 ^ s < 2 ^ 64" using unat_bound [of w] div_times_less_eq_dividend [of "unat w" "2 ^ s"] by (rule le_less_trans [rotated])
  moreover have "unat (push_bit s (drop_bit s w)) = (unat w div 2 ^ s * 2 ^ s) mod 2 ^ 64"
    unfolding unsigned_push_bit_eq unat_drop_bit_div unfolding push_bit_eq_mult take_bit_eq_mod by simp
  ultimately show ?thesis by (simp only: mod_less)
qed

interpretation pt32: page_format fmt32
proof
  have clear: "(e :: u64) AND NOT 0xfff = push_bit 12 (drop_bit 12 e)" for e
  proof -
    have "e AND NOT (mask 12) = push_bit 12 (drop_bit 12 e)"
      by (rule bit_word_eqI) (auto simp: bit_and_iff bit_not_iff bit_mask_iff bit_push_bit_iff bit_drop_bit_eq)
    then show ?thesis by (simp add: mask_eq_exp_minus_1)
  qed
  fix e :: u64 and s :: nat
  assume e: "unat e < 2 ^ (8 * pt_size fmt32)"
  have lt: "unat e div 2 ^ s * 2 ^ s mod 2 ^ 52 = unat e div 2 ^ s * 2 ^ s" for s
  proof (rule mod_less)
    have "unat e div 2 ^ s * 2 ^ s \<le> unat e" by (rule div_times_less_eq_dividend)
    also have "\<dots> < 2 ^ 52" using e by (simp add: fmt32_def)
    finally show "unat e div 2 ^ s * 2 ^ s < 2 ^ 52" .
  qed
  show "unat (pt_table fmt32 e) = unat e div 2 ^ 12 * 2 ^ 12 mod 2 ^ 52" unfolding lt by (simp only: fmt32_def pt_format.simps clear unat_shift_back)
  show "unat (pt_frame fmt32 s e) = unat e div 2 ^ s * 2 ^ s mod 2 ^ 52" unfolding lt by (simp add: fmt32_def unat_shift_back)
qed (simp_all add: fmt32_def)

interpretation pt64: page_format fmt64
proof
  have p: "push_bit (s + 12) (w :: u64) = push_bit 12 (push_bit s w)" for s w by (simp add: add.commute)
  fix e :: u64 and s :: nat
  show "unat (pt_frame fmt64 s e) = unat e div 2 ^ s * 2 ^ s mod 2 ^ 52"
    by (simp only: fmt64_def pt_format.simps p unat_mask52 unat_shift_back)
  show "unat (pt_table fmt64 e) = unat e div 2 ^ 12 * 2 ^ 12 mod 2 ^ 52"
    using p [of 12 "drop_bit 12 e"] unat_mask52 [of "push_bit 12 (drop_bit 12 e)"] unat_shift_back [of 12 e] by (simp add: fmt64_def)
qed (simp_all add: fmt64_def)

subsection \<open>The walk implements the translation\<close>

definition homes :: "vm \<Rightarrow> nat list \<Rightarrow> (nat \<times> u64) set" where
  "homes v as = {p. \<exists>a \<in> set as. home v a = Some p}"

definition marked :: "vm \<Rightarrow> nat \<Rightarrow> hmem \<Rightarrow> nat \<Rightarrow> bool" where
  "marked v k m a \<longleftrightarrow> (\<exists>obj x. home v a = Some (obj, x) \<and> bit (m obj x) k)"

fun conv :: "translation \<Rightarrow> walk" where
  "conv (Mapped a) = Gpa (of_nat a)"
| "conv (Denied c) = Pf c"
| "conv NotCanonical = Gp"
| "conv NoMemory = Efault"

lemma conv_not_Restart [simp]: "conv t \<noteq> Restart"
  by (cases t) simp_all

text \<open>What a pass does: entries change in accessed and dirty bits only, and are all marked; the pass restarts only when an entry was not marked.\<close>

definition pass_ok :: "vm \<Rightarrow> u32 \<Rightarrow> hmem \<Rightarrow> translation \<times> nat list \<Rightarrow> walk \<times> hmem \<Rightarrow> bool" where
  "pass_ok v prot m = (\<lambda>(t, as) (r, m').
     ad (homes v as) m m' \<and> (\<forall>a \<in> set as. marked v 5 m' a) \<and> (r = Restart \<or> r = conv t)
   \<and> ((\<forall>a \<in> set as. marked v 5 m a) \<longrightarrow> r \<noteq> Restart)
   \<and> ((\<exists>g. t = Mapped g) \<and> bit prot 1 \<and> r \<noteq> Restart \<longrightarrow> as \<noteq> [] \<longrightarrow> marked v 6 m' (last as)))"

lemma marked_ad: "marked v k m a \<Longrightarrow> ad S m m' \<Longrightarrow> marked v k m' a"
  unfolding marked_def using ad_bit by blast

lemma homes_Cons: "homes v (a # as) = {p. home v a = Some p} \<union> homes v as"
  by (auto simp: homes_def)

lemma pass_ok_Cons:
  assumes "home v a = Some (obj, x)" and "ad {(obj, x)} m m1" and "bit (m1 obj x) 5" and "pass_ok v prot m1 (t, as) (r, m')"
    and "\<exists>g. t = Mapped g \<Longrightarrow> as \<noteq> []"
  shows "pass_ok v prot m (t, a # as) (r, m')"
proof -
  have p: "ad (homes v as) m1 m'" "\<forall>a \<in> set as. marked v 5 m' a" "r = Restart \<or> r = conv t" "(\<forall>a \<in> set as. marked v 5 m1 a) \<Longrightarrow> r \<noteq> Restart"
      "(\<exists>g. t = Mapped g) \<and> bit prot 1 \<and> r \<noteq> Restart \<Longrightarrow> as \<noteq> [] \<Longrightarrow> marked v 6 m' (last as)"
    using assms(4) by (auto simp: pass_ok_def)
  have "ad (homes v (a # as)) m m'" using ad_trans [OF assms(2) p(1)] assms(1) by (auto simp: homes_Cons elim: ad_mono)
  moreover have "marked v 5 m' a" using assms(1) ad_bit [OF p(1) assms(3)] by (simp add: marked_def)
  moreover have "(\<forall>b \<in> set as. marked v 5 m b) \<longrightarrow> r \<noteq> Restart" using p(4) marked_ad [OF _ assms(2)] by blast
  ultimately show ?thesis using p assms(5) by (auto simp: pass_ok_def)
qed

lemma translate_Mapped: "translate rdw w b user prot a n t = (Mapped g, as) \<Longrightarrow> as \<noteq> []"
  by (subst (asm) translate.simps) (auto simp: Let_def apsnd_def map_prod_def split: option.splits if_splits prod.splits)

lemma load_bound: "w \<le> 8 \<Longrightarrow> unat (load w m obj x) < 2 ^ (8 * w)"
  using le_bytes_number [of "peek_bytes m obj x w"] by (simp add: load_def power_mult)

lemma unat_offset: "unat x + k < 2 ^ 64 \<Longrightarrow> unat (x + of_nat k :: u64) = unat x + k"
  by (simp add: unat_word_ariths unat_of_nat)

context page_format
begin

lemma size_le: "0 < pt_size f" "pt_size f \<le> 8"
  using size by auto

lemma leaf_address:
  assumes "unat e < 2 ^ (8 * pt_size f)" and "12 \<le> s" and "s \<le> 30"
  shows "pt_frame f s e OR (gla AND (2 ^ s - 1)) = of_nat (unat e div 2 ^ s * 2 ^ s mod 2 ^ 52 + unat gla mod 2 ^ s)"
proof -
  have low: "unat (gla AND (2 ^ s - 1)) = unat gla mod 2 ^ s"
    by (simp only: mask_eq_exp_minus_1 [symmetric] take_bit_eq_mask [symmetric] unsigned_take_bit_eq) (rule take_bit_eq_mod)
  have fr: "unat (pt_frame f s e) = unat e div 2 ^ s * 2 ^ s mod 2 ^ 52" by (rule frame [OF assms])
  have "2 ^ s dvd (2 ^ 52 :: nat)" using assms(3) by (intro le_imp_power_dvd) simp
  then have "2 ^ s dvd unat (pt_frame f s e)" unfolding fr by (simp add: dvd_mod_iff)
  then have "\<not> bit (pt_frame f s e) k" if "k < s" for k
  proof -
    have "take_bit s (unat (pt_frame f s e)) = 0" using \<open>2 ^ s dvd unat (pt_frame f s e)\<close> by (simp add: take_bit_eq_mod)
    then have "\<not> bit (take_bit s (unat (pt_frame f s e))) k" by (simp only: bit_0_eq bot_apply) simp
    then show ?thesis using that by (simp add: bit_take_bit_iff)
  qed
  then have "pt_frame f s e AND (gla AND (2 ^ s - 1)) = 0"
    by (intro bit_word_eqI) (auto simp: bit_and_iff mask_eq_exp_minus_1 [symmetric] bit_mask_iff)
  then have "pt_frame f s e OR (gla AND (2 ^ s - 1)) = pt_frame f s e + (gla AND (2 ^ s - 1))" by (simp add: disjunctive_add_eq_or)
  also have "\<dots> = of_nat (unat (pt_frame f s e)) + of_nat (unat (gla AND (2 ^ s - 1)))" by simp
  finally show ?thesis unfolding fr low by simp
qed

text \<open>The entry that a level looks at.\<close>

lemma entry_at:
  fixes gla :: u64 and s :: nat
  assumes "mem_ok v" and "4096 dvd unat tb" and "unat tb + 4096 < 2 ^ 64" and "vm_gpa2hva v tb XHYVE_PAGE_SIZE = Some (obj, base)"
  defines "i \<equiv> unat gla div 2 ^ s mod 2 ^ pt_bits f"
  defines "x \<equiv> base + of_nat (pt_size f) * (drop_bit s gla AND (2 ^ pt_bits f - 1))"
  shows "home v (unat tb + pt_size f * i) = Some (obj, x)" and "phys_word v m (pt_size f) (unat tb + pt_size f * i) = Some (unat (load (pt_size f) m obj x))"
    and "pt_size f dvd unat x"
proof -
  have "i < 2 ^ pt_bits f" by (simp add: i_def)
  then have "pt_size f * i + pt_size f \<le> pt_size f * 2 ^ pt_bits f" by (metis Suc_leI add.commute mult_Suc_right mult_le_mono2)
  then have le: "pt_size f * i + pt_size f \<le> 4096" unfolding page .
  have "unat (drop_bit s gla AND (2 ^ pt_bits f - 1)) = i"
    unfolding i_def mask_eq_exp_minus_1 [symmetric] take_bit_eq_mask [symmetric] unsigned_take_bit_eq unat_drop_bit_div by (rule take_bit_eq_mod)
  moreover have "drop_bit s gla AND (2 ^ pt_bits f - 1) = of_nat (unat (drop_bit s gla AND (2 ^ pt_bits f - 1)))" by simp
  ultimately have x: "x = base + of_nat (pt_size f * i)" unfolding x_def by (simp only: of_nat_mult)
  show "phys_word v m (pt_size f) (unat tb + pt_size f * i) = Some (unat (load (pt_size f) m obj x))"
    unfolding x by (rule phys_word_Some [OF assms(1) _ assms(4)]) (use assms(3) le size_le in simp_all)
  show "home v (unat tb + pt_size f * i) = Some (obj, x)"
    unfolding x by (rule home_of_hva [OF assms(1) _ assms(4)]) (use assms(3) le size_le in simp_all)
  obtain sg where sg: "sg \<in> set (vm_mem_segs v)" "unat tb = unat (seg_gpa sg) + unat base" "unat base + 4096 \<le> unat (seg_len sg)"
    using gpa2hva_seg [OF assms(1) _ assms(4)] assms(3) by auto
  have "4096 dvd unat (seg_gpa sg)" using assms(1) sg(1) by (simp add: mem_ok_def list_all_iff seg_ok_def)
  then have "4096 dvd unat base" using assms(2) sg(2) by (metis dvd_add_right_iff)
  then have b: "pt_size f dvd unat base" using page by (metis dvd_mult_left)
  have "unat x = unat base + pt_size f * i"
    unfolding x using le size_le sg(3) unat_bound [of "seg_len sg"] by (intro unat_offset) simp
  then show "pt_size f dvd unat x" using b by simp
qed

lemma no_entry_at:
  assumes "mem_ok v" and "4096 dvd unat tb" and "unat tb + 4096 < 2 ^ 64" and "vm_gpa2hva v tb XHYVE_PAGE_SIZE = None"
  shows "phys_word v m (pt_size f) (unat tb + pt_size f * (a div 2 ^ s mod 2 ^ pt_bits f)) = None"
proof -
  have "a div 2 ^ s mod 2 ^ pt_bits f < 2 ^ pt_bits f" by simp
  then have "pt_size f * (a div 2 ^ s mod 2 ^ pt_bits f) + pt_size f \<le> pt_size f * 2 ^ pt_bits f"
    by (metis Suc_leI add.commute mult_Suc_right mult_le_mono2)
  then show ?thesis unfolding page using assms size_le by (intro phys_word_None) auto
qed

lemma cmpset_same:
  "atomic_cmpset (pt_size f) obj x (load (pt_size f) m obj x) (load (pt_size f) m obj x OR ucast (c :: u8)) m =
     (True, m(obj := (m obj)(x := m obj x OR c)))"
  using store_or [OF size_le] by (simp add: atomic_cmpset_def)

end

context page_format
begin

text \<open>The accessed bit: the entry is marked, and reads as before up to that bit.\<close>

lemma mark_accessed:
  defines "w \<equiv> pt_size f"
  shows "\<exists>m1. (if load w m obj x AND PG_A = 0 then atomic_cmpset w obj x (load w m obj x) (load w m obj x OR PG_A) m else (True, m)) = (True, m1)
     \<and> ad {(obj, x)} m m1 \<and> bit (m1 obj x) 5 \<and> load w m1 obj x = load w m obj x OR PG_A"
proof (cases "bit (load w m obj x) 5")
  case True
  then have "bit (m obj x) 5" using size_le by (simp add: bit_load w_def)
  moreover have "load w m obj x OR PG_A = load w m obj x" using True by (simp add: or_accessed)
  ultimately show ?thesis using True by simp
next
  case False
  let ?m1 = "m(obj := (m obj)(x := m obj x OR 0x20))"
  have u: "(ucast (0x20 :: u8) :: u64) = 0x20" by simp
  have "atomic_cmpset w obj x (load w m obj x) (load w m obj x OR PG_A) m = (True, ?m1)" using cmpset_same [of obj x m "0x20"] by (simp add: w_def)
  moreover have "load w ?m1 obj x = load w m obj x OR PG_A" using load_set [OF size_le, of m obj x "0x20"] by (simp add: w_def)
  moreover have "ad {(obj, x)} m ?m1" by (rule ad_set) simp
  moreover have "bit (?m1 obj x) 5" by (simp add: bit_or_iff)
  ultimately show ?thesis using False by (intro exI [of _ ?m1]) simp
qed

lemma leaf_ok:
  assumes h: "home v a = Some (obj, x)" and m1: "ad {(obj, x)} m m1" "bit (m1 obj x) 5"
    and e: "e = load (pt_size f) m obj x" "load (pt_size f) m1 obj x = e OR PG_A" and t: "pt_frame f s e OR (gla AND (2 ^ s - 1)) = of_nat g"
  shows "pass_ok v prot m (Mapped g, [a]) (walk_leaf f prot gla s obj x e m1)"
proof -
  have hs: "homes v [a] = {(obj, x)}" using h by (auto simp: homes_def)
  have mk: "marked v 5 m' a = bit (m' obj x) 5" "marked v 6 m' a = bit (m' obj x) 6" for m' using h by (auto simp: marked_def)
  have b: "bit e k = bit (m obj x) k" if "k < 8" for k using that size_le e(1) by (simp add: bit_load)
  show ?thesis
  proof (cases "bit prot 1 \<and> \<not> bit e 6")
    case False
    have "walk_leaf f prot gla s obj x e m1 = (Gpa (of_nat g), m1)" using False t by (auto simp: walk_leaf_def Let_def)
    moreover have "bit prot 1 \<longrightarrow> bit (m1 obj x) 6" using False b [of 6] ad_bit [OF m1(1)] by auto
    ultimately show ?thesis using m1 by (auto simp: pass_ok_def hs mk)
  next
    case True
    show ?thesis
    proof (cases "bit e 5")
      case e5: True
      let ?m2 = "m1(obj := (m1 obj)(x := m1 obj x OR 0x40))"
      have l: "load (pt_size f) m1 obj x = e" using e(2) e5 by (simp add: or_accessed)
      have "atomic_cmpset (pt_size f) obj x e (e OR PG_M) m1 = (True, ?m2)" using cmpset_same [of obj x m1 "0x40"] l by simp
      then have "walk_leaf f prot gla s obj x e m1 = (Gpa (of_nat g), ?m2)" using True t by (simp add: walk_leaf_def)
      moreover have "ad {(obj, x)} m ?m2" using ad_trans [OF m1(1) ad_set [of "0x40" obj x m1]] by simp
      ultimately show ?thesis using m1(2) by (auto simp: pass_ok_def hs mk bit_or_iff)
    next
      case e5: False
      have "walk_leaf f prot gla s obj x e m1 = (Restart, m1)" using True e5 e(2) by (simp add: walk_leaf_def atomic_cmpset_def or_accessed)
      then show ?thesis using m1 e5 b [of 5] by (auto simp: pass_ok_def hs mk)
    qed
  qed
qed

lemma walk_correct:
  assumes ok: "mem_ok v" and S: "ad S m0 m" "\<And>obj x. (obj, x) \<in> S \<Longrightarrow> pt_size f dvd unat x"
    and tb: "unat (pt_table f p) = tb" "4096 dvd tb" "tb < 2 ^ 52"
  shows "pass_ok v prot m (translate (phys_word v m0 (pt_size f)) (pt_size f) (pt_bits f) user prot (unat gla) n tb) (walk_loop v f user prot gla n p m)"
  using S tb
proof (induction n arbitrary: S m p tb rule: less_induct)
  case (less n)
  let ?w = "pt_size f" and ?s = "12 + n * pt_bits f"
  define i where "i = unat gla div 2 ^ ?s mod 2 ^ pt_bits f"
  have fit: "4096 dvd unat (pt_table f p)" "unat (pt_table f p) + 4096 < 2 ^ 64" using less.prems by simp_all
  show ?case
  proof (cases "vm_gpa2hva v (pt_table f p) XHYVE_PAGE_SIZE")
    case None
    then show ?thesis using no_entry_at [OF ok fit None, of m0 "unat gla" ?s] less.prems(3)
      by (subst walk_loop.simps, subst translate.simps) (simp add: pass_ok_def homes_def)
  next
    case (Some ob)
    then obtain obj base where ob: "vm_gpa2hva v (pt_table f p) XHYVE_PAGE_SIZE = Some (obj, base)" by (cases ob) simp
    define x where "x = base + of_nat ?w * (drop_bit ?s gla AND (2 ^ pt_bits f - 1))"
    define e where "e = load ?w m obj x"
    define e0 where "e0 = load ?w m0 obj x"
    have en: "home v (tb + ?w * i) = Some (obj, x)" "phys_word v m0 ?w (tb + ?w * i) = Some (unat e0)" "?w dvd unat x"
      using entry_at [OF ok fit ob, where gla = gla and s = ?s] less.prems(3) by (simp_all add: i_def x_def e0_def)
    have "\<exists>c \<in> {0, 0x20, 0x40, 0x60}. e = e0 OR ucast (c :: u8)"
      unfolding e_def e0_def by (rule load_ad [OF less.prems(1) _ en(3) size]) (rule less.prems(2))
    then obtain c where c: "c \<in> {0, 0x20, 0x40, 0x60}" "e = e0 OR ucast (c :: u8)" by blast
    note same = or_ad [OF c]
    have be: "unat e < 2 ^ (8 * ?w)" using load_bound [OF size_le(2)] by (simp add: e_def)
    obtain m1 where m1: "(if e AND PG_A = 0 then atomic_cmpset ?w obj x e (e OR PG_A) m else (True, m)) = (True, m1)"
        "ad {(obj, x)} m m1" "bit (m1 obj x) 5" "load ?w m1 obj x = e OR PG_A"
      using mark_accessed [of m obj x, folded e_def] by blast
    define next_pass where "next_pass = walk_loop v f user prot gla (n - 1) e m1"
    have wl: "walk_loop v f user prot gla n p m =
        (if \<not> pte_allows user prot e then (Pf (pf_error_code user prot False e), m)
         else if n > 0 \<and> bit e 7 then if ?s > 30 then (Pf (pf_error_code user prot True e), m1) else walk_leaf f prot gla ?s obj x e m1
         else if n = 0 then walk_leaf f prot gla ?s obj x e m1 else next_pass)"
      unfolding next_pass_def
      by (subst walk_loop.simps, simp only: ob option.case prod.case Let_def x_def [symmetric] e_def [symmetric] m1(1)) simp
    define next_tr where "next_tr = translate (phys_word v m0 ?w) ?w (pt_bits f) user prot (unat gla) (n - 1) (unat e0 div 2 ^ 12 * 2 ^ 12 mod 2 ^ 52)"
    have tr: "translate (phys_word v m0 ?w) ?w (pt_bits f) user prot (unat gla) n tb =
        (if \<not> pte_allows user prot e then (Denied (fault_code user prot False (bit e 0)), [])
         else if n = 0 \<or> bit e 7 then if ?s > 30 then (Denied (fault_code user prot True True), [tb + ?w * i])
           else (Mapped (unat e div 2 ^ ?s * 2 ^ ?s mod 2 ^ 52 + unat gla mod 2 ^ ?s), [tb + ?w * i])
         else apsnd ((#) (tb + ?w * i)) next_tr)"
      unfolding next_tr_def same(4) [OF le_add1]
      by (subst translate.simps) (simp only: Let_def i_def [symmetric] en(2) option.case permits_iff bit_unat same(1-3))
    show ?thesis
    proof (cases "pte_allows user prot e")
      case False
      then show ?thesis unfolding wl tr by (simp add: pass_ok_def homes_def fault_code_eq)
    next
      case allows: True
      then have present: "bit e 0" by (simp add: pte_allows_def)
      show ?thesis
      proof (cases "n = 0 \<or> bit e 7")
        case True
        show ?thesis
        proof (cases "?s > 30")
          case big: True
          have "pass_ok v prot m (Denied (fault_code user prot True True), [tb + ?w * i]) (Pf (pf_error_code user prot True e), m1)"
            using en(1) m1(2,3) present by (auto simp: pass_ok_def homes_def marked_def fault_code_eq)
          then show ?thesis unfolding wl tr using allows True big by auto
        next
          case small: False
          have "pass_ok v prot m (Mapped (unat e div 2 ^ ?s * 2 ^ ?s mod 2 ^ 52 + unat gla mod 2 ^ ?s), [tb + ?w * i]) (walk_leaf f prot gla ?s obj x e m1)"
            by (rule leaf_ok [OF en(1) m1(2,3) e_def m1(4) leaf_address [OF be]]) (use small in simp_all)
          then show ?thesis unfolding wl tr using allows True small by auto
        qed
      next
        case inner: False
        have k: "n - 1 < n" using inner by simp
        have S': "ad (S \<union> {(obj, x)}) m0 m1" using ad_trans [OF less.prems(1) m1(2)] .
        have al: "?w dvd unat x'" if "(obj', x') \<in> S \<union> {(obj, x)}" for obj' x' using that less.prems(2) en(3) by auto
        have tab: "unat (pt_table f e) = unat e0 div 2 ^ 12 * 2 ^ 12 mod 2 ^ 52" using table [OF be] same(4) [of 12] by simp
        have "4096 dvd unat e0 div 2 ^ 12 * 2 ^ 12 mod (2 ^ 52 :: nat)" by (simp add: dvd_mod_iff)
        from less.IH [OF k S' al tab this] have n: "pass_ok v prot m1 next_tr next_pass" unfolding next_tr_def next_pass_def by simp
        obtain t as r m' where ta: "next_tr = (t, as)" "next_pass = (r, m')" by (cases next_tr, cases next_pass)
        have "as \<noteq> []" if "\<exists>g. t = Mapped g" using translate_Mapped ta(1) that unfolding next_tr_def by blast
        then have "pass_ok v prot m (t, (tb + ?w * i) # as) (r, m')" using pass_ok_Cons [OF en(1) m1(2,3)] n ta by simp
        then show ?thesis unfolding wl tr using allows inner ta by simp
      qed
    qed
  qed
qed

end

lemma home_aligned:
  assumes "mem_ok v" and "home v a = Some (obj, x)" and "w dvd a" and "w dvd 4096"
  shows "w dvd unat x"
proof -
  obtain s where s: "s \<in> set (vm_mem_segs v)" "unat (seg_gpa s) \<le> a" "a < unat (seg_gpa s) + unat (seg_len s)" "x = of_nat (a - unat (seg_gpa s))"
    using assms(2) by (auto simp: home_def dest: find_in_set)
  have so: "4096 dvd unat (seg_gpa s)" using assms(1) s(1) by (simp add: mem_ok_def list_all_iff seg_ok_def)
  have "unat x = a - unat (seg_gpa s)" unfolding s(4) using unat_offset [of 0 "a - unat (seg_gpa s)"] s(3) unat_bound [of "seg_len s"]
    by (simp del: of_nat_diff)
  then show ?thesis using dvd_diff_nat [OF assms(3) dvd_trans [OF assms(4) so]] by simp
qed

lemma translate_aligned:
  "w dvd tb \<Longrightarrow> w dvd 4096 \<Longrightarrow> a \<in> set (snd (translate rdw w b user prot gla n tb)) \<Longrightarrow> w dvd a"
proof (induction n arbitrary: tb rule: less_induct)
  case (less n)
  let ?at = "tb + w * (gla div 2 ^ (12 + n * b) mod 2 ^ b)"
  show ?case
  proof (cases "rdw ?at")
    case None
    then show ?thesis using less.prems(3) by (subst (asm) translate.simps) (simp add: Let_def)
  next
    case (Some e)
    let ?rest = "translate rdw w b user prot gla (n - 1) (e div 2 ^ 12 * 2 ^ 12 mod 2 ^ 52)"
    have "a = ?at \<or> 0 < n \<and> a \<in> set (snd ?rest)"
      using less.prems(3) Some by (subst (asm) translate.simps) (auto simp: Let_def split: if_splits)
    then show ?thesis
    proof
      assume r: "0 < n \<and> a \<in> set (snd ?rest)"
      have "4096 dvd e div 2 ^ 12 * 2 ^ 12 mod (2 ^ 52 :: nat)" by (simp add: dvd_mod_iff)
      moreover have "n - 1 < n" using r by simp
      ultimately show ?thesis using less.IH [OF _ dvd_trans [OF less.prems(2)] less.prems(2) conjunct2 [OF r]] by blast
    qed (use less.prems(1) in simp)
  qed
qed

lemma canonical_check_iff: "vie_canonical_check cpu_mode gla \<longleftrightarrow> cpu_mode = CPU_MODE_64BIT \<and> \<not> canonical gla"
proof (cases "cpu_mode = CPU_MODE_64BIT")
  case True
  then show ?thesis by (simp only: canonical_iff canonical_def simp_thms)
qed (simp add: vie_canonical_check_def)

text \<open>The cases of the translation.\<close>

lemma guest_translate_modes:
  fixes paging :: vm_guest_paging and gla :: u64 and prot :: u32 and rdw :: "nat \<Rightarrow> nat \<Rightarrow> nat option"
  defines "t \<equiv> guest_translate rdw paging gla prot" and "u \<equiv> pg_cpl paging = 3" and "c \<equiv> unat (pg_cr3 paging)" and "mode \<equiv> pg_paging_mode paging"
  shows "vie_canonical_check (pg_cpu_mode paging) gla \<Longrightarrow> t = (NotCanonical, [])"
    and "\<not> vie_canonical_check (pg_cpu_mode paging) gla \<Longrightarrow> mode = PAGING_MODE_FLAT \<Longrightarrow> t = (Mapped (unat gla), [])"
    and "\<not> vie_canonical_check (pg_cpu_mode paging) gla \<Longrightarrow> mode = PAGING_MODE_32 \<Longrightarrow> t = translate (rdw 4) 4 10 u prot (unat gla) 1 (c div 2 ^ 12 * 2 ^ 12)"
    and "\<not> vie_canonical_check (pg_cpu_mode paging) gla \<Longrightarrow> mode = PAGING_MODE_64 \<Longrightarrow> t = translate (rdw 8) 8 9 u prot (unat gla) 3 (c div 2 ^ 12 * 2 ^ 12 mod 2 ^ 52)"
    and "\<not> vie_canonical_check (pg_cpu_mode paging) gla \<Longrightarrow> mode = PAGING_MODE_PAE \<Longrightarrow> t =
      (case rdw 8 (c mod 2 ^ 32 div 32 * 32 + 8 * (unat gla div 2 ^ 30 mod 4)) of None \<Rightarrow> (NoMemory, [])
       | Some e \<Rightarrow> if \<not> bit e 0 then (Denied (fault_code u prot False False), [])
           else translate (rdw 8) 8 9 u prot (unat gla) 1 (e div 2 ^ 12 * 2 ^ 12 mod 2 ^ 52))"
  unfolding t_def u_def c_def mode_def guest_translate_def Let_def canonical_check_iff by (simp_all only: simp_thms if_True if_False vm_paging_mode.case)

definition entry_width :: "vm_guest_paging \<Rightarrow> nat" where
  "entry_width paging = (if pg_paging_mode paging = PAGING_MODE_32 then 4 else 8)"

lemma guest_translate_aligned:
  assumes "a \<in> set (snd (guest_translate rdw paging gla prot))"
  shows "entry_width paging dvd a"
proof -
  have t4: "4 dvd a" if "a \<in> set (snd (translate rd4 4 b user prot g n (c div 2 ^ 12 * 2 ^ 12)))" for rd4 b user g n c
    by (rule translate_aligned [OF _ _ that]) simp_all
  have t8: "8 dvd a" if "a \<in> set (snd (translate rd8 8 b user prot g n (c div 2 ^ 12 * 2 ^ 12 mod 2 ^ 52)))" for rd8 b user g n c
    by (rule translate_aligned [OF _ _ that]) (simp_all add: dvd_mod_iff)
  have ns: "\<not> vie_canonical_check (pg_cpu_mode paging) gla" using assms by (auto simp: guest_translate_modes(1))
  show ?thesis
  proof (cases "pg_paging_mode paging")
    case PAGING_MODE_FLAT
    then show ?thesis using assms ns by (simp add: guest_translate_modes(2))
  next
    case PAGING_MODE_32
    from t4 [OF assms [unfolded guest_translate_modes(3) [OF ns this]]] PAGING_MODE_32 show ?thesis by (simp add: entry_width_def)
  next
    case PAGING_MODE_64
    from t8 [OF assms [unfolded guest_translate_modes(4) [OF ns this]]] PAGING_MODE_64 show ?thesis by (simp add: entry_width_def)
  next
    case PAGING_MODE_PAE
    obtain e where "a \<in> set (snd (translate (rdw 8) 8 9 (pg_cpl paging = 3) prot (unat gla) 1 (e div 2 ^ 12 * 2 ^ 12 mod 2 ^ 52)))"
      using assms [unfolded guest_translate_modes(5) [OF ns PAGING_MODE_PAE]] by (auto split: option.splits if_splits)
    from t8 [OF this] show ?thesis using PAGING_MODE_PAE by (simp add: entry_width_def)
  qed
qed

lemma homes_aligned:
  assumes "mem_ok v" and "(obj, x) \<in> homes v (snd (guest_translate rdw paging gla prot))"
  shows "entry_width paging dvd unat x"
proof -
  obtain a where "a \<in> set (snd (guest_translate rdw paging gla prot))" "home v a = Some (obj, x)" using assms(2) by (auto simp: homes_def)
  then show ?thesis using home_aligned [OF assms(1)] guest_translate_aligned by (auto simp: entry_width_def split: if_splits)
qed

lemma pass_correct:
  assumes ok: "mem_ok v" and cr3: "unat (pg_cr3 paging) < 2 ^ 52"
    and S: "ad S m0 m" "\<And>obj x. (obj, x) \<in> S \<Longrightarrow> entry_width paging dvd unat x"
  shows "pass_ok v prot m (guest_translate (phys_word v m0) paging gla prot) (walk_pass v paging gla prot m)"
proof (cases "vie_canonical_check (pg_cpu_mode paging) gla")
  case True
  then show ?thesis by (simp add: walk_pass_def guest_translate_modes(1) pass_ok_def homes_def)
next
  case False
  note gt = guest_translate_modes(2-5) [OF False]
  let ?user = "pg_cpl paging = 3" and ?cr3 = "pg_cr3 paging"
  have d: "4096 dvd c div 2 ^ 12 * 2 ^ 12 mod (2 ^ 52 :: nat)" for c by (simp add: dvd_mod_iff)
  show ?thesis
  proof (cases "pg_paging_mode paging")
    case PAGING_MODE_FLAT
    then show ?thesis using False by (simp add: walk_pass_def gt(1) pass_ok_def homes_def)
  next
    case PAGING_MODE_32
    have "pt_table fmt32 ?cr3 = push_bit 12 (drop_bit 12 ?cr3)"
    proof -
      have "?cr3 AND NOT (mask 12) = push_bit 12 (drop_bit 12 ?cr3)"
        by (rule bit_word_eqI) (auto simp: bit_and_iff bit_not_iff bit_mask_iff bit_push_bit_iff bit_drop_bit_eq)
      then show ?thesis by (simp add: fmt32_def mask_eq_exp_minus_1)
    qed
    then have t: "unat (pt_table fmt32 ?cr3) = unat ?cr3 div 2 ^ 12 * 2 ^ 12" by (simp only: unat_shift_back)
    have lt: "unat ?cr3 div 2 ^ 12 * 2 ^ 12 < 2 ^ 52" using cr3 div_times_less_eq_dividend by (rule le_less_trans [rotated])
    have f: "pt_size fmt32 = 4" "pt_bits fmt32 = 10" by (simp_all add: fmt32_def)
    have "4 dvd unat x" if "(obj, x) \<in> S" for obj x using S(2) [OF that] PAGING_MODE_32 by (simp add: entry_width_def)
    from pt32.walk_correct [OF ok S(1) _ t _ lt, unfolded f, OF this]
    show ?thesis unfolding gt(2) [OF PAGING_MODE_32] using PAGING_MODE_32 False by (simp add: walk_pass_def)
  next
    case PAGING_MODE_64
    have f: "pt_size fmt64 = 8" "pt_bits fmt64 = 9" by (simp_all add: fmt64_def)
    have t: "unat (pt_table fmt64 ?cr3) = unat ?cr3 div 2 ^ 12 * 2 ^ 12 mod 2 ^ 52" using pt64.table [of ?cr3] unat_bound [of ?cr3] by (simp add: f)
    have "8 dvd unat x" if "(obj, x) \<in> S" for obj x using S(2) [OF that] PAGING_MODE_64 by (simp add: entry_width_def)
    from pt64.walk_correct [OF ok S(1) _ t d, unfolded f, OF this]
    show ?thesis unfolding gt(3) [OF PAGING_MODE_64] using PAGING_MODE_64 False by (simp add: walk_pass_def)
  next
    case PAGING_MODE_PAE
    have f: "pt_size fmt64 = 8" "pt_bits fmt64 = 9" by (simp_all add: fmt64_def)
    have al: "8 dvd unat x" if "(obj, x) \<in> S" for obj x using S(2) [OF that] PAGING_MODE_PAE by (simp add: entry_width_def)
    let ?p = "?cr3 AND 0xffffffe0" and ?i = "unat gla div 2 ^ 30 mod 4"
    have p: "unat ?p = unat ?cr3 mod 2 ^ 32 div 32 * 32"
    proof -
      have "?p = push_bit 5 (drop_bit 5 (take_bit 32 ?cr3))"
      proof -
        have "?cr3 AND push_bit 5 (mask 27) = push_bit 5 (drop_bit 5 (take_bit 32 ?cr3))"
          by (rule bit_word_eqI) (auto simp: bit_and_iff bit_mask_iff bit_push_bit_iff bit_drop_bit_eq bit_take_bit_iff)
        then show ?thesis by (simp add: mask_eq_exp_minus_1 push_bit_eq_mult)
      qed
      then have "unat ?p = unat (take_bit 32 ?cr3) div 2 ^ 5 * 2 ^ 5" by (simp only: unat_shift_back)
      also have "unat (take_bit 32 ?cr3) = unat ?cr3 mod 2 ^ 32" unfolding unsigned_take_bit_eq by (rule take_bit_eq_mod)
      finally show ?thesis by simp
    qed
    have lt: "unat ?p + unat (32 :: u64) < 2 ^ 64"
    proof -
      have "unat ?p \<le> unat ?cr3 mod 2 ^ 32" unfolding p by (rule div_times_less_eq_dividend)
      also have "\<dots> < 2 ^ 32" by simp
      finally show ?thesis by simp
    qed
    show ?thesis
    proof (cases "vm_gpa2hva v ?p 32")
      case None
      have "unat ?p mod 4096 + 32 \<le> 4096"
      proof -
        have "32 dvd unat ?p mod 4096" unfolding p by (simp add: dvd_mod_iff)
        then obtain q where "unat ?p mod 4096 = 32 * q" by (elim dvdE)
        moreover have "unat ?p mod 4096 < 4096" by simp
        ultimately show ?thesis by simp
      qed
      then have "phys_word v m0 8 (unat ?p + 8 * ?i) = None" using phys_word_None [OF ok _ None, of "8 * ?i" 8 m0] lt by simp
      then show ?thesis unfolding gt(4) [OF PAGING_MODE_PAE] p [symmetric] using None PAGING_MODE_PAE False
        by (simp add: walk_pass_def pass_ok_def homes_def)
    next
      case (Some ob)
      then obtain obj base where ob: "vm_gpa2hva v ?p 32 = Some (obj, base)" by (cases ob) simp
      define x where "x = base + 8 * (drop_bit 30 gla AND 3)"
      have x: "x = base + of_nat (8 * ?i)"
      proof -
        have m3: "drop_bit 30 gla AND 3 = take_bit 2 (drop_bit 30 gla)" by (simp add: take_bit_eq_mask mask_eq_exp_minus_1)
        have "unat (drop_bit 30 gla AND 3) = ?i" unfolding m3 unsigned_take_bit_eq unat_drop_bit_div by (simp add: take_bit_eq_mod)
        moreover have "drop_bit 30 gla AND 3 = of_nat (unat (drop_bit 30 gla AND 3))" by simp
        ultimately show ?thesis unfolding x_def by (simp only: of_nat_mult of_nat_numeral)
      qed
      have pw: "phys_word v m0 8 (unat ?p + 8 * ?i) = Some (unat (load 8 m0 obj x))"
        unfolding x by (rule phys_word_Some [OF ok lt ob]) simp_all
      have hx: "home v (unat ?p + 8 * ?i) = Some (obj, x)" unfolding x by (rule home_of_hva [OF ok lt ob]) simp
      have x8: "8 dvd unat x" by (rule home_aligned [OF ok hx]) (simp_all add: p)
      have "\<exists>c \<in> {0, 0x20, 0x40, 0x60}. load 8 m obj x = load 8 m0 obj x OR ucast (c :: u8)"
        by (rule load_ad [OF S(1) al x8]) simp_all
      then obtain c where c: "c \<in> {0, 0x20, 0x40, 0x60}" "load 8 m obj x = load 8 m0 obj x OR ucast (c :: u8)" by blast
      note same = or_ad [OF c]
      have t: "unat (pt_table fmt64 (load 8 m obj x)) = unat (load 8 m0 obj x) div 2 ^ 12 * 2 ^ 12 mod 2 ^ 52"
        using pt64.table [of "load 8 m obj x"] unat_bound [of "load 8 m obj x"] same(4) [of 12] by (simp add: f)
      from pt64.walk_correct [OF ok S(1) _ t d, unfolded f, OF al] show ?thesis
        unfolding gt(4) [OF PAGING_MODE_PAE] p [symmetric] pw using ob same(2) PAGING_MODE_PAE False
        by (simp add: walk_pass_def Let_def x_def [symmetric] pass_ok_def homes_def fault_code_eq)
    qed
  qed
qed

text \<open>
  At most one restart is needed: the first pass marks every entry as accessed. The tables are those of a memory that may lack
  accessed and dirty bits which earlier walks have set.
\<close>

lemma walk_restart_correct:
  assumes "mem_ok v" and "unat (pg_cr3 paging) < 2 ^ 52"
    and S: "ad S m0 m" "\<And>obj x. (obj, x) \<in> S \<Longrightarrow> entry_width paging dvd unat x"
    and t: "guest_translate (phys_word v m0) paging gla prot = (t, as)"
  shows "\<exists>m'. walk_restart v paging gla prot m = Some (conv t, m') \<and> ad (homes v as) m m' \<and> (\<forall>a \<in> set as. marked v 5 m' a)
     \<and> ((\<exists>g. t = Mapped g) \<and> bit prot 1 \<longrightarrow> as \<noteq> [] \<longrightarrow> marked v 6 m' (last as))"
proof -
  obtain r1 m1 where p1: "walk_pass v paging gla prot m = (r1, m1)" by (cases "walk_pass v paging gla prot m")
  have "pass_ok v prot m (guest_translate (phys_word v m0) paging gla prot) (walk_pass v paging gla prot m)"
    by (rule pass_correct [OF assms(1,2) S(1)]) (rule S(2))
  then have ok1: "pass_ok v prot m (t, as) (r1, m1)" unfolding t p1 .
  show ?thesis
  proof (cases "r1 = Restart")
    case False
    then have "walk_restart v paging gla prot m = Some (r1, m1)" by (subst walk_restart.simps) (simp add: p1)
    then show ?thesis using ok1 False by (auto simp: pass_ok_def)
  next
    case True
    obtain r2 m2 where p2: "walk_pass v paging gla prot m1 = (r2, m2)" by (cases "walk_pass v paging gla prot m1")
    have ad1: "ad (homes v as) m m1" and mk: "\<forall>a \<in> set as. marked v 5 m1 a" using ok1 by (auto simp: pass_ok_def)
    have al: "entry_width paging dvd unat x" if "(obj, x) \<in> S \<union> homes v as" for obj x
      using homes_aligned [OF assms(1), where rdw = "phys_word v m0" and gla = gla and prot = prot] S(2) that t by auto
    have "pass_ok v prot m1 (guest_translate (phys_word v m0) paging gla prot) (walk_pass v paging gla prot m1)"
      by (rule pass_correct [OF assms(1,2) ad_trans [OF S(1) ad1]]) (rule al)
    then have ok2: "pass_ok v prot m1 (t, as) (r2, m2)" unfolding t p2 .
    then have r2: "r2 \<noteq> Restart" using mk by (simp add: pass_ok_def)
    have "walk_restart v paging gla prot m = walk_restart v paging gla prot m1" using True by (subst walk_restart.simps) (simp add: p1)
    also have "\<dots> = Some (r2, m2)" using r2 by (subst walk_restart.simps) (simp add: p2)
    finally have "walk_restart v paging gla prot m = Some (r2, m2)" .
    moreover have "ad (homes v as) m m2" using ad_trans [OF ad1, of "homes v as" m2] ok2 by (simp add: pass_ok_def)
    ultimately show ?thesis using ok2 r2 by (auto simp: pass_ok_def)
  qed
qed

end
