(* ===== verification/Vmx_Regs.thy ===== *)
theory Vmx_Regs
  imports Vm_Events Vie_Decode
begin

text \<open>
  Registers of a vcpu (\<open>src/vmm/vmm.c\<close>, \<open>src/vmm/intel/vmx.c\<close>, \<open>src/vmm/intel/vmcs.c\<close>): the general registers are kept by the
  hypervisor framework of the host, the others are fields of the VMCS. The framework is a record of functions on a host state; \<open>host_laws\<close>
  says what is relied on.
\<close>

subsection \<open>The host\<close>

datatype hv_x86_reg =
    HV_X86_RAX | HV_X86_RBX | HV_X86_RCX | HV_X86_RDX | HV_X86_RSI | HV_X86_RDI | HV_X86_RBP | HV_X86_R8 | HV_X86_R9 | HV_X86_R10
  | HV_X86_R11 | HV_X86_R12 | HV_X86_R13 | HV_X86_R14 | HV_X86_R15 | HV_X86_CR2

text \<open>The accessors of the framework, and the masks that \<open>vmx_init\<close> computes from its capabilities.\<close>

record 'h host =
  h_rd :: "'h vmcs_rd"
  h_wr :: "'h vmcs_wr"
  reg_read :: "nat \<Rightarrow> hv_x86_reg \<Rightarrow> 'h \<Rightarrow> u64"
  reg_write :: "nat \<Rightarrow> hv_x86_reg \<Rightarrow> u64 \<Rightarrow> 'h \<Rightarrow> 'h"
  hv_vcpu_invalidate_tlb :: "nat \<Rightarrow> 'h \<Rightarrow> 'h"
  cr0_ones_mask :: u64
  cr0_zeros_mask :: u64
  cr4_ones_mask :: u64
  cr4_zeros_mask :: u64
  entry_ctls :: u32

text \<open>The width of a VMCS field is part of its encoding: 16, 64, 32 bits or natural width.\<close>

definition field_width :: "u32 \<Rightarrow> nat" where
  "field_width enc = [16, 64, 32, 64] ! unat (drop_bit 13 enc AND 3)"

text \<open>
  Fields and registers are independent cells of each vcpu; a field keeps as many bits as it has; flushing the TLB changes none of them.
\<close>

definition host_laws :: "'h host \<Rightarrow> bool" where
  "host_laws H \<longleftrightarrow>
     (\<forall>i f x h. h_rd H i f (h_wr H i f x h) = take_bit (field_width f) x)
   \<and> (\<forall>i f x h j g. (j \<noteq> i \<or> g \<noteq> f) \<longrightarrow> h_rd H j g (h_wr H i f x h) = h_rd H j g h)
   \<and> (\<forall>i f x h j r. reg_read H j r (h_wr H i f x h) = reg_read H j r h)
   \<and> (\<forall>i r x h. reg_read H i r (reg_write H i r x h) = x)
   \<and> (\<forall>i r x h j s. (j \<noteq> i \<or> s \<noteq> r) \<longrightarrow> reg_read H j s (reg_write H i r x h) = reg_read H j s h)
   \<and> (\<forall>i r x h j f. h_rd H j f (reg_write H i r x h) = h_rd H j f h)
   \<and> (\<forall>i h j f. h_rd H j f (hv_vcpu_invalidate_tlb H i h) = h_rd H j f h)
   \<and> (\<forall>i h j r. reg_read H j r (hv_vcpu_invalidate_tlb H i h) = reg_read H j r h)"

subsection \<open>Fields of the VMCS\<close>

definition vmx_fix_cr0 :: "'h host \<Rightarrow> u64 \<Rightarrow> u64" where
  "vmx_fix_cr0 H cr0 = (cr0 OR cr0_ones_mask H) AND NOT (cr0_zeros_mask H)"

definition vmx_fix_cr4 :: "'h host \<Rightarrow> u64 \<Rightarrow> u64" where
  "vmx_fix_cr4 H cr4 = (cr4 OR cr4_ones_mask H) AND NOT (cr4_zeros_mask H)"

abbreviation (input) VMCS_GUEST_CR0 :: u32 where "VMCS_GUEST_CR0 \<equiv> 0x6800"
abbreviation (input) VMCS_GUEST_CR3 :: u32 where "VMCS_GUEST_CR3 \<equiv> 0x6802"
abbreviation (input) VMCS_GUEST_CR4 :: u32 where "VMCS_GUEST_CR4 \<equiv> 0x6804"
abbreviation (input) VMCS_GUEST_IA32_EFER :: u32 where "VMCS_GUEST_IA32_EFER \<equiv> 0x2806"
abbreviation (input) VMCS_ENTRY_CTLS :: u32 where "VMCS_ENTRY_CTLS \<equiv> 0x4012"
abbreviation (input) VMCS_GUEST_CS_BASE :: u32 where "VMCS_GUEST_CS_BASE \<equiv> 0x6808"
abbreviation (input) VMCS_GUEST_CS_ACCESS_RIGHTS :: u32 where "VMCS_GUEST_CS_ACCESS_RIGHTS \<equiv> 0x4816"
abbreviation (input) VMCS_GUEST_SS_ACCESS_RIGHTS :: u32 where "VMCS_GUEST_SS_ACCESS_RIGHTS \<equiv> 0x4818"
abbreviation (input) VMCS_INVALID_ENCODING :: u32 where "VMCS_INVALID_ENCODING \<equiv> 0xffffffff"

definition vmcs_fix_regval :: "'h host \<Rightarrow> u32 \<Rightarrow> u64 \<Rightarrow> u64" where
  "vmcs_fix_regval H encoding val =
     (if encoding = VMCS_GUEST_CR0 then vmx_fix_cr0 H val else if encoding = VMCS_GUEST_CR4 then vmx_fix_cr4 H val else val)"

text \<open>\<open>None\<close> is the encoding \<open>-1\<close>.\<close>

fun vmcs_field_encoding :: "vm_reg_name \<Rightarrow> u32 option" where
  "vmcs_field_encoding VM_REG_GUEST_CR0 = Some VMCS_GUEST_CR0"
| "vmcs_field_encoding VM_REG_GUEST_CR3 = Some VMCS_GUEST_CR3"
| "vmcs_field_encoding VM_REG_GUEST_CR4 = Some VMCS_GUEST_CR4"
| "vmcs_field_encoding VM_REG_GUEST_DR7 = Some 0x681A"
| "vmcs_field_encoding VM_REG_GUEST_RSP = Some 0x681C"
| "vmcs_field_encoding VM_REG_GUEST_RIP = Some VMCS_GUEST_RIP"
| "vmcs_field_encoding VM_REG_GUEST_RFLAGS = Some VMCS_GUEST_RFLAGS"
| "vmcs_field_encoding VM_REG_GUEST_ES = Some 0x0800"
| "vmcs_field_encoding VM_REG_GUEST_CS = Some 0x0802"
| "vmcs_field_encoding VM_REG_GUEST_SS = Some 0x0804"
| "vmcs_field_encoding VM_REG_GUEST_DS = Some 0x0806"
| "vmcs_field_encoding VM_REG_GUEST_FS = Some 0x0808"
| "vmcs_field_encoding VM_REG_GUEST_GS = Some 0x080A"
| "vmcs_field_encoding VM_REG_GUEST_TR = Some 0x080E"
| "vmcs_field_encoding VM_REG_GUEST_LDTR = Some 0x080C"
| "vmcs_field_encoding VM_REG_GUEST_EFER = Some VMCS_GUEST_IA32_EFER"
| "vmcs_field_encoding VM_REG_GUEST_PDPTE0 = Some 0x280A"
| "vmcs_field_encoding VM_REG_GUEST_PDPTE1 = Some 0x280C"
| "vmcs_field_encoding VM_REG_GUEST_PDPTE2 = Some 0x280E"
| "vmcs_field_encoding VM_REG_GUEST_PDPTE3 = Some 0x2810"
| "vmcs_field_encoding _ = None"

text \<open>Base, limit and access rights of a segment or descriptor table.\<close>

fun vmcs_seg_desc_encoding :: "vm_reg_name \<Rightarrow> (u32 \<times> u32 \<times> u32) option" where
  "vmcs_seg_desc_encoding VM_REG_GUEST_ES = Some (0x6806, 0x4800, 0x4814)"
| "vmcs_seg_desc_encoding VM_REG_GUEST_CS = Some (VMCS_GUEST_CS_BASE, 0x4802, VMCS_GUEST_CS_ACCESS_RIGHTS)"
| "vmcs_seg_desc_encoding VM_REG_GUEST_SS = Some (0x680A, 0x4804, VMCS_GUEST_SS_ACCESS_RIGHTS)"
| "vmcs_seg_desc_encoding VM_REG_GUEST_DS = Some (0x680C, 0x4806, 0x481A)"
| "vmcs_seg_desc_encoding VM_REG_GUEST_FS = Some (0x680E, 0x4808, 0x481C)"
| "vmcs_seg_desc_encoding VM_REG_GUEST_GS = Some (0x6810, 0x480A, 0x481E)"
| "vmcs_seg_desc_encoding VM_REG_GUEST_TR = Some (0x6814, 0x480E, 0x4822)"
| "vmcs_seg_desc_encoding VM_REG_GUEST_LDTR = Some (0x6812, 0x480C, 0x4820)"
| "vmcs_seg_desc_encoding VM_REG_GUEST_IDTR = Some (0x6818, 0x4812, VMCS_INVALID_ENCODING)"
| "vmcs_seg_desc_encoding VM_REG_GUEST_GDTR = Some (0x6816, 0x4810, VMCS_INVALID_ENCODING)"
| "vmcs_seg_desc_encoding _ = None"

definition vmcs_getreg :: "'h host \<Rightarrow> nat \<Rightarrow> vm_reg_name \<Rightarrow> 'h \<Rightarrow> int + u64" where
  "vmcs_getreg H i ident h = (case vmcs_field_encoding ident of None \<Rightarrow> Inl EINVAL | Some encoding \<Rightarrow> Inr (h_rd H i encoding h))"

definition vmcs_setreg :: "'h host \<Rightarrow> nat \<Rightarrow> vm_reg_name \<Rightarrow> u64 \<Rightarrow> 'h \<Rightarrow> ('h \<times> int) option" where
  "vmcs_setreg H i ident val h =
     (case vmcs_field_encoding ident of
        None \<Rightarrow> Some (h, EINVAL)
      | Some encoding \<Rightarrow> map_option (\<lambda>h'. (h', 0)) (vmcs_write (h_wr H) i encoding (vmcs_fix_regval H encoding val) h))"

text \<open>The access rights of a descriptor table are left alone, \<open>old\<close> is what the caller's structure held.\<close>

definition vmcs_getdesc :: "'h host \<Rightarrow> nat \<Rightarrow> vm_reg_name \<Rightarrow> seg_desc \<Rightarrow> 'h \<Rightarrow> seg_desc option" where
  "vmcs_getdesc H i seg old h =
     map_option (\<lambda>(base, lim, acc).
       \<lparr>sd_base = h_rd H i base h, sd_limit = ucast (h_rd H i lim h),
        sd_access = (if acc \<noteq> VMCS_INVALID_ENCODING then ucast (h_rd H i acc h) else sd_access old)\<rparr>) (vmcs_seg_desc_encoding seg)"

definition vmcs_setdesc :: "'h host \<Rightarrow> nat \<Rightarrow> vm_reg_name \<Rightarrow> seg_desc \<Rightarrow> 'h \<Rightarrow> 'h option" where
  "vmcs_setdesc H i seg desc h =
     Option.bind (vmcs_seg_desc_encoding seg) (\<lambda>(base, lim, acc).
     Option.bind (vmcs_write (h_wr H) i base (sd_base desc) h) (\<lambda>h1.
     Option.bind (vmcs_write (h_wr H) i lim (ucast (sd_limit desc)) h1) (\<lambda>h2.
       if acc \<noteq> VMCS_INVALID_ENCODING then vmcs_write (h_wr H) i acc (ucast (sd_access desc)) h2 else Some h2)))"

subsection \<open>Registers\<close>

text \<open>The table \<open>hvregs\<close>, with \<open>None\<close> for \<open>HV_X86_REGISTERS_MAX\<close>.\<close>

fun hvregs :: "vm_reg_name \<Rightarrow> hv_x86_reg option" where
  "hvregs VM_REG_GUEST_RAX = Some HV_X86_RAX"
| "hvregs VM_REG_GUEST_RBX = Some HV_X86_RBX"
| "hvregs VM_REG_GUEST_RCX = Some HV_X86_RCX"
| "hvregs VM_REG_GUEST_RDX = Some HV_X86_RDX"
| "hvregs VM_REG_GUEST_RSI = Some HV_X86_RSI"
| "hvregs VM_REG_GUEST_RDI = Some HV_X86_RDI"
| "hvregs VM_REG_GUEST_RBP = Some HV_X86_RBP"
| "hvregs VM_REG_GUEST_R8 = Some HV_X86_R8"
| "hvregs VM_REG_GUEST_R9 = Some HV_X86_R9"
| "hvregs VM_REG_GUEST_R10 = Some HV_X86_R10"
| "hvregs VM_REG_GUEST_R11 = Some HV_X86_R11"
| "hvregs VM_REG_GUEST_R12 = Some HV_X86_R12"
| "hvregs VM_REG_GUEST_R13 = Some HV_X86_R13"
| "hvregs VM_REG_GUEST_R14 = Some HV_X86_R14"
| "hvregs VM_REG_GUEST_R15 = Some HV_X86_R15"
| "hvregs VM_REG_GUEST_CR2 = Some HV_X86_CR2"
| "hvregs _ = None"

definition vmx_get_intr_shadow :: "'h host \<Rightarrow> nat \<Rightarrow> 'h \<Rightarrow> u64" where
  "vmx_get_intr_shadow H i h = (if h_rd H i VMCS_GUEST_INTERRUPTIBILITY h AND HWINTR_BLOCKING \<noteq> 0 then 1 else 0)"

fun vmx_shadow_reg :: "vm_reg_name \<Rightarrow> u32 option" where
  "vmx_shadow_reg VM_REG_GUEST_CR0 = Some 0x6004"
| "vmx_shadow_reg VM_REG_GUEST_CR4 = Some 0x6006"
| "vmx_shadow_reg _ = None"

definition vmx_getreg :: "'h host \<Rightarrow> nat \<Rightarrow> vm_reg_name \<Rightarrow> 'h \<Rightarrow> int + u64" where
  "vmx_getreg H i reg h =
     (if reg = VM_REG_GUEST_INTR_SHADOW then Inr (vmx_get_intr_shadow H i h)
      else case hvregs reg of Some hvreg \<Rightarrow> Inr (reg_read H i hvreg h) | None \<Rightarrow> vmcs_getreg H i reg h)"

text \<open>The three things that follow the write of a VMCS register: the entry control for long mode, the shadow, the TLB.\<close>

definition set_efer_lma :: "'h host \<Rightarrow> nat \<Rightarrow> vm_reg_name \<Rightarrow> u64 \<Rightarrow> 'h \<Rightarrow> 'h option" where
  "set_efer_lma H i reg val h =
     (if entry_ctls H AND 0x8000 \<noteq> 0 \<and> reg = VM_REG_GUEST_EFER
      then let ctls = h_rd H i VMCS_ENTRY_CTLS h
           in vmcs_write (h_wr H) i VMCS_ENTRY_CTLS (if val AND 0x400 \<noteq> 0 then ctls OR 0x200 else ctls AND NOT 0x200) h
      else Some h)"

definition set_shadow :: "'h host \<Rightarrow> nat \<Rightarrow> vm_reg_name \<Rightarrow> u64 \<Rightarrow> 'h \<Rightarrow> 'h option" where
  "set_shadow H i reg val h = (case vmx_shadow_reg reg of Some shadow \<Rightarrow> vmcs_write (h_wr H) i shadow val h | None \<Rightarrow> Some h)"

definition vmx_setreg :: "'h host \<Rightarrow> nat \<Rightarrow> vm_reg_name \<Rightarrow> u64 \<Rightarrow> 'h \<Rightarrow> ('h \<times> int) option" where
  "vmx_setreg H i reg val h =
     (if reg = VM_REG_GUEST_INTR_SHADOW then vmx_modify_intr_shadow (h_rd H) (h_wr H) i val h
      else case hvregs reg of
          Some hvreg \<Rightarrow> Some (reg_write H i hvreg val h, 0)
        | None \<Rightarrow>
            Option.bind (vmcs_setreg H i reg val h) (\<lambda>(h1, error).
              if error \<noteq> 0 then Some (h1, error)
              else Option.bind (set_efer_lma H i reg val h1) (\<lambda>h2.
                   map_option (\<lambda>h3. (if reg = VM_REG_GUEST_CR3 then hv_vcpu_invalidate_tlb H i h3 else h3, 0)) (set_shadow H i reg val h2))))"

definition vm_get_register :: "'h host \<Rightarrow> int \<Rightarrow> vm_reg_name \<Rightarrow> 'h \<Rightarrow> int + u64" where
  "vm_get_register H vcpu reg h =
     (if vcpu < 0 \<or> vcpu \<ge> int VM_MAXCPU then Inl EINVAL else if reg = VM_REG_LAST then Inl EINVAL else vmx_getreg H (nat vcpu) reg h)"

definition vm_set_register :: "'h host \<Rightarrow> int \<Rightarrow> vm_reg_name \<Rightarrow> u64 \<Rightarrow> vm \<Rightarrow> 'h \<Rightarrow> (vm \<times> 'h \<times> int) option" where
  "vm_set_register H vcpuid reg val v h =
     (if vcpuid < 0 \<or> vcpuid \<ge> int VM_MAXCPU then Some (v, h, EINVAL)
      else if reg = VM_REG_LAST then Some (v, h, EINVAL)
      else map_option (\<lambda>(h', error).
             (if error \<noteq> 0 \<or> reg \<noteq> VM_REG_GUEST_RIP then v else upd_vcpu (nat vcpuid) (\<lambda>c. c\<lparr>vc_nextrip := val\<rparr>) v, h', error))
           (vmx_setreg H (nat vcpuid) reg val h))"

definition is_descriptor_table :: "vm_reg_name \<Rightarrow> bool" where
  "is_descriptor_table reg \<longleftrightarrow> reg \<in> {VM_REG_GUEST_IDTR, VM_REG_GUEST_GDTR}"

definition is_segment_register :: "vm_reg_name \<Rightarrow> bool" where
  "is_segment_register reg \<longleftrightarrow> reg \<in> {VM_REG_GUEST_ES, VM_REG_GUEST_CS, VM_REG_GUEST_SS, VM_REG_GUEST_DS, VM_REG_GUEST_FS, VM_REG_GUEST_GS,
     VM_REG_GUEST_TR, VM_REG_GUEST_LDTR}"

text \<open>An outer \<open>None\<close> is the abort of \<open>vmcs_getdesc\<close>, an inner one \<open>EINVAL\<close>.\<close>

definition vm_get_seg_desc :: "'h host \<Rightarrow> int \<Rightarrow> vm_reg_name \<Rightarrow> seg_desc \<Rightarrow> 'h \<Rightarrow> seg_desc option option" where
  "vm_get_seg_desc H vcpu reg old h =
     (if vcpu < 0 \<or> vcpu \<ge> int VM_MAXCPU then Some None
      else if \<not> is_segment_register reg \<and> \<not> is_descriptor_table reg then Some None
      else map_option Some (vmcs_getdesc H (nat vcpu) reg old h))"

definition vm_set_seg_desc :: "'h host \<Rightarrow> int \<Rightarrow> vm_reg_name \<Rightarrow> seg_desc \<Rightarrow> 'h \<Rightarrow> ('h \<times> int) option" where
  "vm_set_seg_desc H vcpu reg desc h =
     (if vcpu < 0 \<or> vcpu \<ge> int VM_MAXCPU then Some (h, EINVAL)
      else if \<not> is_segment_register reg \<and> \<not> is_descriptor_table reg then Some (h, EINVAL)
      else map_option (\<lambda>h'. (h', 0)) (vmcs_setdesc H (nat vcpu) reg desc h))"

subsection \<open>Modes of the processor\<close>

definition vmx_cpl :: "'h host \<Rightarrow> nat \<Rightarrow> 'h \<Rightarrow> int" where
  "vmx_cpl H i h = uint (drop_bit 5 (ucast (h_rd H i VMCS_GUEST_SS_ACCESS_RIGHTS h) :: u32) AND 3)"

definition vmx_cpu_mode :: "'h host \<Rightarrow> nat \<Rightarrow> 'h \<Rightarrow> vm_cpu_mode" where
  "vmx_cpu_mode H i h =
     (if h_rd H i VMCS_GUEST_IA32_EFER h AND 0x400 \<noteq> 0
      then if (ucast (h_rd H i VMCS_GUEST_CS_ACCESS_RIGHTS h) :: u32) AND 0x2000 \<noteq> 0 then CPU_MODE_64BIT else CPU_MODE_COMPATIBILITY
      else if h_rd H i VMCS_GUEST_CR0 h AND 1 \<noteq> 0 then CPU_MODE_PROTECTED else CPU_MODE_REAL)"

definition vmx_paging_mode :: "'h host \<Rightarrow> nat \<Rightarrow> 'h \<Rightarrow> vm_paging_mode" where
  "vmx_paging_mode H i h =
     (if h_rd H i VMCS_GUEST_CR0 h AND 0x80000000 = 0 then PAGING_MODE_FLAT
      else if h_rd H i VMCS_GUEST_CR4 h AND 0x20 = 0 then PAGING_MODE_32
      else if h_rd H i VMCS_GUEST_IA32_EFER h AND 0x100 \<noteq> 0 then PAGING_MODE_64 else PAGING_MODE_PAE)"

definition vmx_paging_info :: "'h host \<Rightarrow> nat \<Rightarrow> 'h \<Rightarrow> vm_guest_paging" where
  "vmx_paging_info H i h = \<lparr>pg_cr3 = h_rd H i VMCS_GUEST_CR3 h, pg_cpl = vmx_cpl H i h, pg_cpu_mode = vmx_cpu_mode H i h,
     pg_paging_mode = vmx_paging_mode H i h\<rparr>"

text \<open>The part \<open>u.inst_emul\<close> of a VM exit.\<close>

record inst_emul =
  ie_gpa :: u64
  ie_gla :: u64
  ie_cs_base :: u64
  ie_cs_d :: bool
  ie_paging :: vm_guest_paging
  ie_vie :: vie

definition vmexit_inst_emul :: "'h host \<Rightarrow> u64 \<Rightarrow> u64 \<Rightarrow> nat \<Rightarrow> 'h \<Rightarrow> inst_emul option" where
  "vmexit_inst_emul H gpa gla i h =
     (let paging = vmx_paging_info H i h; mode = pg_cpu_mode paging
      in map_option (\<lambda>vie. \<lparr>ie_gpa = gpa, ie_gla = gla,
           ie_cs_base = (if mode = CPU_MODE_64BIT then 0 else h_rd H i VMCS_GUEST_CS_BASE h),
           ie_cs_d = (if mode = CPU_MODE_REAL \<or> mode = CPU_MODE_64BIT then False else SEG_DESC_DEF32 (ucast (h_rd H i VMCS_GUEST_CS_ACCESS_RIGHTS h))),
           ie_paging = paging, ie_vie = vie\<rparr>) (vie_init []))"

subsection \<open>The register file\<close>

text \<open>
  Registers that hold what is written to them. The control registers 0 and 4 are completed with fixed bits, the interrupt shadow can only be
  cleared, and descriptor tables have no value here.
\<close>

definition plain_reg :: "vm_reg_name \<Rightarrow> bool" where
  "plain_reg r \<longleftrightarrow> hvregs r \<noteq> None \<or> (vmcs_field_encoding r \<noteq> None \<and> r \<noteq> VM_REG_GUEST_CR0 \<and> r \<noteq> VM_REG_GUEST_CR4)"

definition reg_width :: "vm_reg_name \<Rightarrow> nat" where
  "reg_width r = (if is_segment_register r then 16 else 64)"
lemma host_field:
  assumes "host_laws H"
  shows "h_rd H i f (h_wr H i f x h) = take_bit (field_width f) x"
    and "j \<noteq> i \<or> g \<noteq> f \<Longrightarrow> h_rd H j g (h_wr H i f x h) = h_rd H j g h"
    and "reg_read H j r (h_wr H i f x h) = reg_read H j r h"
  using assms unfolding host_laws_def by simp_all

lemma host_reg:
  assumes "host_laws H"
  shows "reg_read H i r (reg_write H i r x h) = x"
    and "j \<noteq> i \<or> s \<noteq> r \<Longrightarrow> reg_read H j s (reg_write H i r x h) = reg_read H j s h"
    and "h_rd H j f (reg_write H i r x h) = h_rd H j f h"
    and "h_rd H j f (hv_vcpu_invalidate_tlb H i h) = h_rd H j f h"
    and "reg_read H j s (hv_vcpu_invalidate_tlb H i h) = reg_read H j s h"
  using assms unfolding host_laws_def by simp_all

text \<open>No two registers share a cell, and no register is kept in one of the control fields.\<close>

lemma hvregs_inj: "hvregs r = Some x \<Longrightarrow> hvregs s = Some x \<Longrightarrow> r = s"
  by (cases r; simp; cases s; simp)

lemma field_inj: "vmcs_field_encoding r = Some x \<Longrightarrow> vmcs_field_encoding s = Some x \<Longrightarrow> r = s"
  by (cases r; simp; cases s; simp)

lemma field_no_control:
  "vmcs_field_encoding r = Some f \<Longrightarrow> f \<notin> {0x4002, VMCS_GUEST_INTERRUPTIBILITY, VMCS_ENTRY_CTLS, 0x6004, 0x6006}"
  by (cases r) auto

lemma field_no_hvreg: "vmcs_field_encoding r = Some f \<Longrightarrow> hvregs r = None"
  by (cases r) auto

lemma field_reg_width: "vmcs_field_encoding r = Some f \<Longrightarrow> field_width f = reg_width r"
  by (cases r) (auto simp: field_width_def reg_width_def is_segment_register_def)

lemma hvreg_reg_width: "hvregs r = Some x \<Longrightarrow> reg_width r = 64"
  by (cases r) (auto simp: reg_width_def is_segment_register_def)

lemma getreg_other_field:
  assumes "host_laws H" and "j \<noteq> i \<or> (f \<noteq> VMCS_GUEST_INTERRUPTIBILITY \<and> vmcs_field_encoding s \<noteq> Some f)"
  shows "vmx_getreg H j s (h_wr H i f x h) = vmx_getreg H j s h"
  using assms(2) host_field [OF assms(1)]
  by (auto simp: vmx_getreg_def vmx_get_intr_shadow_def vmcs_getreg_def split: option.splits)

lemma getreg_tlb: "host_laws H \<Longrightarrow> vmx_getreg H j s (hv_vcpu_invalidate_tlb H i h) = vmx_getreg H j s h"
  by (simp add: vmx_getreg_def vmx_get_intr_shadow_def vmcs_getreg_def host_reg split: option.split)

lemma getreg_other_reg:
  assumes "host_laws H" and "j \<noteq> i \<or> hvregs s \<noteq> Some r"
  shows "vmx_getreg H j s (reg_write H i r x h) = vmx_getreg H j s h"
  using assms(2) host_reg [OF assms(1)]
  by (auto simp: vmx_getreg_def vmx_get_intr_shadow_def vmcs_getreg_def split: option.splits)

text \<open>Writing a field and what follows it: only that register changes.\<close>

lemma setreg_field:
  assumes "host_laws H" and f: "vmcs_field_encoding r = Some f"
  shows "\<exists>h'. vmx_setreg H i r val h = Some (h', 0)
     \<and> vmx_getreg H i r h' = Inr (take_bit (reg_width r) (vmcs_fix_regval H f val))
     \<and> (\<forall>j s. (j, s) \<noteq> (i, r) \<longrightarrow> vmx_getreg H j s h' = vmx_getreg H j s h)"
proof -
  have nohv: "hvregs r = None" and nsh: "r \<noteq> VM_REG_GUEST_INTR_SHADOW" using f field_no_hvreg by auto
  note no = field_no_control [OF f]
  let ?h1 = "h_wr H i f (vmcs_fix_regval H f val) h"
  have s1: "vmcs_setreg H i r val h = Some (?h1, 0)" using no f by (simp add: vmcs_setreg_def vmcs_write_def)
  have g1: "vmx_getreg H i r ?h1 = Inr (take_bit (reg_width r) (vmcs_fix_regval H f val))"
    using nohv nsh f by (simp add: vmx_getreg_def vmcs_getreg_def host_field [OF assms(1)] field_reg_width)
  have o1: "vmx_getreg H j s ?h1 = vmx_getreg H j s h" if "(j, s) \<noteq> (i, r)" for j s
    by (rule getreg_other_field [OF assms(1)]) (use that no f field_inj in auto)
  have other: "vmx_getreg H j s (h_wr H i g x k) = vmx_getreg H j s k" if "g \<in> {VMCS_ENTRY_CTLS, 0x6004, 0x6006}" for j s g x k
    by (rule getreg_other_field [OF assms(1)]) (use that field_no_control in force)
  obtain h2 where s2: "set_efer_lma H i r val ?h1 = Some h2" and g2: "\<And>j s. vmx_getreg H j s h2 = vmx_getreg H j s ?h1"
  proof (cases "entry_ctls H AND 0x8000 \<noteq> 0 \<and> r = VM_REG_GUEST_EFER")
    case True
    let ?c = "h_rd H i VMCS_ENTRY_CTLS ?h1"
    show ?thesis using that [of "h_wr H i VMCS_ENTRY_CTLS (if val AND 0x400 \<noteq> 0 then ?c OR 0x200 else ?c AND NOT 0x200) ?h1"] True other
      by (simp add: set_efer_lma_def vmcs_write_def Let_def)
  qed (use that [of ?h1] in \<open>simp add: set_efer_lma_def if_not_P\<close>)
  obtain h3 where s3: "set_shadow H i r val h2 = Some h3" and g3: "\<And>j s. vmx_getreg H j s h3 = vmx_getreg H j s h2"
  proof (cases "vmx_shadow_reg r")
    case (Some sh)
    then have "sh \<in> {0x6004, 0x6006}" by (cases r) auto
    then show ?thesis using that [of "h_wr H i sh val h2"] Some other by (auto simp: set_shadow_def vmcs_write_def)
  qed (use that [of h2] in \<open>simp add: set_shadow_def\<close>)
  let ?h4 = "if r = VM_REG_GUEST_CR3 then hv_vcpu_invalidate_tlb H i h3 else h3"
  have "vmx_setreg H i r val h = Some (?h4, 0)" using nsh nohv s1 s2 s3 by (simp add: vmx_setreg_def)
  moreover have "vmx_getreg H j s ?h4 = vmx_getreg H j s ?h1" for j s by (simp add: getreg_tlb [OF assms(1)] g2 g3)
  ultimately show ?thesis using g1 o1 by simp
qed

lemma setreg_hvreg:
  assumes "host_laws H" and r: "hvregs r = Some x"
  shows "vmx_setreg H i r val h = Some (reg_write H i x val h, 0)"
    and "vmx_getreg H i r (reg_write H i x val h) = Inr val"
    and "(j, s) \<noteq> (i, r) \<Longrightarrow> vmx_getreg H j s (reg_write H i x val h) = vmx_getreg H j s h"
proof -
  have nsh: "r \<noteq> VM_REG_GUEST_INTR_SHADOW" using r by auto
  show "vmx_setreg H i r val h = Some (reg_write H i x val h, 0)" using nsh r by (simp add: vmx_setreg_def)
  show "vmx_getreg H i r (reg_write H i x val h) = Inr val" using nsh r by (simp add: vmx_getreg_def host_reg [OF assms(1)])
  show "vmx_getreg H j s (reg_write H i x val h) = vmx_getreg H j s h" if "(j, s) \<noteq> (i, r)"
    by (rule getreg_other_reg [OF assms(1)]) (use that r hvregs_inj in auto)
qed

lemma set_get_register:
  assumes "host_laws H" and "0 \<le> i" and "i < int VM_MAXCPU" and "plain_reg r"
  shows "\<exists>v' h'. vm_set_register H i r val v h = Some (v', h', 0)
     \<and> vm_get_register H i r h' = Inr (take_bit (reg_width r) val)
     \<and> (\<forall>j s. (j, s) \<noteq> (i, r) \<longrightarrow> vm_get_register H j s h' = vm_get_register H j s h)"
proof -
  have nl: "r \<noteq> VM_REG_LAST" using assms(4) by (auto simp: plain_reg_def)
  have "\<exists>h'. vmx_setreg H (nat i) r val h = Some (h', 0) \<and> vmx_getreg H (nat i) r h' = Inr (take_bit (reg_width r) val)
     \<and> (\<forall>j s. (j, s) \<noteq> (nat i, r) \<longrightarrow> vmx_getreg H j s h' = vmx_getreg H j s h)"
  proof (cases "hvregs r")
    case (Some x)
    then show ?thesis using setreg_hvreg [OF assms(1) Some] hvreg_reg_width [OF Some] by (simp add: take_bit_word_eq_self)
  next
    case None
    then obtain f where f: "vmcs_field_encoding r = Some f" "r \<noteq> VM_REG_GUEST_CR0" "r \<noteq> VM_REG_GUEST_CR4"
      using assms(4) by (auto simp: plain_reg_def)
    then have "f \<noteq> VMCS_GUEST_CR0" "f \<noteq> VMCS_GUEST_CR4"
      using field_inj [of r f VM_REG_GUEST_CR0] field_inj [of r f VM_REG_GUEST_CR4] by auto
    then have "vmcs_fix_regval H f val = val" by (simp add: vmcs_fix_regval_def)
    then show ?thesis using setreg_field [OF assms(1) f(1), of "nat i" val h] by simp
  qed
  then obtain h' where h: "vmx_setreg H (nat i) r val h = Some (h', 0)" "vmx_getreg H (nat i) r h' = Inr (take_bit (reg_width r) val)"
    "\<And>j s. (j, s) \<noteq> (nat i, r) \<Longrightarrow> vmx_getreg H j s h' = vmx_getreg H j s h" by blast
  have "vm_get_register H j s h' = vm_get_register H j s h" if "(j, s) \<noteq> (i, r)" for j s
    using h(3) [of "nat j" s] that assms(2) by (auto simp: vm_get_register_def nat_eq_iff2)
  then show ?thesis using h(1,2) nl assms(2,3) by (auto simp: vm_set_register_def vm_get_register_def)
qed

text \<open>
  C25. The registers of the vcpus are independent variables: for every vcpu number below the limit and every register other than CR0, CR4, the
  interrupt shadow and the descriptor tables, \<open>vm_set_register\<close> succeeds, \<open>vm_get_register\<close> then gives the value that was written (its low 16
  bits for a segment selector), and every other register of every vcpu reads as before.
\<close>

theorem register_file:
  assumes "host_laws H" and "0 \<le> i" and "i < int VM_MAXCPU" and "plain_reg r"
  shows "\<exists>v' h'. vm_set_register H i r val v h = Some (v', h', 0)
     \<and> vm_get_register H i r h' = Inr (take_bit (reg_width r) val)
     \<and> (\<forall>j s. (j, s) \<noteq> (i, r) \<longrightarrow> vm_get_register H j s h' = vm_get_register H j s h)"
  by (rule set_get_register [OF assms])

text \<open>A host that keeps the fields and the registers in tables.\<close>

definition tab_host :: "((nat \<Rightarrow> u32 \<Rightarrow> u64) \<times> (nat \<Rightarrow> hv_x86_reg \<Rightarrow> u64)) host" where
  "tab_host = \<lparr>h_rd = (\<lambda>i f h. fst h i f), h_wr = (\<lambda>i f x h. ((fst h)(i := (fst h i)(f := take_bit (field_width f) x)), snd h)),
     reg_read = (\<lambda>i r h. snd h i r), reg_write = (\<lambda>i r x h. (fst h, (snd h)(i := (snd h i)(r := x)))),
     hv_vcpu_invalidate_tlb = (\<lambda>i h. h), cr0_ones_mask = 0x20, cr0_zeros_mask = 0, cr4_ones_mask = 0x2000, cr4_zeros_mask = 0,
     entry_ctls = 0x8000\<rparr>"

lemma tab_host_laws: "host_laws tab_host"
  by (simp add: host_laws_def tab_host_def)

theorem register_file_witness:
  "\<exists>v' h'. vm_set_register tab_host 1 VM_REG_GUEST_EFER 0x500 (vm_calloc \<lparr>tb_numer = 1, tb_denom = 1\<rparr>) ((\<lambda>_ _. 0), (\<lambda>_ _. 0)) = Some (v', h', 0)
     \<and> vm_get_register tab_host 1 VM_REG_GUEST_EFER h' = Inr 0x500
     \<and> vm_get_register tab_host 1 VM_REG_GUEST_RIP h' = Inr 0"
proof -
  have p: "plain_reg VM_REG_GUEST_EFER" and n: "0 \<le> (1 :: int)" "1 < int VM_MAXCPU" by (simp_all add: plain_reg_def)
  obtain v' h' where s: "vm_set_register tab_host 1 VM_REG_GUEST_EFER 0x500 (vm_calloc \<lparr>tb_numer = 1, tb_denom = 1\<rparr>) ((\<lambda>_ _. 0), (\<lambda>_ _. 0)) = Some (v', h', 0)"
    "vm_get_register tab_host 1 VM_REG_GUEST_EFER h' = Inr (take_bit (reg_width VM_REG_GUEST_EFER) 0x500)"
    and o: "\<forall>j s. (j, s) \<noteq> (1, VM_REG_GUEST_EFER) \<longrightarrow> vm_get_register tab_host j s h' = vm_get_register tab_host j s ((\<lambda>_ _. 0), (\<lambda>_ _. 0))"
    using register_file [OF tab_host_laws n p] by blast
  from o have "vm_get_register tab_host 1 VM_REG_GUEST_RIP h' = vm_get_register tab_host 1 VM_REG_GUEST_RIP ((\<lambda>_ _. 0), (\<lambda>_ _. 0))" by blast
  also have "\<dots> = Inr 0" by (simp add: vm_get_register_def vmx_getreg_def vmcs_getreg_def tab_host_def)
  finally show ?thesis using s by (auto simp: reg_width_def is_segment_register_def)
qed

end
