(* ===== verification/Vm_Copy.thy ===== *)
theory Vm_Copy
  imports Vm_Walk Vmx_Regs
begin

text \<open>
  Access to guest memory by linear address (\<open>vm_gla2gpa\<close>, \<open>vmm_fetch_instruction\<close> of \<open>src/vmm/vmm_instruction_emul.c\<close>; \<open>vm_copy_setup\<close>,
  \<open>vm_copyin\<close>, \<open>vm_copyout\<close> of \<open>src/vmm/vmm.c\<close>): translation with the faults it injects, ranges that cross a page boundary, copies in both directions.
\<close>

subsection \<open>Translation with faults\<close>

abbreviation (input) EFAULT :: int where "EFAULT \<equiv> 14"

text \<open>The machine, the state of the host framework, and the contents of host memory.\<close>

type_synonym 'h world = "vm \<times> 'h \<times> hmem"

text \<open>
  What a routine with a return value and a fault flag reports: 0 without a fault, 0 with a fault injected into the guest, an error.
\<close>

datatype 'a access = Done 'a | Fault | Error int

definition inject :: "'h host \<Rightarrow> int \<Rightarrow> int \<Rightarrow> bool \<Rightarrow> u32 \<Rightarrow> 'h world \<Rightarrow> 'h world option" where
  "inject H vcpuid vector errcode_valid errcode = (\<lambda>(v, h, m).
     map_option (\<lambda>(v', h'). (v', h', m)) (vm_inject_fault (h_rd H) (h_wr H) vcpuid vector errcode_valid errcode v h))"

definition vm_inject_ud :: "'h host \<Rightarrow> int \<Rightarrow> 'h world \<Rightarrow> 'h world option" where
  "vm_inject_ud H vcpuid = inject H vcpuid 6 False 0"

definition vm_inject_gp :: "'h host \<Rightarrow> int \<Rightarrow> 'h world \<Rightarrow> 'h world option" where
  "vm_inject_gp H vcpuid = inject H vcpuid 13 True 0"

definition vm_inject_ac :: "'h host \<Rightarrow> int \<Rightarrow> u32 \<Rightarrow> 'h world \<Rightarrow> 'h world option" where
  "vm_inject_ac H vcpuid errcode = inject H vcpuid 17 True errcode"

definition vm_inject_ss :: "'h host \<Rightarrow> int \<Rightarrow> u32 \<Rightarrow> 'h world \<Rightarrow> 'h world option" where
  "vm_inject_ss H vcpuid errcode = inject H vcpuid 12 True errcode"

definition inject_pf :: "'h host \<Rightarrow> int \<Rightarrow> u32 \<Rightarrow> u64 \<Rightarrow> 'h world \<Rightarrow> 'h world option" where
  "inject_pf H vcpuid code cr2 = (\<lambda>(v, h, m).
     map_option (\<lambda>(v', h'). (v', h', m)) (vm_inject_pf (h_rd H) (h_wr H) (\<lambda>i. reg_write H i HV_X86_CR2) vcpuid code cr2 v h))"

text \<open>The labels at the end of \<open>vm_gla2gpa\<close>.\<close>

fun gla2gpa_end :: "'h host \<Rightarrow> int \<Rightarrow> u64 \<Rightarrow> walk \<Rightarrow> 'h world \<Rightarrow> (u64 access \<times> 'h world) option" where
  "gla2gpa_end H vcpuid gla (Gpa gpa) w = Some (Done gpa, w)"
| "gla2gpa_end H vcpuid gla Efault w = Some (Error EFAULT, w)"
| "gla2gpa_end H vcpuid gla Gp w = map_option (Pair Fault) (vm_inject_gp H vcpuid w)"
| "gla2gpa_end H vcpuid gla (Pf code) w = map_option (Pair Fault) (inject_pf H vcpuid code gla w)"
| "gla2gpa_end H vcpuid gla Restart w = None"

definition vm_gla2gpa :: "'h host \<Rightarrow> int \<Rightarrow> vm_guest_paging \<Rightarrow> u64 \<Rightarrow> u32 \<Rightarrow> 'h world \<Rightarrow> (u64 access \<times> 'h world) option" where
  "vm_gla2gpa H vcpuid paging gla prot = (\<lambda>(v, h, m).
     Option.bind (walk_restart v paging gla prot m) (\<lambda>(r, m'). gla2gpa_end H vcpuid gla r (v, h, m')))"

subsection \<open>Copies\<close>

record vm_copyinfo =
  ci_gpa :: u64
  ci_len :: u64
  ci_hva :: "(nat \<times> u64) option"

text \<open>\<open>vm_copy_teardown\<close> clears the array.\<close>

definition vm_copy_teardown :: "nat \<Rightarrow> vm_copyinfo list" where
  "vm_copy_teardown num_copyinfo = replicate num_copyinfo \<lparr>ci_gpa = 0, ci_len = 0, ci_hva = None\<rparr>"

text \<open>The first loop of \<open>vm_copy_setup\<close>; \<open>slots\<close> entries are left. \<open>None\<close> is the failed assertion that there is one.\<close>

fun copy_split :: "'h host \<Rightarrow> int \<Rightarrow> vm_guest_paging \<Rightarrow> u32 \<Rightarrow> nat \<Rightarrow> u64 \<Rightarrow> u64 \<Rightarrow> 'h world \<Rightarrow> (vm_copyinfo list access \<times> 'h world) option" where
  "copy_split H vcpuid paging prot slots gla remaining w =
     (if remaining = 0 then Some (Done [], w)
      else case slots of
          0 \<Rightarrow> None
        | Suc slots' \<Rightarrow>
            Option.bind (vm_gla2gpa H vcpuid paging gla prot w) (\<lambda>(r, w1). case r of
                Done gpa \<Rightarrow>
                  let off = gpa AND XHYVE_PAGE_MASK; n = min remaining (XHYVE_PAGE_SIZE - off)
                  in map_option (\<lambda>(r', w2).
                       (case r' of Done cs \<Rightarrow> Done (\<lparr>ci_gpa = gpa, ci_len = n, ci_hva = None\<rparr> # cs) | Fault \<Rightarrow> Fault | Error e \<Rightarrow> Error e, w2))
                     (copy_split H vcpuid paging prot slots' (gla + n) (remaining - n) w1)
              | Fault \<Rightarrow> Some (Fault, w1)
              | Error e \<Rightarrow> Some (Error e, w1)))"

declare copy_split.simps [simp del]

definition copy_hva :: "vm \<Rightarrow> vm_copyinfo \<Rightarrow> vm_copyinfo option" where
  "copy_hva v c = map_option (\<lambda>hva. c\<lparr>ci_hva := Some hva\<rparr>) (vm_gpa2hva v (ci_gpa c) (ci_len c))"

text \<open>The array has the entries in use and then cleared ones.\<close>

definition vm_copy_setup ::
  "'h host \<Rightarrow> int \<Rightarrow> vm_guest_paging \<Rightarrow> u64 \<Rightarrow> u64 \<Rightarrow> u32 \<Rightarrow> nat \<Rightarrow> 'h world \<Rightarrow> (vm_copyinfo list access \<times> 'h world) option" where
  "vm_copy_setup H vcpuid paging gla len prot num_copyinfo w =
     map_option (\<lambda>(r, w').
       (case r of
          Done cs \<Rightarrow> (case those (map (copy_hva (fst w')) cs) of
                         None \<Rightarrow> Error EFAULT
                       | Some cs' \<Rightarrow> Done (cs' @ vm_copy_teardown (num_copyinfo - length cs')))
        | Fault \<Rightarrow> Fault
        | Error e \<Rightarrow> Error e, w'))
     (copy_split H vcpuid paging prot num_copyinfo gla len w)"

text \<open>The copies; \<open>None\<close> is a use of the array beyond its end or of a cleared entry with a length.\<close>

fun vm_copyin :: "hmem \<Rightarrow> vm_copyinfo list \<Rightarrow> u64 \<Rightarrow> u8 list option" where
  "vm_copyin m [] len = (if len = 0 then Some [] else None)"
| "vm_copyin m (c # cs) len =
     (if len = 0 then Some []
      else case ci_hva c of
          None \<Rightarrow> if ci_len c = 0 then vm_copyin m cs len else None
        | Some (obj, x) \<Rightarrow> map_option ((@) (peek_bytes m obj x (unat (ci_len c)))) (vm_copyin m cs (len - ci_len c)))"

fun vm_copyout :: "u8 list \<Rightarrow> vm_copyinfo list \<Rightarrow> u64 \<Rightarrow> hmem \<Rightarrow> hmem option" where
  "vm_copyout src [] len m = (if len = 0 then Some m else None)"
| "vm_copyout src (c # cs) len m =
     (if len = 0 then Some m
      else case ci_hva c of
          None \<Rightarrow> if ci_len c = 0 then vm_copyout src cs len m else None
        | Some (obj, x) \<Rightarrow>
            let n = unat (ci_len c) in vm_copyout (drop n src) cs (len - ci_len c) (poke_bytes obj x (take n src) m))"

text \<open>The instruction is copied over the start of the buffer.\<close>

definition vmm_fetch_instruction ::
  "'h host \<Rightarrow> int \<Rightarrow> vm_guest_paging \<Rightarrow> u64 \<Rightarrow> nat \<Rightarrow> vie \<Rightarrow> 'h world \<Rightarrow> (vie access \<times> 'h world) option" where
  "vmm_fetch_instruction H vcpuid paging rip inst_length vie w =
     (if inst_length > VIE_INST_SIZE then None
      else Option.bind (vm_copy_setup H vcpuid paging rip (of_nat inst_length) 5 2 w) (\<lambda>(r, w'). case r of
          Done cs \<Rightarrow>
            map_option (\<lambda>bs. (Done (vie\<lparr>vie_inst := bs @ drop inst_length (vie_inst vie), vie_num_valid := inst_length\<rparr>), w'))
              (vm_copyin (snd (snd w')) cs (of_nat inst_length))
        | Fault \<Rightarrow> Some (Fault, w')
        | Error e \<Rightarrow> Some (Error e, w')))"
subsection \<open>Translation is refined\<close>

text \<open>The vcpu can take a fault: its number is valid, it has none pending, and it is in the hands of this thread.\<close>

definition can_fault :: "vm \<Rightarrow> int \<Rightarrow> bool" where
  "can_fault v i \<longleftrightarrow> 0 \<le> i \<and> i < int VM_MAXCPU \<and> \<not> vc_exception_pending (vm_vcpu v (nat i)) \<and> vc_state (vm_vcpu v (nat i)) \<in> {VCPU_RUNNING, VCPU_FROZEN}"

definition pending :: "vm \<Rightarrow> int \<Rightarrow> int \<Rightarrow> bool \<Rightarrow> u32 \<Rightarrow> bool" where
  "pending v i vector valid code \<longleftrightarrow> (let c = vm_vcpu v (nat i) in
     vc_exception_pending c \<and> vc_exc_vector c = vector \<and> vc_exc_errcode_valid c = valid \<and> vc_exc_errcode c = code)"

lemma vm_inject_fault_pending:
  assumes "can_fault v i" and "0 \<le> vector" and "vector < 32" and "vector \<noteq> 8"
  shows "\<exists>v' y. vm_inject_fault rd wr i vector valid code v h = Some (v', wr (nat i) VMCS_GUEST_INTERRUPTIBILITY y h) \<and> pending v' i vector valid code"
proof -
  have n: "0 \<le> i" "i < int VM_MAXCPU" "nat i < VM_MAXCPU" and c: "\<not> vc_exception_pending (vm_vcpu v (nat i))"
    using assms(1) by (auto simp: can_fault_def)
  let ?h = "wr (nat i) VMCS_GUEST_INTERRUPTIBILITY (rd (nat i) VMCS_GUEST_INTERRUPTIBILITY h AND 0xfffffffc) h"
  have "\<exists>v1. vm_restart_instruction rd (nat i) v ?h = Some (v1, 0)"
    using assms(1) n(3) by (auto simp: can_fault_def vm_restart_instruction_def)
  then obtain v1 where v1: "vm_restart_instruction rd (nat i) v ?h = Some (v1, 0)" ..
  let ?v = "upd_vcpu (nat i) (\<lambda>c. c\<lparr>vc_exception_pending := True, vc_exc_vector := vector, vc_exc_errcode := code, vc_exc_errcode_valid := valid\<rparr>) v1"
  have "vm_inject_fault rd wr i vector valid code v h = Some (?v, ?h)"
    using assms(2-4) n c v1 by (simp add: vm_inject_fault_def vm_inject_exception_def vmx_modify_intr_shadow_def vmcs_write_def)
  moreover have "pending ?v i vector valid code" by (simp add: pending_def)
  ultimately show ?thesis by blast
qed

lemma inject_gp_pending:
  assumes "can_fault v i"
  shows "\<exists>v' h'. vm_inject_gp H i (v, h, m) = Some (v', h', m) \<and> pending v' i 13 True 0"
  using vm_inject_fault_pending [OF assms, of 13 "h_rd H" "h_wr H" True 0 h] by (auto simp: vm_inject_gp_def inject_def)

lemma inject_pf_pending:
  assumes "can_fault v i" and "host_laws H"
  shows "\<exists>v' h'. inject_pf H i code gla (v, h, m) = Some (v', h', m) \<and> pending v' i 14 True code \<and> reg_read H (nat i) HV_X86_CR2 h' = gla"
proof -
  have n: "0 \<le> i" "i < int VM_MAXCPU" using assms(1) by (auto simp: can_fault_def)
  obtain v' y where "vm_inject_fault (h_rd H) (h_wr H) i 14 True code v (reg_write H (nat i) HV_X86_CR2 gla h)
      = Some (v', h_wr H (nat i) VMCS_GUEST_INTERRUPTIBILITY y (reg_write H (nat i) HV_X86_CR2 gla h))" "pending v' i 14 True code"
    using vm_inject_fault_pending [OF assms(1), of 14 "h_rd H" "h_wr H" True code "reg_write H (nat i) HV_X86_CR2 gla h"] by auto
  then show ?thesis using n by (simp add: inject_pf_def vm_inject_pf_def host_field [OF assms(2)] host_reg [OF assms(2)])
qed

text \<open>What \<open>vm_gla2gpa\<close> reports for a translation.\<close>

definition reports :: "'h host \<Rightarrow> int \<Rightarrow> vm \<Rightarrow> 'h \<Rightarrow> u64 \<Rightarrow> translation \<Rightarrow> u64 access \<Rightarrow> vm \<Rightarrow> 'h \<Rightarrow> bool" where
  "reports H i v h gla t r v' h' \<longleftrightarrow> (case t of
     Mapped p \<Rightarrow> r = Done (of_nat p) \<and> v' = v \<and> h' = h
   | NoMemory \<Rightarrow> r = Error EFAULT \<and> v' = v \<and> h' = h
   | NotCanonical \<Rightarrow> r = Fault \<and> pending v' i 13 True 0
   | Denied code \<Rightarrow> r = Fault \<and> pending v' i 14 True code \<and> reg_read H (nat i) HV_X86_CR2 h' = gla)"

text \<open>Memories that differ in accessed and dirty bits of the entries of tables only.\<close>

definition up_to_ad :: "vm_guest_paging \<Rightarrow> hmem \<Rightarrow> hmem \<Rightarrow> bool" where
  "up_to_ad paging m m' \<longleftrightarrow> (\<exists>S. ad S m m' \<and> (\<forall>obj x. (obj, x) \<in> S \<longrightarrow> entry_width paging dvd unat x))"

lemma up_to_ad_refl [simp]: "up_to_ad paging m m"
  unfolding up_to_ad_def by (rule exI [of _ "{}"]) simp

lemma gla2gpa_reports:
  assumes "host_laws H" and "mem_ok v" and "unat (pg_cr3 paging) < 2 ^ 52" and "can_fault v i"
    and "up_to_ad paging m0 m" and t: "guest_translate (phys_word v m0) paging gla prot = (t, as)"
  shows "\<exists>r v' h' m'. vm_gla2gpa H i paging gla prot (v, h, m) = Some (r, v', h', m') \<and> reports H i v h gla t r v' h' \<and> up_to_ad paging m0 m'
     \<and> ad (homes v as) m m' \<and> (\<forall>a \<in> set as. marked v 5 m' a) \<and> ((\<exists>p. t = Mapped p) \<and> bit prot 1 \<longrightarrow> as \<noteq> [] \<longrightarrow> marked v 6 m' (last as))"
proof -
  obtain S where S: "ad S m0 m" "\<And>obj x. (obj, x) \<in> S \<Longrightarrow> entry_width paging dvd unat x" using assms(5) unfolding up_to_ad_def by blast
  have "\<exists>m'. walk_restart v paging gla prot m = Some (conv t, m') \<and> ad (homes v as) m m' \<and> (\<forall>a \<in> set as. marked v 5 m' a)
     \<and> ((\<exists>p. t = Mapped p) \<and> bit prot 1 \<longrightarrow> as \<noteq> [] \<longrightarrow> marked v 6 m' (last as))"
    by (rule walk_restart_correct [OF assms(2,3) S(1) _ t]) (rule S(2))
  then obtain m' where w: "walk_restart v paging gla prot m = Some (conv t, m')"
    and m': "ad (homes v as) m m'" "\<forall>a \<in> set as. marked v 5 m' a" "(\<exists>p. t = Mapped p) \<and> bit prot 1 \<longrightarrow> as \<noteq> [] \<longrightarrow> marked v 6 m' (last as)" by blast
  have g: "vm_gla2gpa H i paging gla prot (v, h, m) = gla2gpa_end H i gla (conv t) (v, h, m')" using w by (simp add: vm_gla2gpa_def)
  have "\<exists>r v' h'. gla2gpa_end H i gla (conv t) (v, h, m') = Some (r, v', h', m') \<and> reports H i v h gla t r v' h'"
  proof (cases t)
    case (Denied code)
    then show ?thesis using inject_pf_pending [OF assms(4,1), of code gla h m'] by (auto simp: reports_def)
  next
    case NotCanonical
    then show ?thesis using inject_gp_pending [OF assms(4), of H h m'] by (auto simp: reports_def)
  qed (simp_all add: reports_def)
  moreover have "entry_width paging dvd unat x" if "(obj, x) \<in> S \<union> homes v as" for obj x
    using that S(2) homes_aligned [OF assms(2), where rdw = "phys_word v m0" and gla = gla and prot = prot] t by auto
  then have "up_to_ad paging m0 m'" unfolding up_to_ad_def using ad_trans [OF S(1) m'(1)] by blast
  ultimately show ?thesis using g m' by auto
qed

text \<open>Two pages of guest memory; the first entry of the page directory maps 4 MB at address 0.\<close>

definition small_vm :: vm where
  "small_vm = (vm_calloc \<lparr>tb_numer = 1, tb_denom = 1\<rparr>)\<lparr>vm_mem_segs := [\<lparr>seg_gpa = 0, seg_len = 0x2000, seg_object = Some 7\<rparr>],
     vm_vcpu := (\<lambda>i. (vm_vcpu (vm_calloc \<lparr>tb_numer = 1, tb_denom = 1\<rparr>) i)\<lparr>vc_state := VCPU_FROZEN\<rparr>)\<rparr>"

definition small_mem :: hmem where
  "small_mem obj x = (if x < 4 then if x = 0 then 0x83 else 0 else ucast x)"

definition small_paging :: vm_guest_paging where
  "small_paging = \<lparr>pg_cr3 = 0, pg_cpl = 0, pg_cpu_mode = CPU_MODE_PROTECTED, pg_paging_mode = PAGING_MODE_32\<rparr>"

lemma small_ok: "mem_ok small_vm" "can_fault small_vm 0" "unat (pg_cr3 small_paging) < 2 ^ 52"
  by (simp_all add: small_vm_def small_paging_def mem_ok_def seg_ok_def can_fault_def vm_calloc_def vcpu_bzero_def)

lemma small_entry: "phys_word small_vm small_mem 4 0 = Some 0x83"
  by (simp add: phys_word_def phys_byte_def home_def small_vm_def small_mem_def number_def upt_rec)

lemma small_translate:
  "a < 0x400000 \<Longrightarrow> guest_translate (phys_word small_vm small_mem) small_paging (of_nat a) prot = (Mapped a, [0])"
  using small_entry by (simp add: guest_translate_def small_paging_def translate.simps permits_def unat_of_nat bit_0)

subsection \<open>Ranges\<close>

text \<open>Within a page, a translation moves with the address.\<close>

fun shift :: "nat \<Rightarrow> translation \<Rightarrow> translation" where
  "shift k (Mapped p) = Mapped (p + k)"
| "shift k t = t"

lemma same_page:
  assumes "a mod 4096 + k < (4096 :: nat)" and "12 \<le> s"
  shows "(a + k) div 2 ^ s = a div 2 ^ s" and "(a + k) mod 2 ^ s = a mod 2 ^ s + k"
proof -
  have s: "(2 :: nat) ^ s = 4096 * 2 ^ (s - 12)" using assms(2) power_add [of "2 :: nat" 12 "s - 12"] by simp
  have "a mod 2 ^ s = a div 4096 mod 2 ^ (s - 12) * 4096 + a mod 4096" unfolding s by (simp add: mod_mult2_eq)
  moreover have "a div 4096 mod 2 ^ (s - 12) < 2 ^ (s - 12)" by simp
  then have "(a div 4096 mod 2 ^ (s - 12) + 1) * 4096 \<le> 2 ^ s" using mult_le_mono2 [of "a div 4096 mod 2 ^ (s - 12) + 1" "2 ^ (s - 12)" 4096] unfolding s
    by (simp only: Suc_le_eq mult.commute Suc_eq_plus1 [symmetric])
  ultimately have lt: "a mod 2 ^ s + k < 2 ^ s" using assms(1) by (simp add: algebra_simps)
  have e: "a + k = 2 ^ s * (a div 2 ^ s) + (a mod 2 ^ s + k)" by simp
  show d: "(a + k) div 2 ^ s = a div 2 ^ s"
  proof (rule div_nat_eqI)
    show "2 ^ s * (a div 2 ^ s) \<le> a + k" unfolding e by (rule le_add1)
    show "a + k < 2 ^ s * Suc (a div 2 ^ s)" unfolding mult_Suc_right by (subst e) (use lt in linarith)
  qed
  show "(a + k) mod 2 ^ s = a mod 2 ^ s + k" using minus_mult_div_eq_mod [of "a + k" "2 ^ s"] e unfolding d by linarith
qed

lemma translate_entry:
  assumes "rdw (tb + w * (a div 2 ^ (12 + n * b) mod 2 ^ b)) = Some e"
  shows "translate rdw w b user prot a n tb =
    (let s = 12 + n * b; at = tb + w * (a div 2 ^ s mod 2 ^ b)
     in if \<not> permits user prot e then (Denied (fault_code user prot False (bit e 0)), [])
        else if n = 0 \<or> bit e 7 then
          if s > 30 then (Denied (fault_code user prot True True), [at]) else (Mapped (e div 2 ^ s * 2 ^ s mod 2 ^ 52 + a mod 2 ^ s), [at])
        else apsnd ((#) at) (translate rdw w b user prot a (n - 1) (e div 2 ^ 12 * 2 ^ 12 mod 2 ^ 52)))"
  using assms by (subst translate.simps) (simp only: Let_def option.case)

lemma translate_shift:
  "a mod 4096 + k < 4096 \<Longrightarrow> translate rdw w b user prot (a + k) n tb = apfst (shift k) (translate rdw w b user prot a n tb)"
proof (induction n arbitrary: tb rule: less_induct)
  case (less n)
  have s: "12 \<le> 12 + n * b" by simp
  note sp = same_page [OF less.prems s]
  show ?case
  proof (cases "rdw (tb + w * (a div 2 ^ (12 + n * b) mod 2 ^ b))")
    case None
    then show ?thesis by (subst (1 2) translate.simps) (simp only: sp Let_def option.case apfst_conv shift.simps)
  next
    case (Some e)
    note te = translate_entry [of rdw tb w a n b e, OF Some] translate_entry [of rdw tb w "a + k" n b e, unfolded sp(1), OF Some]
    show ?thesis
    proof (cases "n = 0 \<or> bit e 7")
      case True
      show ?thesis unfolding te Let_def if_P [OF True] by (simp only: sp if_distrib [where f = "apfst (shift k)"] apfst_conv shift.simps add.assoc)
    next
      case False
      then have IH: "translate rdw w b user prot (a + k) (n - 1) tb' = apfst (shift k) (translate rdw w b user prot a (n - 1) tb')" for tb'
        using less.IH [of "n - 1" tb'] less.prems by simp
      have "apsnd f (apfst g x) = apfst g (apsnd f x)" for f :: "nat list \<Rightarrow> nat list" and g :: "translation \<Rightarrow> translation" and x by (cases x) simp
      then show ?thesis unfolding te Let_def if_not_P [OF False]
        by (simp only: sp IH if_distrib [where f = "apfst (shift k)"] apfst_conv shift.simps)
    qed
  qed
qed

lemma translate_offset:
  "fst (translate rdw w b user prot a n tb) = Mapped p \<Longrightarrow> p mod 4096 = a mod 4096 \<and> p < 2 ^ 53"
proof (induction n arbitrary: tb rule: less_induct)
  case (less n)
  let ?s = "12 + n * b"
  obtain e where e: "rdw (tb + w * (a div 2 ^ ?s mod 2 ^ b)) = Some e"
    using less.prems by (subst (asm) translate.simps) (auto simp: Let_def split: option.splits)
  consider (leaf) "?s \<le> 30" "p = e div 2 ^ ?s * 2 ^ ?s mod 2 ^ 52 + a mod 2 ^ ?s"
    | (inner) "n \<noteq> 0" "fst (translate rdw w b user prot a (n - 1) (e div 2 ^ 12 * 2 ^ 12 mod 2 ^ 52)) = Mapped p"
  proof (cases "n = 0 \<or> bit e 7")
    case True
    show ?thesis using less.prems leaf unfolding translate_entry [of rdw tb w a n b e, OF e] Let_def if_P [OF True]
      by (simp only: fst_conv translation.simps not_less not_not split: if_split_asm)
  next
    case False
    show ?thesis using less.prems inner False unfolding translate_entry [of rdw tb w a n b e, OF e] Let_def if_not_P [OF False]
      by (simp only: fst_conv fst_apsnd translation.simps de_Morgan_disj simp_thms split: if_split_asm)
  qed
  then show ?case
  proof cases
    case leaf
    have "(2 :: nat) ^ 12 dvd 2 ^ ?s" by (rule le_imp_power_dvd) simp
    then have d: "4096 dvd (2 :: nat) ^ ?s" by simp
    then have "4096 dvd e div 2 ^ ?s * 2 ^ ?s mod 2 ^ 52" by (simp add: dvd_mod_iff)
    then obtain q where q: "e div 2 ^ ?s * 2 ^ ?s mod 2 ^ 52 = 4096 * q" by (rule dvdE)
    have "p mod 4096 = a mod 2 ^ ?s mod 4096" unfolding leaf(2) q by (rule mod_mult_self4)
    then have "p mod 4096 = a mod 4096" using d by (simp add: mod_mod_cancel)
    moreover have "a mod 2 ^ ?s < 2 ^ 30" by (rule less_le_trans [OF mod_less_divisor power_increasing [OF leaf(1)]]) simp_all
    then have "p < 2 ^ 52 + 2 ^ 30" unfolding leaf(2) by (intro add_strict_mono mod_less_divisor) simp
    then have "p < 2 ^ 53" by simp
    ultimately show ?thesis by blast
  next
    case inner
    then show ?thesis using less.IH [of "n - 1"] by auto
  qed
qed
lemma page_room:
  assumes "unat (gla :: u64) mod 4096 + k < 4096"
  shows "unat (gla + of_nat k) = unat gla + k"
proof (rule unat_offset)
  define q where "q = unat gla div 4096"
  have g: "unat gla = 4096 * q + unat gla mod 4096" by (simp add: q_def)
  have "q < 2 ^ 52" using unat_bound [of gla] by (simp add: q_def less_mult_imp_div_less)
  then show "unat gla + k < 2 ^ 64" using assms g by simp
qed

lemma canonical_shift:
  assumes "unat gla mod 4096 + k < 4096"
  shows "canonical (gla + of_nat k) \<longleftrightarrow> canonical gla"
proof -
  have "unat (drop_bit 12 (gla + of_nat k)) = unat (drop_bit 12 gla)"
    unfolding unat_drop_bit_div page_room [OF assms] by (rule same_page(1) [OF assms]) simp
  then have d: "drop_bit 12 (gla + of_nat k) = drop_bit 12 gla" unfolding word_unat_eq_iff .
  have b: "bit (gla + of_nat k) n = bit gla n" if "12 \<le> n" for n
    using arg_cong [OF d, of "\<lambda>w. bit w (n - 12)"] that by (simp add: bit_drop_bit_eq)
  have c: "canonical a \<longleftrightarrow> (\<forall>n. 47 \<le> n \<and> n < 64 \<longrightarrow> bit a 47 = bit a n)" for a
    unfolding canonical_def bit_eq_iff by (auto simp: bit_signed_iff bit_ucast_iff min_def not_le)
  show ?thesis unfolding c using b by simp
qed

lemma guest_translate_shift:
  assumes "unat gla mod 4096 + k < 4096"
  shows "guest_translate rdw paging (gla + of_nat k) prot = apfst (shift k) (guest_translate rdw paging gla prot)"
proof -
  note u = page_room [OF assms] and c = canonical_shift [OF assms] and t = translate_shift [OF assms]
  have d: "(unat gla + k) div 2 ^ 30 = unat gla div 2 ^ 30" by (rule same_page(1) [OF assms]) simp
  show ?thesis unfolding guest_translate_def u c t d Let_def
    by (simp only: if_distrib [where f = "apfst (shift k)"] apfst_conv shift.simps vm_paging_mode.case option.case
      split: vm_paging_mode.splits option.splits) simp
qed

lemma guest_translate_offset:
  assumes "fst (guest_translate rdw paging gla prot) = Mapped p"
  shows "p mod 4096 = unat gla mod 4096" and "p < 2 ^ 53 \<or> p = unat gla"
proof -
  have "p mod 4096 = unat gla mod 4096 \<and> (p < 2 ^ 53 \<or> p = unat gla)"
    using assms unfolding guest_translate_def Let_def
    by (auto dest: translate_offset split: if_split_asm vm_paging_mode.split_asm option.split_asm)
  then show "p mod 4096 = unat gla mod 4096" and "p < 2 ^ 53 \<or> p = unat gla" by simp_all
qed
definition translated :: "vm \<Rightarrow> hmem \<Rightarrow> vm_guest_paging \<Rightarrow> u32 \<Rightarrow> u64 \<Rightarrow> translation" where
  "translated v m paging prot a = fst (guest_translate (phys_word v m) paging a prot)"

text \<open>The entries that are set up for a range, when \<open>f\<close> translates each of its bytes.\<close>

fun covers :: "(u64 \<Rightarrow> translation) \<Rightarrow> u64 \<Rightarrow> u64 \<Rightarrow> vm_copyinfo list \<Rightarrow> bool" where
  "covers f gla rem [] \<longleftrightarrow> rem = 0"
| "covers f gla rem (c # cs) \<longleftrightarrow> 0 < ci_len c \<and> ci_len c \<le> rem \<and> unat (ci_gpa c) mod 4096 + unat (ci_len c) \<le> 4096
     \<and> unat (ci_gpa c) + unat (ci_len c) < 2 ^ 64 \<and> (\<forall>k < unat (ci_len c). f (gla + of_nat k) = Mapped (unat (ci_gpa c) + k))
     \<and> covers f (gla + ci_len c) (rem - ci_len c) cs"

text \<open>The two ways to stop, with the byte that is to blame.\<close>

definition faulted :: "'h host \<Rightarrow> (u64 \<Rightarrow> translation) \<Rightarrow> int \<Rightarrow> u64 \<Rightarrow> vm \<Rightarrow> 'h \<Rightarrow> bool" where
  "faulted H f i a v' h' \<longleftrightarrow> (f a = NotCanonical \<and> pending v' i 13 True 0)
     \<or> (\<exists>code. f a = Denied code \<and> pending v' i 14 True code \<and> reg_read H (nat i) HV_X86_CR2 h' = a)"

definition split_ok ::
  "'h host \<Rightarrow> (u64 \<Rightarrow> translation) \<Rightarrow> int \<Rightarrow> vm \<Rightarrow> 'h \<Rightarrow> u64 \<Rightarrow> u64 \<Rightarrow> vm_copyinfo list access \<Rightarrow> vm \<Rightarrow> 'h \<Rightarrow> bool" where
  "split_ok H f i v h gla rem r v' h' \<longleftrightarrow> (case r of
     Done cs \<Rightarrow> v' = v \<and> h' = h \<and> covers f gla rem cs
   | Error e \<Rightarrow> e = EFAULT \<and> v' = v \<and> h' = h \<and> (\<exists>k < unat rem. f (gla + of_nat k) = NoMemory)
   | Fault \<Rightarrow> \<exists>k < unat rem. faulted H f i (gla + of_nat k) v' h')"

lemma reports_split:
  assumes "reports H i v h gla t r v' h'" and "f gla = t" and "rem \<noteq> 0" and "\<nexists>p. t = Mapped p"
  shows "r = Fault \<and> split_ok H f i v h gla rem Fault v' h' \<or> (r = Error EFAULT \<and> split_ok H f i v h gla rem (Error EFAULT) v' h')"
proof -
  have "0 < unat rem" using assms(3) by (simp add: unat_gt_0)
  then have k: "\<exists>k < unat rem. P (gla + of_nat k)" if "P gla" for P using that by (intro exI [of _ 0]) simp
  show ?thesis
  proof (cases t)
    case (Denied code)
    then have "faulted H f i gla v' h'" using assms(1,2) by (simp add: reports_def faulted_def)
    then show ?thesis using k [of "\<lambda>a. faulted H f i a v' h'"] assms(1) Denied by (simp add: reports_def split_ok_def)
  next
    case NotCanonical
    then have "faulted H f i gla v' h'" using assms(1,2) by (simp add: reports_def faulted_def)
    then show ?thesis using k [of "\<lambda>a. faulted H f i a v' h'"] assms(1) NotCanonical by (simp add: reports_def split_ok_def)
  next
    case NoMemory
    then show ?thesis using k [of "\<lambda>a. f a = NoMemory"] assms(1,2) by (simp add: reports_def split_ok_def)
  qed (use assms(4) in simp)
qed

text \<open>The first piece of a range ends with the page.\<close>

lemma first_piece:
  fixes gla gpa rem :: u64
  defines "n \<equiv> min rem (XHYVE_PAGE_SIZE - (gpa AND XHYVE_PAGE_MASK))"
  assumes "rem \<noteq> 0" and "unat gpa mod 4096 = unat gla mod 4096"
  shows "unat n = min (unat rem) (4096 - unat gla mod 4096)" and "0 < n" and "n \<le> rem"
proof -
  have "gpa AND XHYVE_PAGE_MASK = take_bit 12 gpa" by (simp add: take_bit_eq_mask mask_eq_exp_minus_1)
  then have m: "unat (gpa AND XHYVE_PAGE_MASK) = unat gla mod 4096" using assms(3) by (simp only: unsigned_take_bit_eq) (simp add: take_bit_eq_mod)
  moreover have "gpa AND XHYVE_PAGE_MASK \<le> XHYVE_PAGE_SIZE" using m by (simp add: word_le_nat_alt order_less_imp_le)
  ultimately have "unat (XHYVE_PAGE_SIZE - (gpa AND XHYVE_PAGE_MASK)) = 4096 - unat gla mod 4096" by (simp add: unat_sub)
  then show u: "unat n = min (unat rem) (4096 - unat gla mod 4096)" unfolding n_def by (auto simp: min_def word_le_nat_alt)
  show "n \<le> rem" by (simp add: n_def)
  have "0 < unat rem" using assms(2) by (simp add: unat_gt_0)
  then show "0 < n" using u by (simp add: word_less_nat_alt)
qed

lemma split_ok_next:
  assumes "n \<le> rem" and "split_ok H f i v h (gla + n) (rem - n) r v' h'" and "\<And>cs. r \<noteq> Done cs"
  shows "split_ok H f i v h gla rem r v' h'"
proof -
  have k: "unat n + k < unat rem \<and> (gla + n) + of_nat k = gla + of_nat (unat n + k)" if "k < unat (rem - n)" for k
    using that assms(1) by (simp add: unat_sub word_le_nat_alt)
  have "\<exists>j < unat rem. P (gla + of_nat j)" if "\<exists>j < unat (rem - n). P (gla + n + of_nat j)" for P using that k by metis
  from this [of "\<lambda>a. faulted H f i a v' h'"] this [of "\<lambda>a. f a = NoMemory"] show ?thesis
    using assms(2,3) by (cases r) (auto simp: split_ok_def)
qed
lemma page_end: "(a + (4096 - a mod 4096)) mod 4096 = (0 :: nat)"
proof -
  have "a + (4096 - a mod 4096) = 4096 * (a div 4096) + 4096" using mult_div_mod_eq [of 4096 a] mod_less_divisor [of 4096 a] by linarith
  then show ?thesis by simp
qed

lemma copy_split_ok:
  assumes "host_laws H" and "mem_ok v" and "unat (pg_cr3 paging) < 2 ^ 52" and "can_fault v i"
  shows "up_to_ad paging m0 m \<Longrightarrow> unat gla + unat rem < 2 ^ 64 \<Longrightarrow> rem = 0 \<or> unat gla mod 4096 + unat rem \<le> 4096 * slots \<Longrightarrow>
    \<exists>r v' h' m'. copy_split H i paging prot slots gla rem (v, h, m) = Some (r, v', h', m') \<and> up_to_ad paging m0 m'
      \<and> split_ok H (translated v m0 paging prot) i v h gla rem r v' h'"
proof (induction slots arbitrary: gla rem m)
  case 0
  then show ?case by (subst copy_split.simps) (auto simp: split_ok_def unat_eq_0)
next
  case (Suc slots)
  let ?f = "translated v m0 paging prot"
  show ?case
  proof (cases "rem = 0")
    case True
    then show ?thesis using Suc.prems(1) by (subst copy_split.simps) (auto simp: split_ok_def)
  next
    case False
    obtain t as where t: "guest_translate (phys_word v m0) paging gla prot = (t, as)" by fastforce
    then have ft: "?f gla = t" by (simp add: translated_def)
    from gla2gpa_reports [OF assms Suc.prems(1) t] obtain r1 v1 h1 m1
      where g: "vm_gla2gpa H i paging gla prot (v, h, m) = Some (r1, v1, h1, m1)" and rep: "reports H i v h gla t r1 v1 h1" and ad1: "up_to_ad paging m0 m1"
      by blast
    show ?thesis
    proof (cases "\<exists>p. t = Mapped p")
      case False
      from reports_split [of H i v h gla t r1 v1 h1 ?f, OF rep ft \<open>rem \<noteq> 0\<close> this] show ?thesis
        using \<open>rem \<noteq> 0\<close> g ad1 by (subst copy_split.simps) auto
    next
      case True
      then obtain p where p: "t = Mapped p" ..
      define gpa :: u64 where "gpa = of_nat p"
      have off: "p mod 4096 = unat gla mod 4096" "p < 2 ^ 53 \<or> p = unat gla" using guest_translate_offset [of "phys_word v m0" paging gla prot p] t p by simp_all
      have up: "unat gpa = p" using off(2) unat_bound [of gla] by (auto simp: gpa_def unat_of_nat)
      define n where "n = min rem (XHYVE_PAGE_SIZE - (gpa AND XHYVE_PAGE_MASK))"
      have n: "unat n = min (unat rem) (4096 - unat gla mod 4096)" "0 < n" "n \<le> rem"
        using first_piece [OF \<open>rem \<noteq> 0\<close>, of gpa gla] off(1) up unfolding n_def by simp_all
      have r1: "r1 = Done gpa" "v1 = v" "h1 = h" using rep p by (simp_all add: reports_def gpa_def)
      have rem': "unat (rem - n) = unat rem - unat n" and gla': "unat (gla + n) = unat gla + unat n"
        using n(1,3) Suc.prems(2) by (simp_all add: unat_sub seg_end)
      have "unat (gla + n) + unat (rem - n) < 2 ^ 64" using rem' gla' n(1) Suc.prems(2) by simp
      moreover have "rem - n = 0 \<or> unat (gla + n) mod 4096 + unat (rem - n) \<le> 4096 * slots"
      proof (cases "unat rem \<le> 4096 - unat gla mod 4096")
        case True
        then have "unat (rem - n) = 0" using rem' n(1) by simp
        then show ?thesis by (simp add: unat_eq_0)
      next
        case False
        then have "unat n = 4096 - unat gla mod 4096" using n(1) by simp
        then have "(unat gla + unat n) mod 4096 = 0" "unat rem - unat n \<le> 4096 * slots" using Suc.prems(3) \<open>rem \<noteq> 0\<close> page_end [of "unat gla"] by simp_all
        then show ?thesis using rem' gla' by simp
      qed
      ultimately obtain r v' h' m' where IH: "copy_split H i paging prot slots (gla + n) (rem - n) (v, h, m1) = Some (r, v', h', m')"
        "up_to_ad paging m0 m'" "split_ok H ?f i v h (gla + n) (rem - n) r v' h'" using Suc.IH [OF ad1] by blast
      let ?c = "\<lparr>ci_gpa = gpa, ci_len = n, ci_hva = None\<rparr>"
      let ?r = "case r of Done cs \<Rightarrow> Done (?c # cs) | Fault \<Rightarrow> Fault | Error e \<Rightarrow> Error e"
      have run: "copy_split H i paging prot (Suc slots) gla rem (v, h, m) = Some (?r, v', h', m')"
        using \<open>rem \<noteq> 0\<close> g r1 IH(1) by (cases r; subst copy_split.simps; simp add: Let_def n_def [symmetric])
      have "split_ok H ?f i v h gla rem ?r v' h'"
      proof (cases r)
        case (Done cs)
        have "?f (gla + of_nat k) = Mapped (unat gpa + k)" if "k < unat n" for k
        proof -
          have "unat gla mod 4096 + k < 4096" using that n(1) by linarith
          from guest_translate_shift [OF this, of "phys_word v m0" paging prot] show ?thesis using t p up by (simp add: translated_def)
        qed
        moreover have "unat gpa + unat n < 2 ^ 64" using off(2) up n(1) Suc.prems(2) by auto
        moreover have "unat gla mod 4096 + unat n \<le> 4096" using n(1) mod_less_divisor [of 4096 "unat gla"] by linarith
        ultimately show ?thesis using Done IH(3) n(2,3) off(1) up by (simp add: split_ok_def)
      next
        case Fault
        then show ?thesis using split_ok_next [OF n(3) IH(3)] by simp
      next
        case (Error e)
        then show ?thesis using split_ok_next [OF n(3) IH(3)] by simp
      qed
      then show ?thesis using run IH(2) by blast
    qed
  qed
qed
text \<open>An index into a range is in its first piece or in the rest.\<close>

lemma piece_rest:
  assumes "n \<le> (rem :: u64)" and "j < unat (rem - n)"
  shows "unat n + j < unat rem" and "gla + n + of_nat j = gla + of_nat (unat n + j)"
  using assms by (simp_all add: unat_sub word_le_nat_alt)

lemma piece_cases:
  assumes "n \<le> (rem :: u64)" and "k < unat rem"
  obtains (first) "k < unat n" | (rest) j where "k = unat n + j" and "j < unat (rem - n)" and "gla + of_nat k = gla + n + of_nat j"
proof (cases "k < unat n")
  case False
  then have k: "k = unat n + (k - unat n)" "k - unat n < unat (rem - n)" using assms by (simp_all add: unat_sub)
  then show ?thesis using rest piece_rest(2) [OF assms(1) k(2), of gla] by metis
qed (rule first)

lemma covers_no_home:
  assumes "mem_ok v"
  shows "covers f gla rem cs \<Longrightarrow> those (map (copy_hva v) cs) = None \<Longrightarrow> \<exists>k < unat rem. \<exists>p. f (gla + of_nat k) = Mapped p \<and> home v p = None"
proof (induction cs arbitrary: gla rem)
  case (Cons c cs)
  have c: "ci_len c \<le> rem" "0 < unat (ci_len c)" using Cons.prems(1) by (simp_all add: unat_gt_0 word_neq_0_conv)
  show ?case
  proof (cases "vm_gpa2hva v (ci_gpa c) (ci_len c)")
    case None
    have "home v (unat (ci_gpa c) + 0) = None" by (rule no_home_of_hva [OF assms _ None]) (use Cons.prems(1) c(2) in simp_all)
    moreover have "f (gla + of_nat 0) = Mapped (unat (ci_gpa c) + 0)" using Cons.prems(1) c(2) by fastforce
    ultimately show ?thesis using c by (intro exI [of _ 0]) (auto simp: word_le_nat_alt)
  next
    case (Some hva)
    then have "those (map (copy_hva v) cs) = None" using Cons.prems(2) by (simp add: copy_hva_def [of v c])
    then obtain j p where "j < unat (rem - ci_len c)" "f (gla + ci_len c + of_nat j) = Mapped p" "home v p = None"
      using Cons.IH [of "gla + ci_len c" "rem - ci_len c"] Cons.prems(1) by auto
    then show ?thesis using piece_rest [OF c(1)] by (intro exI [of _ "unat (ci_len c) + j"]) auto
  qed
qed simp

lemma copyin_bytes:
  assumes "mem_ok v"
  shows "covers f gla rem cs \<Longrightarrow> those (map (copy_hva v) cs) = Some cs' \<Longrightarrow> \<exists>bs. vm_copyin m (cs' @ pad) rem = Some bs \<and> length bs = unat rem
    \<and> (\<forall>k < unat rem. \<exists>p. f (gla + of_nat k) = Mapped p \<and> phys_byte v m p = Some (bs ! k))"
proof (induction cs arbitrary: gla rem cs')
  case Nil
  then show ?case by (cases pad) auto
next
  case (Cons c cs)
  have c: "ci_len c \<le> rem" "ci_len c \<noteq> 0" "rem \<noteq> 0" using Cons.prems(1) by auto
  obtain obj x cs1 where hva: "vm_gpa2hva v (ci_gpa c) (ci_len c) = Some (obj, x)" and cs1: "those (map (copy_hva v) cs) = Some cs1"
    and cs': "cs' = c\<lparr>ci_hva := Some (obj, x)\<rparr> # cs1"
    using Cons.prems(2) by (auto simp: copy_hva_def [of v c] split: option.splits)
  obtain bs where bs: "vm_copyin m (cs1 @ pad) (rem - ci_len c) = Some bs" "length bs = unat (rem - ci_len c)"
    "\<And>j. j < unat (rem - ci_len c) \<Longrightarrow> \<exists>p. f (gla + ci_len c + of_nat j) = Mapped p \<and> phys_byte v m p = Some (bs ! j)"
    using Cons.IH [OF _ cs1, of "gla + ci_len c" "rem - ci_len c"] Cons.prems(1) by auto
  let ?n = "unat (ci_len c)" and ?b = "peek_bytes m obj x (unat (ci_len c))"
  have "vm_copyin m (cs' @ pad) rem = Some (?b @ bs)" using bs(1) c by (simp add: cs')
  moreover have "length (?b @ bs) = unat rem" using bs(2) c(1) by (simp add: unat_sub word_le_nat_alt)
  moreover have "\<exists>p. f (gla + of_nat k) = Mapped p \<and> phys_byte v m p = Some ((?b @ bs) ! k)" if "k < unat rem" for k
    using c(1) that
  proof (cases rule: piece_cases [where gla = gla])
    case first
    have "home v (unat (ci_gpa c) + k) = Some (obj, x + of_nat k)" by (rule home_of_hva [OF assms _ hva first]) (use Cons.prems(1) in simp)
    then show ?thesis using Cons.prems(1) first by (auto simp: phys_byte_def nth_append)
  next
    case (rest j)
    then show ?thesis using bs(3) [of j] unfolding rest(3) by (simp add: nth_append)
  qed
  ultimately show ?case by blast
qed
lemma home_inj:
  assumes ok: "mem_ok v" and "home v a = Some p" and "home v b = Some p"
  shows "a = b"
proof -
  obtain s where s: "s \<in> set (vm_mem_segs v)" "a \<in> seg_range s" "p = (the (seg_object s), of_nat (a - unat (seg_gpa s)))"
    using assms(2) by (auto simp: home_def seg_range_def dest: find_in_set)
  obtain t where t: "t \<in> set (vm_mem_segs v)" "b \<in> seg_range t" "p = (the (seg_object t), of_nat (b - unat (seg_gpa t)))"
    using assms(3) by (auto simp: home_def seg_range_def dest: find_in_set)
  have so: "seg_object s \<noteq> None" "seg_object t \<noteq> None" using ok s(1) t(1) by (simp_all add: mem_ok_def list_all_iff seg_ok_def)
  have ord: "seg_object (vm_mem_segs v ! j) \<noteq> seg_object (vm_mem_segs v ! k)" if "j < k" "k < length (vm_mem_segs v)" for j k
    using ok that by (simp add: mem_ok_def sorted_wrt_iff_nth_less)
  obtain j k where "s = vm_mem_segs v ! j" "t = vm_mem_segs v ! k" "j < length (vm_mem_segs v)" "k < length (vm_mem_segs v)"
    using s(1) t(1) by (metis in_set_conv_nth)
  moreover have "seg_object s = seg_object t" using s(3) t(3) so by (metis fst_conv option.expand)
  ultimately have st: "s = t" using ord [of j k] ord [of k j] by (cases j k rule: linorder_cases) auto
  have u: "unat (of_nat (c - unat (seg_gpa s)) :: u64) = c - unat (seg_gpa s)" if "c \<in> seg_range s" for c
  proof -
    have "c - unat (seg_gpa s) < 2 ^ 64" using that unat_bound [of "seg_len s"] unfolding seg_range_def atLeastLessThan_iff by linarith
    then show ?thesis using unat_offset [of 0 "c - unat (seg_gpa s)"] by (simp del: of_nat_diff)
  qed
  have "(of_nat (a - unat (seg_gpa s)) :: u64) = of_nat (b - unat (seg_gpa s))" using s(3) t(3) st by (simp del: of_nat_diff)
  then have "a - unat (seg_gpa s) = b - unat (seg_gpa s)" using u [OF s(2)] u [of b] t(2) st by metis
  then show ?thesis using s(2) t(2) st by (auto simp: seg_range_def)
qed

lemma poke_other: "(\<And>k. k < length bs \<Longrightarrow> (obj', y) \<noteq> (obj, x + of_nat k)) \<Longrightarrow> poke_bytes obj x bs m obj' y = m obj' y"
proof (induction bs arbitrary: x m)
  case (Cons b bs)
  have "(obj', y) \<noteq> (obj, x)" using Cons.prems [of 0] by simp
  moreover have "(obj', y) \<noteq> (obj, x + 1 + of_nat k)" if "k < length bs" for k using Cons.prems [of "Suc k"] that by (simp add: ac_simps)
  ultimately have "poke_bytes obj (x + 1) bs (m(obj := (m obj)(x := b))) obj' y = (m(obj := (m obj)(x := b))) obj' y"
    by (intro Cons.IH)
  moreover have "(m(obj := (m obj)(x := b))) obj' y = m obj' y" using \<open>(obj', y) \<noteq> (obj, x)\<close> by auto
  ultimately show ?case by (simp only: poke_bytes.simps)
qed simp

lemma poke_in: "k < length bs \<Longrightarrow> length bs < 2 ^ 64 \<Longrightarrow> poke_bytes obj x bs m obj (x + of_nat k) = bs ! k"
proof (induction bs arbitrary: x m k)
  case (Cons b bs)
  show ?case
  proof (cases k)
    case 0
    have "x \<noteq> x + 1 + of_nat j" if "j < length bs" for j
    proof
      assume "x = x + 1 + of_nat j"
      then have "of_nat (Suc j) = (0 :: u64)" by (simp add: add.assoc)
      moreover have "unat (of_nat (Suc j) :: u64) = Suc j" using that Cons.prems(2) unat_offset [of 0 "Suc j"] by (simp del: of_nat_Suc)
      ultimately show False by simp
    qed
    then show ?thesis using 0 poke_other [of bs obj x obj "x + 1"] by simp
  next
    case (Suc j)
    then show ?thesis using Cons.IH [of j "x + 1"] Cons.prems by (simp add: ac_simps)
  qed
qed simp

lemma poke_phys:
  assumes ok: "mem_ok v" and fit: "unat g + unat n < 2 ^ 64" and hva: "vm_gpa2hva v g n = Some (obj, x)" and len: "length bs = unat n"
  shows "k < unat n \<Longrightarrow> phys_byte v (poke_bytes obj x bs m) (unat g + k) = Some (bs ! k)"
    and "(\<And>k. k < unat n \<Longrightarrow> q \<noteq> unat g + k) \<Longrightarrow> phys_byte v (poke_bytes obj x bs m) q = phys_byte v m q"
proof -
  note hm = home_of_hva [OF ok fit hva]
  show "phys_byte v (poke_bytes obj x bs m) (unat g + k) = Some (bs ! k)" if "k < unat n"
    using hm [OF that] that len poke_in [of k bs obj x m] unat_bound [of n] by (simp add: phys_byte_def)
  assume q: "\<And>k. k < unat n \<Longrightarrow> q \<noteq> unat g + k"
  show "phys_byte v (poke_bytes obj x bs m) q = phys_byte v m q"
  proof (cases "home v q")
    case (Some p)
    have "p \<noteq> (obj, x + of_nat k)" if "k < length bs" for k
    proof
      assume "p = (obj, x + of_nat k)"
      with Some hm [of k] that len have "q = unat g + k" by (intro home_inj [OF ok Some]) simp
      then show False using q [of k] that len by simp
    qed
    then have "poke_bytes obj x bs m (fst p) (snd p) = m (fst p) (snd p)" by (intro poke_other) simp
    then show ?thesis using Some by (simp add: phys_byte_def split_beta)
  qed (simp add: phys_byte_def)
qed
lemma copyout_bytes:
  assumes ok: "mem_ok v"
  shows "covers f gla rem cs \<Longrightarrow> those (map (copy_hva v) cs) = Some cs' \<Longrightarrow> length src = unat rem \<Longrightarrow>
    (\<And>j k. j < k \<Longrightarrow> k < unat rem \<Longrightarrow> f (gla + of_nat j) \<noteq> f (gla + of_nat k)) \<Longrightarrow> \<exists>m'. vm_copyout src (cs' @ pad) rem m = Some m'
    \<and> (\<forall>k < unat rem. \<exists>p. f (gla + of_nat k) = Mapped p \<and> phys_byte v m' p = Some (src ! k))
    \<and> (\<forall>q. (\<forall>k < unat rem. f (gla + of_nat k) \<noteq> Mapped q) \<longrightarrow> phys_byte v m' q = phys_byte v m q)"
proof (induction cs arbitrary: gla rem cs' src m)
  case Nil
  then show ?case by (cases pad) auto
next
  case (Cons c cs)
  let ?n = "ci_len c"
  have c: "?n \<le> rem" "?n \<noteq> 0" "rem \<noteq> 0" and fit: "unat (ci_gpa c) + unat ?n < 2 ^ 64" and cov: "covers f (gla + ?n) (rem - ?n) cs"
    and fc: "\<And>k. k < unat ?n \<Longrightarrow> f (gla + of_nat k) = Mapped (unat (ci_gpa c) + k)" using Cons.prems(1) by auto
  obtain obj x cs1 where hva: "vm_gpa2hva v (ci_gpa c) ?n = Some (obj, x)" and cs1: "those (map (copy_hva v) cs) = Some cs1"
    and cs': "cs' = c\<lparr>ci_hva := Some (obj, x)\<rparr> # cs1"
    using Cons.prems(2) by (auto simp: copy_hva_def [of v c] split: option.splits)
  let ?a = "take (unat ?n) src" and ?b = "drop (unat ?n) src"
  define m1 where "m1 = poke_bytes obj x ?a m"
  have len: "length ?a = unat ?n" "length ?b = unat (rem - ?n)" using Cons.prems(3) c(1) by (simp_all add: unat_sub word_le_nat_alt)
  have "f (gla + ?n + of_nat j) \<noteq> f (gla + ?n + of_nat k)" if "j < k" "k < unat (rem - ?n)" for j k
    using Cons.prems(4) [of "unat ?n + j" "unat ?n + k"] piece_rest(1) [OF c(1), of k] piece_rest(2) [OF c(1), of j gla] piece_rest(2) [OF c(1), of k gla] that by (simp add: add.assoc)
  from Cons.IH [OF cov cs1 len(2) this, of m1] obtain m' where m': "vm_copyout ?b (cs1 @ pad) (rem - ?n) m1 = Some m'"
    "\<And>j. j < unat (rem - ?n) \<Longrightarrow> \<exists>p. f (gla + ?n + of_nat j) = Mapped p \<and> phys_byte v m' p = Some (?b ! j)"
    "\<And>q. (\<forall>j < unat (rem - ?n). f (gla + ?n + of_nat j) \<noteq> Mapped q) \<Longrightarrow> phys_byte v m' q = phys_byte v m1 q" by blast
  have "vm_copyout src (cs' @ pad) rem m = Some m'" using m'(1) c by (simp add: cs' m1_def Let_def)
  moreover have "\<exists>p. f (gla + of_nat k) = Mapped p \<and> phys_byte v m' p = Some (src ! k)" if k: "k < unat rem" for k
    using c(1) k
  proof (cases rule: piece_cases [where gla = gla])
    case first
    have "f (gla + ?n + of_nat j) \<noteq> Mapped (unat (ci_gpa c) + k)" if "j < unat (rem - ?n)" for j
      using Cons.prems(4) [of k "unat ?n + j"] piece_rest [OF c(1) that] fc [OF first] first by (auto simp: add.assoc)
    then have "phys_byte v m' (unat (ci_gpa c) + k) = phys_byte v m1 (unat (ci_gpa c) + k)" using m'(3) by blast
    also have "\<dots> = Some (?a ! k)" unfolding m1_def by (rule poke_phys(1) [OF ok fit hva len(1) first])
    finally show ?thesis using fc [OF first] first by simp
  next
    case (rest j)
    then show ?thesis using m'(2) [of j] Cons.prems(3) k unfolding rest(3) by simp
  qed
  moreover have "phys_byte v m' q = phys_byte v m q" if q: "\<forall>k < unat rem. f (gla + of_nat k) \<noteq> Mapped q" for q
  proof -
    have "f (gla + ?n + of_nat j) \<noteq> Mapped q" if "j < unat (rem - ?n)" for j 
      unfolding piece_rest(2) [OF c(1) that] using q piece_rest(1) [OF c(1) that] by blast
    then have "phys_byte v m' q = phys_byte v m1 q" using m'(3) by blast
    also have "q \<noteq> unat (ci_gpa c) + k" if "k < unat ?n" for k
      using q fc [OF that] that c(1) by (metis less_le_trans word_le_nat_alt)
    then have "phys_byte v m1 q = phys_byte v m q" unfolding m1_def by (rule poke_phys(2) [OF ok fit hva len(1)])
    finally show ?thesis .
  qed
  ultimately show ?case by blast
qed

text \<open>Up to 4096 consecutive bytes lie at different offsets in their pages, so no two of them are translated to the same address.\<close>

lemma translated_inj:
  assumes "unat gla + unat len < 2 ^ 64" and "unat len \<le> 4096" and "j < k" and "k < unat len"
    and "translated v m paging prot (gla + of_nat k) = Mapped p"
  shows "translated v m paging prot (gla + of_nat j) \<noteq> Mapped p"
proof
  assume "translated v m paging prot (gla + of_nat j) = Mapped p"
  then have "unat (gla + of_nat j) mod 4096 = unat (gla + of_nat k) mod 4096"
    using guest_translate_offset(1) assms(5) unfolding translated_def by metis
  moreover have "unat (gla + of_nat j) = unat gla + j" "unat (gla + of_nat k) = unat gla + k"
    using assms(1,3,4) by (auto intro!: unat_offset)
  ultimately have "(unat gla + j) mod 4096 = (unat gla + j + (k - j)) mod 4096" using assms(3) by simp
  then have "4096 dvd unat gla + j + (k - j) - (unat gla + j)" by (intro mod_eq_dvd_iff_nat [THEN iffD1]) simp_all
  then have "4096 dvd k - j" by simp
  then show False using assms(2-4) by (auto dest: dvd_imp_le)
qed
text \<open>What \<open>vm_copy_setup\<close> reports for a range of bytes, translated by \<open>f\<close>.\<close>

lemma copy_setup_ok:
  assumes "host_laws H" and ok: "mem_ok v" and "unat (pg_cr3 paging) < 2 ^ 52" and "can_fault v i"
    and "unat gla + unat len < 2 ^ 64" and "unat len \<le> 4096"
  obtains (good) cs cs' m' where "vm_copy_setup H i paging gla len prot 2 (v, h, m) = Some (Done (cs' @ vm_copy_teardown (2 - length cs')), v, h, m')"
      and "covers (translated v m paging prot) gla len cs" and "those (map (copy_hva v) cs) = Some cs'" and "up_to_ad paging m m'"
  | (fault) k v' h' m' where "vm_copy_setup H i paging gla len prot 2 (v, h, m) = Some (Fault, v', h', m')" and "up_to_ad paging m m'"
      and "k < unat len" and "faulted H (translated v m paging prot) i (gla + of_nat k) v' h'"
  | (error) k m' where "vm_copy_setup H i paging gla len prot 2 (v, h, m) = Some (Error EFAULT, v, h, m')" and "up_to_ad paging m m'"
      and "k < unat len" and "translated v m paging prot (gla + of_nat k) = NoMemory \<or> (\<exists>p. translated v m paging prot (gla + of_nat k) = Mapped p \<and> home v p = None)"
proof -
  have "len = 0 \<or> unat gla mod 4096 + unat len \<le> 4096 * 2" using assms(6) mod_less_divisor [of 4096 "unat gla"] by linarith
  from copy_split_ok [OF assms(1-4) up_to_ad_refl assms(5) this, where prot = prot and h = h] obtain r v' h' m'
    where r: "copy_split H i paging prot 2 gla len (v, h, m) = Some (r, v', h', m')" "up_to_ad paging m m'"
      "split_ok H (translated v m paging prot) i v h gla len r v' h'" by blast
  note cs = vm_copy_setup_def [of H i paging gla len prot 2 "(v, h, m)", unfolded r(1)]
  show thesis
  proof (cases r)
    case (Done cs)
    then have d: "v' = v" "h' = h" "covers (translated v m paging prot) gla len cs" using r(3) by (simp_all add: split_ok_def)
    show thesis
    proof (cases "those (map (copy_hva v) cs)")
      case None
      from covers_no_home [OF ok d(3) None] show thesis using error [of m'] None Done d(1,2) r(2) cs by auto
    next
      case (Some cs')
      then show thesis using good [of cs' m' cs] Done d r(2) cs by simp
    qed
  next
    case Fault
    then show thesis using fault [of v' h' m'] r cs by (auto simp: split_ok_def)
  next
    case (Error e)
    then show thesis using error [of m'] r cs by (auto simp: split_ok_def)
  qed
qed
text \<open>
  C11. Reading guest memory by linear address. For up to 4096 bytes that do not run over the end of the address space, \<open>vm_copy_setup\<close> with two entries always
  returns, without tripping its assertion. If it succeeds, \<open>vm_copyin\<close> gives as many bytes as were asked for, and byte \<open>k\<close> is the byte of
  guest physical memory at the address to which the architecture translates linear address \<open>gla + k\<close>. If it injects a fault, some byte of the range
  has that fault (with its linear address in CR2), and if it fails with \<open>EFAULT\<close>, some byte has no memory. Guest memory changes in accessed and dirty bits only.
\<close>

theorem copyin_reads:
  assumes "host_laws H" and "mem_ok v" and "unat (pg_cr3 paging) < 2 ^ 52" and "can_fault v i"
    and "unat gla + unat len < 2 ^ 64" and "unat len \<le> 4096"
  shows "\<exists>r v' h' m'. vm_copy_setup H i paging gla len prot 2 (v, h, m) = Some (r, v', h', m') \<and> up_to_ad paging m m' \<and> (case r of
      Done cs \<Rightarrow> v' = v \<and> h' = h \<and> (\<exists>bs. vm_copyin m' cs len = Some bs \<and> length bs = unat len
        \<and> (\<forall>k < unat len. \<exists>p. translated v m paging prot (gla + of_nat k) = Mapped p \<and> phys_byte v m' p = Some (bs ! k)))
    | Fault \<Rightarrow> \<exists>k < unat len. faulted H (translated v m paging prot) i (gla + of_nat k) v' h'
    | Error e \<Rightarrow> e = EFAULT \<and> v' = v \<and> h' = h \<and> (\<exists>k < unat len. translated v m paging prot (gla + of_nat k) = NoMemory
        \<or> (\<exists>p. translated v m paging prot (gla + of_nat k) = Mapped p \<and> home v p = None)))"
proof (rule copy_setup_ok [OF assms, of prot h m], goal_cases)
  case (1 cs cs' m')
  from copyin_bytes [OF assms(2) 1(2,3), of m'] show ?case using 1 by auto
qed auto

text \<open>
  C12. Writing guest memory by linear address. After a successful \<open>vm_copy_setup\<close> for up to 4096 bytes, \<open>vm_copyout\<close> stores byte \<open>k\<close> at the guest physical address to
  which linear address \<open>gla + k\<close> translates, also across a page boundary and when two pages map the same frame, and every other byte of
  guest memory keeps its value.
\<close>

theorem copyout_writes:
  assumes "host_laws H" and "mem_ok v" and "unat (pg_cr3 paging) < 2 ^ 52" and "can_fault v i"
    and "unat gla + unat len < 2 ^ 64" and "unat len \<le> 4096" and "length src = unat len"
    and "vm_copy_setup H i paging gla len prot 2 (v, h, m) = Some (Done cs, v', h', m1)"
  shows "\<exists>m2. vm_copyout src cs len m1 = Some m2
     \<and> (\<forall>k < unat len. \<exists>p. translated v m paging prot (gla + of_nat k) = Mapped p \<and> phys_byte v m2 p = Some (src ! k))
     \<and> (\<forall>q. (\<forall>k < unat len. translated v m paging prot (gla + of_nat k) \<noteq> Mapped q) \<longrightarrow> phys_byte v m2 q = phys_byte v m1 q)"
proof (rule copy_setup_ok [OF assms(1-6), of prot h m], goal_cases)
  case (1 ds ds' m')
  then have e: "cs = ds' @ vm_copy_teardown (2 - length ds')" "m1 = m'" using assms(8) by simp_all
  obtain bs where "\<And>k. k < unat len \<Longrightarrow> \<exists>p. translated v m paging prot (gla + of_nat k) = Mapped p"
    using copyin_bytes [OF assms(2) 1(2,3)] by blast
  then have "translated v m paging prot (gla + of_nat j) \<noteq> translated v m paging prot (gla + of_nat k)" if "j < k" "k < unat len" for j k
    using translated_inj [OF assms(5,6) that] that(2) by metis
  from copyout_bytes [OF assms(2) 1(2,3) assms(7) this] show ?case unfolding e by blast
qed (use assms(8) in simp_all)

text \<open>Four bytes across the page boundary of the small machine.\<close>

lemma small_bytes:
  assumes "k < 4"
  shows "translated small_vm small_mem small_paging prot (0x0ffe + of_nat k) = Mapped (0x0ffe + k)" and "home small_vm (0x0ffe + k) = Some (7, of_nat (0x0ffe + k))"
proof -
  have "(0x0ffe + of_nat k :: u64) = of_nat (0x0ffe + k)" by simp
  then show "translated small_vm small_mem small_paging prot (0x0ffe + of_nat k) = Mapped (0x0ffe + k)"
    using small_translate [of "0x0ffe + k" prot] assms by (simp add: translated_def)
  show "home small_vm (0x0ffe + k) = Some (7, of_nat (0x0ffe + k))" using assms by (simp add: home_def small_vm_def)
qed

lemma small_setup:
  "\<exists>cs v' h' m'. vm_copy_setup tab_host 0 small_paging 0x0ffe 4 prot 2 (small_vm, ((\<lambda>_ _. 0), (\<lambda>_ _. 0)), small_mem) = Some (Done cs, v', h', m')"
proof -
  let ?f = "translated small_vm small_mem small_paging prot"
  have no: "\<not> faulted tab_host ?f 0 (0x0ffe + of_nat k) v' h'" "?f (0x0ffe + of_nat k) \<noteq> NoMemory"
    "\<nexists>p. ?f (0x0ffe + of_nat k) = Mapped p \<and> home small_vm p = None" if "k < unat (4 :: u64)" for k v' and h' :: "(nat \<Rightarrow> u32 \<Rightarrow> u64) \<times> (nat \<Rightarrow> hv_x86_reg \<Rightarrow> u64)"
    using small_bytes [of k] that by (simp_all add: faulted_def)
  have "unat (0x0ffe :: u64) + unat (4 :: u64) < 2 ^ 64" "unat (4 :: u64) \<le> 4096" by simp_all
  then show ?thesis
    by (rule copy_setup_ok [OF tab_host_laws small_ok(1,3,2), of "0x0ffe" 4 prot "((\<lambda>_ _. 0), (\<lambda>_ _. 0))" small_mem]) (use no in blast)+
qed

theorem copyin_reads_witness:
  "\<exists>cs v' h' m' bs. vm_copy_setup tab_host 0 small_paging 0x0ffe 4 1 2 (small_vm, ((\<lambda>_ _. 0), (\<lambda>_ _. 0)), small_mem) = Some (Done cs, v', h', m')
     \<and> vm_copyin m' cs 4 = Some bs \<and> length bs = 4"
proof -
  obtain cs v' h' m' where s: "vm_copy_setup tab_host 0 small_paging 0x0ffe 4 1 2 (small_vm, ((\<lambda>_ _. 0), (\<lambda>_ _. 0)), small_mem) = Some (Done cs, v', h', m')"
    using small_setup by blast
  show ?thesis using copyin_reads [OF tab_host_laws small_ok(1,3,2), of "0x0ffe" 4 1 "((\<lambda>_ _. 0), (\<lambda>_ _. 0))" small_mem] unfolding s by auto
qed

theorem copyout_writes_witness:
  "\<exists>cs v' h' m1 m2. vm_copy_setup tab_host 0 small_paging 0x0ffe 4 2 2 (small_vm, ((\<lambda>_ _. 0), (\<lambda>_ _. 0)), small_mem) = Some (Done cs, v', h', m1)
     \<and> vm_copyout [1, 2, 3, 4] cs 4 m1 = Some m2 \<and> phys_byte small_vm m2 0x1001 = Some 4"
proof -
  obtain cs v' h' m1 where s: "vm_copy_setup tab_host 0 small_paging 0x0ffe 4 2 2 (small_vm, ((\<lambda>_ _. 0), (\<lambda>_ _. 0)), small_mem) = Some (Done cs, v', h', m1)"
    using small_setup by blast
  have l: "length [1, 2, 3, 4 :: u8] = unat (4 :: u64)" by simp
  obtain m2 where "vm_copyout [1, 2, 3, 4] cs 4 m1 = Some m2"
    "\<forall>k < unat (4 :: u64). \<exists>p. translated small_vm small_mem small_paging 2 (0x0ffe + of_nat k) = Mapped p \<and> phys_byte small_vm m2 p = Some ([1, 2, 3, 4] ! k)"
    using copyout_writes [OF tab_host_laws small_ok(1,3,2) _ _ l s] by auto
  then show ?thesis using s small_bytes(1) [of 3 2] by (intro exI conjI) (auto dest!: spec [of _ 3])
qed
subsection \<open>Instruction fetch\<close>

lemma vie_init_bytes:
  assumes "vie_init [] = Some vie" and "length bs \<le> VIE_INST_SIZE"
  shows "vie_init bs = Some (vie\<lparr>vie_inst := bs @ drop (length bs) (vie_inst vie), vie_num_valid := length bs\<rparr>)"
  using assms by (auto simp: vie_init_def drop_replicate)

text \<open>
  C26. Instruction fetch. For a length of up to 15 bytes, \<open>vmm_fetch_instruction\<close> on a fresh structure always returns. If it succeeds, the decoder gets the structure that \<open>vie_init\<close> makes for
  the bytes in guest memory at the addresses to which the linear addresses from \<open>rip\<close> on translate for an instruction fetch; otherwise a byte of the instruction has the fault
  that was injected, or no memory.
\<close>

theorem fetch_reads_instruction:
  assumes "host_laws H" and "mem_ok v" and "unat (pg_cr3 paging) < 2 ^ 52" and "can_fault v i"
    and "n \<le> VIE_INST_SIZE" and "unat rip + n < 2 ^ 64" and "vie_init [] = Some vie"
  shows "\<exists>r v' h' m'. vmm_fetch_instruction H i paging rip n vie (v, h, m) = Some (r, v', h', m') \<and> up_to_ad paging m m' \<and> (case r of
      Done vie' \<Rightarrow> v' = v \<and> h' = h \<and> (\<exists>bs. vie_init bs = Some vie' \<and> length bs = n
        \<and> (\<forall>k < n. \<exists>p. translated v m paging 5 (rip + of_nat k) = Mapped p \<and> phys_byte v m' p = Some (bs ! k)))
    | Fault \<Rightarrow> \<exists>k < n. faulted H (translated v m paging 5) i (rip + of_nat k) v' h'
    | Error e \<Rightarrow> e = EFAULT \<and> v' = v \<and> h' = h \<and> (\<exists>k < n. translated v m paging 5 (rip + of_nat k) = NoMemory
        \<or> (\<exists>p. translated v m paging 5 (rip + of_nat k) = Mapped p \<and> home v p = None)))"
proof -
  have u: "unat (of_nat n :: u64) = n" using assms(5) unat_offset [of 0 n] by simp
  have "unat rip + unat (of_nat n :: u64) < 2 ^ 64" "unat (of_nat n :: u64) \<le> 4096" using assms(5,6) by (simp_all add: u)
  then show ?thesis
  proof (rule copy_setup_ok [OF assms(1-4), of rip "of_nat n" 5 h m], goal_cases)
    case (1 cs cs' m')
    from copyin_bytes [OF assms(2) 1(2,3), of m'] obtain bs where
      bs: "vm_copyin m' (cs' @ vm_copy_teardown (2 - length cs')) (of_nat n) = Some bs" "length bs = n"
        "\<forall>k < n. \<exists>p. translated v m paging 5 (rip + of_nat k) = Mapped p \<and> phys_byte v m' p = Some (bs ! k)" unfolding u by blast
    moreover have "vie_init bs = Some (vie\<lparr>vie_inst := bs @ drop n (vie_inst vie), vie_num_valid := n\<rparr>)"
      using vie_init_bytes [OF assms(7)] bs(2) assms(5) by simp
    ultimately show ?case using 1(1,4) assms(5) by (auto simp: vmm_fetch_instruction_def)
  qed (use assms(5) in \<open>auto simp: vmm_fetch_instruction_def u\<close>)
qed

theorem fetch_reads_instruction_witness:
  "\<exists>vie vie' w'. vie_init [] = Some vie
     \<and> vmm_fetch_instruction tab_host 0 small_paging 0x0ffe 4 vie (small_vm, ((\<lambda>_ _. 0), (\<lambda>_ _. 0)), small_mem) = Some (Done vie', w') \<and> vie_num_valid vie' = 4"
proof -
  obtain vie where v: "vie_init [] = Some vie" by (simp add: vie_init_def)
  obtain cs v' h' m' where "vm_copy_setup tab_host 0 small_paging 0x0ffe 4 5 2 (small_vm, ((\<lambda>_ _. 0), (\<lambda>_ _. 0)), small_mem) = Some (Done cs, v', h', m')"
    using small_setup by blast
  moreover obtain r w' where r: "vmm_fetch_instruction tab_host 0 small_paging 0x0ffe 4 vie (small_vm, ((\<lambda>_ _. 0), (\<lambda>_ _. 0)), small_mem) = Some (r, w')"
    using fetch_reads_instruction [OF tab_host_laws small_ok(1,3,2) _ _ v, of 4 "0x0ffe" "((\<lambda>_ _. 0), (\<lambda>_ _. 0))" small_mem] by auto
  ultimately have "\<exists>vie'. r = Done vie' \<and> vie_num_valid vie' = 4" by (auto simp: vmm_fetch_instruction_def)
  then show ?thesis using v r by blast
qed

end
