(* ===== verification/Vie_Emul.thy ===== *)
theory Vie_Emul
  imports Vm_Copy Vhpet
begin

text \<open>
  Execution of decoded instructions (\<open>src/vmm/vmm_instruction_emul.c\<close>, from \<open>vie_read_register\<close> to \<open>vmm_emulate_instruction\<close>, and
  \<open>vm_handle_inst_emul\<close> of \<open>src/vmm/vmm.c\<close>): register operands, moves, logic, comparison, subtraction, bit test, string moves and stores, push
  and pop, with one operand in the memory-mapped registers of a device.
\<close>

subsection \<open>Sequencing\<close>

text \<open>
  The state has the flag \<open>*retu\<close>, which the local APIC may set, and the machine. A routine gives \<open>None\<close> when it aborts. It ends with 0 and a value (\<open>Done\<close>),
  with 0 after a fault was injected into the guest (\<open>Fault\<close>), or with an error; in the last two cases the caller returns as well.
\<close>

type_synonym 'h est = "bool \<times> 'h world"
type_synonym ('h, 'a) emu = "'h est \<Rightarrow> ('a access \<times> 'h est) option"

definition ret :: "'a \<Rightarrow> ('h, 'a) emu" where
  "ret x s = Some (Done x, s)"

definition fail :: "int \<Rightarrow> ('h, 'a) emu" where
  "fail e s = Some (Error e, s)"

definition ebind :: "('h, 'a) emu \<Rightarrow> ('a \<Rightarrow> ('h, 'b) emu) \<Rightarrow> ('h, 'b) emu" where
  "ebind f g s = Option.bind (f s) (\<lambda>(r, s'). case r of Done x \<Rightarrow> g x s' | Fault \<Rightarrow> Some (Fault, s') | Error e \<Rightarrow> Some (Error e, s'))"

text \<open>\<open>KASSERT(error == 0)\<close>; a value that an assertion guards; an error that is looked at.\<close>

definition must :: "('h, 'a) emu \<Rightarrow> ('h, 'a) emu" where
  "must f s = (case f s of Some (Error e, s') \<Rightarrow> None | r \<Rightarrow> r)"

definition need :: "'a option \<Rightarrow> ('h, 'a) emu" where
  "need x s = map_option (\<lambda>y. (Done y, s)) x"

definition attempt :: "('h, 'a) emu \<Rightarrow> ('h, int + 'a) emu" where
  "attempt f s = map_option (\<lambda>(r, s'). (case r of Done x \<Rightarrow> Done (Inr x) | Fault \<Rightarrow> Fault | Error e \<Rightarrow> Done (Inl e), s')) (f s)"

definition on_world :: "('h world \<Rightarrow> ('a access \<times> 'h world) option) \<Rightarrow> ('h, 'a) emu" where
  "on_world f = (\<lambda>(b, w). map_option (\<lambda>(r, w'). (r, b, w')) (f w))"

definition raise :: "('h world \<Rightarrow> 'h world option) \<Rightarrow> ('h, 'a) emu" where
  "raise f = (\<lambda>(b, w). map_option (\<lambda>w'. (Fault, b, w')) (f w))"

text \<open>The routines \<open>memread\<close> and \<open>memwrite\<close> that the caller chooses: an error or a value.\<close>

record 'h device =
  memread :: "u64 \<Rightarrow> int \<Rightarrow> 'h est \<Rightarrow> ((int + u64) \<times> 'h est) option"
  memwrite :: "u64 \<Rightarrow> u64 \<Rightarrow> int \<Rightarrow> 'h est \<Rightarrow> (int \<times> 'h est) option"

definition dev_read :: "'h device \<Rightarrow> u64 \<Rightarrow> int \<Rightarrow> ('h, u64) emu" where
  "dev_read D gpa sz s = map_option (\<lambda>(r, s'). (case r of Inl e \<Rightarrow> Error e | Inr x \<Rightarrow> Done x, s')) (memread D gpa sz s)"

definition dev_write :: "'h device \<Rightarrow> u64 \<Rightarrow> u64 \<Rightarrow> int \<Rightarrow> ('h, unit) emu" where
  "dev_write D gpa val sz s = map_option (\<lambda>(e, s'). (if e = 0 then Done () else Error e, s')) (memwrite D gpa val sz s)"

subsection \<open>Register operands\<close>

definition vie_read_register :: "'h host \<Rightarrow> int \<Rightarrow> vm_reg_name \<Rightarrow> ('h, u64) emu" where
  "vie_read_register H vcpuid reg = (\<lambda>(b, v, h, m).
     Some (case vm_get_register H vcpuid reg h of Inl e \<Rightarrow> Error e | Inr x \<Rightarrow> Done x, b, v, h, m))"

definition write_register :: "'h host \<Rightarrow> int \<Rightarrow> vm_reg_name \<Rightarrow> u64 \<Rightarrow> ('h, unit) emu" where
  "write_register H vcpuid reg val = (\<lambda>(b, v, h, m).
     map_option (\<lambda>(v', h', e). (if e = 0 then Done () else Error e, b, v', h', m)) (vm_set_register H vcpuid reg val v h))"

text \<open>The register, and whether it is its second byte that is meant.\<close>

definition vie_calc_bytereg :: "vie \<Rightarrow> vm_reg_name \<times> bool" where
  "vie_calc_bytereg vie =
     (if \<not> vie_rex_present vie \<and> vie_reg vie AND 4 \<noteq> 0 then (gpr_map ! unat (vie_reg vie AND 3), True)
      else (gpr_map ! unat (vie_reg vie), False))"

definition vie_read_bytereg :: "'h host \<Rightarrow> int \<Rightarrow> vie \<Rightarrow> ('h, u8) emu" where
  "vie_read_bytereg H vcpuid vie =
     (let (reg, lhbr) = vie_calc_bytereg vie
      in ebind (vie_read_register H vcpuid reg) (\<lambda>val. ret (ucast (if lhbr then drop_bit 8 val else val))))"

definition vie_write_bytereg :: "'h host \<Rightarrow> int \<Rightarrow> vie \<Rightarrow> u8 \<Rightarrow> ('h, unit) emu" where
  "vie_write_bytereg H vcpuid vie byte =
     (let (reg, lhbr) = vie_calc_bytereg vie
      in ebind (vie_read_register H vcpuid reg) (\<lambda>origval.
           let val = (if lhbr then push_bit 8 (ucast byte) else ucast byte); msk = (if lhbr then push_bit 8 0xff else 0xff)
           in write_register H vcpuid reg (val OR (origval AND NOT msk))))"

definition vie_update_register :: "'h host \<Rightarrow> int \<Rightarrow> vm_reg_name \<Rightarrow> u64 \<Rightarrow> int \<Rightarrow> ('h, unit) emu" where
  "vie_update_register H vcpuid reg val sz =
     (if sz = 1 \<or> sz = 2 then
        ebind (vie_read_register H vcpuid reg) (\<lambda>origval.
          write_register H vcpuid reg ((val AND size2mask sz) OR (origval AND NOT (size2mask sz))))
      else if sz = 4 then write_register H vcpuid reg (val AND 0xffffffff)
      else if sz = 8 then write_register H vcpuid reg val
      else fail EINVAL)"

subsection \<open>Status flags\<close>

abbreviation (input) PSL_C :: u64 where "PSL_C \<equiv> 0x1"
abbreviation (input) PSL_PF :: u64 where "PSL_PF \<equiv> 0x4"
abbreviation (input) PSL_AF :: u64 where "PSL_AF \<equiv> 0x10"
abbreviation (input) PSL_Z :: u64 where "PSL_Z \<equiv> 0x40"
abbreviation (input) PSL_N :: u64 where "PSL_N \<equiv> 0x80"
abbreviation (input) PSL_D :: u64 where "PSL_D \<equiv> 0x400"
abbreviation (input) PSL_V :: u64 where "PSL_V \<equiv> 0x800"
abbreviation (input) RFLAGS_STATUS_BITS :: u64 where "RFLAGS_STATUS_BITS \<equiv> 0x8d5"

text \<open>The macro \<open>GETCC\<close>: the status flags that the host's \<open>sub\<close> leaves for \<open>x - y\<close>, at the width of the operands.\<close>

definition getcc_sz :: "'a::len word \<Rightarrow> 'a word \<Rightarrow> u64" where
  "getcc_sz x y =
     (let r = x - y; k = LENGTH('a) - 1
      in (if x < y then PSL_C else 0) OR (if even (length (filter (bit r) [0..<8])) then PSL_PF else 0)
         OR (if x AND 0xf < y AND 0xf then PSL_AF else 0) OR (if r = 0 then PSL_Z else 0) OR (if bit r k then PSL_N else 0)
         OR (if bit x k \<noteq> bit y k \<and> bit r k \<noteq> bit x k then PSL_V else 0))"

definition getcc :: "int \<Rightarrow> u64 \<Rightarrow> u64 \<Rightarrow> u64 option" where
  "getcc opsize x y =
     (if \<not> size_ok opsize then None
      else if opsize = 1 then Some (getcc_sz (ucast x :: u8) (ucast y))
      else if opsize = 2 then Some (getcc_sz (ucast x :: u16) (ucast y))
      else if opsize = 4 then Some (getcc_sz (ucast x :: u32) (ucast y))
      else Some (getcc_sz x y))"

text \<open>The ends of the arithmetic routines: all status flags of \<open>x - y\<close>, or those of a logical result, for which overflow and carry are cleared.\<close>

definition arith_flags :: "'h host \<Rightarrow> int \<Rightarrow> int \<Rightarrow> u64 \<Rightarrow> u64 \<Rightarrow> ('h, unit) emu" where
  "arith_flags H vcpuid sz x y =
     ebind (need (getcc sz x y)) (\<lambda>rflags2.
     ebind (vie_read_register H vcpuid VM_REG_GUEST_RFLAGS) (\<lambda>rflags.
       vie_update_register H vcpuid VM_REG_GUEST_RFLAGS ((rflags AND NOT RFLAGS_STATUS_BITS) OR (rflags2 AND RFLAGS_STATUS_BITS)) 8))"

definition logic_flags :: "'h host \<Rightarrow> int \<Rightarrow> int \<Rightarrow> u64 \<Rightarrow> ('h, unit) emu" where
  "logic_flags H vcpuid sz result =
     ebind (vie_read_register H vcpuid VM_REG_GUEST_RFLAGS) (\<lambda>rflags.
     ebind (need (getcc sz result 0)) (\<lambda>rflags2.
       vie_update_register H vcpuid VM_REG_GUEST_RFLAGS ((rflags AND NOT RFLAGS_STATUS_BITS) OR (rflags2 AND (PSL_PF OR PSL_Z OR PSL_N))) 8))"
subsection \<open>Moves\<close>

definition emulate_mov :: "'h host \<Rightarrow> int \<Rightarrow> u64 \<Rightarrow> vie \<Rightarrow> 'h device \<Rightarrow> ('h, unit) emu" where
  "emulate_mov H vcpuid gpa vie D =
     (let sz = vie_opsize vie; op = op_byte (vie_the_op vie); reg = gpr_map ! unat (vie_reg vie)
      in if op = 0x88 then ebind (vie_read_bytereg H vcpuid vie) (\<lambda>byte. dev_write D gpa (ucast byte) 1)
         else if op = 0x89 then ebind (vie_read_register H vcpuid reg) (\<lambda>val. dev_write D gpa (val AND size2mask sz) sz)
         else if op = 0x8A then ebind (dev_read D gpa 1) (\<lambda>val. vie_write_bytereg H vcpuid vie (ucast val))
         else if op = 0x8B then ebind (dev_read D gpa sz) (\<lambda>val. vie_update_register H vcpuid reg val sz)
         else if op = 0xA1 then ebind (dev_read D gpa sz) (\<lambda>val. vie_update_register H vcpuid VM_REG_GUEST_RAX val sz)
         else if op = 0xA3 then ebind (vie_read_register H vcpuid VM_REG_GUEST_RAX) (\<lambda>val. dev_write D gpa (val AND size2mask sz) sz)
         else if op = 0xC6 then dev_write D gpa (vie_immediate vie) 1
         else if op = 0xC7 then dev_write D gpa (vie_immediate vie AND size2mask sz) sz
         else fail EINVAL)"

definition emulate_movx :: "'h host \<Rightarrow> int \<Rightarrow> u64 \<Rightarrow> vie \<Rightarrow> 'h device \<Rightarrow> ('h, unit) emu" where
  "emulate_movx H vcpuid gpa vie D =
     (let sz = vie_opsize vie; op = op_byte (vie_the_op vie); reg = gpr_map ! unat (vie_reg vie)
      in if op = 0xB6 then ebind (dev_read D gpa 1) (\<lambda>val. vie_update_register H vcpuid reg (ucast (ucast val :: u8)) sz)
         else if op = 0xB7 then ebind (dev_read D gpa 2) (\<lambda>val. vie_update_register H vcpuid reg (ucast (ucast val :: u16)) sz)
         else if op = 0xBE then ebind (dev_read D gpa 1) (\<lambda>val. vie_update_register H vcpuid reg (scast (ucast val :: u8)) sz)
         else fail EINVAL)"

subsection \<open>Linear addresses of string instructions\<close>

text \<open>The descriptor of a segment is filled completely, so its contents before do not matter.\<close>

definition read_seg_desc :: "'h host \<Rightarrow> int \<Rightarrow> vm_reg_name \<Rightarrow> ('h, seg_desc) emu" where
  "read_seg_desc H vcpuid seg = (\<lambda>(b, v, h, m).
     map_option (\<lambda>r. (case r of None \<Rightarrow> Error EINVAL | Some desc \<Rightarrow> Done desc, b, v, h, m))
       (vm_get_seg_desc H vcpuid seg \<lparr>sd_base = 0, sd_limit = 0, sd_access = 0\<rparr> h))"

definition address_fault :: "'h host \<Rightarrow> int \<Rightarrow> vm_reg_name \<Rightarrow> ('h, 'a) emu" where
  "address_fault H vcpuid seg = raise (if seg = VM_REG_GUEST_SS then vm_inject_ss H vcpuid 0 else vm_inject_gp H vcpuid)"

definition get_gla ::
  "'h host \<Rightarrow> int \<Rightarrow> vm_guest_paging \<Rightarrow> int \<Rightarrow> int \<Rightarrow> u32 \<Rightarrow> vm_reg_name \<Rightarrow> vm_reg_name \<Rightarrow> ('h, u64) emu" where
  "get_gla H vcpuid paging opsize addrsize prot seg gpr =
     ebind (must (vie_read_register H vcpuid VM_REG_GUEST_CR0)) (\<lambda>cr0.
     ebind (must (vie_read_register H vcpuid VM_REG_GUEST_RFLAGS)) (\<lambda>rflags.
     ebind (must (read_seg_desc H vcpuid seg)) (\<lambda>desc.
     ebind (must (vie_read_register H vcpuid gpr)) (\<lambda>val.
     ebind (need (vie_calculate_gla (pg_cpu_mode paging) seg desc val opsize addrsize prot)) (\<lambda>r.
       case r of
         Inl _ \<Rightarrow> address_fault H vcpuid seg
       | Inr gla \<Rightarrow>
           if vie_canonical_check (pg_cpu_mode paging) gla then address_fault H vcpuid seg
           else ebind (need (vie_alignment_check (pg_cpl paging) opsize cr0 rflags gla)) (\<lambda>unaligned.
             if unaligned then raise (vm_inject_ac H vcpuid 0) else ret gla))))))"

subsection \<open>Strings\<close>

definition copy_setup :: "'h host \<Rightarrow> int \<Rightarrow> vm_guest_paging \<Rightarrow> u64 \<Rightarrow> int \<Rightarrow> u32 \<Rightarrow> ('h, vm_copyinfo list) emu" where
  "copy_setup H vcpuid paging gla sz prot = on_world (vm_copy_setup H vcpuid paging gla (of_int sz) prot 2)"

text \<open>The copies from and to the variable \<open>val\<close>, which is 0 before.\<close>

definition copy_in :: "vm_copyinfo list \<Rightarrow> int \<Rightarrow> ('h, u64) emu" where
  "copy_in cs sz = (\<lambda>(b, v, h, m). map_option (\<lambda>bs. (Done (le_bytes bs), b, v, h, m)) (vm_copyin m cs (of_int sz)))"

definition copy_out :: "u64 \<Rightarrow> vm_copyinfo list \<Rightarrow> int \<Rightarrow> ('h, unit) emu" where
  "copy_out val cs sz = (\<lambda>(b, v, h, m). map_option (\<lambda>m'. (Done (), b, v, h, m')) (vm_copyout (word_bytes (nat sz) val) cs (of_int sz) m))"

definition restart_instruction :: "'h host \<Rightarrow> int \<Rightarrow> ('h, unit) emu" where
  "restart_instruction H vcpuid = (\<lambda>(b, v, h, m).
     map_option (\<lambda>(v', _). (Done (), b, v', h, m)) (vm_restart_instruction (h_rd H) (nat vcpuid) v h))"

text \<open>The count of a repeated instruction, and its update at the end.\<close>

definition repeated :: "vie \<Rightarrow> bool" where
  "repeated vie \<longleftrightarrow> vie_repz_present vie \<or> vie_repnz_present vie"

definition rep_count :: "'h host \<Rightarrow> int \<Rightarrow> vie \<Rightarrow> ('h, u64 \<times> bool) emu" where
  "rep_count H vcpuid vie =
     (if repeated vie then
        ebind (must (vie_read_register H vcpuid VM_REG_GUEST_RCX)) (\<lambda>rcx.
        ebind (need (vie_size2mask (vie_addrsize vie))) (\<lambda>msk. ret (rcx, rcx AND msk = 0)))
      else ret (0, False))"

definition rep_next :: "'h host \<Rightarrow> int \<Rightarrow> vie \<Rightarrow> u64 \<Rightarrow> ('h, unit) emu" where
  "rep_next H vcpuid vie rcx =
     (if repeated vie then
        ebind (must (vie_update_register H vcpuid VM_REG_GUEST_RCX (rcx - 1) (vie_addrsize vie))) (\<lambda>_.
        ebind (need (vie_size2mask (vie_addrsize vie))) (\<lambda>msk.
          if (rcx - 1) AND msk \<noteq> 0 then restart_instruction H vcpuid else ret ()))
      else ret ())"

definition advance :: "u64 \<Rightarrow> int \<Rightarrow> u64 \<Rightarrow> u64" where
  "advance rflags opsize r = (if rflags AND PSL_D \<noteq> 0 then r - of_int opsize else r + of_int opsize)"

text \<open>The four cases of a string move: the source is memory, or a device with the destination in memory or in a device.\<close>

definition movs_transfer :: "'h host \<Rightarrow> int \<Rightarrow> u64 \<Rightarrow> vie \<Rightarrow> vm_guest_paging \<Rightarrow> 'h device \<Rightarrow> int \<Rightarrow> ('h, unit) emu" where
  "movs_transfer H vcpuid gpa vie paging D opsize =
     ebind (get_gla H vcpuid paging opsize (vie_addrsize vie) XHYVE_PROT_READ
              (if vie_segment_override vie then vie_segment_register vie else VM_REG_GUEST_DS) VM_REG_GUEST_RSI) (\<lambda>srcaddr.
     ebind (attempt (copy_setup H vcpuid paging srcaddr opsize XHYVE_PROT_READ)) (\<lambda>r. case r of
         Inr cs \<Rightarrow> ebind (copy_in cs opsize) (\<lambda>val. dev_write D gpa val opsize)
       | Inl _ \<Rightarrow>
           ebind (get_gla H vcpuid paging opsize (vie_addrsize vie) XHYVE_PROT_WRITE VM_REG_GUEST_ES VM_REG_GUEST_RDI) (\<lambda>dstaddr.
           ebind (attempt (copy_setup H vcpuid paging dstaddr opsize XHYVE_PROT_WRITE)) (\<lambda>r'. case r' of
               Inr cs \<Rightarrow> ebind (dev_read D gpa opsize) (\<lambda>val. copy_out val cs opsize)
             | Inl _ \<Rightarrow>
                 ebind (on_world (vm_gla2gpa H vcpuid paging srcaddr XHYVE_PROT_READ)) (\<lambda>srcgpa.
                 ebind (on_world (vm_gla2gpa H vcpuid paging dstaddr XHYVE_PROT_WRITE)) (\<lambda>dstgpa.
                 ebind (dev_read D srcgpa opsize) (\<lambda>val. dev_write D dstgpa val opsize)))))))"

definition movs_body :: "'h host \<Rightarrow> int \<Rightarrow> u64 \<Rightarrow> vie \<Rightarrow> vm_guest_paging \<Rightarrow> 'h device \<Rightarrow> ('h, unit) emu" where
  "movs_body H vcpuid gpa vie paging D =
     (let opsize = (if op_byte (vie_the_op vie) = 0xA4 then 1 else vie_opsize vie)
      in ebind (rep_count H vcpuid vie) (\<lambda>(rcx, over). if over then ret () else
         ebind (movs_transfer H vcpuid gpa vie paging D opsize) (\<lambda>_.
         ebind (must (vie_read_register H vcpuid VM_REG_GUEST_RSI)) (\<lambda>rsi.
         ebind (must (vie_read_register H vcpuid VM_REG_GUEST_RDI)) (\<lambda>rdi.
         ebind (must (vie_read_register H vcpuid VM_REG_GUEST_RFLAGS)) (\<lambda>rflags.
         ebind (must (vie_update_register H vcpuid VM_REG_GUEST_RSI (advance rflags opsize rsi) (vie_addrsize vie))) (\<lambda>_.
         ebind (must (vie_update_register H vcpuid VM_REG_GUEST_RDI (advance rflags opsize rdi) (vie_addrsize vie))) (\<lambda>_.
           rep_next H vcpuid vie rcx))))))))"

text \<open>The assertion at the label \<open>done\<close>.\<close>

definition emulate_movs :: "'h host \<Rightarrow> int \<Rightarrow> u64 \<Rightarrow> vie \<Rightarrow> vm_guest_paging \<Rightarrow> 'h device \<Rightarrow> ('h, unit) emu" where
  "emulate_movs H vcpuid gpa vie paging D s =
     (case movs_body H vcpuid gpa vie paging D s of
        Some (Error e, s') \<Rightarrow> if e = EFAULT then Some (Error e, s') else None
      | r \<Rightarrow> r)"

definition emulate_stos :: "'h host \<Rightarrow> int \<Rightarrow> u64 \<Rightarrow> vie \<Rightarrow> 'h device \<Rightarrow> ('h, unit) emu" where
  "emulate_stos H vcpuid gpa vie D =
     (let opsize = (if op_byte (vie_the_op vie) = 0xAA then 1 else vie_opsize vie)
      in ebind (rep_count H vcpuid vie) (\<lambda>(rcx, over). if over then ret () else
         ebind (must (vie_read_register H vcpuid VM_REG_GUEST_RAX)) (\<lambda>val.
         ebind (dev_write D gpa val opsize) (\<lambda>_.
         ebind (must (vie_read_register H vcpuid VM_REG_GUEST_RDI)) (\<lambda>rdi.
         ebind (must (vie_read_register H vcpuid VM_REG_GUEST_RFLAGS)) (\<lambda>rflags.
         ebind (must (vie_update_register H vcpuid VM_REG_GUEST_RDI (advance rflags opsize rdi) (vie_addrsize vie))) (\<lambda>_.
           rep_next H vcpuid vie rcx)))))))"
subsection \<open>Logic and arithmetic\<close>

definition emulate_and :: "'h host \<Rightarrow> int \<Rightarrow> u64 \<Rightarrow> vie \<Rightarrow> 'h device \<Rightarrow> ('h, unit) emu" where
  "emulate_and H vcpuid gpa vie D =
     (let sz = vie_opsize vie; op = op_byte (vie_the_op vie); reg = gpr_map ! unat (vie_reg vie)
      in ebind
           (if op = 0x23 then
              ebind (vie_read_register H vcpuid reg) (\<lambda>val1. ebind (dev_read D gpa sz) (\<lambda>val2.
              ebind (vie_update_register H vcpuid reg (val1 AND val2) sz) (\<lambda>_. ret (val1 AND val2))))
            else if op = 0x81 \<or> op = 0x83 then
              ebind (dev_read D gpa sz) (\<lambda>val1. ebind (dev_write D gpa (val1 AND vie_immediate vie) sz) (\<lambda>_. ret (val1 AND vie_immediate vie)))
            else fail EINVAL)
           (logic_flags H vcpuid sz))"

definition emulate_or :: "'h host \<Rightarrow> int \<Rightarrow> u64 \<Rightarrow> vie \<Rightarrow> 'h device \<Rightarrow> ('h, unit) emu" where
  "emulate_or H vcpuid gpa vie D =
     (let sz = vie_opsize vie; op = op_byte (vie_the_op vie)
      in ebind
           (if op = 0x81 \<or> op = 0x83 then
              ebind (dev_read D gpa sz) (\<lambda>val1. ebind (dev_write D gpa (val1 OR vie_immediate vie) sz) (\<lambda>_. ret (val1 OR vie_immediate vie)))
            else fail EINVAL)
           (logic_flags H vcpuid sz))"

definition emulate_cmp :: "'h host \<Rightarrow> int \<Rightarrow> u64 \<Rightarrow> vie \<Rightarrow> 'h device \<Rightarrow> ('h, unit) emu" where
  "emulate_cmp H vcpuid gpa vie D =
     (let op = op_byte (vie_the_op vie); reg = gpr_map ! unat (vie_reg vie); sz = (if op = 0x80 then 1 else vie_opsize vie)
      in if op = 0x3B then
           ebind (vie_read_register H vcpuid reg) (\<lambda>op1. ebind (dev_read D gpa sz) (\<lambda>op2. arith_flags H vcpuid sz op1 op2))
         else if op = 0x80 \<or> op = 0x81 \<or> op = 0x83 then
           ebind (dev_read D gpa sz) (\<lambda>op1. arith_flags H vcpuid sz op1 (vie_immediate vie))
         else fail EINVAL)"

definition emulate_sub :: "'h host \<Rightarrow> int \<Rightarrow> u64 \<Rightarrow> vie \<Rightarrow> 'h device \<Rightarrow> ('h, unit) emu" where
  "emulate_sub H vcpuid gpa vie D =
     (let sz = vie_opsize vie; reg = gpr_map ! unat (vie_reg vie)
      in if op_byte (vie_the_op vie) = 0x2B then
           ebind (vie_read_register H vcpuid reg) (\<lambda>val1. ebind (dev_read D gpa sz) (\<lambda>val2.
           ebind (vie_update_register H vcpuid reg (val1 - val2) sz) (\<lambda>_. arith_flags H vcpuid sz val1 val2)))
         else fail EINVAL)"

definition emulate_bittest :: "'h host \<Rightarrow> int \<Rightarrow> u64 \<Rightarrow> vie \<Rightarrow> 'h device \<Rightarrow> ('h, unit) emu" where
  "emulate_bittest H vcpuid gpa vie D =
     (if vie_reg vie AND 7 \<noteq> 4 then fail EINVAL
      else ebind (must (vie_read_register H vcpuid VM_REG_GUEST_RFLAGS)) (\<lambda>rflags.
           ebind (dev_read D gpa (vie_opsize vie)) (\<lambda>val.
             let bitoff = unat (vie_immediate vie AND of_int (vie_opsize vie * 8 - 1))
             in must (vie_update_register H vcpuid VM_REG_GUEST_RFLAGS
                  (if val AND push_bit bitoff 1 \<noteq> 0 then rflags OR PSL_C else rflags AND NOT PSL_C) 8))))"

subsection \<open>The stack\<close>

text \<open>
  \<open>ss_desc\<close> is a local variable that is set in protected and compatibility mode only; \<open>junk\<close> is what it holds before. In 64-bit mode the
  address does not depend on it, and in real mode the decoder accepts no instruction with a ModRM byte, which both stack operations have.
\<close>

definition stack_size :: "'h host \<Rightarrow> int \<Rightarrow> vie \<Rightarrow> vm_guest_paging \<Rightarrow> seg_desc \<Rightarrow> ('h, int \<times> int \<times> seg_desc) emu" where
  "stack_size H vcpuid vie paging junk =
     (case pg_cpu_mode paging of
        CPU_MODE_REAL \<Rightarrow> ret (2, vie_opsize vie, junk)
      | CPU_MODE_64BIT \<Rightarrow> ret (8, if vie_opsize_override vie then 2 else 8, junk)
      | _ \<Rightarrow> ebind (must (read_seg_desc H vcpuid VM_REG_GUEST_SS)) (\<lambda>desc.
               ret (if SEG_DESC_DEF32 (sd_access desc) then 4 else 2, vie_opsize vie, desc)))"

definition stack_gla :: "'h host \<Rightarrow> int \<Rightarrow> vm_guest_paging \<Rightarrow> seg_desc \<Rightarrow> u64 \<Rightarrow> int \<Rightarrow> int \<Rightarrow> u32 \<Rightarrow> u64 \<Rightarrow> u64 \<Rightarrow> ('h, u64) emu" where
  "stack_gla H vcpuid paging ss_desc rsp sz stackaddrsize prot cr0 rflags =
     ebind (need (vie_calculate_gla (pg_cpu_mode paging) VM_REG_GUEST_SS ss_desc rsp sz stackaddrsize prot)) (\<lambda>r. case r of
         Inl _ \<Rightarrow> raise (vm_inject_ss H vcpuid 0)
       | Inr gla \<Rightarrow>
           if vie_canonical_check (pg_cpu_mode paging) gla then raise (vm_inject_ss H vcpuid 0)
           else ebind (need (vie_alignment_check (pg_cpl paging) sz cr0 rflags gla)) (\<lambda>unaligned.
             if unaligned then raise (vm_inject_ac H vcpuid 0) else ret gla))"

definition emulate_stack_op :: "'h host \<Rightarrow> seg_desc \<Rightarrow> int \<Rightarrow> u64 \<Rightarrow> vie \<Rightarrow> vm_guest_paging \<Rightarrow> 'h device \<Rightarrow> ('h, unit) emu" where
  "emulate_stack_op H junk vcpuid mmio_gpa vie paging D =
     (let pushop = (op_type (vie_the_op vie) = VIE_OP_TYPE_PUSH); prot = (if pushop then XHYVE_PROT_WRITE else XHYVE_PROT_READ)
      in ebind (stack_size H vcpuid vie paging junk) (\<lambda>(stackaddrsize, sz, ss_desc).
         ebind (must (vie_read_register H vcpuid VM_REG_GUEST_CR0)) (\<lambda>cr0.
         ebind (must (vie_read_register H vcpuid VM_REG_GUEST_RFLAGS)) (\<lambda>rflags.
         ebind (must (vie_read_register H vcpuid VM_REG_GUEST_RSP)) (\<lambda>rsp0.
           let rsp = (if pushop then rsp0 - of_int sz else rsp0)
           in ebind (stack_gla H vcpuid paging ss_desc rsp sz stackaddrsize prot cr0 rflags) (\<lambda>gla.
              ebind (copy_setup H vcpuid paging gla sz prot) (\<lambda>cs.
              ebind (if pushop then ebind (dev_read D mmio_gpa sz) (\<lambda>val. copy_out val cs sz)
                     else ebind (copy_in cs sz) (\<lambda>val. dev_write D mmio_gpa val sz)) (\<lambda>_.
                must (vie_update_register H vcpuid VM_REG_GUEST_RSP (if pushop then rsp else rsp + of_int sz) stackaddrsize)))))))))"

definition emulate_push :: "'h host \<Rightarrow> seg_desc \<Rightarrow> int \<Rightarrow> u64 \<Rightarrow> vie \<Rightarrow> vm_guest_paging \<Rightarrow> 'h device \<Rightarrow> ('h, unit) emu" where
  "emulate_push H junk vcpuid mmio_gpa vie paging D =
     (if vie_reg vie AND 7 \<noteq> 6 then fail EINVAL else emulate_stack_op H junk vcpuid mmio_gpa vie paging D)"

definition emulate_pop :: "'h host \<Rightarrow> seg_desc \<Rightarrow> int \<Rightarrow> u64 \<Rightarrow> vie \<Rightarrow> vm_guest_paging \<Rightarrow> 'h device \<Rightarrow> ('h, unit) emu" where
  "emulate_pop H junk vcpuid mmio_gpa vie paging D =
     (if vie_reg vie AND 7 \<noteq> 0 then fail EINVAL else emulate_stack_op H junk vcpuid mmio_gpa vie paging D)"

subsection \<open>Dispatch\<close>

definition emulate_group1 :: "'h host \<Rightarrow> int \<Rightarrow> u64 \<Rightarrow> vie \<Rightarrow> 'h device \<Rightarrow> ('h, unit) emu" where
  "emulate_group1 H vcpuid gpa vie D =
     (if vie_reg vie AND 7 = 1 then emulate_or H vcpuid gpa vie D
      else if vie_reg vie AND 7 = 4 then emulate_and H vcpuid gpa vie D
      else if vie_reg vie AND 7 = 7 then emulate_cmp H vcpuid gpa vie D
      else fail EINVAL)"

definition vmm_emulate_instruction :: "'h host \<Rightarrow> seg_desc \<Rightarrow> int \<Rightarrow> u64 \<Rightarrow> vie \<Rightarrow> vm_guest_paging \<Rightarrow> 'h device \<Rightarrow> ('h, unit) emu" where
  "vmm_emulate_instruction H junk vcpuid gpa vie paging D =
     (if \<not> vie_decoded vie then fail EINVAL
      else case op_type (vie_the_op vie) of
          VIE_OP_TYPE_GROUP1 \<Rightarrow> emulate_group1 H vcpuid gpa vie D
        | VIE_OP_TYPE_POP \<Rightarrow> emulate_pop H junk vcpuid gpa vie paging D
        | VIE_OP_TYPE_PUSH \<Rightarrow> emulate_push H junk vcpuid gpa vie paging D
        | VIE_OP_TYPE_CMP \<Rightarrow> emulate_cmp H vcpuid gpa vie D
        | VIE_OP_TYPE_MOV \<Rightarrow> emulate_mov H vcpuid gpa vie D
        | VIE_OP_TYPE_MOVSX \<Rightarrow> emulate_movx H vcpuid gpa vie D
        | VIE_OP_TYPE_MOVZX \<Rightarrow> emulate_movx H vcpuid gpa vie D
        | VIE_OP_TYPE_MOVS \<Rightarrow> emulate_movs H vcpuid gpa vie paging D
        | VIE_OP_TYPE_STOS \<Rightarrow> emulate_stos H vcpuid gpa vie D
        | VIE_OP_TYPE_AND \<Rightarrow> emulate_and H vcpuid gpa vie D
        | VIE_OP_TYPE_OR \<Rightarrow> emulate_or H vcpuid gpa vie D
        | VIE_OP_TYPE_SUB \<Rightarrow> emulate_sub H vcpuid gpa vie D
        | VIE_OP_TYPE_BITTEST \<Rightarrow> emulate_bittest H vcpuid gpa vie D
        | _ \<Rightarrow> fail EINVAL)"

subsection \<open>The handler of the VM exit\<close>

text \<open>The devices inside the hypervisor, by address; \<open>mat\<close> is the host's clock.\<close>

definition lapic_device :: "u64 \<Rightarrow> nat \<Rightarrow> 'h device" where
  "lapic_device mat i = \<lparr>
     memread = (\<lambda>gpa sz (b, v, w). map_option (\<lambda>(x, e). (case x of Some y \<Rightarrow> Inr y | None \<Rightarrow> Inl e, b, v, w)) (lapic_mmio_read mat i gpa v)),
     memwrite = (\<lambda>gpa val sz (b, v, w). map_option (\<lambda>(v', e, retu). (e, b \<or> retu, v', w)) (lapic_mmio_write mat i gpa val sz v))\<rparr>"

definition ioapic_device :: "'h device" where
  "ioapic_device = \<lparr>
     memread = (\<lambda>gpa sz (b, v, w). map_option (\<lambda>(x, e). (if e = 0 then Inr x else Inl e, b, v, w)) (vioapic_mmio_read gpa sz v)),
     memwrite = (\<lambda>gpa val sz (b, v, w). map_option (\<lambda>(v', e). (e, b, v', w)) (vioapic_mmio_write gpa val sz v))\<rparr>"

definition hpet_device :: "u64 \<Rightarrow> 'h device" where
  "hpet_device mat = \<lparr>
     memread = (\<lambda>gpa sz (b, v, w). map_option (\<lambda>x. (Inr x, b, v, w)) (vhpet_mmio_read mat gpa sz v)),
     memwrite = (\<lambda>gpa val sz (b, v, w). map_option (\<lambda>v'. (0, b, v', w)) (vhpet_mmio_write mat gpa val sz v))\<rparr>"

definition device_at :: "u64 \<Rightarrow> nat \<Rightarrow> u64 \<Rightarrow> 'h device option" where
  "device_at mat i gpa =
     (if DEFAULT_APIC_BASE \<le> gpa \<and> gpa < DEFAULT_APIC_BASE + XHYVE_PAGE_SIZE then Some (lapic_device mat i)
      else if VIOAPIC_BASE \<le> gpa \<and> gpa < VIOAPIC_BASE + 0x1000 then Some ioapic_device
      else if VHPET_BASE \<le> gpa \<and> gpa < VHPET_BASE + 0x400 then Some (hpet_device mat)
      else None)"

text \<open>The instruction bytes, unless they are there already; a length of 0 is not known.\<close>

definition fetch_step :: "'h host \<Rightarrow> int \<Rightarrow> inst_emul \<Rightarrow> u64 \<Rightarrow> ('h, vie) emu" where
  "fetch_step H vcpuid ie rip s =
     (if vie_num_valid (ie_vie ie) = 0 then
        let len = vc_exit_inst_length (vm_vcpu (fst (snd s)) (nat vcpuid))
        in on_world (vmm_fetch_instruction H vcpuid (ie_paging ie) (rip + ie_cs_base ie) (if len \<noteq> 0 then nat len else VIE_INST_SIZE) (ie_vie ie)) s
      else Some (Done (ie_vie ie), s))"

definition decode_step :: "'h host \<Rightarrow> int \<Rightarrow> inst_emul \<Rightarrow> vie \<Rightarrow> ('h, vie option) emu" where
  "decode_step H vcpuid ie vie = (\<lambda>(b, v, h, m).
     map_option (\<lambda>r. (Done r, b, v, h, m))
       (vmm_decode_instruction (\<lambda>reg. vm_get_register H vcpuid reg h) (ie_gla ie) (pg_cpu_mode (ie_paging ie)) (ie_cs_d ie) vie))"

definition set_inst_length :: "int \<Rightarrow> vie \<Rightarrow> ('h, unit) emu" where
  "set_inst_length vcpuid vie = (\<lambda>(b, v, w).
     Some (Done (), b, if vc_exit_inst_length (vm_vcpu v (nat vcpuid)) = 0
       then upd_vcpu (nat vcpuid) (\<lambda>c. c\<lparr>vc_exit_inst_length := int (vie_num_processed vie), vc_nextrip := vc_nextrip c + of_nat (vie_num_processed vie)\<rparr>) v
       else v, w))"

definition return_to_user :: "('h, unit) emu" where
  "return_to_user = (\<lambda>(b, w). Some (Done (), True, w))"

definition vm_handle_inst_emul :: "'h host \<Rightarrow> seg_desc \<Rightarrow> u64 \<Rightarrow> int \<Rightarrow> inst_emul \<Rightarrow> u64 \<Rightarrow> ('h, unit) emu" where
  "vm_handle_inst_emul H junk mat vcpuid ie rip =
     ebind (fetch_step H vcpuid ie rip) (\<lambda>vie.
     ebind (decode_step H vcpuid ie vie) (\<lambda>d. case d of
         None \<Rightarrow> return_to_user
       | Some vie' \<Rightarrow>
           ebind (set_inst_length vcpuid vie') (\<lambda>_.
             case device_at mat (nat vcpuid) (ie_gpa ie) of
               None \<Rightarrow> return_to_user
             | Some D \<Rightarrow> vmm_emulate_instruction H junk vcpuid (ie_gpa ie) vie' (ie_paging ie) D)))"
subsection \<open>Registers in the state\<close>

definition reg :: "'h host \<Rightarrow> int \<Rightarrow> vm_reg_name \<Rightarrow> 'h est \<Rightarrow> int + u64" where
  "reg H i r s = vm_get_register H i r (fst (snd (snd s)))"

text \<open>The state after a write of one register: nothing else changes.\<close>

definition with_reg :: "'h host \<Rightarrow> int \<Rightarrow> vm_reg_name \<Rightarrow> u64 \<Rightarrow> 'h est \<Rightarrow> 'h est \<Rightarrow> bool" where
  "with_reg H i r x s s' \<longleftrightarrow> fst s' = fst s \<and> fst (snd s') = fst (snd s) \<and> snd (snd (snd s')) = snd (snd (snd s))
     \<and> (\<forall>j q. reg H j q s' = (if (j, q) = (i, r) then Inr x else reg H j q s))"

definition vcpu_ok :: "int \<Rightarrow> bool" where
  "vcpu_ok i \<longleftrightarrow> 0 \<le> i \<and> i < int VM_MAXCPU"

lemma gprs_plain: "r \<in> gprs \<Longrightarrow> plain_reg r \<and> reg_width r = 64 \<and> r \<noteq> VM_REG_GUEST_RIP"
  by (auto simp: gprs_def gpr_map_def plain_reg_def reg_width_def is_segment_register_def)

lemma rflags_plain: "plain_reg VM_REG_GUEST_RFLAGS \<and> reg_width VM_REG_GUEST_RFLAGS = 64 \<and> VM_REG_GUEST_RFLAGS \<noteq> VM_REG_GUEST_RIP"
  by (simp add: plain_reg_def reg_width_def is_segment_register_def)

text \<open>Registers that the emulation writes.\<close>

definition writable_reg :: "vm_reg_name \<Rightarrow> bool" where
  "writable_reg r \<longleftrightarrow> plain_reg r \<and> reg_width r = 64 \<and> r \<noteq> VM_REG_GUEST_RIP"

lemma writable_regs [simp]: "r \<in> gprs \<Longrightarrow> writable_reg r" "writable_reg VM_REG_GUEST_RFLAGS" "writable_reg VM_REG_GUEST_RAX"
  by (auto simp: writable_reg_def gprs_plain rflags_plain) (simp_all add: plain_reg_def reg_width_def is_segment_register_def)

lemma write_register_ok:
  assumes "host_laws H" and "vcpu_ok i" and "writable_reg r"
  shows "\<exists>s'. write_register H i r x s = Some (Done (), s') \<and> with_reg H i r x s s'"
proof -
  obtain b v h m where s: "s = (b, v, h, m)" by (cases s) auto
  from set_get_register [OF assms(1), of i r x v h] obtain v' h' where w: "vm_set_register H i r x v h = Some (v', h', 0)"
    "vm_get_register H i r h' = Inr x" "\<forall>j q. (j, q) \<noteq> (i, r) \<longrightarrow> vm_get_register H j q h' = vm_get_register H j q h"
    using assms(2,3) by (auto simp: vcpu_ok_def writable_reg_def take_bit_word_eq_self)
  have "v' = v" using w(1) assms(2,3) by (auto simp: vm_set_register_def vcpu_ok_def writable_reg_def split: if_splits)
  then show ?thesis using w by (auto simp: write_register_def s with_reg_def reg_def)
qed

lemma readable:
  assumes "vcpu_ok i" and "writable_reg r"
  shows "\<exists>x. reg H i r s = Inr x"
  using assms by (auto simp: reg_def vcpu_ok_def writable_reg_def plain_reg_def vm_get_register_def vmx_getreg_def vmcs_getreg_def split: option.splits)

lemma read_register_ok: "reg H i r s = Inr x \<Longrightarrow> vie_read_register H i r s = Some (Done x, s)"
  by (cases s) (simp add: reg_def vie_read_register_def)

lemma ebind_Done: "f s = Some (Done x, s') \<Longrightarrow> ebind f g s = g x s'"
  by (simp add: ebind_def)

text \<open>What a register holds after bits \<open>lo\<close> to \<open>lo + w - 1\<close> were replaced; a write of 32 bits clears those above.\<close>

definition merged :: "nat \<Rightarrow> nat \<Rightarrow> u64 \<Rightarrow> u64 \<Rightarrow> u64 \<Rightarrow> bool" where
  "merged lo w old val x \<longleftrightarrow> (\<forall>n < 64. bit x n \<longleftrightarrow> (if lo \<le> n \<and> n < lo + w then bit val (n - lo) else w \<noteq> 32 \<and> bit old n))"

lemma update_register_ok:
  assumes "host_laws H" and "vcpu_ok i" and "writable_reg r" and "sz \<in> {1, 2, 4, 8}" and old: "reg H i r s = Inr old"
  shows "\<exists>x s'. vie_update_register H i r val sz s = Some (Done (), s') \<and> with_reg H i r x s s' \<and> merged 0 (nat (8 * sz)) old val x"
proof -
  let ?x = "if sz = 8 then val else if sz = 4 then val AND 0xffffffff else (val AND size2mask sz) OR (old AND NOT (size2mask sz))"
  obtain s' where w: "write_register H i r ?x s = Some (Done (), s')" "with_reg H i r ?x s s'"
    using write_register_ok [OF assms(1-3), of ?x s] by blast
  have "vie_update_register H i r val sz s = Some (Done (), s')"
    using assms(4) w(1) read_register_ok [OF old] by (auto simp: vie_update_register_def ebind_def)
  moreover have "merged 0 (nat (8 * sz)) old val ?x"
  proof -
    have m32: "val AND 0xffffffff = take_bit 32 val" by (simp add: take_bit_eq_mask mask_eq_exp_minus_1)
    have bits: "bit (size2mask sz) n \<longleftrightarrow> n < nat (8 * sz)" if "n < 64" for n
      using assms(4) size2mask_mask [of sz] that by (auto simp: size_ok_def bit_mask_iff)
    consider "sz = 8" | "sz = 4" | "sz = 1 \<or> sz = 2" using assms(4) by auto
    then show ?thesis
    proof cases
      case 3
      then have "?x = (val AND size2mask sz) OR (old AND NOT (size2mask sz))" by auto
      then show ?thesis using bits 3 by (auto simp: merged_def bit_and_iff bit_or_iff bit_not_iff)
    qed (simp_all add: merged_def m32 bit_take_bit_iff)
  qed
  ultimately show ?thesis using w(2) by blast
qed
subsection \<open>Loads and stores\<close>

text \<open>
  The byte register with number \<open>n\<close>: without a REX prefix the numbers 4 to 7 are the second bytes of the first four registers.
\<close>

definition byte_register :: "bool \<Rightarrow> nat \<Rightarrow> vm_reg_name \<times> nat" where
  "byte_register rex n = (if \<not> rex \<and> 4 \<le> n then (gpr_map ! (n - 4), 8) else (gpr_map ! n, 0))"

text \<open>The loads by opcode: bytes that are read, destination register with its lowest bit and number of bits, and the value that arrives there.\<close>

definition load_form :: "vie \<Rightarrow> (int \<times> vm_reg_name \<times> nat \<times> nat \<times> (u64 \<Rightarrow> u64)) option" where
  "load_form vie =
     (let op = vie_the_op vie; sz = vie_opsize vie; n = unat (vie_reg vie); w = nat (8 * sz); (b, lo) = byte_register (vie_rex_present vie) n
      in if op = one_byte_opcodes 0x8A then Some (1, b, lo, 8, id)
         else if op = one_byte_opcodes 0x8B then Some (sz, gpr_map ! n, 0, w, id)
         else if op = one_byte_opcodes 0xA1 then Some (sz, VM_REG_GUEST_RAX, 0, w, id)
         else if op = two_byte_opcodes 0xB6 then Some (1, gpr_map ! n, 0, w, take_bit 8)
         else if op = two_byte_opcodes 0xB7 then Some (2, gpr_map ! n, 0, w, take_bit 16)
         else if op = two_byte_opcodes 0xBE then Some (1, gpr_map ! n, 0, w, signed_take_bit 7)
         else None)"

text \<open>What the decoder promises of the fields that are used here.\<close>

definition operands_ok :: "vie \<Rightarrow> bool" where
  "operands_ok vie \<longleftrightarrow> vie_decoded vie \<and> unat (vie_reg vie) < 16 \<and> (vie_rex_present vie \<or> unat (vie_reg vie) < 8) \<and> vie_opsize vie \<in> {2, 4, 8}"

lemma casts [simp]:
  "ucast (ucast (x :: u64) :: u8) = take_bit 8 x" "ucast (ucast (x :: u64) :: u16) = take_bit 16 x" "scast (ucast (x :: u64) :: u8) = signed_take_bit 7 x"
  by (rule bit_word_eqI; auto simp: bit_ucast_iff bit_take_bit_iff bit_signed_iff bit_signed_take_bit_iff min_def)+

lemma calc_bytereg:
  assumes "operands_ok vie"
  shows "vie_calc_bytereg vie = apsnd (\<lambda>lo. lo \<noteq> 0) (byte_register (vie_rex_present vie) (unat (vie_reg vie)))"
proof -
  have "vie_reg vie AND 4 \<noteq> 0 \<and> 4 \<le> n \<and> unat (vie_reg vie AND 3) = n - 4 \<or> vie_reg vie AND 4 = 0 \<and> n < 4" if "unat (vie_reg vie) = n" "n < 8" for n
  proof -
    have "vie_reg vie = of_nat n" using that(1) by auto
    moreover have "n \<in> {0, 1, 2, 3, 4, 5, 6, 7}" using that(2) by auto
    ultimately show ?thesis by auto
  qed
  then show ?thesis using assms by (auto simp: vie_calc_bytereg_def byte_register_def operands_ok_def)
qed

lemma byte_register_gprs: "n < 16 \<Longrightarrow> fst (byte_register rex n) \<in> gprs"
  by (simp add: byte_register_def gpr_map_gprs)

lemma write_bytereg_ok:
  assumes "host_laws H" and "vcpu_ok i" and "operands_ok vie" and br: "byte_register (vie_rex_present vie) (unat (vie_reg vie)) = (r, lo)"
    and old: "reg H i r s = Inr old"
  shows "\<exists>x s'. vie_write_bytereg H i vie (ucast val) s = Some (Done (), s') \<and> with_reg H i r x s s' \<and> merged lo 8 old val x"
proof -
  let ?x = "(if lo \<noteq> 0 then push_bit 8 (ucast (ucast val :: u8)) else ucast (ucast val :: u8)) OR (old AND NOT (if lo \<noteq> 0 then push_bit 8 0xff else 0xff))"
  have r: "r \<in> gprs" using br byte_register_gprs [of "unat (vie_reg vie)"] assms(3) by (metis fst_conv operands_ok_def)
  have c: "vie_calc_bytereg vie = (r, lo \<noteq> 0)" using calc_bytereg [OF assms(3)] br by simp
  obtain s' where w: "write_register H i r ?x s = Some (Done (), s')" "with_reg H i r ?x s s'"
    using write_register_ok [OF assms(1,2), of r ?x s] r by auto
  have "vie_write_bytereg H i vie (ucast val) s = Some (Done (), s')"
    using w(1) read_register_ok [OF old] by (simp add: vie_write_bytereg_def c ebind_def Let_def)
  moreover have "merged lo 8 old val ?x"
  proof -
    define k :: u64 where "k = (if lo \<noteq> 0 then push_bit 8 0xff else 0xff)"
    have lo: "lo = 0 \<or> lo = 8" using br by (auto simp: byte_register_def split: if_splits)
    moreover have "k = push_bit lo (mask 8)" using lo by (auto simp: k_def mask_eq_exp_minus_1 push_bit_eq_mult)
    then have "bit k n \<longleftrightarrow> lo \<le> n \<and> n < lo + 8" if "n < 64" for n using that by (auto simp: bit_push_bit_iff bit_mask_iff)
    ultimately show ?thesis unfolding k_def [symmetric]
      by (auto simp: merged_def bit_or_iff bit_and_iff bit_not_iff bit_push_bit_iff bit_take_bit_iff)
  qed
  ultimately show ?thesis using w(2) by blast
qed
lemma dev_read_ok: "memread D gpa n s = Some (Inr val, s') \<Longrightarrow> dev_read D gpa n s = Some (Done val, s')"
  by (simp add: dev_read_def)

lemmas opcode_fields = one_byte_opcodes_def two_byte_opcodes_def

text \<open>
  C14. Loads from a device. For each of the opcodes 8A, 8B and A1 (\<open>MOV\<close>), 0F B6 and 0F B7 (\<open>MOVZX\<close>) and 0F BE (\<open>MOVSX\<close>) and every operand size, executing the decoded instruction reads
  the device once, with the size of the source operand, and puts the value, extended as the opcode says, into the destination: exactly the destination bits of the register
  change (bits 8 to 15 for AH, CH, DH and BH), except that a 32-bit destination clears the upper half. No other register of any vcpu changes, and no memory.
\<close>

theorem loads_register:
  assumes "host_laws H" and "vcpu_ok i" and "operands_ok vie" and "load_form vie = Some (n, r, lo, w, ext)"
    and "memread D gpa n s = Some (Inr val, s1)" and "reg H i r s1 = Inr old"
  shows "\<exists>x s2. vmm_emulate_instruction H junk i gpa vie paging D s = Some (Done (), s2) \<and> with_reg H i r x s1 s2 \<and> merged lo w old (ext val) x"
proof -
  note ok = assms(3) [unfolded operands_ok_def] and rd = dev_read_ok [OF assms(5)]
  have reg: "gpr_map ! unat (vie_reg vie) \<in> gprs" using ok by (simp add: gpr_map_gprs)
  show ?thesis
  proof (cases "vie_the_op vie = one_byte_opcodes 0x8A")
    case True
    then have f: "byte_register (vie_rex_present vie) (unat (vie_reg vie)) = (r, lo)" "n = 1" "w = 8" "ext = id"
      using assms(4) by (auto simp: load_form_def Let_def split: prod.splits)
    have "vmm_emulate_instruction H junk i gpa vie paging D s = vie_write_bytereg H i vie (ucast val) s1"
      using True ok rd f(2) by (simp add: vmm_emulate_instruction_def emulate_mov_def opcode_fields ebind_def)
    then show ?thesis using write_bytereg_ok [OF assms(1-3) f(1) assms(6), of val] f(3,4) by simp
  next
    case False
    have "r \<in> gprs \<or> r = VM_REG_GUEST_RAX" "lo = 0" "w = nat (8 * vie_opsize vie)"
      using assms(4) False reg by (auto simp: load_form_def Let_def split: if_splits prod.splits)
    moreover have "vmm_emulate_instruction H junk i gpa vie paging D s = vie_update_register H i r (ext val) (vie_opsize vie) s1"
      using assms(4) False ok rd
      by (auto simp: load_form_def Let_def vmm_emulate_instruction_def emulate_mov_def emulate_movx_def opcode_fields ebind_def
          split: if_splits prod.splits)
    ultimately show ?thesis using update_register_ok [OF assms(1,2) _ _ assms(6), of "vie_opsize vie" "ext val"] ok by auto
  qed
qed
subsection \<open>Comparison\<close>

lemma flag_bits:
  "bit ((if a then PSL_C else 0) OR (if b then PSL_PF else 0) OR (if c then PSL_AF else 0) OR (if d then PSL_Z else 0) OR (if e then PSL_N else 0)
     OR (if f then PSL_V else 0)) n
   \<longleftrightarrow> n = 0 \<and> a \<or> n = 2 \<and> b \<or> n = 4 \<and> c \<or> n = 6 \<and> d \<or> n = 7 \<and> e \<or> n = 11 \<and> f"
proof -
  have p: "bit (if q then 2 ^ k else 0 :: u64) n \<longleftrightarrow> q \<and> n = k" if "k < 64" for q k n using that by (auto simp: bit_exp_iff)
  have e: "(0x4 :: u64) = 2 ^ 2" "(0x10 :: u64) = 2 ^ 4" "(0x40 :: u64) = 2 ^ 6" "(0x80 :: u64) = 2 ^ 7" "(0x800 :: u64) = 2 ^ 11" by simp_all
  have "bit (if a then 1 else 0 :: u64) n \<longleftrightarrow> a \<and> n = 0" by (simp add: bit_1_iff)
  moreover have "bit (if b then 0x4 else 0 :: u64) n \<longleftrightarrow> b \<and> n = 2" "bit (if c then 0x10 else 0 :: u64) n \<longleftrightarrow> c \<and> n = 4"
    "bit (if d then 0x40 else 0 :: u64) n \<longleftrightarrow> d \<and> n = 6" "bit (if e then 0x80 else 0 :: u64) n \<longleftrightarrow> e \<and> n = 7"
    "bit (if f then 0x800 else 0 :: u64) n \<longleftrightarrow> f \<and> n = 11" unfolding e by (rule p, simp)+
  ultimately show ?thesis unfolding bit_or_iff by blast
qed

text \<open>Sign and overflow of the difference decide the signed order.\<close>

lemma signed_less:
  fixes x y :: "'a::len word"
  defines "k \<equiv> LENGTH('a) - 1"
  shows "(bit (x - y) k \<noteq> (bit x k \<noteq> bit y k \<and> bit (x - y) k \<noteq> bit x k)) \<longleftrightarrow> sint x < sint y"
proof -
  have neg: "bit z k \<longleftrightarrow> sint z < 0" for z :: "'a word" by (simp add: k_def bit_last_iff)
  have rng: "- (2 ^ k) \<le> sint z" "sint z < 2 ^ k" for z :: "'a word" using sint_ge [of z] sint_lt [of z] by (simp_all add: k_def)
  show ?thesis
  proof (cases "bit x k = bit y k")
    case True
    have "sint (x - y) = signed_take_bit k (sint x - sint y)" by (simp add: k_def sint_word_ariths)
    also have "\<dots> = sint x - sint y"
    proof (rule signed_take_bit_int_eq_self)
      show "- (2 ^ k) \<le> sint x - sint y" "sint x - sint y < 2 ^ k" using rng [of x] rng [of y] True by (auto simp: neg not_less)
    qed
    finally have "bit (x - y) k \<longleftrightarrow> sint x < sint y" by (simp add: neg)
    then show ?thesis using True by simp
  next
    case False
    then show ?thesis by (auto simp: neg)
  qed
qed

definition same_but :: "nat set \<Rightarrow> u64 \<Rightarrow> u64 \<Rightarrow> bool" where
  "same_but S a b \<longleftrightarrow> (\<forall>n. n \<notin> S \<longrightarrow> bit a n = bit b n)"

text \<open>The flags say how two operands of \<open>w\<close> bits compare: carry for less without sign, zero for equal, sign against overflow for less with sign.\<close>

definition compares :: "nat \<Rightarrow> u64 \<Rightarrow> u64 \<Rightarrow> u64 \<Rightarrow> bool" where
  "compares w x y f \<longleftrightarrow> (bit f 0 \<longleftrightarrow> uint x mod 2 ^ w < uint y mod 2 ^ w) \<and> (bit f 6 \<longleftrightarrow> uint x mod 2 ^ w = uint y mod 2 ^ w)
     \<and> (bit f 7 \<noteq> bit f 11 \<longleftrightarrow> signed_take_bit (w - 1) (uint x) < signed_take_bit (w - 1) (uint y))"

lemma getcc_sz_compares:
  fixes x y :: u64
  shows "compares LENGTH('a::len) x y (getcc_sz (ucast x :: 'a word) (ucast y))"
proof -
  have u: "uint (ucast z :: 'a word) = uint z mod 2 ^ LENGTH('a)" for z :: u64 by (simp add: unsigned_ucast_eq take_bit_eq_mod)
  have s: "sint (ucast z :: 'a word) = signed_take_bit (LENGTH('a) - 1) (uint z)" for z :: u64 by (simp add: signed_ucast_eq)
  have "(ucast x :: 'a word) - ucast y = 0 \<longleftrightarrow> uint x mod 2 ^ LENGTH('a) = uint y mod 2 ^ LENGTH('a)" using word_uint_eq_iff [of "ucast x :: 'a word" "ucast y"] by (simp add: u)
  moreover have "(ucast x :: 'a word) < ucast y \<longleftrightarrow> uint x mod 2 ^ LENGTH('a) < uint y mod 2 ^ LENGTH('a)" by (simp add: word_less_def u)
  moreover note signed_less [of "ucast x :: 'a word" "ucast y", unfolded s]
  ultimately show ?thesis unfolding compares_def getcc_sz_def Let_def flag_bits by simp
qed

lemma getcc_compares:
  assumes "sz \<in> {1, 2, 4, 8}"
  shows "\<exists>c. getcc sz x y = Some c \<and> compares (nat (8 * sz)) x y c"
  using assms getcc_sz_compares [where 'a = 8, of x y] getcc_sz_compares [where 'a = 16, of x y] getcc_sz_compares [where 'a = 32, of x y]
    getcc_sz_compares [where 'a = 64, of x y] by (auto simp: getcc_def size_ok_def)
text \<open>The comparisons by opcode: the size of the operands, and whether the first one is a register.\<close>

definition cmp_form :: "vie \<Rightarrow> (int \<times> bool) option" where
  "cmp_form vie =
     (if vie_the_op vie = one_byte_opcodes 0x3B then Some (vie_opsize vie, True)
      else if vie_reg vie AND 7 = 7 \<and> vie_the_op vie = one_byte_opcodes 0x80 then Some (1, False)
      else if vie_reg vie AND 7 = 7 \<and> vie_the_op vie \<in> {one_byte_opcodes 0x81, one_byte_opcodes 0x83} then Some (vie_opsize vie, False)
      else None)"

lemma status_bits: "bit RFLAGS_STATUS_BITS n \<longleftrightarrow> n \<in> {0, 2, 4, 6, 7, 11}"
proof -
  have e: "RFLAGS_STATUS_BITS = (if True then PSL_C else 0) OR (if True then PSL_PF else 0) OR (if True then PSL_AF else 0) OR (if True then PSL_Z else 0)
    OR (if True then PSL_N else 0) OR (if True then PSL_V else 0)" by simp
  show ?thesis by (subst e) (simp only: flag_bits simp_thms insert_iff empty_iff)
qed

lemma arith_flags_ok:
  assumes "host_laws H" and "vcpu_ok i" and "sz \<in> {1, 2, 4, 8}" and old: "reg H i VM_REG_GUEST_RFLAGS s = Inr old"
  shows "\<exists>f s'. arith_flags H i sz x y s = Some (Done (), s') \<and> with_reg H i VM_REG_GUEST_RFLAGS f s s' \<and> compares (nat (8 * sz)) x y f
     \<and> same_but {0, 2, 4, 6, 7, 11} f old"
proof -
  obtain c where c: "getcc sz x y = Some c" "compares (nat (8 * sz)) x y c" using getcc_compares [OF assms(3)] by blast
  let ?f = "(old AND NOT RFLAGS_STATUS_BITS) OR (c AND RFLAGS_STATUS_BITS)"
  obtain s' where w: "write_register H i VM_REG_GUEST_RFLAGS ?f s = Some (Done (), s')" "with_reg H i VM_REG_GUEST_RFLAGS ?f s s'"
    using write_register_ok [OF assms(1,2), of VM_REG_GUEST_RFLAGS ?f s] by auto
  have run: "arith_flags H i sz x y s = Some (Done (), s')"
    using w(1) c(1) read_register_ok [OF old] by (simp add: arith_flags_def ebind_def need_def vie_update_register_def)
  have bits: "bit ?f n \<longleftrightarrow> (if n \<in> {0, 2, 4, 6, 7, 11} then bit c n else bit old n)" for n
    using bit_imp_le_length [of old n] unfolding bit_or_iff bit_and_iff bit_not_iff status_bits by auto
  have "compares (nat (8 * sz)) x y ?f" using c(2) unfolding compares_def bits by simp
  moreover have "same_but {0, 2, 4, 6, 7, 11} ?f old" unfolding same_but_def bits by simp
  ultimately show ?thesis using run w(2) by blast
qed

text \<open>
  C24. Comparison with a device. For the opcodes 3B (register with memory) and 80, 81 and 83 with extension 7 (memory with immediate), executing the decoded instruction reads the device once and
  changes nothing but the six status flags, such that CF is set exactly when the first operand is below the second as an unsigned number, ZF exactly when they are
  equal, and SF differs from OF exactly when the first is less as a signed number, at the width of the operands: every conditional jump of the guest takes the right branch.
\<close>

theorem cmp_decides:
  assumes "host_laws H" and "vcpu_ok i" and "operands_ok vie" and "cmp_form vie = Some (sz, from_reg)"
    and "memread D gpa sz s = Some (Inr val, s1)" and "reg H i (gpr_map ! unat (vie_reg vie)) s = Inr r" and "reg H i VM_REG_GUEST_RFLAGS s1 = Inr old"
  shows "\<exists>f s2. vmm_emulate_instruction H junk i gpa vie paging D s = Some (Done (), s2) \<and> with_reg H i VM_REG_GUEST_RFLAGS f s1 s2
     \<and> same_but {0, 2, 4, 6, 7, 11} f old
     \<and> (if from_reg then compares (nat (8 * sz)) r val f else compares (nat (8 * sz)) val (vie_immediate vie) f)"
proof -
  note ok = assms(3) [unfolded operands_ok_def] and rd = dev_read_ok [OF assms(5)] and rr = read_register_ok [OF assms(6)]
  have sz: "sz \<in> {1, 2, 4, 8}" using assms(4) ok by (auto simp: cmp_form_def split: if_splits)
  have "vmm_emulate_instruction H junk i gpa vie paging D s = (if from_reg then arith_flags H i sz r val s1 else arith_flags H i sz val (vie_immediate vie) s1)"
    using assms(4) ok rd rr
    by (auto simp: cmp_form_def vmm_emulate_instruction_def emulate_group1_def emulate_cmp_def opcode_fields ebind_def Let_def split: if_splits)
  then show ?thesis
    using arith_flags_ok [OF assms(1,2) sz assms(7), of r val] arith_flags_ok [OF assms(1,2) sz assms(7), of val "vie_immediate vie"] by auto
qed
text \<open>The stores by opcode: bytes that are written, and the source, a register from a lowest bit on or the immediate operand.\<close>

definition store_form :: "vie \<Rightarrow> (int \<times> (vm_reg_name \<times> nat) option) option" where
  "store_form vie =
     (let op = vie_the_op vie; sz = vie_opsize vie; n = unat (vie_reg vie)
      in if op = one_byte_opcodes 0x88 then Some (1, Some (byte_register (vie_rex_present vie) n))
         else if op = one_byte_opcodes 0x89 then Some (sz, Some (gpr_map ! n, 0))
         else if op = one_byte_opcodes 0xA3 then Some (sz, Some (VM_REG_GUEST_RAX, 0))
         else if op = one_byte_opcodes 0xC6 then Some (1, None)
         else if op = one_byte_opcodes 0xC7 then Some (sz, None)
         else None)"

lemma size2mask_take_bit: "sz \<in> {1, 2, 4, 8} \<Longrightarrow> x AND size2mask sz = take_bit (nat (8 * sz)) x"
  using size2mask_mask [of sz] by (auto simp: size_ok_def take_bit_eq_mask)

text \<open>
  C27. Stores to a device. For each of the opcodes 88, 89, A3, C6 and C7 (\<open>MOV\<close>) and every operand size, executing the decoded instruction is one write of the device, of as many bytes as the operand
  has, whose value has the source operand in these bytes: the register (its second byte for AH, CH, DH and BH) or the immediate. The emulation itself changes nothing.
\<close>

theorem stores_device:
  assumes "operands_ok vie" and "store_form vie = Some (n, src)"
    and "case src of None \<Rightarrow> val = vie_immediate vie | Some (r, lo) \<Rightarrow> (\<exists>x. reg H i r s = Inr x \<and> val = drop_bit lo x)"
  shows "\<exists>y. vmm_emulate_instruction H junk i gpa vie paging D s = dev_write D gpa y n s \<and> take_bit (nat (8 * n)) y = take_bit (nat (8 * n)) val"
proof -
  note ok = assms(1) [unfolded operands_ok_def]
  have sm: "val AND size2mask (vie_opsize vie) = take_bit (nat (8 * vie_opsize vie)) val" using size2mask_take_bit ok by auto
  show ?thesis
  proof (cases "vie_the_op vie = one_byte_opcodes 0x88")
    case True
    obtain r lo where br: "byte_register (vie_rex_present vie) (unat (vie_reg vie)) = (r, lo)" by fastforce
    then have f: "n = 1" "src = Some (r, lo)" using assms(2) True by (simp_all add: store_form_def Let_def)
    then obtain x where x: "reg H i r s = Inr x" "val = drop_bit lo x" using assms(3) by auto
    have c: "vie_calc_bytereg vie = (r, lo \<noteq> 0)" and lo: "lo = 0 \<or> lo = 8" using calc_bytereg [OF assms(1)] br by (auto simp: byte_register_def split: if_splits)
    have "vmm_emulate_instruction H junk i gpa vie paging D s = dev_write D gpa (ucast (ucast val :: u8)) 1 s"
      using True ok read_register_ok [OF x(1)] x(2) lo
      by (auto simp: vmm_emulate_instruction_def emulate_mov_def opcode_fields ebind_def vie_read_bytereg_def c ret_def simp del: casts)
    then show ?thesis using f(1) by (intro exI [of _ "ucast (ucast val :: u8)"]) simp
  next
    case False
    note store = store_form_def Let_def vmm_emulate_instruction_def emulate_mov_def opcode_fields ebind_def
    show ?thesis
    proof (cases src)
      case None
      then have "vmm_emulate_instruction H junk i gpa vie paging D s = dev_write D gpa (if n = 1 then val else take_bit (nat (8 * n)) val) n s"
        using assms(2,3) False ok sm by (auto simp: store split: if_splits)
      then show ?thesis by (intro exI [of _ "if n = 1 then val else take_bit (nat (8 * n)) val"]) simp
    next
      case (Some p)
      then obtain r where p: "src = Some (r, 0)" using assms(2) False by (auto simp: store_form_def Let_def split: if_splits)
      then have r: "vie_read_register H i r s = Some (Done val, s)" using assms(3) by (auto intro: read_register_ok)
      then have "vmm_emulate_instruction H junk i gpa vie paging D s = dev_write D gpa (take_bit (nat (8 * n)) val) n s"
        using assms(2) False ok p sm by (auto simp: store split: if_splits)
      then show ?thesis by (intro exI [of _ "take_bit (nat (8 * n)) val"]) simp
    qed
  qed
qed

subsection \<open>Faults come before accesses to the device\<close>

text \<open>\<open>g\<close> faults like \<open>f\<close>; \<open>f\<close> does not fault.\<close>

definition faults_like :: "('h, 'a) emu \<Rightarrow> ('h, 'a) emu \<Rightarrow> bool" where
  "faults_like f g \<longleftrightarrow> (\<forall>s s'. f s = Some (Fault, s') \<longrightarrow> g s = Some (Fault, s'))"

definition no_fault :: "('h, 'a) emu \<Rightarrow> bool" where
  "no_fault f \<longleftrightarrow> (\<forall>s s'. f s \<noteq> Some (Fault, s'))"

named_theorems no_faults

lemma faults_like_refl [simp]: "faults_like f f"
  by (simp add: faults_like_def)

lemma faults_like_no_fault: "no_fault f \<Longrightarrow> faults_like f g"
  by (simp add: faults_like_def no_fault_def)

lemma ebind_Fault: "ebind f g s = Some (Fault, s') \<longleftrightarrow> f s = Some (Fault, s') \<or> (\<exists>x s1. f s = Some (Done x, s1) \<and> g x s1 = Some (Fault, s'))"
proof (cases "f s")
  case (Some rs)
  then show ?thesis by (cases rs; cases "fst rs") (auto simp: ebind_def)
qed (simp add: ebind_def)

lemma faults_like_bind: "(\<And>x. faults_like (k x) (k' x)) \<Longrightarrow> faults_like (ebind f k) (ebind f k')"
  unfolding faults_like_def ebind_Fault by blast

lemma faults_like_first: "faults_like f g \<Longrightarrow> (\<And>x. no_fault (k x)) \<Longrightarrow> faults_like (ebind f k) (ebind g k')"
  unfolding faults_like_def no_fault_def ebind_Fault by blast

lemma no_fault_bind [no_faults]: "no_fault f \<Longrightarrow> (\<And>x. no_fault (k x)) \<Longrightarrow> no_fault (ebind f k)"
  unfolding no_fault_def ebind_Fault by blast

lemma no_fault_must [no_faults]: "no_fault f \<Longrightarrow> no_fault (must f)"
  by (auto simp: no_fault_def must_def split: option.splits access.splits)

lemma no_fault_basic [no_faults]:
  "no_fault (ret x)" "no_fault (fail e)" "no_fault (need y)" "no_fault (dev_read D gpa n)" "no_fault (dev_write D gpa val n)"
  "no_fault (vie_read_register H i r)" "no_fault (write_register H i r val)" "no_fault (copy_in cs n)" "no_fault (copy_out val cs n)"
  "no_fault (restart_instruction H i)"
  by (auto simp: no_fault_def ret_def fail_def need_def dev_read_def dev_write_def vie_read_register_def write_register_def copy_in_def copy_out_def
      restart_instruction_def split: sum.split_asm if_split_asm)

lemma no_fault_update [no_faults]: "no_fault (vie_update_register H i r val n)"
  by (simp add: vie_update_register_def no_faults)

lemma no_fault_rep_next [no_faults]: "no_fault (rep_next H i vie rcx)"
  by (simp add: rep_next_def no_faults)

lemma no_fault_flags [no_faults]: "no_fault (arith_flags H i n x y)" "no_fault (logic_flags H i n z)"
  by (simp_all add: arith_flags_def logic_flags_def no_faults)
lemma no_fault_if [no_faults]: "no_fault f \<Longrightarrow> no_fault g \<Longrightarrow> no_fault (if b then f else g)"
  by simp

lemma faults_like_cases:
  "(\<And>x. faults_like (f x) (f' x)) \<Longrightarrow> (\<And>y. faults_like (g y) (g' y)) \<Longrightarrow> faults_like (case_sum f g r) (case_sum f' g' r)"
  "(\<And>x y. faults_like (p x y) (p' x y)) \<Longrightarrow> faults_like (case_prod p q) (case_prod p' q)"
  by (auto split: sum.split prod.split)

lemma transfer_faults_like: "faults_like (movs_transfer H i gpa vie paging D opsize) (movs_transfer H i gpa vie paging D' opsize)"
  unfolding movs_transfer_def
  by ((rule faults_like_no_fault, (intro no_faults; fail)) | rule faults_like_bind faults_like_cases)+

lemma movs_faults_like: "faults_like (emulate_movs H i gpa vie paging D) (emulate_movs H i gpa vie paging D')"
proof -
  have "faults_like (movs_body H i gpa vie paging D) (movs_body H i gpa vie paging D')"
    unfolding movs_body_def Let_def
    by (intro faults_like_bind) (auto intro!: faults_like_first transfer_faults_like no_faults split: prod.splits)
  then show ?thesis unfolding faults_like_def emulate_movs_def
    by (auto split: option.splits access.splits if_splits)
qed

lemma stack_faults_like: "faults_like (emulate_stack_op H junk i gpa vie paging D) (emulate_stack_op H junk i gpa vie paging D')"
  unfolding emulate_stack_op_def Let_def
  by ((rule faults_like_no_fault, (intro no_faults; fail)) | rule faults_like_bind faults_like_cases)+

lemma simple_no_fault [no_faults]:
  "no_fault (emulate_mov H i gpa vie D)" "no_fault (emulate_movx H i gpa vie D)" "no_fault (emulate_and H i gpa vie D)" "no_fault (emulate_or H i gpa vie D)"
  "no_fault (emulate_cmp H i gpa vie D)" "no_fault (emulate_sub H i gpa vie D)" "no_fault (emulate_bittest H i gpa vie D)"
  "no_fault (emulate_group1 H i gpa vie D)" "no_fault (emulate_stos H i gpa vie D)"
proof -
  have b: "no_fault (vie_read_bytereg H i vie)" "no_fault (vie_write_bytereg H i vie x)" for x
    by (auto simp: vie_read_bytereg_def vie_write_bytereg_def Let_def no_faults split: prod.splits)
  show "no_fault (emulate_mov H i gpa vie D)" by (simp add: emulate_mov_def Let_def no_faults b)
  show "no_fault (emulate_movx H i gpa vie D)" by (simp add: emulate_movx_def Let_def no_faults)
  show a: "no_fault (emulate_and H i gpa vie D)" by (simp add: emulate_and_def Let_def no_faults)
  show o: "no_fault (emulate_or H i gpa vie D)" by (simp add: emulate_or_def Let_def no_faults)
  show c: "no_fault (emulate_cmp H i gpa vie D)" by (simp add: emulate_cmp_def Let_def no_faults)
  show "no_fault (emulate_sub H i gpa vie D)" by (simp add: emulate_sub_def Let_def no_faults)
  show "no_fault (emulate_bittest H i gpa vie D)" by (simp add: emulate_bittest_def Let_def no_faults)
  show "no_fault (emulate_group1 H i gpa vie D)" by (simp add: emulate_group1_def no_faults a o c)
  show "no_fault (emulate_stos H i gpa vie D)" by (auto simp: emulate_stos_def rep_count_def Let_def intro!: no_faults split: prod.splits)
qed

text \<open>
  C13. A fault comes before the device is touched. If executing an instruction injects a fault into the guest, then it does so in the same way, with the same resulting state, whatever the
  device does, even if it would abort on any access. So the guest can repair the fault and run the instruction again without a read or write of a device register having
  happened twice. This covers the string moves with their two address translations and the stack operations, which read the device only after the stack is known to be
  writable.
\<close>

theorem fault_before_device:
  assumes "vmm_emulate_instruction H junk i gpa vie paging D s = Some (Fault, s')"
  shows "vmm_emulate_instruction H junk i gpa vie paging D' s = Some (Fault, s')"
proof -
  have "faults_like (vmm_emulate_instruction H junk i gpa vie paging D) (vmm_emulate_instruction H junk i gpa vie paging D')"
    by (cases "op_type (vie_the_op vie)")
      (simp_all add: vmm_emulate_instruction_def emulate_push_def emulate_pop_def movs_faults_like stack_faults_like faults_like_no_fault no_faults)
  then show ?thesis using assms unfolding faults_like_def by blast
qed
subsection \<open>Examples\<close>

definition tab_state :: "(u32 \<Rightarrow> u64) \<Rightarrow> ((nat \<Rightarrow> u32 \<Rightarrow> u64) \<times> (nat \<Rightarrow> hv_x86_reg \<Rightarrow> u64)) est" where
  "tab_state f = (False, small_vm, ((\<lambda>_. f), (\<lambda>_ _. 0)), small_mem)"

definition constant_device :: "u64 \<Rightarrow> 'h device" where
  "constant_device x = \<lparr>memread = (\<lambda>_ _ s. Some (Inr x, s)), memwrite = (\<lambda>_ _ _ s. Some (0, s))\<rparr>"

definition aborting_device :: "'h device" where
  "aborting_device = \<lparr>memread = (\<lambda>_ _ s. None), memwrite = (\<lambda>_ _ _ s. None)\<rparr>"

definition example_vie :: "vie_op \<Rightarrow> u8 \<Rightarrow> vie" where
  "example_vie op r = vie_bzero\<lparr>vie_decoded := True, vie_opsize := 4, vie_addrsize := 4, vie_the_op := op, vie_reg := r\<rparr>"

lemma example_ok: "unat r < 8 \<Longrightarrow> operands_ok (example_vie op r)"
  by (simp add: operands_ok_def example_vie_def vie_bzero_def)

lemma tab_host_rd [simp]: "h_rd tab_host i f h = fst h i f" "reg_read tab_host i r h = snd h i r"
  by (simp_all add: tab_host_def)

lemma tab_reg: "reg tab_host 0 VM_REG_GUEST_RAX (tab_state f) = Inr 0" "reg tab_host 0 VM_REG_GUEST_RFLAGS (tab_state f) = Inr (f 0x6820)"
  by (simp_all add: reg_def tab_state_def vm_get_register_def vmx_getreg_def vmcs_getreg_def tab_host_def)

theorem loads_register_witness:
  "\<exists>x s2. vmm_emulate_instruction tab_host \<lparr>sd_base = 0, sd_limit = 0, sd_access = 0\<rparr> 0 0xfee00020 (example_vie (one_byte_opcodes 0x8A) 4) small_paging (constant_device 0xab) (tab_state (\<lambda>_. 0)) = Some (Done (), s2)
     \<and> with_reg tab_host 0 VM_REG_GUEST_RAX x (tab_state (\<lambda>_. 0)) s2 \<and> merged 8 8 0 0xab x"
proof -
  let ?vie = "example_vie (one_byte_opcodes 0x8A) 4"
  have f: "load_form ?vie = Some (1, VM_REG_GUEST_RAX, 8, 8, id)" by (simp add: load_form_def example_vie_def vie_bzero_def byte_register_def gpr_map_def)
  have m: "memread (constant_device 0xab) 0xfee00020 1 (tab_state (\<lambda>_. 0)) = Some (Inr 0xab, tab_state (\<lambda>_. 0))" by (simp add: constant_device_def)
  have "vcpu_ok 0" by (simp add: vcpu_ok_def)
  from loads_register [OF tab_host_laws this example_ok f m tab_reg(1)] show ?thesis by simp
qed

theorem stores_device_witness:
  "\<exists>y. vmm_emulate_instruction tab_host \<lparr>sd_base = 0, sd_limit = 0, sd_access = 0\<rparr> 0 0xfee00020 (example_vie (one_byte_opcodes 0xA3) 0) small_paging (constant_device 0xab) (tab_state (\<lambda>_. 0))
     = dev_write (constant_device 0xab) 0xfee00020 y 4 (tab_state (\<lambda>_. 0)) \<and> take_bit 32 y = 0"
proof -
  let ?vie = "example_vie (one_byte_opcodes 0xA3) 0"
  have f: "store_form ?vie = Some (4, Some (VM_REG_GUEST_RAX, 0))" by (simp add: store_form_def example_vie_def vie_bzero_def opcode_fields)
  from stores_device [OF example_ok f, where val = 0] tab_reg(1) show ?thesis by fastforce
qed

theorem cmp_decides_witness:
  "\<exists>f s2. vmm_emulate_instruction tab_host \<lparr>sd_base = 0, sd_limit = 0, sd_access = 0\<rparr> 0 0xfee00020 (example_vie (one_byte_opcodes 0x3B) 0) small_paging (constant_device 0xffffffff) (tab_state (\<lambda>_. 0)) = Some (Done (), s2)
     \<and> with_reg tab_host 0 VM_REG_GUEST_RFLAGS f (tab_state (\<lambda>_. 0)) s2 \<and> bit f 0 \<and> \<not> bit f 6 \<and> bit f 7 = bit f 11"
proof -
  let ?vie = "example_vie (one_byte_opcodes 0x3B) 0"
  have f: "cmp_form ?vie = Some (4, True)" by (simp add: cmp_form_def example_vie_def vie_bzero_def)
  have m: "memread (constant_device 0xffffffff) 0xfee00020 4 (tab_state (\<lambda>_. 0)) = Some (Inr 0xffffffff, tab_state (\<lambda>_. 0))" by (simp add: constant_device_def)
  have r: "reg tab_host 0 (gpr_map ! unat (vie_reg ?vie)) (tab_state (\<lambda>_. 0)) = Inr 0" using tab_reg(1) by (simp add: example_vie_def vie_bzero_def gpr_map_def)
  have "vcpu_ok 0" by (simp add: vcpu_ok_def)
  from cmp_decides [OF tab_host_laws this example_ok f m r tab_reg(2), of "\<lparr>sd_base = 0, sd_limit = 0, sd_access = 0\<rparr>" small_paging] show ?thesis by (auto simp: compares_def signed_take_bit_numeral_bit1)
qed

text \<open>A push with a stack pointer that is not canonical.\<close>

theorem fault_before_device_witness:
  "\<exists>s'. vmm_emulate_instruction tab_host \<lparr>sd_base = 0, sd_limit = 0, sd_access = 0\<rparr> 0 0xfee00020 (example_vie (one_byte_opcodes 0xFF) 6)
       (small_paging\<lparr>pg_cpu_mode := CPU_MODE_64BIT\<rparr>) aborting_device (tab_state (\<lambda>f. if f = 0x681C then 0x8000000000000000 else 0)) = Some (Fault, s')"
proof -
  let ?s = "tab_state (\<lambda>f. if f = 0x681C then 0x8000000000000000 else 0)"
  let ?h = "((\<lambda>_ f. if f = 0x681C then 0x8000000000000000 else 0), (\<lambda>_ _. 0))"
  have "(0 :: int) \<le> 12" "(12 :: int) < 32" "(12 :: int) \<noteq> 8" by simp_all
  from vm_inject_fault_pending [OF small_ok(2) this, of "h_rd tab_host" "h_wr tab_host" True 0 ?h] obtain v' h' where
    "vm_inject_fault (h_rd tab_host) (h_wr tab_host) 0 12 True 0 small_vm ?h = Some (v', h')" by blast
  then have f: "raise (vm_inject_ss tab_host 0 0) ?s = Some (Fault :: u64 access, False, v', h', small_mem)"
    by (simp add: raise_def vm_inject_ss_def inject_def tab_state_def)
  have "vmm_emulate_instruction tab_host \<lparr>sd_base = 0, sd_limit = 0, sd_access = 0\<rparr> 0 0xfee00020 (example_vie (one_byte_opcodes 0xFF) 6)
       (small_paging\<lparr>pg_cpu_mode := CPU_MODE_64BIT\<rparr>) (constant_device 7) ?s = Some (Fault, False, v', h', small_mem)"
    using f by (simp add: vmm_emulate_instruction_def example_vie_def vie_bzero_def opcode_fields emulate_push_def emulate_stack_op_def stack_size_def small_paging_def
        ebind_def ret_def must_def need_def vie_read_register_def tab_state_def vm_get_register_def vmx_getreg_def vmcs_getreg_def
        stack_gla_def vie_calculate_gla_def is_data_segment_def size_ok_def size2mask_def vie_canonical_check_def Let_def)
  from fault_before_device [OF this] show ?thesis by blast
qed
subsection \<open>A failing device access ends the process\<close>

text \<open>Flat protected mode: a data segment of 4 GB at address 0, no paging.\<close>

definition flat_fields :: "u32 \<Rightarrow> u64" where
  "flat_fields f = (if f = 0x4806 then 0xffffffff else if f = 0x481A then 0xC093 else 0)"

definition flat_paging :: vm_guest_paging where
  "flat_paging = small_paging\<lparr>pg_paging_mode := PAGING_MODE_FLAT\<rparr>"

lemma flat_walk: "walk_restart v flat_paging gla prot m = Some (Gpa gla, m)"
  by (subst walk_restart.simps) (simp add: walk_pass_def vie_canonical_check_def flat_paging_def small_paging_def)

lemma flat_source:
  "get_gla tab_host 0 flat_paging 1 4 1 VM_REG_GUEST_DS VM_REG_GUEST_RSI (tab_state flat_fields) = Some (Done 0, tab_state flat_fields)"
  by (simp add: get_gla_def ebind_def must_def need_def ret_def vie_read_register_def tab_state_def vm_get_register_def vmx_getreg_def vmcs_getreg_def
      read_seg_desc_def vm_get_seg_desc_def is_segment_register_def vmcs_getdesc_def vie_calculate_gla_def is_data_segment_def size_ok_def size2mask_def
      flat_paging_def small_paging_def flat_fields_def SEG_DESC_TYPE_def SEG_DESC_UNUSABLE_def SEG_DESC_PRESENT_def low_limit_def high_limit_def
      vie_canonical_check_def vie_alignment_check_def Let_def)

lemma flat_setup: "\<exists>cs. copy_setup tab_host 0 flat_paging 0 1 1 (tab_state flat_fields) = Some (Done cs, tab_state flat_fields)
    \<and> (\<exists>val. copy_in cs 1 (tab_state flat_fields) = Some (Done val, tab_state flat_fields))"
proof -
  have hva: "vm_gpa2hva small_vm 0 1 = Some (7, 0)" by (simp add: vm_gpa2hva_def vm_get_memobj_def small_vm_def)
  let ?w = "(small_vm, ((\<lambda>_. flat_fields), (\<lambda>_ _. 0)), small_mem)"
  have one: "min (1 :: u64) 0x1000 = 1" by (simp add: min_def word_le_nat_alt)
  have none_left: "copy_split tab_host 0 flat_paging 1 n gla 0 ?w = Some (Done [], ?w)" for n gla by (subst copy_split.simps) simp
  have "copy_split tab_host 0 flat_paging 1 (Suc 1) 0 1 ?w = Some (Done [\<lparr>ci_gpa = 0, ci_len = 1, ci_hva = None\<rparr>], ?w)"
    by (subst copy_split.simps) (simp add: vm_gla2gpa_def flat_walk Let_def one none_left)
  then have "vm_copy_setup tab_host 0 flat_paging 0 1 1 (Suc 1) ?w = Some (Done ([\<lparr>ci_gpa = 0, ci_len = 1, ci_hva = Some (7, 0)\<rparr>] @ vm_copy_teardown 1), ?w)"
    using hva by (simp add: vm_copy_setup_def copy_hva_def)
  then show ?thesis by (simp add: copy_setup_def on_world_def tab_state_def copy_in_def numeral_2_eq_2 vm_copy_teardown_def)
qed

subsection \<open>Decoded instructions\<close>

text \<open>What the decoder guarantees is what the theorems on execution assume.\<close>

definition rex_ok :: "vie \<Rightarrow> bool" where
  "rex_ok v \<longleftrightarrow> (vie_rex_r v \<longrightarrow> vie_rex_present v) \<and> (vie_rex_present v \<or> unat (vie_reg v) < 8)"

lemma rex_ok_update [simp]:
  "rex_ok (vie_advance v) = rex_ok v" "rex_ok (sib_index (sib_base (sib_disp (sib_fields x v)))) = rex_ok v" "rex_ok (modrm_address m v) = rex_ok v"
  "rex_ok (note_sizes m d v) = rex_ok v"
  by (simp_all add: rex_ok_def vie_advance_def sib_index_def sib_base_def sib_disp_def sib_fields_def modrm_address_def note_sizes_def Let_def)

lemma rex_ok_prefix: "prefix_loop v = Some (x, v') \<Longrightarrow> rex_ok v \<Longrightarrow> rex_ok v'"
proof (induction v rule: prefix_loop.induct)
  case (1 v)
  show ?case
  proof (cases "vie_peek v")
    case None
    then show ?thesis using 1(2) by (subst (asm) prefix_loop.simps) simp
  next
    case (Some y)
    show ?thesis
    proof (cases "note_prefix y v")
      case None
      then show ?thesis using 1(2,3) Some by (subst (asm) prefix_loop.simps) simp
    next
      case n: (Some w)
      have "rex_ok w" using n 1(3) by (auto simp: note_prefix_def rex_ok_def split: if_splits)
      moreover have "prefix_loop (vie_advance w) = Some (x, v')" using 1(2) Some n by (subst (asm) prefix_loop.simps) simp
      ultimately show ?thesis using 1(1) [OF Some n] by simp
    qed
  qed
qed

lemma rex_ok_fetch: "fetch_bytes n v = Some (xs, v') \<Longrightarrow> rex_ok v' = rex_ok v"
  by (induction n arbitrary: v xs) (fastforce simp: Option.bind_eq_Some_conv)+

lemma rex_ok_steps:
  "decode_prefixes m d v = Some v' \<Longrightarrow> rex_ok v \<Longrightarrow> rex_ok v'"
  "decode_opcode v = Some v' \<Longrightarrow> rex_ok v \<Longrightarrow> rex_ok v'"
  "decode_modrm m v = Some v' \<Longrightarrow> rex_ok v \<Longrightarrow> rex_ok v'"
  "decode_sib v = Some v' \<Longrightarrow> rex_ok v \<Longrightarrow> rex_ok v'"
  "decode_displacement v = Some (Some v') \<Longrightarrow> rex_ok v \<Longrightarrow> rex_ok v'"
  "decode_immediate v = Some (Some v') \<Longrightarrow> rex_ok v \<Longrightarrow> rex_ok v'"
  "decode_moffset v = Some (Some v') \<Longrightarrow> rex_ok v \<Longrightarrow> rex_ok v'"
proof -
  show "decode_prefixes m d v = Some v' \<Longrightarrow> rex_ok v \<Longrightarrow> rex_ok v'"
    using rex_ok_prefix [of v] by (auto simp: decode_prefixes_def note_rex_def) (simp add: rex_ok_def)
  have the_op: "rex_ok (w\<lparr>vie_the_op := x\<rparr>) = rex_ok w" for w x by (simp add: rex_ok_def)
  show "decode_opcode v = Some v' \<Longrightarrow> rex_ok v \<Longrightarrow> rex_ok v'"
    by (auto simp: decode_opcode_def decode_two_byte_opcode_def Option.bind_eq_Some_conv Let_def the_op split: if_splits)
  have low: "unat (drop_bit 3 x AND 7 OR rex_bit False) < 8" for x :: u8
  proof -
    have "drop_bit 3 x AND 7 = take_bit 3 (drop_bit 3 x)" by (simp add: take_bit_eq_mask mask_eq_exp_minus_1)
    moreover have "unat (take_bit 3 (drop_bit 3 x)) = take_bit 3 (unat (drop_bit 3 x))" by (rule unsigned_take_bit_eq)
    ultimately show ?thesis using take_bit_nat_less_exp [of 3 "unat (drop_bit 3 x)"] by (simp add: rex_bit_def)
  qed
  then show "decode_modrm m v = Some v' \<Longrightarrow> rex_ok v \<Longrightarrow> rex_ok v'"
    by (auto simp: decode_modrm_def Option.bind_eq_Some_conv Let_def split: if_splits) (auto simp: rex_ok_def)
  show "decode_sib v = Some v' \<Longrightarrow> rex_ok v \<Longrightarrow> rex_ok v'"
    by (auto simp: decode_sib_def split: if_splits)
  have fields: "rex_ok (w\<lparr>vie_displacement := y\<rparr>) = rex_ok w" "rex_ok (w\<lparr>vie_immediate := y\<rparr>) = rex_ok w" "rex_ok (w\<lparr>vie_imm_bytes := n\<rparr>) = rex_ok w" for w y n
    by (simp_all add: rex_ok_def)
  show "decode_displacement v = Some (Some v') \<Longrightarrow> rex_ok v \<Longrightarrow> rex_ok v'"
    by (auto simp: decode_displacement_def Let_def fields rex_ok_fetch simp del: fetch_bytes.simps split: if_splits)
  show "decode_immediate v = Some (Some v') \<Longrightarrow> rex_ok v \<Longrightarrow> rex_ok v'"
    by (auto simp: decode_immediate_def Let_def fields rex_ok_fetch simp del: fetch_bytes.simps split: if_splits)
  show "decode_moffset v = Some (Some v') \<Longrightarrow> rex_ok v \<Longrightarrow> rex_ok v'"
    by (auto simp: decode_moffset_def fields rex_ok_fetch simp del: fetch_bytes.simps split: if_splits)
qed

lemma decoded_operands_ok:
  assumes "vie_init bytes = Some v" and d: "vmm_decode_instruction getreg gla cpu_mode cs_d v = Some (Some v')"
  shows "operands_ok v'"
proof -
  have t: "vie_decoded v'" "vie_core v'" "sizes_ok cpu_mode v'" using decode_typed [OF assms(1), of getreg gla cpu_mode cs_d] d by auto
  have "rex_ok v" using assms(1) by (auto simp: vie_init_def rex_ok_def vie_bzero_def split: if_splits)
  then have "rex_ok v'" using d unfolding vmm_decode_instruction_def andthen_def
    by (auto dest!: rex_ok_steps split: option.splits if_splits) (simp_all add: rex_ok_def)
  then show ?thesis using t by (auto simp: operands_ok_def rex_ok_def vie_core_def sizes_ok_def)
qed

end
