(* ===== verification/Spec2Isabelle.thy ===== *)
theory Spec2Isabelle
  imports Machine Vm_Events Vm_Memory Vie_Asm Vie_Emul
begin

text \<open>
  The kernel side of the hypervisor in \<open>src/\<close> (xhyve with its manager): the emulated local
  APICs, the I/O APIC, the two 8259 controllers, the 8254, HPET and ACPI timers, the real-time clock, the dispatch of port accesses, the injection of events into a vcpu,
  and the callout service that drives the timers, composed as in the program and verified as one machine; beside it guest memory, the walk of the
  guest page tables, the registers of a vcpu, and the fetching, decoding and execution of the instructions with which a guest reaches memory-mapped devices.

  \<^bold>\<open>The program.\<close> \<open>src/xhyve.c\<close> runs a virtual machine: one host thread per vcpu
  enters the guest through \<open>src/vmm/vmm.c\<close> and \<open>src/vmm/intel/vmx.c\<close>, device models raise lines or send
  messages, and the guest reaches the interrupt devices by memory accesses, port accesses and model
  specific registers. A line of a device goes to the 8259 pair (\<open>src/vmm/io/vatpic.c\<close>) and the I/O APIC
  (\<open>src/vmm/io/vioapic.c\<close>); these send interrupts to local APICs (\<open>src/vmm/io/vlapic.c\<close>, entered through
  \<open>src/vmm/vmm_lapic.c\<close>); before a guest entry \<open>vmx_inject_interrupts\<close> asks the local APIC, or the
  8259 pair when an ExtINT is pending, for a vector, after it has taken a pending exception or NMI. Ending an interrupt in the local APIC comes back
  to the I/O APIC. The local APIC timer, the 8254 (\<open>src/vmm/io/vatpit.c\<close>), the HPET (\<open>src/vmm/io/vhpet.c\<close>) and the real-time clock
  (\<open>src/vmm/io/vrtc.c\<close>) arm callouts. When the guest touches a memory-mapped device, \<open>vm_handle_inst_emul\<close> (\<open>vmm.c\<close>) fetches the instruction through the guest's page tables, decodes it and
  executes it on the device (\<open>src/vmm/vmm_instruction_emul.c\<close>), reading and writing the registers of the vcpu (\<open>vmx.c\<close>, \<open>vmcs.c\<close>). One service thread (\<open>src/vmm/vmm_callout.c\<close>) keeps them in a queue ordered by expiry and runs their handlers.

  \<^bold>\<open>Theories.\<close>
  \<^item> \<open>Prelude\<close>: word types, generic lemmas on options, folds, lists and words.
  \<^item> \<open>Cpuset\<close> (\<open>include/xhyve/support/bitset.h\<close>): processor sets and the loop that visits their members.
  \<^item> \<open>Bintime\<close> (\<open>vmm_callout.h\<close>, \<open>vmm_callout.c\<close>): 64.64 fixed-point times and clock conversions.
  \<^item> \<open>Callout\<close> (\<open>vmm_callout.c\<close>): the linked queue on a store of callouts, arming, stopping, draining, and
    the service thread with its program counter; the locale \<open>timer_service\<close> is what devices rely on.
  \<^item> \<open>Vm_Types\<close>: the records of all devices, vcpus and the machine, field by field.
  \<^item> \<open>Vlapic\<close>, \<open>Vlapic_Isr\<close>: one local APIC by itself (\<open>vlapic.c\<close>): local vector table, mode, divisor and
    current count, priorities, acceptance, end of interrupt; the invariant \<open>isr_inv\<close>.
  \<^item> \<open>Vlapic_Deliver\<close> (\<open>vlapic.c\<close>, \<open>vmm_lapic.c\<close>, \<open>vmm.c\<close>): destinations, messages, local sources, NMI, ExtINT.
  \<^item> \<open>Vioapic\<close>, \<open>Vatpic\<close>, \<open>Vatpit\<close>: the three devices, one theory each.
  \<^item> \<open>Vhpet\<close> (\<open>vhpet.c\<close>): the event timer block, its register interface and its timers.
  \<^item> \<open>Calendar\<close>, \<open>Vrtc\<close> (\<open>vrtc.c\<close>): the calendar conversions against a clock that ticks second by second, and the
    real-time clock: date registers in all formats, alarm, update and periodic interrupts, NVRAM, its two ports.
  \<^item> \<open>Vpmtmr\<close> (\<open>vpmtmr.c\<close>): the ACPI timer.
  \<^item> \<open>Vm_Ioport\<close> (\<open>vmm_ioport.c\<close>): the table of port handlers and the handling of a port access.
  \<^item> \<open>Vm_Memory\<close> (\<open>vmm.c\<close>, \<open>vmm_mem.c\<close>): memory segments and the translation of guest physical addresses.
  \<^item> \<open>Vie_Addr\<close>, \<open>Vie_Decode\<close> (\<open>vmm_instruction_emul.c\<close>): segmented addresses, and the instruction decoder.
  \<^item> \<open>Vie_Asm\<close>: an assembler written from the encoding rules, the reference for the decoder.
  \<^item> \<open>Vm_Walk\<close> (\<open>vm_gla2gpa\<close> of \<open>vmm_instruction_emul.c\<close>): the page walk on the bytes of guest memory, and the translation of the architecture as a pure
    function on the page tables.
  \<^item> \<open>Vmx_Regs\<close> (\<open>vmx.c\<close>, \<open>vmcs.c\<close>, \<open>vmm.c\<close>): registers and segment descriptors of a vcpu on the fields of its VMCS, and the description of an
    instruction to emulate.
  \<^item> \<open>Vm_Copy\<close> (\<open>vmm.c\<close>, \<open>vmm_instruction_emul.c\<close>): fault injection by the walk, copying of guest memory by linear address, instruction fetch.
  \<^item> \<open>Vie_Emul\<close> (\<open>vmm_instruction_emul.c\<close>, \<open>vm_handle_inst_emul\<close> of \<open>vmm.c\<close>): the execution of every instruction of the decoder's tables and the handler of the VM exit.
  \<^item> \<open>Vlapic_Mmio\<close>: guest accesses to a local APIC, inter-processor interrupts, its timer.
  \<^item> \<open>Vm_Inv\<close>: the invariant \<open>vm_inv\<close> of the machine, kept by every operation.
  \<^item> \<open>Machine\<close>: creation, injection, and the events of the machine as a step relation.
  \<^item> \<open>Vm_Events\<close> (\<open>vmm.c\<close>, \<open>vmx.c\<close>): exceptions, events interrupted by a VM exit, nested faults, and the whole of
    \<open>vmx_inject_interrupts\<close> on the VMCS of a vcpu.
  \<^item> \<open>Spec2Isabelle\<close>: the properties of every reachable state.

  \<^bold>\<open>Conventions.\<close> A \<open>struct\<close> is a record, an enumeration a datatype, \<open>uintN_t\<close> a word of that width, and
  arithmetic on it wraps; \<open>sbintime_t\<close> is a 64-bit word read as signed where the code divides it. Arrays are functions
  on \<^typ>\<open>nat\<close>; pins and vcpu numbers are natural numbers, or integers where the code tests their sign. An
  operation takes the state and returns the new one, with \<^const>\<open>None\<close> for each way the process dies or the
  C program has no meaning: \<open>xhyve_abort\<close>, \<open>abort\<close>, a failed \<open>KASSERT\<close> (assertions are compiled in by
  \<open>config.mk\<close>), a shift by the word length or more, and, in the places where a loop might not end, running forever; an assertion that the
  only caller has just tested is left out. Error codes are values. Locks, trace
  output and statistics are left out: every operation of a device holds its lock, so operations are atomic steps,
  except in the callout service, where the lock is released and the program counter says so. The host
  clock is an argument (\<open>mat\<close>, with the timebase in the state) that does not move within an operation; of
  its course between operations only this is assumed, for the HPET (\<open>hpet_clock\<close>) and the real-time clock (\<open>rtc_clock\<close>): it does
  not run back behind the moment at which a running counter was started, which is what the code asserts. The calendar clock of the
  host, which the real-time clock reads, is a second argument (\<open>wall\<close>, seconds as \<open>mach_timespec_t\<close> has them), and of its course nothing is assumed. The VMCS belongs to the hypervisor framework of the host: reading and writing
  a field are parameters (\<open>rd\<close>, \<open>wr\<close>), with the hypothesis \<open>vmcs_laws\<close> that a field reads as last written and other fields
  keep their value. For the registers the framework is the record \<open>host\<close> with the hypothesis \<open>host_laws\<close>: the same law, at the width of each field.
  The contents of guest memory are a function \<open>hmem\<close> from host objects and offsets to bytes; no other vcpu writes guest memory within an operation. Executing an instruction is a
  function on machine, framework state and memory that ends with a value, with a fault injected into the guest, or with an error code; the device it accesses is a pair of functions
  (\<open>memread\<close>, \<open>memwrite\<close>), instantiated by the three devices. Assertion counts of pins are unbounded integers. The rendezvous of \<open>vioapic_write\<close> is
  its completed effect. \<open>vlapic->ops\<close> is \<open>NULL\<close> throughout this program, so its hooks do not appear.

  \<^bold>\<open>Termination and fuel.\<close> No definition has fuel. Five loops that are not structural are \<open>partial_function\<close>s, so
  that running forever is \<^const>\<open>None\<close>: the scan of \<open>callout_insert\<close> over the links of the store, proved to return on every
  well-formed queue; \<open>vatpic_notify_intr\<close>, which calls itself through pin 2 of the master, proved to return in every state; the page count of \<open>vm_malloc\<close>, proved to
  return when the range does not run over the end of the address space; the restarts of the page walk, proved to return after at most one restart for page tables below \<open>2^52\<close>; and the walk of
  \<open>vrtc_time_update\<close> over the seconds since the last update, proved to return when time moves forward, and not to return in the
  case of \<open>rtc_century_hang\<close>. The loops of the calendar, of \<open>cpu_foreach\<close> and over the prefixes of an instruction are total functions with a measure.

  \<^bold>\<open>What is shown.\<close> The safety of the whole machine (\<open>machine_never_aborts\<close>): in every state reachable by any
  interleaving of events, the next event that its callers can produce is answered without reaching an abort
  or a failing assertion. It rests on \<open>vm_inv\<close>: stacks of vectors in service agree with the ISR and
  increase in priority class (\<open>reachable_priority_order\<close>), no asserted level-triggered pin is without
  a pending end of interrupt (\<open>level_interrupt_never_lost\<close>), and the callout queue is a well-formed list in
  order of expiry (\<open>callout_queue_well_formed\<close>), a stopped HPET has no active timer, and the real-time clock keeps an index within its registers and a callout
  that is active exactly when it has a frequency. On the way into the guest,
  exceptions combine as the architecture says (\<open>exception_reaches_guest\<close>) and nothing pending is dropped (\<open>injection_loses_nothing\<close>). The functional theorems give each device's behaviour against
  an independent description: which vector is offered, which processors a message reaches, what end of
  interrupt does to the redirection table, which pin an 8259 signals, what a counter shows, when a timer is
  armed. Refinement theorems relate the linked callout queue to an ordered list, the start-up messages to
  the automaton of the architecture, and the calendar conversion to a clock that ticks. The decoder is total and its results are well-typed
  (\<open>decode_well_typed\<close>), and it inverts the reference assembler (\<open>decode_assembled\<close>); guest memory stays a set of disjoint
  segments (\<open>malloc_keeps_disjoint\<close>) in which an address has one home (\<open>gpa2hva_faithful\<close>). The page walk refines
  the translation of the architecture, faults and accessed and dirty bits included (\<open>gla2gpa_translates\<close>); copying by linear address, and with it the instruction fetch, reads and writes exactly the bytes that the
  translation names (\<open>copyin_reads\<close>, \<open>copyout_writes\<close>, \<open>fetch_reads_instruction\<close>); registers are independent variables (\<open>register_file\<close>). Of the execution it is shown what loads, stores and
  comparisons do (\<open>loads_register\<close>, \<open>stores_device\<close>, \<open>cmp_decides\<close>), and that no instruction touches a device before a fault (\<open>fault_before_device\<close>). The theorems of kind error show inputs on which the code fails:
  the admissible events of the machine leave exactly those out.

  \<^bold>\<open>Not modelled.\<close> The vcpu run loop and the exit handlers of the VMX back end; PCI, storage, network and console devices; firmware tables
  and loaders; the manager program. These are host I/O or hardware interfaces around the machine.
  Of the machine's events the injection is the choice and acceptance of a hardware interrupt, with the tests on the VMCS as
  one flag; the full function with exceptions and NMIs is treated for any state of the invariant in \<open>Vm_Events\<close>.
\<close>

subsection \<open>Properties of the machine as a whole\<close>



text \<open>
  C3. In every reachable state, on every local APIC, the in-service register and the stack beside it hold the same vectors, in
  strictly increasing priority class, at most fifteen of them, so the stack cannot overflow; and the
  processor priority is the higher of the task priority and the class of the top vector.
\<close>

theorem reachable_priority_order:
  fixes v :: vm and i :: nat
  assumes "vm_reachable tb (v, pc)"
  defines "l \<equiv> vm_lapic v i"
  shows "map unat (stk_vectors l) = filter (vec_bit (la_isr (vl_page l))) [0..<256]
     \<and> sorted_wrt (\<lambda>x y. x div 16 < y div 16) (map unat (stk_vectors l)) \<and> vl_isrvec_stk_top l \<le> 15
     \<and> unat (PRIO (la_ppr (vl_page l))) = max (unat (PRIO (la_tpr (vl_page l)))) (top_vector l div 16)"
proof -
  have "isr_inv l" using vm_reachable_inv [OF assms(1)] by (simp add: vm_inv_def l_def)
  then show ?thesis
    using isr_stack_bound [of l] by (auto simp: isr_inv_def isr_stack_ok_def ppr_ok_def in_service_def vectors_of_def)
qed

theorem reachable_priority_order_witness:
  "\<exists>v. vm_init \<lparr>tb_numer = 1, tb_denom = 1\<rparr> 0 0 = Some v \<and> vl_isrvec_stk_top (vm_lapic v 5) \<le> 15"
proof -
  obtain v where v: "vm_init \<lparr>tb_numer = 1, tb_denom = 1\<rparr> 0 0 = Some v" using vm_init_ok by blast
  show ?thesis using reachable_priority_order [OF vm_start [OF v], of 5] v by blast
qed

text \<open>
  C2. No level-triggered interrupt is lost: in every reachable state, each unmasked level-triggered pin whose line is asserted
  has remote IRR set, that is, its interrupt has been sent and its end of interrupt is still to come.
\<close>

theorem level_interrupt_never_lost:
  assumes "vm_reachable tb (v, pc)" and "pin < REDIR_ENTRIES" and "\<not> bit (vm_reg v pin) 16" and "bit (vm_reg v pin) 15"
    and "vm_acnt v pin > 0"
  shows "bit (vm_reg v pin) 14"
  using vm_reachable_inv [OF assms(1)] assms(2-) by (simp add: vm_inv_def level_ok_def pin_served_def)

theorem level_interrupt_never_lost_witness:
  "\<exists>v. vm_reachable \<lparr>tb_numer = 1, tb_denom = 1\<rparr> (v, AtTop) \<and> vm_reg v 4 AND 0xff = 0x31 \<and> vm_acnt v 4 = 1
     \<and> bit (vm_reg v 4) 14"
proof -
  let ?tb = "\<lparr>tb_numer = 1, tb_denom = 1\<rparr> :: timebase"
  obtain v0 where v0: "vm_init ?tb 0 0 = Some v0" "vm_vioapic v0 = vioapic_init" using vm_init_ok vm_init_vioapic by blast
  let ?v1 = "upd_vioapic (\<lambda>io. io\<lparr>io_ioregsel := 0x18\<rparr>) v0"
  have adm: "admissible t (IoapicMmioWrite g x n) (v, AtTop)" "admissible t (IoapicIrq q st) (v, AtTop)" for t g x n q st v
    by simp_all
  have "vm_exec 0 (IoapicMmioWrite 0xFEC00000 0x18 4) (v0, AtTop) = Some (?v1, AtTop)"
    by (simp add: vioapic_mmio_write_def vioapic_mmio_rw_def)
  then have r1: "vm_reachable ?tb (?v1, AtTop)" by (rule vm_step [OF vm_start [OF v0(1)] adm(1)])
  have m: "rtbl_merge 0 0x8031 0x0001000000010000 = 0x0001000000008031" by code_simp
  obtain v2 where v2: "vm_vioapic v2 = vm_vioapic (set_reg 4 (\<lambda>_. 0x0001000000008031) ?v1)"
    "vioapic_write 0x18 0x8031 ?v1 = Some v2"
  proof (rule vioapic_write_redir [of "0x18" ?v1 "0x8031"])
    fix v3 assume a: "addressing_eq (set_reg ((unat (0x18 AND 0xff :: u32) - 16) div 2) (rtbl_merge
        (if (unat (0x18 AND 0xff :: u32) - 16) mod 2 \<noteq> 0 then 32 else 0) 0x8031) ?v1) v3"
      and w: "vioapic_write 0x18 0x8031 ?v1 = (if vm_reg v3 ((unat (0x18 AND 0xff :: u32) - 16) div 2) AND IOART_INTMASK = 0
        \<and> vm_reg v3 ((unat (0x18 AND 0xff :: u32) - 16) div 2) AND IOART_REM_IRR = 0
        \<and> vm_acnt v3 ((unat (0x18 AND 0xff :: u32) - 16) div 2) > 0
        then vioapic_send_intr ((unat (0x18 AND 0xff :: u32) - 16) div 2) v3 else Some v3)"
    have io: "vm_vioapic v3 = vm_vioapic (set_reg 4 (\<lambda>_. 0x0001000000008031) ?v1)"
      using a v0(2) m by (simp add: addressing_eq_def vioapic_init_def)
    then have "vioapic_write 0x18 0x8031 ?v1 = Some v3" using w v0(2) by (simp add: vioapic_init_def)
    with io show thesis by (rule that)
  qed simp_all
  have "vm_exec 0 (IoapicMmioWrite 0xFEC00010 0x8031 4) (?v1, AtTop) = Some (v2, AtTop)"
    using v2(2) by (simp add: vioapic_mmio_write_def vioapic_mmio_rw_def)
  then have r2: "vm_reachable ?tb (v2, AtTop)" by (rule vm_step [OF r1 adm(1)])
  let ?v3 = "set_acnt 4 (\<lambda>n. n + 1) v2"
  obtain v4 where v4: "vioapic_send_intr 4 ?v3 = Some v4" "vm_vioapic v4 = (vm_vioapic ?v3)\<lparr>io_reg := (io_reg (vm_vioapic ?v3))(4 :=
       (if \<not> bit (vm_reg ?v3 4) 16 \<and> bit (vm_reg ?v3 4) 15 then vm_reg ?v3 4 OR IOART_REM_IRR else vm_reg ?v3 4))\<rparr>"
    by (rule send_intr_spec [of 4 ?v3]) blast
  have "vm_exec 0 (IoapicIrq 4 IRQSTATE_ASSERT) (v2, AtTop) = Some (v4, AtTop)"
    using v4(1) v2(1) v0(2) by (simp add: vioapic_set_irqstate_def vioapic_set_pinstate_def vioapic_init_def Let_def)
  then have r4: "vm_reachable ?tb (v4, AtTop)" by (rule vm_step [OF r2 adm(2)])
  have "vm_reg v4 4 AND 0xff = 0x31" "vm_acnt v4 4 = 1" "\<not> bit (vm_reg v4 4) 16" "bit (vm_reg v4 4) 15"
    using v4(2) v2(1) v0(2) by (simp_all add: vioapic_init_def)
  then show ?thesis using r4 level_interrupt_never_lost [OF r4, of 4] by auto
qed

text \<open>
  C28. Whatever vector is chosen for injection into a vcpu is one the processor accepts: 16 to 255 from
  the local APIC, 0 to 255 from the legacy controllers. So the assertions of the injection code hold,
  in every reachable state, and injection always answers.
\<close>

theorem injected_vector_legal:
  assumes "vm_reachable tb (v, pc)" and "i < VM_MAXCPU"
  shows "\<exists>v' vector. inject_hwintr can_inject i v = Some (v', vector)
     \<and> (\<forall>n. vector = Some n \<longrightarrow> 0 \<le> n \<and> n \<le> 255 \<and> (\<not> vc_extint_pending (vm_vcpu v i) \<longrightarrow> 16 \<le> n))"
proof -
  have inv: "vm_inv (running pc) v" using vm_reachable_inv [OF assms(1)] .
  have "answers (running pc) (inject_hwintr can_inject i v)" by (rule inject_hwintr_ok [OF inv assms(2)])
  then obtain v' vector where e: "inject_hwintr can_inject i v = Some (v', vector)"
    by (cases "inject_hwintr can_inject i v") auto
  moreover have "0 \<le> n \<and> n \<le> 255 \<and> (\<not> vc_extint_pending (vm_vcpu v i) \<longrightarrow> 16 \<le> n)" if "vector = Some n" for n
    using e that assms(2)
    by (auto simp: inject_hwintr_def vm_extint_pending_def Let_def split: option.splits if_splits Option.bind_splits)
  ultimately show ?thesis by blast
qed

theorem injected_vector_legal_witness:
  "\<exists>v v' vector. vm_init \<lparr>tb_numer = 1, tb_denom = 1\<rparr> 0 0 = Some v \<and> inject_hwintr True 0 v = Some (v', vector)
     \<and> (\<forall>n. vector = Some n \<longrightarrow> n \<le> 255)"
proof -
  obtain v where v: "vm_init \<lparr>tb_numer = 1, tb_denom = 1\<rparr> 0 0 = Some v" using vm_init_ok by blast
  show ?thesis using injected_vector_legal [OF vm_start [OF v], of 0 True] v by auto
qed

end
